(* ===== verification/Tori_Prelude.thy ===== *)
theory Tori_Prelude
  imports Main "HOL-Library.Word" "HOL-Library.Finite_Map"
begin

text \<open>
  Shared vocabulary of the development.

  \<^item> \<open>'a arg\<close> is a dynamically typed argument: \<open>Inst x\<close> is an instance of the class the
    parameter is annotated with, \<open>Foreign\<close> is any other object. The \<open>isinstance\<close> guards of the
    source are the case distinctions on it. Python's \<open>bool\<close> is a subclass of \<open>int\<close> that every
    integer guard of the source refuses, so a \<open>bool\<close> passed for an integer is \<open>Foreign\<close> too.
  \<^item> A raise is the left injection of a sum; an operation that also changes state returns the
    outcome together with the state it leaves behind, because a Python object keeps the writes
    made before the raise.
  \<^item> Text is \<open>string\<close>, read as a sequence of code points below 256 (Latin-1). On that range the
    functions below are Python's \<open>str.strip\<close>, \<open>str.isprintable\<close> and the length of
    \<open>str.encode("utf-8")\<close>; lone surrogates, which make \<open>encode\<close> raise, are outside it.
  \<^item> A \<open>dict\<close> whose order is not observable is a map or a finite map.
\<close>

datatype 'a arg = Inst 'a | Foreign

type_synonym uuid = nat
type_synonym byte_string = "8 word list"
type_synonym headers = "(string, string) fmap"

text \<open>A \<open>datetime\<close>: timezone-aware values are compared by their instant (microseconds, UTC).\<close>

datatype datetime = Aware int | Naive int

named_theorems op_defs \<open>definitions of the operations of a component\<close>
named_theorems inv_defs \<open>definitions of invariants\<close>
named_theorems py_defs \<open>definitions of the Python primitives and argument guards\<close>

section \<open>Python text\<close>

definition code_point :: "char \<Rightarrow> nat" where
  "code_point c = (of_char c :: nat)"

definition py_isspace :: "char \<Rightarrow> bool" where
  [py_defs]: "py_isspace c \<longleftrightarrow>
     (let n = code_point c in (9 \<le> n \<and> n \<le> 13) \<or> (28 \<le> n \<and> n \<le> 32) \<or> n = 133 \<or> n = 160)"

definition py_strip :: "string \<Rightarrow> string" where
  [py_defs]: "py_strip s = rev (dropWhile py_isspace (rev (dropWhile py_isspace s)))"

definition py_isprintable :: "string \<Rightarrow> bool" where
  [py_defs]: "py_isprintable s \<longleftrightarrow>
     list_all (\<lambda>c. let n = code_point c in 32 \<le> n \<and> \<not> (127 \<le> n \<and> n \<le> 160) \<and> n \<noteq> 173) s"

definition utf8_len :: "string \<Rightarrow> int" where
  [py_defs]: "utf8_len s = sum_list (map (\<lambda>c. if code_point c < 128 then 1 else 2) s)"

lemma utf8_len_nonneg [simp]: "0 \<le> utf8_len s"
  by (auto simp: utf8_len_def intro!: sum_list_nonneg)

lemma utf8_len_Nil [simp]: "utf8_len [] = 0"
  by (simp add: utf8_len_def)

section \<open>Python slices\<close>

text \<open>\<open>xs[a : a + n]\<close> for non-negative \<open>a\<close> and \<open>n\<close>.\<close>

definition py_slice :: "'a list \<Rightarrow> int \<Rightarrow> int \<Rightarrow> 'a list" where
  [py_defs]: "py_slice xs a n = take (nat n) (drop (nat a) xs)"

lemma set_py_slice_subset: "set (py_slice xs a n) \<subseteq> set xs"
  by (auto simp: py_slice_def dest: in_set_takeD in_set_dropD)

lemma length_py_slice_le: "0 \<le> n \<Longrightarrow> int (length (py_slice xs a n)) \<le> n"
  by (simp add: py_slice_def)

lemma py_slice_Nil_iff:
  "0 < n \<Longrightarrow> py_slice xs a n = [] \<longleftrightarrow> length xs \<le> nat a"
  by (auto simp: py_slice_def)

lemma py_slice_append_drop:
  "0 \<le> a \<Longrightarrow> py_slice xs a n @ drop (nat a + length (py_slice xs a n)) xs = drop (nat a) xs"
proof -
  assume "0 \<le> a"
  let ?ys = "drop (nat a) xs"
  have "take (nat n) ?ys @ drop (length (take (nat n) ?ys)) ?ys = ?ys"
    by (metis append_take_drop_id drop_all length_take linorder_linear min.absorb1 min.absorb2)
  then show ?thesis
    by (simp add: py_slice_def add.commute)
qed

section \<open>Association of a key with a growing tuple\<close>

definition get_list :: "('k \<rightharpoonup> 'v list) \<Rightarrow> 'k \<Rightarrow> 'v list" where
  "get_list m k = (case m k of None \<Rightarrow> [] | Some vs \<Rightarrow> vs)"

lemma get_list_simps [simp]:
  "m k = None \<Longrightarrow> get_list m k = []"
  "m k = Some vs \<Longrightarrow> get_list m k = vs"
  "get_list Map.empty k = []"
  "get_list (m(k \<mapsto> vs)) k' = (if k' = k then vs else get_list m k')"
  by (auto simp: get_list_def)

section \<open>Outcomes\<close>

fun outcome_ok :: "('e + 'a) \<Rightarrow> bool" where
  "outcome_ok (Inl _) = False"
| "outcome_ok (Inr _) = True"

lemma outcome_ok_iff: "outcome_ok r \<longleftrightarrow> (\<exists>x. r = Inr x)"
  by (cases r) auto

section \<open>Contiguous numbering\<close>

definition numbered_from :: "int \<Rightarrow> int list \<Rightarrow> bool" where
  [inv_defs]: "numbered_from a ns \<longleftrightarrow> ns = map (\<lambda>i. a + int i) [0..<length ns]"

lemma numbered_from_Nil [simp]: "numbered_from a []"
  by (simp add: numbered_from_def)

lemma numbered_from_Cons [simp]:
  "numbered_from a (n # ns) \<longleftrightarrow> n = a \<and> numbered_from (a + 1) ns"
proof -
  have "map (\<lambda>i. a + int i) [0..<Suc (length ns)] = a # map (\<lambda>i. (a + 1) + int i) [0..<length ns]"
    by (simp only: upt_conv_Cons map_Suc_upt [symmetric]) (simp add: map_upt_Suc del: upt_Suc)
  then show ?thesis
    by (simp add: numbered_from_def del: upt_Suc)
qed

lemma numbered_from_append [simp]:
  "numbered_from a (ms @ ns) \<longleftrightarrow> numbered_from a ms \<and> numbered_from (a + int (length ms)) ns"
  by (induction ms arbitrary: a) (auto simp: algebra_simps)

lemma numbered_from_nth: "numbered_from a ns \<Longrightarrow> i < length ns \<Longrightarrow> ns ! i = a + int i"
  by (induction ns arbitrary: a i) (auto simp: nth_Cons split: nat.splits)

lemma numbered_from_last: "numbered_from a ns \<Longrightarrow> ns \<noteq> [] \<Longrightarrow> last ns = a + int (length ns) - 1"
  by (induction ns arbitrary: a) auto

lemma numbered_from_take: "numbered_from a ns \<Longrightarrow> numbered_from a (take k ns)"
  using numbered_from_append [of a "take k ns" "drop k ns"] by simp

lemma numbered_from_drop:
  "numbered_from a ns \<Longrightarrow> k \<le> length ns \<Longrightarrow> numbered_from (a + int k) (drop k ns)"
  using numbered_from_append [of a "take k ns" "drop k ns"] by simp

lemma numbered_from_distinct: "numbered_from a ns \<Longrightarrow> distinct ns"
  using numbered_from_nth [of a ns] by (auto simp: distinct_conv_nth)

section \<open>Distinct keys\<close>

lemma distinct_map_other: "distinct (map f (x # xs)) \<Longrightarrow> y \<in> set xs \<Longrightarrow> f y \<noteq> f x"
  by (auto simp: image_iff)

section \<open>Searches\<close>

lemma find_SomeD: "find P xs = Some x \<Longrightarrow> x \<in> set xs \<and> P x"
  by (auto simp: find_Some_iff)

end
