(* ===== verification/ES_Events.thy ===== *)
theory ES_Events
  imports Tori_Prelude
begin

text \<open>
  Event occurrence and stream value objects of the event-sourcing core
  (\<open>events.py\<close>) and its typed failures (\<open>errors.py\<close>).

  Each dataclass is a record; its \<open>__post_init__\<close> is a constructor function \<open>mk_...\<close> from
  dynamically typed arguments to the validated record or the error raised. An error is its
  class with the attributes that class stores; message texts are left out.
  A domain event is application code: here it is the name of its class and an opaque body.
\<close>

record stream_id =
  sid_category :: string
  sid_key :: string

record event_metadata =
  md_event_id :: uuid
  md_occurred_at :: datetime
  md_correlation_id :: "uuid option"
  md_causation_id :: "uuid option"
  md_headers :: headers

text \<open>\<open>Event\<close> is the abstract base class of the CQRS core; a concrete event has another class.\<close>

record 'p event =
  ev_class :: string
  ev_body :: 'p

record 'p pending_event =
  pe_event :: "'p event"
  pe_metadata :: event_metadata

record 'p recorded_event =
  re_stream_id :: stream_id
  re_stream_version :: int
  re_global_position :: int
  re_event_type :: string
  re_schema_version :: int
  re_event :: "'p event"
  re_metadata :: event_metadata

record encoded_event =
  ee_event_type :: string
  ee_schema_version :: int
  ee_payload :: byte_string

record append_event =
  ae_encoded :: encoded_event
  ae_metadata :: event_metadata

record stored_event =
  se_stream_id :: stream_id
  se_stream_version :: int
  se_global_position :: int
  se_event :: append_event

record commit_result =
  cr_events :: "stored_event list"

section \<open>Typed failures\<close>

text \<open>
  The last four constructors are exceptions of other code: \<open>CancelledError\<close> and
  \<open>ControlExit\<close> (\<open>KeyboardInterrupt\<close>, \<open>SystemExit\<close>) are not subclasses of \<open>Exception\<close>,
  \<open>TypeError\<close> is Python's, \<open>OtherError n\<close> is any other exception raised by application code.
\<close>

datatype es_error =
    InvalidStreamIdError
  | InvalidEventMetadataError
  | InvalidEventRecordError
  | AggregateFaultedError
  | AggregateEnlistedError
  | AggregateOwnershipError
  | AggregateReplayError
  | AggregateStreamMismatchError stream_id stream_id
  | AggregateTypeMismatchError
  | AggregateCommitStateError
  | SchemaValidationError
  | DuplicateEventSchemaError
  | UnknownEventSchemaError
  | UnsupportedEventSchemaVersionError
  | EventUpcastError
  | EventCodecError
  | SchemaRegistryFrozenError
  | SchemaRegistryNotFrozenError
  | ResourceLimitError
  | ConfirmedCommitError
  | ConfirmedCommitCleanupError commit_result es_error
  | EventStoreTransactionError
  | DuplicateStreamAppendError stream_id
  | OptimisticConcurrencyError stream_id int int
  | DuplicateEventIdError uuid
  | IndeterminateCommitError
  | RepositoryError
  | AggregateNotFoundError
  | UnitOfWorkLifecycleError
  | DuplicateAggregateSaveError
  | DuplicateStreamAggregateError
  | CommitResultMismatchError
  | CancelledError
  | ControlExit
  | TypeError
  | OtherError nat

fun is_exception :: "es_error \<Rightarrow> bool" where
  "is_exception CancelledError = False"
| "is_exception ControlExit = False"
| "is_exception _ = True"

section \<open>Argument guards\<close>

fun stable_text :: "string arg \<Rightarrow> es_error + string" where
  "stable_text Foreign = Inl InvalidEventRecordError"
| "stable_text (Inst s) =
     (if s = [] \<or> s \<noteq> py_strip s then Inl InvalidEventRecordError
      else if \<not> py_isprintable s then Inl InvalidEventRecordError
      else Inr s)"

fun positive_int :: "int arg \<Rightarrow> es_error + int" where
  "positive_int Foreign = Inl InvalidEventRecordError"
| "positive_int (Inst n) = (if n < 1 then Inl InvalidEventRecordError else Inr n)"

fun uuid_guard :: "uuid arg \<Rightarrow> es_error + uuid" where
  "uuid_guard Foreign = Inl InvalidEventMetadataError"
| "uuid_guard (Inst u) = Inr u"

fun optional_uuid :: "uuid arg option \<Rightarrow> es_error + uuid option" where
  "optional_uuid None = Inr None"
| "optional_uuid (Some u) = (case uuid_guard u of Inl e \<Rightarrow> Inl e | Inr v \<Rightarrow> Inr (Some v))"

fun aware_datetime :: "datetime arg \<Rightarrow> es_error + datetime" where
  "aware_datetime Foreign = Inl InvalidEventMetadataError"
| "aware_datetime (Inst (Naive t)) = Inl InvalidEventMetadataError"
| "aware_datetime (Inst (Aware t)) = Inr (Aware t)"

text \<open>A mapping argument is given by its items; the keys of a mapping are distinct.\<close>

fun header_items :: "(string arg \<times> string arg) list \<Rightarrow> es_error + (string \<times> string) list" where
  "header_items [] = Inr []"
| "header_items ((k, v) # items) =
     (case (k, v) of
        (Inst k', Inst v') \<Rightarrow>
          (case header_items items of Inl e \<Rightarrow> Inl e | Inr rest \<Rightarrow> Inr ((k', v') # rest))
      | _ \<Rightarrow> Inl InvalidEventMetadataError)"

fun headers_guard :: "(string arg \<times> string arg) list arg \<Rightarrow> es_error + headers" where
  "headers_guard Foreign = Inl InvalidEventMetadataError"
| "headers_guard (Inst items) =
     (case header_items items of Inl e \<Rightarrow> Inl e | Inr kvs \<Rightarrow> Inr (fmap_of_list kvs))"

fun event_guard :: "'p event arg \<Rightarrow> es_error + 'p event" where
  "event_guard Foreign = Inl InvalidEventRecordError"
| "event_guard (Inst e) = (if ev_class e = ''Event'' then Inl InvalidEventRecordError else Inr e)"

section \<open>Constructors\<close>

definition mk_stream_id :: "string arg \<Rightarrow> string arg \<Rightarrow> es_error + stream_id" where
  "mk_stream_id category key =
     (case stable_text category of
        Inl _ \<Rightarrow> Inl InvalidStreamIdError
      | Inr c \<Rightarrow>
          (case stable_text key of
             Inl _ \<Rightarrow> Inl InvalidStreamIdError
           | Inr k \<Rightarrow> Inr \<lparr>sid_category = c, sid_key = k\<rparr>))"

definition mk_event_metadata ::
  "uuid arg \<Rightarrow> datetime arg \<Rightarrow> uuid arg option \<Rightarrow> uuid arg option \<Rightarrow>
   (string arg \<times> string arg) list arg \<Rightarrow> es_error + event_metadata" where
  "mk_event_metadata event_id occurred_at correlation_id causation_id hs =
     (case uuid_guard event_id of Inl e \<Rightarrow> Inl e | Inr u \<Rightarrow>
      (case aware_datetime occurred_at of Inl e \<Rightarrow> Inl e | Inr t \<Rightarrow>
      (case optional_uuid correlation_id of Inl e \<Rightarrow> Inl e | Inr cor \<Rightarrow>
      (case optional_uuid causation_id of Inl e \<Rightarrow> Inl e | Inr cau \<Rightarrow>
      (case headers_guard hs of Inl e \<Rightarrow> Inl e | Inr h \<Rightarrow>
         Inr \<lparr>md_event_id = u, md_occurred_at = t, md_correlation_id = cor,
              md_causation_id = cau, md_headers = h\<rparr>)))))"

definition mk_pending_event ::
  "'p event arg \<Rightarrow> event_metadata arg \<Rightarrow> es_error + 'p pending_event" where
  "mk_pending_event ev md =
     (case event_guard ev of Inl e \<Rightarrow> Inl e | Inr e' \<Rightarrow>
      (case md of Foreign \<Rightarrow> Inl InvalidEventRecordError
       | Inst m \<Rightarrow> Inr \<lparr>pe_event = e', pe_metadata = m\<rparr>))"

definition mk_encoded_event ::
  "string arg \<Rightarrow> int arg \<Rightarrow> byte_string arg \<Rightarrow> es_error + encoded_event" where
  "mk_encoded_event event_type schema_version payload =
     (case stable_text event_type of Inl e \<Rightarrow> Inl e | Inr t \<Rightarrow>
      (case positive_int schema_version of Inl e \<Rightarrow> Inl e | Inr v \<Rightarrow>
      (case payload of Foreign \<Rightarrow> Inl InvalidEventRecordError
       | Inst p \<Rightarrow> Inr \<lparr>ee_event_type = t, ee_schema_version = v, ee_payload = p\<rparr>)))"

definition mk_append_event ::
  "encoded_event arg \<Rightarrow> event_metadata arg \<Rightarrow> es_error + append_event" where
  "mk_append_event enc md =
     (case enc of Foreign \<Rightarrow> Inl InvalidEventRecordError | Inst e \<Rightarrow>
      (case md of Foreign \<Rightarrow> Inl InvalidEventRecordError
       | Inst m \<Rightarrow> Inr \<lparr>ae_encoded = e, ae_metadata = m\<rparr>))"

definition mk_stored_event ::
  "stream_id arg \<Rightarrow> int arg \<Rightarrow> int arg \<Rightarrow> append_event arg \<Rightarrow> es_error + stored_event" where
  "mk_stored_event sid stream_version global_position ev =
     (case sid of Foreign \<Rightarrow> Inl InvalidEventRecordError | Inst s \<Rightarrow>
      (case positive_int stream_version of Inl e \<Rightarrow> Inl e | Inr v \<Rightarrow>
      (case positive_int global_position of Inl e \<Rightarrow> Inl e | Inr g \<Rightarrow>
      (case ev of Foreign \<Rightarrow> Inl InvalidEventRecordError
       | Inst a \<Rightarrow> Inr \<lparr>se_stream_id = s, se_stream_version = v,
                       se_global_position = g, se_event = a\<rparr>))))"

definition mk_recorded_event ::
  "stream_id arg \<Rightarrow> int arg \<Rightarrow> int arg \<Rightarrow> string arg \<Rightarrow> int arg \<Rightarrow> 'p event arg \<Rightarrow>
   event_metadata arg \<Rightarrow> es_error + 'p recorded_event" where
  "mk_recorded_event sid stream_version global_position event_type schema_version ev md =
     (case sid of Foreign \<Rightarrow> Inl InvalidEventRecordError | Inst s \<Rightarrow>
      (case positive_int stream_version of Inl e \<Rightarrow> Inl e | Inr v \<Rightarrow>
      (case positive_int global_position of Inl e \<Rightarrow> Inl e | Inr g \<Rightarrow>
      (case stable_text event_type of Inl e \<Rightarrow> Inl e | Inr t \<Rightarrow>
      (case positive_int schema_version of Inl e \<Rightarrow> Inl e | Inr sv \<Rightarrow>
      (case event_guard ev of Inl e \<Rightarrow> Inl e | Inr e' \<Rightarrow>
      (case md of Foreign \<Rightarrow> Inl InvalidEventRecordError
       | Inst m \<Rightarrow> Inr \<lparr>re_stream_id = s, re_stream_version = v, re_global_position = g,
                       re_event_type = t, re_schema_version = sv, re_event = e',
                       re_metadata = m\<rparr>)))))))"

definition mk_commit_result :: "stored_event arg list \<Rightarrow> es_error + commit_result" where
  "mk_commit_result events =
     (if list_ex (\<lambda>e. e = Foreign) events then Inl InvalidEventRecordError
      else Inr \<lparr>cr_events = concat (map (\<lambda>e. case e of Inst s \<Rightarrow> [s] | Foreign \<Rightarrow> []) events)\<rparr>)"

section \<open>Properties of the value objects\<close>

definition ae_event_id :: "append_event \<Rightarrow> uuid" where
  "ae_event_id a = md_event_id (ae_metadata a)"

definition se_event_id :: "stored_event \<Rightarrow> uuid" where
  "se_event_id s = ae_event_id (se_event s)"

definition final_version :: "commit_result \<Rightarrow> stream_id \<Rightarrow> int option" where
  "final_version r sid =
     (let versions = map se_stream_version (filter (\<lambda>e. se_stream_id e = sid) (cr_events r))
      in if versions = [] then None else Some (Max (set versions)))"

definition valid_stored_event :: "stored_event \<Rightarrow> bool" where
  [inv_defs]: "valid_stored_event s \<longleftrightarrow> 1 \<le> se_stream_version s \<and> 1 \<le> se_global_position s"

lemma mk_stored_event_valid:
  "valid_stored_event s \<longleftrightarrow>
     mk_stored_event (Inst (se_stream_id s)) (Inst (se_stream_version s))
       (Inst (se_global_position s)) (Inst (se_event s)) = Inr s"
  by (auto simp: mk_stored_event_def valid_stored_event_def)

lemma stable_text_Inr_iff:
  "stable_text a = Inr s \<longleftrightarrow> a = Inst s \<and> s \<noteq> [] \<and> s = py_strip s \<and> py_isprintable s"
  by (cases a) auto

lemma positive_int_Inr_iff: "positive_int a = Inr n \<longleftrightarrow> a = Inst n \<and> 1 \<le> n"
  by (cases a) auto

lemma mk_commit_result_Inst [simp]:
  "mk_commit_result (map Inst es) = Inr \<lparr>cr_events = es\<rparr>"
proof -
  have "concat (map (case_arg (\<lambda>s. [s]) [] \<circ> Inst) es) = es"
    by (induction es) auto
  then show ?thesis
    by (auto simp: mk_commit_result_def list_ex_iff)
qed

end
