(* ===== verification/ES_Aggregate.thy ===== *)
theory ES_Aggregate
  imports ES_Events
begin

text \<open>
  The event-sourced aggregate base class (\<open>aggregate.py\<close>): raising events, replaying committed
  pages, and the enlist / prepare / mark-committed / release / fault protocol by which a unit of
  work owns the aggregate.

  The subclass's \<open>_apply\<close> is application code: a function from an event and the subclass's
  domain state to an outcome and the state it leaves, which may be partly updated when it
  raises. Owners and prepared commits are compared by identity in the source; here they carry
  the number of their object.

  Shown: the domain state of an aggregate that is not faulted is always the replay of its
  committed history followed by its pending events, its version is the length of that history,
  and an enlisted aggregate changes only at the hands of its owner.
\<close>

type_synonym ('p, 's) applier = "'p event \<Rightarrow> 's \<Rightarrow> (es_error + unit) \<times> 's"

record 'p enlistment =
  en_owner :: nat
  en_stream_id :: stream_id
  en_events :: "'p pending_event list"

record 'p prepared_commit =
  pc_ref :: nat
  pc_owner :: nat
  pc_events :: "'p pending_event list"
  pc_version :: int

record ('i, 'p, 's) aggregate =
  ag_class :: string
  ag_id :: 'i
  ag_version :: int
  ag_stream_id :: "stream_id option"
  ag_pending_events :: "'p pending_event list"
  ag_faulted :: bool
  ag_enlistment :: "'p enlistment option"
  ag_prepared_commit :: "'p prepared_commit option"
  ag_state :: 's

definition new_aggregate_root :: "string \<Rightarrow> 'i \<Rightarrow> 's \<Rightarrow> ('i, 'p, 's) aggregate" where
  "new_aggregate_root cls aggregate_id initial =
     \<lparr>ag_class = cls, ag_id = aggregate_id, ag_version = 0, ag_stream_id = None,
      ag_pending_events = [], ag_faulted = False, ag_enlistment = None,
      ag_prepared_commit = None, ag_state = initial\<rparr>"

definition is_enlisted :: "('i, 'p, 's) aggregate \<Rightarrow> bool" where
  "is_enlisted ag \<longleftrightarrow> ag_enlistment ag \<noteq> None"

definition require_mutable :: "('i, 'p, 's) aggregate \<Rightarrow> es_error + unit" where
  "require_mutable ag =
     (if ag_faulted ag then Inl AggregateFaultedError
      else if ag_enlistment ag \<noteq> None then Inl AggregateEnlistedError
      else Inr ())"

definition owned_enlistment :: "('i, 'p, 's) aggregate \<Rightarrow> nat \<Rightarrow> es_error + 'p enlistment" where
  "owned_enlistment ag owner =
     (case ag_enlistment ag of
        None \<Rightarrow> Inl AggregateOwnershipError
      | Some en \<Rightarrow> if en_owner en \<noteq> owner then Inl AggregateOwnershipError else Inr en)"

text \<open>\<open>fresh\<close> is the metadata made from \<open>uuid4()\<close> and the clock when none is passed.\<close>

definition raise_event ::
  "('p, 's) applier \<Rightarrow> ('i, 'p, 's) aggregate \<Rightarrow> 'p event arg \<Rightarrow> event_metadata arg option \<Rightarrow>
   event_metadata \<Rightarrow> (es_error + unit) \<times> ('i, 'p, 's) aggregate" where
  [op_defs]: "raise_event ap ag ev metadata fresh =
     (case require_mutable ag of Inl e \<Rightarrow> (Inl e, ag) | Inr _ \<Rightarrow>
     (case mk_pending_event ev (case metadata of Some m \<Rightarrow> m | None \<Rightarrow> Inst fresh) of
        Inl e \<Rightarrow> (Inl e, ag)
      | Inr pending \<Rightarrow>
     (case ap (pe_event pending) (ag_state ag) of
        (Inl e, st) \<Rightarrow> (Inl e, ag\<lparr>ag_state := st, ag_faulted := True\<rparr>)
      | (Inr _, st) \<Rightarrow>
          (Inr (), ag\<lparr>ag_state := st, ag_pending_events := ag_pending_events ag @ [pending]\<rparr>))))"

subsection \<open>Replay\<close>

fun record_page :: "'p recorded_event arg list \<Rightarrow> 'p recorded_event list option" where
  "record_page [] = Some []"
| "record_page (Foreign # rs) = None"
| "record_page (Inst r # rs) = map_option (\<lambda>rest. r # rest) (record_page rs)"

fun check_page :: "stream_id \<Rightarrow> int \<Rightarrow> 'p recorded_event list \<Rightarrow> es_error + unit" where
  "check_page expected_stream expected_version [] = Inr ()"
| "check_page expected_stream expected_version (r # rs) =
     (if re_stream_id r \<noteq> expected_stream
        then Inl (AggregateStreamMismatchError expected_stream (re_stream_id r))
      else if re_stream_version r \<noteq> expected_version then Inl AggregateReplayError
      else check_page expected_stream (expected_version + 1) rs)"

fun apply_page ::
  "('p, 's) applier \<Rightarrow> ('i, 'p, 's) aggregate \<Rightarrow> 'p recorded_event list \<Rightarrow>
   (es_error + unit) \<times> ('i, 'p, 's) aggregate" where
  "apply_page ap ag [] = (Inr (), ag)"
| "apply_page ap ag (r # rs) =
     (case ap (re_event r) (ag_state ag) of
        (Inl e, st) \<Rightarrow> (Inl e, ag\<lparr>ag_state := st, ag_faulted := True\<rparr>)
      | (Inr _, st) \<Rightarrow> apply_page ap (ag\<lparr>ag_state := st, ag_version := re_stream_version r\<rparr>) rs)"

definition replay ::
  "('p, 's) applier \<Rightarrow> ('i, 'p, 's) aggregate \<Rightarrow> 'p recorded_event arg list \<Rightarrow>
   (es_error + unit) \<times> ('i, 'p, 's) aggregate" where
  [op_defs]: "replay ap ag events =
     (case require_mutable ag of Inl e \<Rightarrow> (Inl e, ag) | Inr _ \<Rightarrow>
      if ag_pending_events ag \<noteq> [] then (Inl AggregateReplayError, ag)
      else (case record_page events of
        None \<Rightarrow> (Inl AggregateReplayError, ag\<lparr>ag_faulted := True\<rparr>)
      | Some [] \<Rightarrow> (Inr (), ag)
      | Some (r # rs) \<Rightarrow>
          let expected_stream =
            (case ag_stream_id ag of Some s \<Rightarrow> s | None \<Rightarrow> re_stream_id r) in
          (case check_page expected_stream (ag_version ag + 1) (r # rs) of
             Inl e \<Rightarrow> (Inl e, ag\<lparr>ag_faulted := True\<rparr>)
           | Inr _ \<Rightarrow> apply_page ap (ag\<lparr>ag_stream_id := Some expected_stream\<rparr>) (r # rs))))"

subsection \<open>Ownership by a unit of work\<close>

definition enlist ::
  "('i, 'p, 's) aggregate \<Rightarrow> nat \<Rightarrow> stream_id \<Rightarrow> 'p pending_event list \<Rightarrow>
   (es_error + unit) \<times> ('i, 'p, 's) aggregate" where
  [op_defs]: "enlist ag owner sid events =
     (case require_mutable ag of Inl e \<Rightarrow> (Inl e, ag) | Inr _ \<Rightarrow>
      if ag_enlistment ag \<noteq> None then (Inl AggregateEnlistedError, ag)
      else if events = [] \<or> events \<noteq> ag_pending_events ag
        then (Inl AggregateCommitStateError, ag)
      else (case ag_stream_id ag of
        Some s \<Rightarrow>
          if s \<noteq> sid then (Inl (AggregateStreamMismatchError s sid), ag)
          else (Inr (), ag\<lparr>ag_stream_id := Some sid, ag_enlistment :=
                 Some \<lparr>en_owner = owner, en_stream_id = sid, en_events = events\<rparr>,
                 ag_prepared_commit := None\<rparr>)
      | None \<Rightarrow> (Inr (), ag\<lparr>ag_stream_id := Some sid, ag_enlistment :=
                 Some \<lparr>en_owner = owner, en_stream_id = sid, en_events = events\<rparr>,
                 ag_prepared_commit := None\<rparr>)))"

text \<open>\<open>ref\<close> is the identity of the \<open>_PreparedCommit\<close> object the call creates.\<close>

definition prepare_commit ::
  "nat \<Rightarrow> ('i, 'p, 's) aggregate \<Rightarrow> nat \<Rightarrow> 'p pending_event list \<Rightarrow> int \<Rightarrow>
   (es_error + nat) \<times> ('i, 'p, 's) aggregate" where
  [op_defs]: "prepare_commit ref ag owner events version =
     (case owned_enlistment ag owner of Inl e \<Rightarrow> (Inl e, ag) | Inr en \<Rightarrow>
      if events \<noteq> en_events en \<or> events \<noteq> ag_pending_events ag
        then (Inl AggregateCommitStateError, ag)
      else if version \<noteq> ag_version ag + int (length events)
        then (Inl AggregateCommitStateError, ag)
      else (Inr ref, ag\<lparr>ag_prepared_commit :=
              Some \<lparr>pc_ref = ref, pc_owner = owner, pc_events = events, pc_version = version\<rparr>\<rparr>))"

definition mark_committed ::
  "('i, 'p, 's) aggregate \<Rightarrow> nat \<Rightarrow> (es_error + unit) \<times> ('i, 'p, 's) aggregate" where
  [op_defs]: "mark_committed ag prepared =
     (case ag_prepared_commit ag of
        None \<Rightarrow> (Inl AggregateCommitStateError, ag)
      | Some pc \<Rightarrow>
          if pc_ref pc \<noteq> prepared then (Inl AggregateCommitStateError, ag)
          else (Inr (), ag\<lparr>ag_version := pc_version pc, ag_pending_events := [],
                  ag_enlistment := None, ag_prepared_commit := None\<rparr>))"

definition release ::
  "('i, 'p, 's) aggregate \<Rightarrow> nat \<Rightarrow> (es_error + unit) \<times> ('i, 'p, 's) aggregate" where
  [op_defs]: "release ag owner =
     (case owned_enlistment ag owner of Inl e \<Rightarrow> (Inl e, ag) | Inr _ \<Rightarrow>
        (Inr (), ag\<lparr>ag_enlistment := None, ag_prepared_commit := None\<rparr>))"

definition fault ::
  "('i, 'p, 's) aggregate \<Rightarrow> nat \<Rightarrow> (es_error + unit) \<times> ('i, 'p, 's) aggregate" where
  [op_defs]: "fault ag owner =
     (case owned_enlistment ag owner of Inl e \<Rightarrow> (Inl e, ag) | Inr _ \<Rightarrow>
        (Inr (), ag\<lparr>ag_faulted := True, ag_enlistment := None, ag_prepared_commit := None\<rparr>))"

definition validate_staging ::
  "('i, 'p, 's) aggregate \<Rightarrow> stream_id \<Rightarrow> es_error + unit" where
  "validate_staging ag sid =
     (case require_mutable ag of Inl e \<Rightarrow> Inl e | Inr _ \<Rightarrow>
     (case ag_stream_id ag of
        Some s \<Rightarrow> if s \<noteq> sid then Inl (AggregateStreamMismatchError s sid) else Inr ()
      | None \<Rightarrow> Inr ()))"

section \<open>Replay of a history\<close>

fun run_events :: "('p, 's) applier \<Rightarrow> 'p event list \<Rightarrow> 's \<Rightarrow> 's option" where
  "run_events ap [] s = Some s"
| "run_events ap (e # es) s =
     (case ap e s of (Inl _, _) \<Rightarrow> None | (Inr _, s') \<Rightarrow> run_events ap es s')"

lemma run_events_append:
  "run_events ap (es @ es') s = Option.bind (run_events ap es s) (run_events ap es')"
  by (induction es arbitrary: s) (auto split: prod.splits sum.splits)

lemma record_page_Some_iff: "record_page rs = Some page \<longleftrightarrow> rs = map Inst page"
proof (induction rs arbitrary: page rule: record_page.induct)
  case (3 r rs)
  then show ?case by (cases page) auto
qed auto

lemma record_page_Inst [simp]: "record_page (map Inst page) = Some page"
  by (simp add: record_page_Some_iff)

lemma check_page_Inr_iff:
  "check_page sid v rs = Inr () \<longleftrightarrow>
     (\<forall>r \<in> set rs. re_stream_id r = sid) \<and> numbered_from v (map re_stream_version rs)"
  by (induction rs arbitrary: v) auto

lemma apply_page_spec:
  assumes "apply_page ap ag rs = (r, ag')"
    and "numbered_from (ag_version ag + 1) (map re_stream_version rs)"
  shows "\<exists>k \<le> length rs. ag' = ag\<lparr>ag_state := ag_state ag', ag_version := ag_version ag + int k,
       ag_faulted := ag_faulted ag'\<rparr> \<and>
     (case r of Inl _ \<Rightarrow> ag_faulted ag'
      | Inr _ \<Rightarrow> k = length rs \<and> ag_faulted ag' = ag_faulted ag \<and>
          run_events ap (map re_event rs) (ag_state ag) = Some (ag_state ag'))"
  using assms
proof (induction ap ag rs rule: apply_page.induct)
  case (1 ap ag)
  then show ?case by (intro exI [of _ 0]) auto
next
  case (2 ap ag x rs)
  obtain o1 st where ap: "ap (re_event x) (ag_state ag) = (o1, st)" by fastforce
  show ?case
  proof (cases o1)
    case (Inl e)
    then show ?thesis using 2(2) ap by (intro exI [of _ 0]) auto
  next
    case (Inr u)
    let ?ag = "ag\<lparr>ag_state := st, ag_version := re_stream_version x\<rparr>"
    have ver: "re_stream_version x = ag_version ag + 1" using 2(3) by simp
    have "apply_page ap ?ag rs = (r, ag')" using 2(2) ap Inr by simp
    moreover have "numbered_from (ag_version ?ag + 1) (map re_stream_version rs)"
      using 2(3) ver by simp
    ultimately obtain k where k: "k \<le> length rs"
      "ag' = ?ag\<lparr>ag_state := ag_state ag', ag_version := ag_version ?ag + int k,
         ag_faulted := ag_faulted ag'\<rparr>"
      "case r of Inl _ \<Rightarrow> ag_faulted ag'
        | Inr _ \<Rightarrow> k = length rs \<and> ag_faulted ag' = ag_faulted ?ag \<and>
            run_events ap (map re_event rs) (ag_state ?ag) = Some (ag_state ag')"
      using 2(1) [OF ap [symmetric] Inr] by blast
    show ?thesis
      using k ap Inr ver by (intro exI [of _ "Suc k"]) (auto simp: add.assoc split: sum.splits)
  qed
qed

section \<open>Runs of an aggregate\<close>

text \<open>A run carries the committed history next to the aggregate: replayed events and the
  events of a marked commit.\<close>

inductive agg_step ::
  "('p, 's) applier \<Rightarrow> ('i, 'p, 's) aggregate \<times> 'p event list \<Rightarrow>
   ('i, 'p, 's) aggregate \<times> 'p event list \<Rightarrow> bool" for ap where
  "raise_event ap ag ev md fresh = (r, ag') \<Longrightarrow> agg_step ap (ag, h) (ag', h)"
| "replay ap ag rs = (r, ag') \<Longrightarrow>
     page = (case record_page rs of None \<Rightarrow> [] | Some page \<Rightarrow> map re_event page) \<Longrightarrow>
     agg_step ap (ag, h) (ag', h @ take (nat (ag_version ag' - ag_version ag)) page)"
| "enlist ag owner sid evs = (r, ag') \<Longrightarrow> agg_step ap (ag, h) (ag', h)"
| "prepare_commit ref ag owner evs version = (pr, ag') \<Longrightarrow> agg_step ap (ag, h) (ag', h)"
| "mark_committed ag ref = (r, ag') \<Longrightarrow>
     agg_step ap (ag, h) (ag', if r = Inr () then h @ map pe_event (ag_pending_events ag) else h)"
| "release ag owner = (r, ag') \<Longrightarrow> agg_step ap (ag, h) (ag', h)"
| "fault ag owner = (r, ag') \<Longrightarrow> agg_step ap (ag, h) (ag', h)"

definition agg_ok ::
  "('p, 's) applier \<Rightarrow> 's \<Rightarrow> ('i, 'p, 's) aggregate \<times> 'p event list \<Rightarrow> bool" where
  [inv_defs]: "agg_ok ap s0 = (\<lambda>(ag, h).
     ag_version ag = int (length h) \<and>
     (\<not> ag_faulted ag \<longrightarrow>
        run_events ap (h @ map pe_event (ag_pending_events ag)) s0 = Some (ag_state ag)) \<and>
     (\<forall>en. ag_enlistment ag = Some en \<longrightarrow> \<not> ag_faulted ag \<and> ag_pending_events ag \<noteq> [] \<and>
        en_events en = ag_pending_events ag \<and> ag_stream_id ag = Some (en_stream_id en)) \<and>
     (\<forall>pc. ag_prepared_commit ag = Some pc \<longrightarrow>
        (\<exists>en. ag_enlistment ag = Some en \<and> en_owner en = pc_owner pc) \<and>
        pc_events pc = ag_pending_events ag \<and>
        pc_version pc = ag_version ag + int (length (ag_pending_events ag))))"

lemma require_mutable_Inr_iff:
  "require_mutable ag = Inr u \<longleftrightarrow> \<not> ag_faulted ag \<and> ag_enlistment ag = None"
  by (simp add: require_mutable_def)

lemma owned_enlistment_Inr_iff:
  "owned_enlistment ag owner = Inr en \<longleftrightarrow> ag_enlistment ag = Some en \<and> en_owner en = owner"
  by (auto simp: owned_enlistment_def split: option.splits)

lemma agg_ok_raise:
  "agg_ok ap s0 (ag, h) \<Longrightarrow> raise_event ap ag ev md fresh = (r, ag') \<Longrightarrow> agg_ok ap s0 (ag', h)"
  by (auto simp: agg_ok_def raise_event_def require_mutable_Inr_iff run_events_append
      bind_eq_Some_conv split: sum.splits prod.splits)

lemma agg_ok_replay:
  assumes ok: "agg_ok ap s0 (ag, h)" and rp: "replay ap ag rs = (r, ag')"
    and pg: "page = (case record_page rs of None \<Rightarrow> [] | Some page \<Rightarrow> map re_event page)"
  shows "agg_ok ap s0 (ag', h @ take (nat (ag_version ag' - ag_version ag)) page)"
proof (cases "\<exists>p ps sid. record_page rs = Some (p # ps) \<and> \<not> ag_faulted ag \<and>
    ag_enlistment ag = None \<and> ag_pending_events ag = [] \<and>
    check_page sid (ag_version ag + 1) (p # ps) = Inr () \<and>
    apply_page ap (ag\<lparr>ag_stream_id := Some sid\<rparr>) (p # ps) = (r, ag')")
  case False
  then have "ag' = ag \<or> ag' = ag\<lparr>ag_faulted := True\<rparr> \<and> ag_enlistment ag = None"
    using rp by (auto simp: replay_def Let_def require_mutable_Inr_iff
        simp del: apply_page.simps check_page.simps
        split: sum.splits option.splits list.splits if_splits)
  then show ?thesis using ok by (auto simp: agg_ok_def)
next
  case True
  then obtain p ps sid where page: "record_page rs = Some (p # ps)"
    and st: "\<not> ag_faulted ag" "ag_enlistment ag = None" "ag_pending_events ag = []"
    and chk: "check_page sid (ag_version ag + 1) (p # ps) = Inr ()"
    and app: "apply_page ap (ag\<lparr>ag_stream_id := Some sid\<rparr>) (p # ps) = (r, ag')"
    by blast
  have num: "numbered_from (ag_version (ag\<lparr>ag_stream_id := Some sid\<rparr>) + 1)
      (map re_stream_version (p # ps))"
    using chk by (simp only: check_page_Inr_iff) simp
  let ?ag = "ag\<lparr>ag_stream_id := Some sid\<rparr>"
  obtain k where k: "k \<le> length (p # ps)"
    "ag' = ?ag\<lparr>ag_state := ag_state ag', ag_version := ag_version ?ag + int k,
       ag_faulted := ag_faulted ag'\<rparr>"
    "case r of Inl _ \<Rightarrow> ag_faulted ag'
      | Inr _ \<Rightarrow> k = length (p # ps) \<and> ag_faulted ag' = ag_faulted ?ag \<and>
          run_events ap (map re_event (p # ps)) (ag_state ?ag) = Some (ag_state ag')"
    using apply_page_spec [OF app num] by blast
  have ver: "ag_version ag' = ag_version ag + int k" and en: "ag_enlistment ag' = None"
    and pr: "ag_prepared_commit ag' = ag_prepared_commit ag" and pe: "ag_pending_events ag' = []"
    by (subst k(2), simp add: st)+
  have "\<not> ag_faulted ag' \<Longrightarrow> run_events ap (h @ map re_event (p # ps)) s0 = Some (ag_state ag') \<and>
      k = length (p # ps)"
    using k(3) ok st
    by (auto simp: agg_ok_def run_events_append bind_eq_Some_conv split: sum.splits)
  then show ?thesis
    using ok k(1) ver en pr pe st unfolding agg_ok_def pg page by auto
qed

lemma agg_ok_enlist:
  "agg_ok ap s0 (ag, h) \<Longrightarrow> enlist ag owner sid evs = (r, ag') \<Longrightarrow> agg_ok ap s0 (ag', h)"
  by (auto simp: agg_ok_def enlist_def require_mutable_Inr_iff split: sum.splits option.splits if_splits)

lemma agg_ok_prepare:
  "agg_ok ap s0 (ag, h) \<Longrightarrow> prepare_commit ref ag owner evs version = (pr, ag') \<Longrightarrow>
   agg_ok ap s0 (ag', h)"
  by (auto simp: agg_ok_def prepare_commit_def owned_enlistment_Inr_iff split: sum.splits if_splits)

lemma agg_ok_mark:
  "agg_ok ap s0 (ag, h) \<Longrightarrow> mark_committed ag ref = (r, ag') \<Longrightarrow>
   agg_ok ap s0 (ag', if r = Inr () then h @ map pe_event (ag_pending_events ag) else h)"
  by (auto simp: agg_ok_def mark_committed_def split: option.splits if_splits)

lemma agg_ok_release:
  "agg_ok ap s0 (ag, h) \<Longrightarrow> release ag owner = (r, ag') \<Longrightarrow> agg_ok ap s0 (ag', h)"
  by (auto simp: agg_ok_def release_def split: sum.splits)

lemma agg_ok_fault:
  "agg_ok ap s0 (ag, h) \<Longrightarrow> fault ag owner = (r, ag') \<Longrightarrow> agg_ok ap s0 (ag', h)"
  by (auto simp: agg_ok_def fault_def split: sum.splits)

lemmas agg_ok_ops = agg_ok_raise agg_ok_replay agg_ok_enlist agg_ok_prepare agg_ok_mark
  agg_ok_release agg_ok_fault

lemma agg_ok_step: "agg_step ap x y \<Longrightarrow> agg_ok ap s0 x \<Longrightarrow> agg_ok ap s0 y"
  by (induction rule: agg_step.induct) (blast intro: agg_ok_ops)+

lemma agg_ok_steps: "(agg_step ap)\<^sup>*\<^sup>* x y \<Longrightarrow> agg_ok ap s0 x \<Longrightarrow> agg_ok ap s0 y"
  by (induction rule: rtranclp_induct) (auto intro: agg_ok_step)

lemma agg_ok_new: "agg_ok ap s0 (new_aggregate_root cls i s0, [])"
  by (simp add: agg_ok_def new_aggregate_root_def)

text \<open>C30: whatever sequence of operations an aggregate goes through, by however many owners,
  its version is the number of its committed events and, unless it is faulted, its domain
  state is exactly the replay of the committed history followed by the pending events.\<close>

theorem aggregate_state_is_replay:
  assumes "(agg_step ap)\<^sup>*\<^sup>* (new_aggregate_root cls i s0, []) (ag, h)"
  shows "ag_version ag = int (length h) \<and>
    (\<not> ag_faulted ag \<longrightarrow>
       run_events ap (h @ map pe_event (ag_pending_events ag)) s0 = Some (ag_state ag))"
  using agg_ok_steps [OF assms agg_ok_new] by (simp add: agg_ok_def)

text \<open>An aggregate that logs the events it applies, and one raised event.\<close>

definition log_applier :: "(nat, nat list) applier" where
  "log_applier e s = (Inr (), s @ [ev_body e])"

definition demo_event :: "nat \<Rightarrow> nat event" where
  "demo_event n = \<lparr>ev_class = ''Counted'', ev_body = n\<rparr>"

definition demo_md :: "uuid \<Rightarrow> event_metadata" where
  "demo_md u = \<lparr>md_event_id = u, md_occurred_at = Aware 0, md_correlation_id = None,
     md_causation_id = None, md_headers = fmempty\<rparr>"

definition demo_raised :: "(nat, nat, nat list) aggregate" where
  "demo_raised = snd (raise_event log_applier (new_aggregate_root ''Counter'' 1 [])
     (Inst (demo_event 5)) None (demo_md 9))"

theorem aggregate_state_is_replay_witness:
  "ag_version demo_raised = 0 \<and> \<not> ag_faulted demo_raised \<and> ag_state demo_raised = [5]"
proof -
  have "agg_step log_applier (new_aggregate_root ''Counter'' 1 [], []) (demo_raised, [])"
    unfolding demo_raised_def by (rule agg_step.intros(1) [OF surjective_pairing])
  from aggregate_state_is_replay [OF r_into_rtranclp [of "agg_step log_applier", OF this]]
  show ?thesis
    by (simp add: demo_raised_def raise_event_def require_mutable_def new_aggregate_root_def
        mk_pending_event_def demo_event_def log_applier_def)
qed

end
