(* ===== verification/ES_Codec.thy ===== *)
theory ES_Codec
  imports ES_Events
begin

text \<open>
  Event schemas, the schema registry and the bytes codec (\<open>codec.py\<close>): resource limits,
  registration and freezing, encoding of pending events, and decoding of stored events through
  the chain of byte upcasters. Encoders, decoders and upcasters are application code: they are
  fields of a schema, functions that return a value of any class or raise.

  The lemmas show that registration keeps the alias view and the class view of the registry in
  step, that the upcast loop of a validated schema runs exactly the declared upcasters (its two
  defensive branches are dead), and that decoding inverts encoding wherever the schema's codec does.
\<close>

record es_limits =
  max_payload_bytes :: int
  max_headers :: int
  max_header_name_bytes :: int
  max_header_value_bytes :: int
  max_upcast_steps :: int
  read_page_size :: int
  max_events_per_append :: int
  max_events_per_transaction :: int
  max_transaction_bytes :: int

fun schema_positive :: "int arg \<Rightarrow> es_error + int" where
  "schema_positive Foreign = Inl SchemaValidationError"
| "schema_positive (Inst n) = (if n < 1 then Inl SchemaValidationError else Inr n)"

definition default_limits :: es_limits where
  "default_limits =
     \<lparr>max_payload_bytes = 1048576, max_headers = 64, max_header_name_bytes = 256,
      max_header_value_bytes = 4096, max_upcast_steps = 32, read_page_size = 500,
      max_events_per_append = 1000, max_events_per_transaction = 10000,
      max_transaction_bytes = 16777216\<rparr>"

text \<open>The \<open>__post_init__\<close> of the limits visits every field in declaration order.\<close>

definition mk_limits ::
  "int arg \<Rightarrow> int arg \<Rightarrow> int arg \<Rightarrow> int arg \<Rightarrow> int arg \<Rightarrow> int arg \<Rightarrow> int arg \<Rightarrow> int arg \<Rightarrow>
   int arg \<Rightarrow> es_error + es_limits" where
  "mk_limits p h hn hv u r ea et tb =
     (case schema_positive p of Inl e \<Rightarrow> Inl e | Inr p' \<Rightarrow>
     (case schema_positive h of Inl e \<Rightarrow> Inl e | Inr h' \<Rightarrow>
     (case schema_positive hn of Inl e \<Rightarrow> Inl e | Inr hn' \<Rightarrow>
     (case schema_positive hv of Inl e \<Rightarrow> Inl e | Inr hv' \<Rightarrow>
     (case schema_positive u of Inl e \<Rightarrow> Inl e | Inr u' \<Rightarrow>
     (case schema_positive r of Inl e \<Rightarrow> Inl e | Inr r' \<Rightarrow>
     (case schema_positive ea of Inl e \<Rightarrow> Inl e | Inr ea' \<Rightarrow>
     (case schema_positive et of Inl e \<Rightarrow> Inl e | Inr et' \<Rightarrow>
     (case schema_positive tb of Inl e \<Rightarrow> Inl e | Inr tb' \<Rightarrow>
        Inr \<lparr>max_payload_bytes = p', max_headers = h', max_header_name_bytes = hn',
             max_header_value_bytes = hv', max_upcast_steps = u', read_page_size = r',
             max_events_per_append = ea', max_events_per_transaction = et',
             max_transaction_bytes = tb'\<rparr>)))))))))"

definition limits_ok :: "es_limits \<Rightarrow> bool" where
  [inv_defs]: "limits_ok l \<longleftrightarrow>
     1 \<le> max_payload_bytes l \<and> 1 \<le> max_headers l \<and> 1 \<le> max_header_name_bytes l \<and>
     1 \<le> max_header_value_bytes l \<and> 1 \<le> max_upcast_steps l \<and> 1 \<le> read_page_size l \<and>
     1 \<le> max_events_per_append l \<and> 1 \<le> max_events_per_transaction l \<and>
     1 \<le> max_transaction_bytes l"

section \<open>Schemas\<close>

type_synonym 'p encoder = "'p event \<Rightarrow> es_error + byte_string arg"
type_synonym 'p decoder = "byte_string \<Rightarrow> es_error + 'p event arg"
type_synonym upcaster = "byte_string \<Rightarrow> es_error + byte_string arg"

record 'p event_schema =
  sc_alias :: string
  sc_version :: int
  sc_event_type :: string
  sc_encoder :: "'p encoder"
  sc_decoder :: "'p decoder"
  sc_upcasters :: "int \<rightharpoonup> upcaster"

fun alias_guard :: "string arg \<Rightarrow> es_error + string" where
  "alias_guard Foreign = Inl SchemaValidationError"
| "alias_guard (Inst s) =
     (if s = [] \<or> s \<noteq> py_strip s then Inl SchemaValidationError
      else if \<not> py_isprintable s then Inl SchemaValidationError
      else Inr s)"

text \<open>The items of the upcaster mapping, each key an integer and each entry a callable.\<close>

fun upcaster_items ::
  "(int arg \<times> upcaster arg) list \<Rightarrow> es_error + (int \<times> upcaster) list" where
  "upcaster_items [] = Inr []"
| "upcaster_items ((k, u) # items) =
     (case (k, u) of
        (Inst k', Inst u') \<Rightarrow>
          (case upcaster_items items of Inl e \<Rightarrow> Inl e | Inr rest \<Rightarrow> Inr ((k', u') # rest))
      | _ \<Rightarrow> Inl SchemaValidationError)"

definition sources_complete :: "int list \<Rightarrow> int \<Rightarrow> bool" where
  "sources_complete ks version \<longleftrightarrow>
     \<not> (int (length ks) \<noteq> version - 1 \<or>
        list_ex (\<lambda>(expected, source). source \<noteq> expected)
          (zip (map int [1..<Suc (length ks)]) (sort ks)))"

definition mk_event_schema ::
  "string arg \<Rightarrow> int arg \<Rightarrow> string arg \<Rightarrow> 'p encoder arg \<Rightarrow> 'p decoder arg \<Rightarrow>
   (int arg \<times> upcaster arg) list \<Rightarrow> es_error + 'p event_schema" where
  "mk_event_schema al version event_type encoder decoder upcasters =
     (case alias_guard al of Inl e \<Rightarrow> Inl e | Inr al' \<Rightarrow>
     (case schema_positive version of Inl e \<Rightarrow> Inl e | Inr version' \<Rightarrow>
     (case event_type of
        Foreign \<Rightarrow> Inl SchemaValidationError
      | Inst cls \<Rightarrow>
          if cls = ''Event'' then Inl SchemaValidationError
          else (case (encoder, decoder) of
            (Inst enc, Inst dec) \<Rightarrow>
              (case upcaster_items upcasters of Inl e \<Rightarrow> Inl e | Inr items \<Rightarrow>
                 if \<not> sources_complete (map fst items) version' then Inl SchemaValidationError
                 else Inr \<lparr>sc_alias = al', sc_version = version', sc_event_type = cls,
                           sc_encoder = enc, sc_decoder = dec, sc_upcasters = map_of items\<rparr>)
          | _ \<Rightarrow> Inl SchemaValidationError))))"

definition schema_ok :: "'p event_schema \<Rightarrow> bool" where
  [inv_defs]: "schema_ok sc \<longleftrightarrow>
     alias_guard (Inst (sc_alias sc)) = Inr (sc_alias sc) \<and> 1 \<le> sc_version sc \<and>
     sc_event_type sc \<noteq> ''Event'' \<and> dom (sc_upcasters sc) = {1 .. sc_version sc - 1}"

section \<open>The registry\<close>

record 'p schema_registry =
  rg_limits :: es_limits
  rg_by_alias :: "string \<rightharpoonup> 'p event_schema"
  rg_by_class :: "string \<rightharpoonup> 'p event_schema"
  rg_frozen :: bool

definition new_registry :: "es_limits option \<Rightarrow> 'p schema_registry" where
  "new_registry limits =
     \<lparr>rg_limits = (case limits of None \<Rightarrow> default_limits | Some l \<Rightarrow> l),
      rg_by_alias = Map.empty, rg_by_class = Map.empty, rg_frozen = False\<rparr>"

definition register ::
  "'p schema_registry \<Rightarrow> 'p event_schema arg \<Rightarrow> es_error + 'p schema_registry" where
  [op_defs]: "register rg schema =
     (if rg_frozen rg then Inl SchemaRegistryFrozenError
      else case schema of Foreign \<Rightarrow> Inl SchemaValidationError | Inst sc \<Rightarrow>
        if sc_version sc - 1 > max_upcast_steps (rg_limits rg) then Inl ResourceLimitError
        else if sc_alias sc \<in> dom (rg_by_alias rg) then Inl DuplicateEventSchemaError
        else if sc_event_type sc \<in> dom (rg_by_class rg) then Inl DuplicateEventSchemaError
        else Inr (rg\<lparr>rg_by_alias := (rg_by_alias rg)(sc_alias sc \<mapsto> sc),
                     rg_by_class := (rg_by_class rg)(sc_event_type sc \<mapsto> sc)\<rparr>))"

definition freeze :: "'p schema_registry \<Rightarrow> 'p schema_registry" where
  [op_defs]: "freeze rg = rg\<lparr>rg_frozen := True\<rparr>"

section \<open>Payload and header limits\<close>

fun validate_payload :: "es_limits \<Rightarrow> byte_string arg \<Rightarrow> es_error + byte_string" where
  "validate_payload l Foreign = Inl EventCodecError"
| "validate_payload l (Inst p) =
     (if int (length p) > max_payload_bytes l then Inl ResourceLimitError else Inr p)"

definition validate_header_mapping :: "es_limits \<Rightarrow> headers \<Rightarrow> es_error + unit" where
  "validate_header_mapping l hs =
     (if int (fcard (fmdom hs)) > max_headers l then Inl ResourceLimitError
      else if \<not> fmpred (\<lambda>name v. utf8_len name \<le> max_header_name_bytes l \<and>
                                   utf8_len v \<le> max_header_value_bytes l) hs
        then Inl ResourceLimitError
      else Inr ())"

section \<open>Encoding\<close>

text \<open>An \<open>except Exception\<close> clause translates an ordinary exception and lets the others pass.\<close>

definition wrap_exception :: "es_error \<Rightarrow> es_error \<Rightarrow> es_error" where
  "wrap_exception wrapped e = (if is_exception e then wrapped else e)"

definition encode ::
  "'p schema_registry \<Rightarrow> 'p pending_event arg \<Rightarrow> es_error + append_event" where
  "encode rg pending =
     (if \<not> rg_frozen rg then Inl SchemaRegistryNotFrozenError
      else case pending of Foreign \<Rightarrow> Inl EventCodecError | Inst pe \<Rightarrow>
      (case rg_by_class rg (ev_class (pe_event pe)) of
         None \<Rightarrow> Inl UnknownEventSchemaError
       | Some sc \<Rightarrow>
      (case validate_header_mapping (rg_limits rg) (md_headers (pe_metadata pe)) of
         Inl e \<Rightarrow> Inl e
       | Inr _ \<Rightarrow>
      (case sc_encoder sc (pe_event pe) of
         Inl e \<Rightarrow> Inl (wrap_exception EventCodecError e)
       | Inr raw \<Rightarrow>
      (case validate_payload (rg_limits rg) raw of Inl e \<Rightarrow> Inl e | Inr payload \<Rightarrow>
      (case mk_encoded_event (Inst (sc_alias sc)) (Inst (sc_version sc)) (Inst payload) of
         Inl e \<Rightarrow> Inl e
       | Inr enc \<Rightarrow> mk_append_event (Inst enc) (Inst (pe_metadata pe))))))))"

section \<open>Decoding\<close>

function upcast_loop ::
  "es_limits \<Rightarrow> 'p event_schema \<Rightarrow> int \<Rightarrow> int \<Rightarrow> byte_string \<Rightarrow> es_error + byte_string" where
  "upcast_loop l sc version steps payload =
     (if version < sc_version sc then
        if steps + 1 > max_upcast_steps l then Inl ResourceLimitError
        else case sc_upcasters sc version of
          None \<Rightarrow> Inl EventUpcastError
        | Some u \<Rightarrow>
            (case u payload of
               Inl e \<Rightarrow> Inl (wrap_exception EventUpcastError e)
             | Inr raw \<Rightarrow>
                 (case validate_payload l raw of
                    Inl e \<Rightarrow> Inl e
                  | Inr payload' \<Rightarrow> upcast_loop l sc (version + 1) (steps + 1) payload'))
      else Inr payload)"
  by pat_completeness auto
termination
  by (relation "measure (\<lambda>(l, sc, version, steps, payload). nat (sc_version sc - version))") auto

declare upcast_loop.simps [simp del]

definition decode ::
  "'p schema_registry \<Rightarrow> stored_event arg \<Rightarrow> es_error + 'p recorded_event" where
  "decode rg stored =
     (if \<not> rg_frozen rg then Inl SchemaRegistryNotFrozenError
      else case stored of Foreign \<Rightarrow> Inl EventCodecError | Inst se \<Rightarrow>
      (let enc = ae_encoded (se_event se); l = rg_limits rg in
      (case rg_by_alias rg (ee_event_type enc) of
         None \<Rightarrow> Inl UnknownEventSchemaError
       | Some sc \<Rightarrow>
         if ee_schema_version enc > sc_version sc then Inl UnsupportedEventSchemaVersionError
         else
      (case validate_header_mapping l (md_headers (ae_metadata (se_event se))) of
         Inl e \<Rightarrow> Inl e
       | Inr _ \<Rightarrow>
      (case validate_payload l (Inst (ee_payload enc)) of Inl e \<Rightarrow> Inl e | Inr payload \<Rightarrow>
      (case upcast_loop l sc (ee_schema_version enc) 0 payload of
         Inl e \<Rightarrow> Inl e
       | Inr payload' \<Rightarrow>
      (case sc_decoder sc payload' of
         Inl e \<Rightarrow> Inl (wrap_exception EventCodecError e)
       | Inr decoded \<Rightarrow>
      (case decoded of
         Foreign \<Rightarrow> Inl EventCodecError
       | Inst ev \<Rightarrow>
         if ev_class ev \<noteq> sc_event_type sc then Inl EventCodecError
         else mk_recorded_event (Inst (se_stream_id se)) (Inst (se_stream_version se))
                (Inst (se_global_position se)) (Inst (sc_alias sc)) (Inst (sc_version sc))
                (Inst ev) (Inst (ae_metadata (se_event se)))))))))))"

section \<open>Validated schemas\<close>

lemma zip_all_eq_iff:
  "length xs = length ys \<Longrightarrow> (\<forall>(x, y) \<in> set (zip xs ys). y = x) \<longleftrightarrow> ys = xs"
  by (induction xs ys rule: list_induct2) auto

lemma sources_complete_iff:
  "sources_complete ks v \<longleftrightarrow> int (length ks) = v - 1 \<and> sort ks = map int [1..<Suc (length ks)]"
  using zip_all_eq_iff [of "map int [1..<Suc (length ks)]" "sort ks"]
  by (simp add: sources_complete_def list_ex_iff split_def del: upt_Suc)

lemma sources_complete_set:
  assumes "sources_complete ks v"
  shows "set ks = {1 .. v - 1}"
proof -
  have len: "int (length ks) = v - 1" and srt: "sort ks = map int [1..<Suc (length ks)]"
    using assms by (auto simp: sources_complete_iff)
  have "set ks = int ` {1..<Suc (length ks)}"
    using arg_cong [OF srt, of set] by (simp del: upt_Suc)
  also have "\<dots> = {1 .. int (length ks)}"
    by (auto simp: image_int_atLeastLessThan)
  finally show ?thesis using len by simp
qed

lemma schema_positive_Inr_iff: "schema_positive a = Inr n \<longleftrightarrow> a = Inst n \<and> 1 \<le> n"
  by (cases a) auto

lemma alias_guard_Inr_iff: "alias_guard a = Inr s \<longleftrightarrow> stable_text a = Inr s"
  by (cases a) auto

lemma alias_guard_Inst: "alias_guard a = Inr s \<Longrightarrow> alias_guard (Inst s) = Inr s"
  by (cases a) (auto split: if_splits)

lemma dom_map_of_sources: "sources_complete (map fst items) v \<Longrightarrow> dom (map_of items) = {1 .. v - 1}"
  using sources_complete_set [of "map fst items" v] by (simp add: dom_map_of_conv_image_fst)

lemma mk_event_schema_ok:
  "mk_event_schema al v cls enc dec ups = Inr sc \<Longrightarrow> schema_ok sc"
  unfolding mk_event_schema_def schema_ok_def
  by (clarsimp simp: schema_positive_Inr_iff dom_map_of_sources
      simp del: alias_guard.simps split: sum.splits arg.splits if_splits)
    (erule alias_guard_Inst)

lemma mk_limits_ok:
  "mk_limits p h hn hv u r ea et tb = Inr l \<Longrightarrow> limits_ok l"
  by (auto simp: mk_limits_def limits_ok_def schema_positive_Inr_iff split: sum.splits)

lemma default_limits_ok [simp]: "limits_ok default_limits"
  by (simp add: limits_ok_def default_limits_def)

section \<open>The two views of the registry agree\<close>

definition registry_ok :: "'p schema_registry \<Rightarrow> bool" where
  [inv_defs]: "registry_ok rg \<longleftrightarrow>
     (\<forall>al sc. rg_by_alias rg al = Some sc \<longrightarrow>
        sc_alias sc = al \<and> rg_by_class rg (sc_event_type sc) = Some sc \<and> schema_ok sc \<and>
        sc_version sc - 1 \<le> max_upcast_steps (rg_limits rg)) \<and>
     (\<forall>cls sc. rg_by_class rg cls = Some sc \<longrightarrow>
        sc_event_type sc = cls \<and> rg_by_alias rg (sc_alias sc) = Some sc)"

lemma registry_ok_new: "registry_ok (new_registry l)"
  by (simp add: registry_ok_def new_registry_def)

lemma registry_ok_freeze: "registry_ok rg \<Longrightarrow> registry_ok (freeze rg)"
  by (simp add: registry_ok_def freeze_def)

lemma registry_ok_register:
  assumes "registry_ok rg" "schema_ok sc" "register rg (Inst sc) = Inr rg'"
  shows "registry_ok rg'"
proof -
  have rg': "rg' = rg\<lparr>rg_by_alias := (rg_by_alias rg)(sc_alias sc \<mapsto> sc),
                      rg_by_class := (rg_by_class rg)(sc_event_type sc \<mapsto> sc)\<rparr>"
    and fresh: "rg_by_alias rg (sc_alias sc) = None" "rg_by_class rg (sc_event_type sc) = None"
    and steps: "sc_version sc - 1 \<le> max_upcast_steps (rg_limits rg)"
    using assms(3) by (auto simp: register_def dom_def split: if_splits)
  show ?thesis
    using assms(1,2) fresh steps unfolding rg' registry_ok_def
    by (simp split: if_splits) (metis option.distinct(1))
qed

text \<open>The registries a program can build: new, extended by validated schemas, frozen.\<close>

inductive built_registry :: "'p schema_registry \<Rightarrow> bool" where
  new: "built_registry (new_registry l)"
| registered: "built_registry rg \<Longrightarrow> mk_event_schema al v cls enc dec ups = Inr sc \<Longrightarrow>
     register rg (Inst sc) = Inr rg' \<Longrightarrow> built_registry rg'"
| frozen: "built_registry rg \<Longrightarrow> built_registry (freeze rg)"

lemma built_registry_ok: "built_registry rg \<Longrightarrow> registry_ok rg"
  by (induction rule: built_registry.induct)
    (auto intro: registry_ok_new registry_ok_freeze registry_ok_register mk_event_schema_ok)

section \<open>The upcast loop runs the declared upcasters\<close>

fun run_upcasters :: "es_limits \<Rightarrow> upcaster list \<Rightarrow> byte_string \<Rightarrow> es_error + byte_string" where
  "run_upcasters l [] p = Inr p"
| "run_upcasters l (u # us) p =
     (case u p of
        Inl e \<Rightarrow> Inl (wrap_exception EventUpcastError e)
      | Inr raw \<Rightarrow>
          (case validate_payload l raw of Inl e \<Rightarrow> Inl e | Inr p' \<Rightarrow> run_upcasters l us p'))"

lemma upcast_loop_run:
  assumes "schema_ok sc" "1 \<le> v" "v \<le> sc_version sc"
    and "steps + (sc_version sc - v) \<le> max_upcast_steps l"
  shows "upcast_loop l sc v steps p =
     run_upcasters l (map (\<lambda>i. the (sc_upcasters sc i)) [v .. sc_version sc - 1]) p"
  using assms
proof (induction l sc v steps p rule: upcast_loop.induct)
  case (1 l sc v steps p)
  show ?case
  proof (cases "v < sc_version sc")
    case False
    then show ?thesis by (simp add: upcast_loop.simps)
  next
    case True
    then have "v \<in> dom (sc_upcasters sc)"
      using "1.prems" by (auto simp: schema_ok_def)
    then obtain u where u: "sc_upcasters sc v = Some u" by auto
    have range: "[v .. sc_version sc - 1] = v # [v + 1 .. sc_version sc - 1]"
      using True by (simp add: upto_rec1)
    show ?thesis
      using True u "1.prems" "1.IH"
      by (auto simp: upcast_loop.simps [of l sc v] range split: sum.splits)
  qed
qed

lemma upcast_loop_current [simp]: "upcast_loop l sc (sc_version sc) steps p = Inr p"
  by (simp add: upcast_loop.simps)

section \<open>Decoding inverts encoding\<close>

lemma validate_payload_Inr_iff:
  "validate_payload l a = Inr p \<longleftrightarrow> a = Inst p \<and> int (length p) \<le> max_payload_bytes l"
  by (cases a) auto

lemma encode_InrD:
  "encode rg (Inst pe) = Inr a \<Longrightarrow>
     rg_frozen rg \<and>
     (\<exists>sc raw. rg_by_class rg (ev_class (pe_event pe)) = Some sc \<and>
        validate_header_mapping (rg_limits rg) (md_headers (pe_metadata pe)) = Inr () \<and>
        sc_encoder sc (pe_event pe) = Inr (Inst raw) \<and>
        validate_payload (rg_limits rg) (Inst raw) = Inr raw \<and>
        stable_text (Inst (sc_alias sc)) = Inr (sc_alias sc) \<and> 1 \<le> sc_version sc \<and>
        a = \<lparr>ae_encoded = \<lparr>ee_event_type = sc_alias sc, ee_schema_version = sc_version sc,
                            ee_payload = raw\<rparr>,
             ae_metadata = pe_metadata pe\<rparr>)"
  by (auto simp: encode_def mk_encoded_event_def mk_append_event_def positive_int_Inr_iff
        stable_text_Inr_iff validate_payload_Inr_iff not_less
      simp del: stable_text.simps positive_int.simps validate_payload.simps
      split: option.splits sum.splits arg.splits if_splits)

text \<open>C36: a stored event decodes to exactly the event it was encoded from, with the same
  metadata and stream coordinates, in every registry a program can build, whenever the
  application's decoder inverts its encoder on that event. No guard of the decoder
  (version, header limits, payload limits, class check, record validation) can get in the way.\<close>

theorem decode_encode_roundtrip:
  assumes built: "built_registry rg"
    and enc: "encode rg (Inst pe) = Inr (se_event se)"
    and codec: "\<And>sc raw. rg_by_class rg (ev_class (pe_event pe)) = Some sc \<Longrightarrow>
       sc_encoder sc (pe_event pe) = Inr (Inst raw) \<Longrightarrow>
       sc_decoder sc raw = Inr (Inst (pe_event pe))"
    and stored: "valid_stored_event se"
  shows "\<exists>sc. rg_by_class rg (ev_class (pe_event pe)) = Some sc \<and>
     decode rg (Inst se) =
       Inr \<lparr>re_stream_id = se_stream_id se, re_stream_version = se_stream_version se,
            re_global_position = se_global_position se, re_event_type = sc_alias sc,
            re_schema_version = sc_version sc, re_event = pe_event pe,
            re_metadata = pe_metadata pe\<rparr>"
proof -
  obtain sc raw where sc: "rg_by_class rg (ev_class (pe_event pe)) = Some sc"
    and hdr: "validate_header_mapping (rg_limits rg) (md_headers (pe_metadata pe)) = Inr ()"
    and raw: "sc_encoder sc (pe_event pe) = Inr (Inst raw)"
    and pay: "validate_payload (rg_limits rg) (Inst raw) = Inr raw"
    and al: "stable_text (Inst (sc_alias sc)) = Inr (sc_alias sc)" "1 \<le> sc_version sc"
    and se: "se_event se = \<lparr>ae_encoded = \<lparr>ee_event_type = sc_alias sc,
        ee_schema_version = sc_version sc, ee_payload = raw\<rparr>, ae_metadata = pe_metadata pe\<rparr>"
    and frz: "rg_frozen rg"
    using enc by (auto dest!: encode_InrD)
  have ok: "registry_ok rg" using built by (rule built_registry_ok)
  then have sc': "rg_by_alias rg (sc_alias sc) = Some sc" "sc_event_type sc = ev_class (pe_event pe)"
    "schema_ok sc"
    using sc by (auto simp: registry_ok_def)
  then have cls: "ev_class (pe_event pe) \<noteq> ''Event''" by (auto simp: schema_ok_def)
  show ?thesis
    using sc sc' cls hdr pay al stored codec [OF sc raw]
    by (auto simp: decode_def se frz mk_recorded_event_def valid_stored_event_def Let_def)
qed

text \<open>A registry with one schema whose codec is the identity on byte bodies.\<close>

definition demo_schema :: "byte_string event_schema" where
  "demo_schema = \<lparr>sc_alias = ''order'', sc_version = 2, sc_event_type = ''OrderPlaced'',
     sc_encoder = (\<lambda>e. Inr (Inst (ev_body e))),
     sc_decoder = (\<lambda>p. Inr (Inst \<lparr>ev_class = ''OrderPlaced'', ev_body = p\<rparr>)),
     sc_upcasters = [1 \<mapsto> (\<lambda>p. Inr (Inst (p @ [0])))]\<rparr>"

definition demo_registry :: "byte_string schema_registry" where
  "demo_registry = freeze ((new_registry None)\<lparr>rg_by_alias := [''order'' \<mapsto> demo_schema],
     rg_by_class := [''OrderPlaced'' \<mapsto> demo_schema]\<rparr>)"

definition demo_metadata :: "uuid \<Rightarrow> event_metadata" where
  "demo_metadata u = \<lparr>md_event_id = u, md_occurred_at = Aware 0, md_correlation_id = None,
     md_causation_id = None, md_headers = fmempty\<rparr>"

definition demo_append :: "uuid \<Rightarrow> int \<Rightarrow> byte_string \<Rightarrow> append_event" where
  "demo_append u v p = \<lparr>ae_encoded = \<lparr>ee_event_type = ''order'', ee_schema_version = v,
     ee_payload = p\<rparr>, ae_metadata = demo_metadata u\<rparr>"

lemma demo_schema_built:
  "mk_event_schema (Inst ''order'') (Inst 2) (Inst ''OrderPlaced'')
     (Inst (\<lambda>e. Inr (Inst (ev_body e))))
     (Inst (\<lambda>p. Inr (Inst \<lparr>ev_class = ''OrderPlaced'', ev_body = p\<rparr>)))
     [(Inst 1, Inst (\<lambda>p. Inr (Inst (p @ [0]))))] = Inr demo_schema"
  by (simp add: mk_event_schema_def demo_schema_def sources_complete_def py_defs code_point_def)

lemma demo_registry_built: "built_registry demo_registry"
proof -
  have "register (new_registry None) (Inst demo_schema) =
      Inr ((new_registry None)\<lparr>rg_by_alias := [''order'' \<mapsto> demo_schema],
        rg_by_class := [''OrderPlaced'' \<mapsto> demo_schema]\<rparr>)"
    by (simp add: register_def new_registry_def demo_schema_def default_limits_def)
  then show ?thesis
    unfolding demo_registry_def
    by (intro built_registry.frozen built_registry.registered [OF built_registry.new demo_schema_built])
qed

lemma demo_encode:
  "length p < 1000 \<Longrightarrow>
   encode demo_registry (Inst \<lparr>pe_event = \<lparr>ev_class = ''OrderPlaced'', ev_body = p\<rparr>,
     pe_metadata = demo_metadata u\<rparr>) = Inr (demo_append u 2 p)"
  by (simp add: encode_def demo_registry_def demo_schema_def demo_metadata_def demo_append_def
      freeze_def new_registry_def default_limits_def validate_header_mapping_def
      mk_encoded_event_def mk_append_event_def py_defs code_point_def fcard.rep_eq)

theorem decode_encode_roundtrip_witness:
  "\<exists>sc. rg_by_class demo_registry ''OrderPlaced'' = Some sc \<and>
     decode demo_registry (Inst \<lparr>se_stream_id = \<lparr>sid_category = ''c'', sid_key = ''k''\<rparr>,
         se_stream_version = 1, se_global_position = 4, se_event = demo_append 7 2 [1, 2]\<rparr>) =
       Inr \<lparr>re_stream_id = \<lparr>sid_category = ''c'', sid_key = ''k''\<rparr>, re_stream_version = 1,
            re_global_position = 4, re_event_type = sc_alias sc, re_schema_version = sc_version sc,
            re_event = \<lparr>ev_class = ''OrderPlaced'', ev_body = [1, 2]\<rparr>,
            re_metadata = demo_metadata 7\<rparr>"
proof -
  let ?pe = "\<lparr>pe_event = \<lparr>ev_class = ''OrderPlaced'', ev_body = [1, 2]\<rparr>,
    pe_metadata = demo_metadata 7\<rparr> :: byte_string pending_event"
  let ?se = "\<lparr>se_stream_id = \<lparr>sid_category = ''c'', sid_key = ''k''\<rparr>,
    se_stream_version = 1, se_global_position = 4, se_event = demo_append 7 2 [1, 2]\<rparr>"
  have enc: "encode demo_registry (Inst ?pe) = Inr (se_event ?se)"
    by (simp add: demo_encode)
  have "\<exists>sc. rg_by_class demo_registry (ev_class (pe_event ?pe)) = Some sc \<and>
     decode demo_registry (Inst ?se) =
       Inr \<lparr>re_stream_id = se_stream_id ?se, re_stream_version = se_stream_version ?se,
            re_global_position = se_global_position ?se, re_event_type = sc_alias sc,
            re_schema_version = sc_version sc, re_event = pe_event ?pe,
            re_metadata = pe_metadata ?pe\<rparr>"
  proof (rule decode_encode_roundtrip [OF demo_registry_built enc])
    show "valid_stored_event ?se" by (simp add: valid_stored_event_def)
  qed (auto simp: demo_registry_def demo_schema_def freeze_def)
  then show ?thesis by simp
qed

text \<open>C37: in every registry a program can build, decoding a payload of any older schema version
  runs exactly the declared upcasters from that version to the current one, in order, each
  result checked against the payload limit: the step limit is never hit and no upcaster is
  ever missing, and the loop ends.\<close>

theorem upcast_loop_runs_upcasters:
  assumes "built_registry rg" "rg_by_alias rg al = Some sc" "1 \<le> v" "v \<le> sc_version sc"
  shows "upcast_loop (rg_limits rg) sc v 0 p =
     run_upcasters (rg_limits rg) (map (\<lambda>i. the (sc_upcasters sc i)) [v .. sc_version sc - 1]) p"
proof (rule upcast_loop_run)
  have "registry_ok rg" using assms(1) by (rule built_registry_ok)
  then show "schema_ok sc" "0 + (sc_version sc - v) \<le> max_upcast_steps (rg_limits rg)"
    using assms(2,3) by (fastforce simp: registry_ok_def)+
qed (use assms in auto)

theorem upcast_loop_runs_upcasters_witness:
  "upcast_loop (rg_limits demo_registry) demo_schema 1 0 [5] = Inr [5, 0]"
proof -
  have al: "rg_by_alias demo_registry ''order'' = Some demo_schema"
    by (simp add: demo_registry_def freeze_def)
  have v: "(1::int) \<le> 1" "1 \<le> sc_version demo_schema" by (simp_all add: demo_schema_def)
  have range: "[1 .. sc_version demo_schema - 1] = [1]" by (simp add: demo_schema_def)
  show ?thesis
    using upcast_loop_runs_upcasters [OF demo_registry_built al v, of "[5]"]
    unfolding range
    by (simp add: demo_schema_def demo_registry_def freeze_def new_registry_def default_limits_def)
qed

end
