(* ===== verification/ES_UnitOfWork.thy ===== *)
theory ES_UnitOfWork
  imports ES_Aggregate ES_Codec
begin

text \<open>
  The unit of work (\<open>EventSourcingUnitOfWork\<close> of \<open>repository.py\<close>, with \<open>outcomes.py\<close>): it owns one
  store transaction and the aggregates enlisted in it.

  Aggregates are objects: they live in a heap and are named by their identity. The unit of
  work is written against the \<open>EventStoreTransaction\<close> protocol, so what an awaited transaction
  call returned or raised is an argument of the operation that awaits it, and an operation with
  one wait is a part before it and a part after it. The synchronous \<open>append\<close> is a function
  argument on the transaction's state.
\<close>

datatype uow_state =
    UowNew | UowEntering | UowActive | UowCommitting | UowRollingBack
  | UowCommitted | UowRolledBack | UowFaulted

datatype uow_outcome =
    ConfirmedCommit commit_result
  | ConfirmedNonCommit "es_error option"
  | IndeterminateCommit es_error

record 'p commit_plan =
  pl_aggregate :: nat
  pl_stream_id :: stream_id
  pl_expected_version :: int
  pl_pending :: "'p pending_event list"
  pl_append_events :: "append_event list"

definition plan_final_version :: "'p commit_plan \<Rightarrow> int" where
  "plan_final_version pl = pl_expected_version pl + int (length (pl_pending pl))"

record 'p uow =
  uw_ref :: nat
  uw_state :: uow_state
  uw_context :: bool
  uw_plans :: "'p commit_plan list"
  uw_aggregates :: "nat set"
  uw_streams :: "stream_id set"
  uw_commit_result :: "commit_result option"
  uw_outcome :: "uow_outcome option"

type_synonym ('i, 'p, 's) heap = "nat \<Rightarrow> ('i, 'p, 's) aggregate"

definition new_uow :: "nat \<Rightarrow> 'p uow" where
  "new_uow ref = \<lparr>uw_ref = ref, uw_state = UowNew, uw_context = False, uw_plans = [],
     uw_aggregates = {}, uw_streams = {}, uw_commit_result = None, uw_outcome = None\<rparr>"

definition uow_get_outcome :: "'p uow \<Rightarrow> es_error + uow_outcome" where
  "uow_get_outcome uw =
     (case uw_outcome uw of None \<Rightarrow> Inl UnitOfWorkLifecycleError | Some oc \<Rightarrow> Inr oc)"

definition uow_require_active :: "'p uow \<Rightarrow> es_error + unit" where
  "uow_require_active uw =
     (if uw_state uw \<noteq> UowActive then Inl UnitOfWorkLifecycleError else Inr ())"

section \<open>Entering\<close>

definition uow_aenter_start :: "'p uow \<Rightarrow> (es_error + unit) \<times> 'p uow" where
  [op_defs]: "uow_aenter_start uw =
     (if uw_state uw \<noteq> UowNew then (Inl UnitOfWorkLifecycleError, uw)
      else (Inr (), uw\<lparr>uw_state := UowEntering\<rparr>))"

definition uow_aenter_finish :: "es_error + unit \<Rightarrow> 'p uow \<Rightarrow> (es_error + unit) \<times> 'p uow" where
  [op_defs]: "uow_aenter_finish entered uw =
     (case entered of
        Inl e \<Rightarrow> (Inl e, uw\<lparr>uw_state := UowRolledBack, uw_outcome := Some (ConfirmedNonCommit (Some e))\<rparr>)
      | Inr _ \<Rightarrow> (Inr (), uw\<lparr>uw_context := True, uw_state := UowActive\<rparr>))"

section \<open>Releasing and faulting every planned aggregate\<close>

fun release_all ::
  "nat \<Rightarrow> 'p commit_plan list \<Rightarrow> ('i, 'p, 's) heap \<Rightarrow> (es_error + unit) \<times> ('i, 'p, 's) heap" where
  "release_all owner [] hp = (Inr (), hp)"
| "release_all owner (pl # pls) hp =
     (if is_enlisted (hp (pl_aggregate pl)) then
        (case release (hp (pl_aggregate pl)) owner of
           (Inl e, ag) \<Rightarrow> (Inl e, hp(pl_aggregate pl := ag))
         | (Inr _, ag) \<Rightarrow> release_all owner pls (hp(pl_aggregate pl := ag)))
      else release_all owner pls hp)"

fun fault_all ::
  "nat \<Rightarrow> 'p commit_plan list \<Rightarrow> ('i, 'p, 's) heap \<Rightarrow> (es_error + unit) \<times> ('i, 'p, 's) heap" where
  "fault_all owner [] hp = (Inr (), hp)"
| "fault_all owner (pl # pls) hp =
     (if is_enlisted (hp (pl_aggregate pl)) then
        (case fault (hp (pl_aggregate pl)) owner of
           (Inl e, ag) \<Rightarrow> (Inl e, hp(pl_aggregate pl := ag))
         | (Inr _, ag) \<Rightarrow> fault_all owner pls (hp(pl_aggregate pl := ag)))
      else fault_all owner pls hp)"

section \<open>Staging\<close>

definition validate_stage ::
  "'p uow \<Rightarrow> ('i, 'p, 's) heap \<Rightarrow> nat \<Rightarrow> stream_id \<Rightarrow> es_error + unit" where
  "validate_stage uw hp a sid =
     (case uow_require_active uw of Inl e \<Rightarrow> Inl e | Inr _ \<Rightarrow>
      if a \<in> uw_aggregates uw then Inl DuplicateAggregateSaveError
      else if sid \<in> uw_streams uw then Inl DuplicateStreamAggregateError
      else validate_staging (hp a) sid)"

definition stage ::
  "('t \<Rightarrow> stream_id \<Rightarrow> int \<Rightarrow> append_event list \<Rightarrow> (es_error + unit) \<times> 't) \<Rightarrow> 't \<Rightarrow>
   'p uow \<Rightarrow> ('i, 'p, 's) heap \<Rightarrow> nat \<Rightarrow> stream_id \<Rightarrow> 'p pending_event list \<Rightarrow>
   append_event list \<Rightarrow> (es_error + unit) \<times> 't \<times> 'p uow \<times> ('i, 'p, 's) heap" where
  [op_defs]: "stage app t uw hp a sid pending append_events =
     (case validate_stage uw hp a sid of Inl e \<Rightarrow> (Inl e, t, uw, hp) | Inr _ \<Rightarrow>
     (case enlist (hp a) (uw_ref uw) sid pending of
        (Inl e, ag) \<Rightarrow> (Inl e, t, uw, hp(a := ag))
      | (Inr _, ag) \<Rightarrow>
     (case app t sid (ag_version ag) append_events of
        (Inl e, t') \<Rightarrow>
          (case release ag (uw_ref uw) of
             (Inl e', ag') \<Rightarrow> (Inl e', t', uw, hp(a := ag'))
           | (Inr _, ag') \<Rightarrow> (Inl e, t', uw, hp(a := ag')))
      | (Inr _, t') \<Rightarrow>
          (Inr (), t', uw\<lparr>
             uw_plans := uw_plans uw @ [\<lparr>pl_aggregate = a, pl_stream_id = sid,
               pl_expected_version = ag_version ag, pl_pending = pending,
               pl_append_events = append_events\<rparr>],
             uw_aggregates := insert a (uw_aggregates uw),
             uw_streams := insert sid (uw_streams uw)\<rparr>, hp(a := ag)))))"

section \<open>Rolling back\<close>

text \<open>\<open>_rollback\<close> from its first line to the wait is the change of state; \<open>rolled_back\<close> is what
  the awaited \<open>transaction.rollback()\<close> gave. A handler whose own \<open>_fault_all\<close> or
  \<open>_release_all\<close> raises stops there.\<close>

definition settle ::
  "uow_state \<Rightarrow> uow_outcome \<Rightarrow> es_error + unit \<Rightarrow> 'p uow \<Rightarrow>
   (es_error + unit) \<times> ('i, 'p, 's) heap \<Rightarrow>
   (es_error + unit) \<times> 'p uow \<times> ('i, 'p, 's) heap" where
  "settle state oc result uw cleaned =
     (case cleaned of
        (Inl e, hp) \<Rightarrow> (Inl e, uw, hp)
      | (Inr _, hp) \<Rightarrow> (result, uw\<lparr>uw_state := state, uw_outcome := Some oc\<rparr>, hp))"

definition rollback_finish ::
  "es_error option \<Rightarrow> es_error + unit \<Rightarrow> 'p uow \<Rightarrow> ('i, 'p, 's) heap \<Rightarrow>
   (es_error + unit) \<times> 'p uow \<times> ('i, 'p, 's) heap" where
  [op_defs]: "rollback_finish cause rolled_back uw hp =
     (case rolled_back of
        Inl e \<Rightarrow> settle UowFaulted
          (ConfirmedNonCommit (case cause of Some c \<Rightarrow> Some c | None \<Rightarrow> Some e))
          (Inl e) uw (fault_all (uw_ref uw) (uw_plans uw) hp)
      | Inr _ \<Rightarrow> settle UowRolledBack (ConfirmedNonCommit cause) (Inr ()) uw
          (release_all (uw_ref uw) (uw_plans uw) hp))"

definition uow_rollback_start :: "'p uow \<Rightarrow> (es_error + unit) \<times> 'p uow" where
  [op_defs]: "uow_rollback_start uw =
     (case uow_require_active uw of Inl e \<Rightarrow> (Inl e, uw)
      | Inr _ \<Rightarrow> (Inr (), uw\<lparr>uw_state := UowRollingBack\<rparr>))"

definition uow_rollback ::
  "es_error + unit \<Rightarrow> 'p uow \<Rightarrow> ('i, 'p, 's) heap \<Rightarrow>
   (es_error + unit) \<times> 'p uow \<times> ('i, 'p, 's) heap" where
  [op_defs]: "uow_rollback rolled_back uw hp =
     (case uow_rollback_start uw of
        (Inl e, uw') \<Rightarrow> (Inl e, uw', hp)
      | (Inr _, uw') \<Rightarrow> rollback_finish None rolled_back uw' hp)"

section \<open>Leaving the context\<close>

text \<open>\<open>closed\<close> is what the awaited \<open>context.__aexit__\<close> gave.\<close>

definition uow_close :: "es_error + unit \<Rightarrow> 'p uow \<Rightarrow> es_error + unit" where
  "uow_close closed uw =
     (case closed of
        Inr _ \<Rightarrow> Inr ()
      | Inl e \<Rightarrow>
          (case uw_commit_result uw of
             Some r \<Rightarrow> if uw_state uw = UowCommitted
                        then Inl (ConfirmedCommitCleanupError r e) else Inl e
           | None \<Rightarrow> Inl e))"

definition uow_aexit ::
  "es_error option \<Rightarrow> es_error + unit \<Rightarrow> es_error + unit \<Rightarrow> 'p uow \<Rightarrow> ('i, 'p, 's) heap \<Rightarrow>
   (es_error + unit) \<times> 'p uow \<times> ('i, 'p, 's) heap" where
  [op_defs]: "uow_aexit error rolled_back closed uw hp =
     (if \<not> uw_context uw then (Inr (), uw, hp)
      else if uw_state uw \<in> {UowCommitting, UowRollingBack}
        then (Inl UnitOfWorkLifecycleError, uw, hp)
      else if uw_state uw = UowActive then
        (case rollback_finish error rolled_back (uw\<lparr>uw_state := UowRollingBack\<rparr>) hp of
           (Inl e, uw', hp') \<Rightarrow>
             (case fault_all (uw_ref uw') (uw_plans uw') hp' of
                (Inl e', hp'') \<Rightarrow> (Inl e', uw', hp'')
              | (Inr _, hp'') \<Rightarrow> (Inl e, uw'\<lparr>uw_state := UowFaulted\<rparr>, hp''))
         | (Inr _, uw', hp') \<Rightarrow> (uow_close closed uw', uw', hp'))
      else (uow_close closed uw, uw, hp))"

section \<open>Committing\<close>

text \<open>The identities of the prepared-commit objects are the numbers from \<open>ref\<close> on.\<close>

fun prepare_all ::
  "nat \<Rightarrow> nat \<Rightarrow> 'p commit_plan list \<Rightarrow> ('i, 'p, 's) heap \<Rightarrow>
   (es_error + (nat \<times> nat) list) \<times> ('i, 'p, 's) heap" where
  "prepare_all ref owner [] hp = (Inr [], hp)"
| "prepare_all ref owner (pl # pls) hp =
     (case prepare_commit ref (hp (pl_aggregate pl)) owner (pl_pending pl) (plan_final_version pl) of
        (Inl e, ag) \<Rightarrow> (Inl e, hp(pl_aggregate pl := ag))
      | (Inr transition, ag) \<Rightarrow>
          (case prepare_all (Suc ref) owner pls (hp(pl_aggregate pl := ag)) of
             (Inl e, hp') \<Rightarrow> (Inl e, hp')
           | (Inr rest, hp') \<Rightarrow> (Inr ((pl_aggregate pl, transition) # rest), hp')))"

text \<open>The part of \<open>commit\<close> before its wait: refused (\<open>Inl\<close>), or waiting for the rollback because
  preparing failed (\<open>Inr (Inl e)\<close>), or waiting for the storage commit with the prepared
  transitions (\<open>Inr (Inr ts)\<close>).\<close>

definition uow_commit_start ::
  "nat \<Rightarrow> 'p uow \<Rightarrow> ('i, 'p, 's) heap \<Rightarrow>
   (es_error + (es_error + (nat \<times> nat) list)) \<times> 'p uow \<times> ('i, 'p, 's) heap" where
  [op_defs]: "uow_commit_start ref uw hp =
     (case uow_require_active uw of Inl e \<Rightarrow> (Inl e, uw, hp) | Inr _ \<Rightarrow>
     (case prepare_all ref (uw_ref uw) (uw_plans uw) hp of
        (prepared, hp') \<Rightarrow> (Inr prepared, uw\<lparr>uw_state := UowCommitting\<rparr>, hp')))"

definition rollback_and_fault ::
  "es_error \<Rightarrow> es_error + unit \<Rightarrow> 'p uow \<Rightarrow> ('i, 'p, 's) heap \<Rightarrow>
   (es_error + unit) \<times> 'p uow \<times> ('i, 'p, 's) heap" where
  [op_defs]: "rollback_and_fault cause rolled_back uw hp =
     settle UowFaulted (ConfirmedNonCommit (Some cause)) rolled_back uw
       (fault_all (uw_ref uw) (uw_plans uw) hp)"

fun enumerate_versions ::
  "stream_id \<Rightarrow> int \<Rightarrow> append_event list \<Rightarrow> (stream_id \<times> int \<times> append_event) list" where
  "enumerate_versions sid version [] = []"
| "enumerate_versions sid version (ev # evs) =
     (sid, version + 1, ev) # enumerate_versions sid (version + 1) evs"

definition expected_events :: "'p commit_plan list \<Rightarrow> (stream_id \<times> int \<times> append_event) list" where
  "expected_events pls =
     concat (map (\<lambda>pl. enumerate_versions (pl_stream_id pl) (pl_expected_version pl)
                        (pl_append_events pl)) pls)"

fun validate_result :: "'p commit_plan list \<Rightarrow> commit_result arg \<Rightarrow> es_error + commit_result" where
  "validate_result pls Foreign = Inl CommitResultMismatchError"
| "validate_result pls (Inst result) =
     (let events = cr_events result; expected = expected_events pls in
      if length events \<noteq> length expected then Inl CommitResultMismatchError
      else if list_ex (\<lambda>(stored, (sid, version, ev)).
          se_stream_id stored \<noteq> sid \<or> se_stream_version stored \<noteq> version \<or> se_event stored \<noteq> ev)
          (zip events expected)
        then Inl CommitResultMismatchError
      else if length events \<noteq> card (set (map se_event_id events))
        then Inl CommitResultMismatchError
      else if list_ex (\<lambda>(previous, current).
          se_global_position current \<noteq> se_global_position previous + 1) (zip events (tl events))
        then Inl CommitResultMismatchError
      else Inr result)"

fun mark_all ::
  "(nat \<times> nat) list \<Rightarrow> ('i, 'p, 's) heap \<Rightarrow> (es_error + unit) \<times> ('i, 'p, 's) heap" where
  "mark_all [] hp = (Inr (), hp)"
| "mark_all ((a, transition) # ts) hp =
     (case mark_committed (hp a) transition of
        (Inl e, ag) \<Rightarrow> (Inl e, hp(a := ag))
      | (Inr _, ag) \<Rightarrow> mark_all ts (hp(a := ag)))"

text \<open>How the exception handlers of \<open>commit\<close> classify what the storage commit raised.\<close>

fun commit_failure ::
  "es_error \<Rightarrow> 'p uow \<Rightarrow> ('i, 'p, 's) heap \<Rightarrow> (es_error + unit) \<times> 'p uow \<times> ('i, 'p, 's) heap" where
  "commit_failure (OptimisticConcurrencyError sid v w) uw hp =
     settle UowRolledBack (ConfirmedNonCommit (Some (OptimisticConcurrencyError sid v w)))
       (Inl (OptimisticConcurrencyError sid v w)) uw (fault_all (uw_ref uw) (uw_plans uw) hp)"
| "commit_failure (DuplicateEventIdError u) uw hp =
     settle UowRolledBack (ConfirmedNonCommit (Some (DuplicateEventIdError u)))
       (Inl (DuplicateEventIdError u)) uw (fault_all (uw_ref uw) (uw_plans uw) hp)"
| "commit_failure IndeterminateCommitError uw hp =
     settle UowFaulted (IndeterminateCommit IndeterminateCommitError)
       (Inl IndeterminateCommitError) uw (fault_all (uw_ref uw) (uw_plans uw) hp)"
| "commit_failure CancelledError uw hp =
     settle UowRolledBack (ConfirmedNonCommit (Some CancelledError))
       (Inl CancelledError) uw (release_all (uw_ref uw) (uw_plans uw) hp)"
| "commit_failure ConfirmedCommitError uw hp =
     settle UowRolledBack (ConfirmedNonCommit (Some ConfirmedCommitError))
       (Inl ConfirmedCommitError) uw (release_all (uw_ref uw) (uw_plans uw) hp)"
| "commit_failure e uw hp =
     settle UowFaulted (IndeterminateCommit e) (Inl e) uw
       (fault_all (uw_ref uw) (uw_plans uw) hp)"

definition uow_commit_finish ::
  "(nat \<times> nat) list \<Rightarrow> es_error + commit_result arg \<Rightarrow> 'p uow \<Rightarrow> ('i, 'p, 's) heap \<Rightarrow>
   (es_error + commit_result) \<times> 'p uow \<times> ('i, 'p, 's) heap" where
  [op_defs]: "uow_commit_finish prepared committed uw hp =
     (case committed of
        Inl e \<Rightarrow>
          (case commit_failure e uw hp of
             (Inl e', uw', hp') \<Rightarrow> (Inl e', uw', hp')
           | (Inr _, uw', hp') \<Rightarrow> (Inl e, uw', hp'))
      | Inr returned \<Rightarrow>
     (case validate_result (uw_plans uw) returned of
        Inl e \<Rightarrow>
          (case settle UowFaulted (IndeterminateCommit e) (Inl e) uw
                  (fault_all (uw_ref uw) (uw_plans uw) hp) of
             (Inl e', uw', hp') \<Rightarrow> (Inl e', uw', hp')
           | (Inr _, uw', hp') \<Rightarrow> (Inl e, uw', hp'))
      | Inr result \<Rightarrow>
          let uw' = uw\<lparr>uw_commit_result := Some result, uw_outcome := Some (ConfirmedCommit result)\<rparr> in
          (case mark_all prepared hp of
             (Inl e, hp') \<Rightarrow> (Inl e, uw', hp')
           | (Inr _, hp') \<Rightarrow> (Inr result, uw'\<lparr>uw_state := UowCommitted\<rparr>, hp'))))"

text \<open>The whole of \<open>commit\<close>, given what the two possible waits give.\<close>

definition uow_commit ::
  "nat \<Rightarrow> es_error + unit \<Rightarrow> es_error + commit_result arg \<Rightarrow> 'p uow \<Rightarrow> ('i, 'p, 's) heap \<Rightarrow>
   (es_error + commit_result) \<times> 'p uow \<times> ('i, 'p, 's) heap" where
  [op_defs]: "uow_commit ref rolled_back committed uw hp =
     (case uow_commit_start ref uw hp of
        (Inl e, uw', hp') \<Rightarrow> (Inl e, uw', hp')
      | (Inr (Inl e), uw', hp') \<Rightarrow>
          (case rollback_and_fault e rolled_back uw' hp' of
             (Inl e', uw'', hp'') \<Rightarrow> (Inl e', uw'', hp'')
           | (Inr _, uw'', hp'') \<Rightarrow> (Inl e, uw'', hp''))
      | (Inr (Inr prepared), uw', hp') \<Rightarrow> uow_commit_finish prepared committed uw' hp')"

end
