(* ===== verification/ES_UnitOfWork_Runs.thy ===== *)
theory ES_UnitOfWork_Runs
  imports ES_UnitOfWork
begin

text \<open>
  Concurrent runs of any number of units of work over a shared heap of aggregates, with
  arbitrary behaviour of the store behind them: every awaited transaction call may return
  anything or raise anything, and application code raises and replays events between any two
  steps.

  Shown: an enlisted aggregate always belongs to exactly one live unit of work whose plan
  matches it, so none is ever left sealed by a finished one; the local steps of a commit
  (preparing, releasing, faulting, marking) never fail; and the effect of a commit on the unit of
  work and on every aggregate is given case by case for each possible outcome of the store.
\<close>

section \<open>Sweeps over planned aggregates\<close>

definition held_by :: "nat \<Rightarrow> ('i, 'p, 's) aggregate \<Rightarrow> bool" where
  "held_by owner ag \<longleftrightarrow> (\<exists>en. ag_enlistment ag = Some en \<and> en_owner en = owner)"

abbreviation released :: "('i, 'p, 's) aggregate \<Rightarrow> ('i, 'p, 's) aggregate" where
  "released ag \<equiv> ag\<lparr>ag_enlistment := None, ag_prepared_commit := None\<rparr>"

abbreviation faulted :: "('i, 'p, 's) aggregate \<Rightarrow> ('i, 'p, 's) aggregate" where
  "faulted ag \<equiv> ag\<lparr>ag_faulted := True, ag_enlistment := None, ag_prepared_commit := None\<rparr>"

definition on_aggregates ::
  "(('i, 'p, 's) aggregate \<Rightarrow> ('i, 'p, 's) aggregate) \<Rightarrow> 'p commit_plan list \<Rightarrow>
   ('i, 'p, 's) heap \<Rightarrow> ('i, 'p, 's) heap" where
  "on_aggregates f pls hp = (\<lambda>a. if a \<in> pl_aggregate ` set pls then f (hp a) else hp a)"

lemma on_aggregates_Cons:
  "pl_aggregate pl \<notin> pl_aggregate ` set pls \<Longrightarrow>
   on_aggregates f pls (hp(pl_aggregate pl := f (hp (pl_aggregate pl)))) = on_aggregates f (pl # pls) hp"
  by (auto simp: on_aggregates_def)

lemma release_all_held:
  assumes "distinct (map pl_aggregate pls)" "\<forall>pl \<in> set pls. held_by owner (hp (pl_aggregate pl))"
  shows "release_all owner pls hp = (Inr (), on_aggregates released pls hp)"
  using assms
proof (induction pls arbitrary: hp)
  case (Cons pl pls)
  let ?hp = "hp(pl_aggregate pl := released (hp (pl_aggregate pl)))"
  have "release (hp (pl_aggregate pl)) owner = (Inr (), released (hp (pl_aggregate pl)))"
    using Cons.prems by (auto simp: release_def owned_enlistment_def held_by_def)
  moreover have "\<forall>p \<in> set pls. held_by owner (?hp (pl_aggregate p))"
    using Cons.prems distinct_map_other [OF Cons.prems(1)] by simp
  moreover have "is_enlisted (hp (pl_aggregate pl))"
    using Cons.prems by (auto simp: is_enlisted_def held_by_def)
  ultimately show ?case
    using Cons.prems(1) Cons.IH [of ?hp] on_aggregates_Cons [of pl pls released hp]
    by (simp del: fun_upd_apply)
qed (simp add: on_aggregates_def)

lemma fault_all_held:
  assumes "distinct (map pl_aggregate pls)" "\<forall>pl \<in> set pls. held_by owner (hp (pl_aggregate pl))"
  shows "fault_all owner pls hp = (Inr (), on_aggregates faulted pls hp)"
  using assms
proof (induction pls arbitrary: hp)
  case (Cons pl pls)
  let ?hp = "hp(pl_aggregate pl := faulted (hp (pl_aggregate pl)))"
  have "fault (hp (pl_aggregate pl)) owner = (Inr (), faulted (hp (pl_aggregate pl)))"
    using Cons.prems by (auto simp: fault_def owned_enlistment_def held_by_def)
  moreover have "\<forall>p \<in> set pls. held_by owner (?hp (pl_aggregate p))"
    using Cons.prems distinct_map_other [OF Cons.prems(1)] by simp
  moreover have "is_enlisted (hp (pl_aggregate pl))"
    using Cons.prems by (auto simp: is_enlisted_def held_by_def)
  ultimately show ?case
    using Cons.prems(1) Cons.IH [of ?hp] on_aggregates_Cons [of pl pls faulted hp]
    by (simp del: fun_upd_apply)
qed (simp add: on_aggregates_def)

text \<open>A sweep over aggregates that are no longer enlisted does nothing.\<close>

lemma fault_all_idle:
  "\<forall>pl \<in> set pls. ag_enlistment (hp (pl_aggregate pl)) = None \<Longrightarrow>
   fault_all owner pls hp = (Inr (), hp)"
  by (induction pls) (auto simp: is_enlisted_def)

text \<open>What a plan and the aggregate it was made from have in common while the unit of work holds it.\<close>

definition plan_held :: "nat \<Rightarrow> ('i, 'p, 's) heap \<Rightarrow> 'p commit_plan \<Rightarrow> bool" where
  "plan_held owner hp pl \<longleftrightarrow>
     (\<exists>en. ag_enlistment (hp (pl_aggregate pl)) = Some en \<and> en_owner en = owner \<and>
        en_stream_id en = pl_stream_id pl \<and> en_events en = pl_pending pl) \<and>
     ag_pending_events (hp (pl_aggregate pl)) = pl_pending pl \<and>
     ag_version (hp (pl_aggregate pl)) = pl_expected_version pl \<and>
     \<not> ag_faulted (hp (pl_aggregate pl))"

lemma plan_held_by: "plan_held owner hp pl \<Longrightarrow> held_by owner (hp (pl_aggregate pl))"
  by (auto simp: plan_held_def held_by_def)

definition prepared_as ::
  "nat \<Rightarrow> 'p commit_plan \<Rightarrow> nat \<Rightarrow> ('i, 'p, 's) aggregate \<Rightarrow> ('i, 'p, 's) aggregate" where
  "prepared_as owner pl r ag = ag\<lparr>ag_prepared_commit := Some \<lparr>pc_ref = r, pc_owner = owner,
     pc_events = pl_pending pl, pc_version = plan_final_version pl\<rparr>\<rparr>"

lemma prepare_all_held:
  assumes "distinct (map pl_aggregate pls)" "\<forall>pl \<in> set pls. plan_held owner hp pl"
  shows "\<exists>ts hp'. prepare_all ref owner pls hp = (Inr ts, hp') \<and>
    map fst ts = map pl_aggregate pls \<and>
    (\<forall>a. a \<notin> pl_aggregate ` set pls \<longrightarrow> hp' a = hp a) \<and>
    (\<forall>(pl, a, r) \<in> set (zip pls ts). hp' a = prepared_as owner pl r (hp a))"
  using assms
proof (induction pls arbitrary: ref hp)
  case (Cons pl pls)
  let ?a = "pl_aggregate pl"
  let ?hp = "hp(?a := prepared_as owner pl ref (hp ?a))"
  have prep: "prepare_commit ref (hp ?a) owner (pl_pending pl) (plan_final_version pl) =
      (Inr ref, prepared_as owner pl ref (hp ?a))"
    using Cons.prems
    by (auto simp: prepare_commit_def owned_enlistment_def plan_held_def plan_final_version_def
        prepared_as_def)
  have "\<forall>p \<in> set pls. plan_held owner ?hp p"
    using Cons.prems distinct_map_other [OF Cons.prems(1)] by (simp add: plan_held_def)
  then obtain ts hp' where rest: "prepare_all (Suc ref) owner pls ?hp = (Inr ts, hp')"
    "map fst ts = map pl_aggregate pls"
    "\<And>a. a \<notin> pl_aggregate ` set pls \<Longrightarrow> hp' a = ?hp a"
    "\<And>p a r. (p, a, r) \<in> set (zip pls ts) \<Longrightarrow> hp' a = prepared_as owner p r (?hp a)"
    using Cons.IH [of ?hp "Suc ref"] Cons.prems by fastforce
  have own: "(p, a, r) \<in> set (zip pls ts) \<Longrightarrow> a \<in> pl_aggregate ` set pls" for p a r
    using rest(2) by (metis fst_conv image_eqI image_set set_zip_rightD)
  have fresh: "?a \<notin> pl_aggregate ` set pls" using Cons.prems(1) by simp
  have "hp' ?a = prepared_as owner pl ref (hp ?a)" using rest(3) [OF fresh] by simp
  moreover have "hp' a = prepared_as owner p r (hp a)" if "(p, a, r) \<in> set (zip pls ts)" for p a r
    using rest(4) [OF that] own [OF that] fresh by (metis fun_upd_other)
  ultimately have "\<forall>(p, a, r) \<in> set (zip (pl # pls) ((?a, ref) # ts)).
      hp' a = prepared_as owner p r (hp a)" by auto
  then show ?case using prep rest(1-3) by auto
qed simp

definition committed_as :: "'p commit_plan \<Rightarrow> ('i, 'p, 's) aggregate \<Rightarrow> ('i, 'p, 's) aggregate" where
  "committed_as pl ag = ag\<lparr>ag_version := plan_final_version pl, ag_pending_events := [],
     ag_enlistment := None, ag_prepared_commit := None\<rparr>"

text \<open>The prepared transitions of a list of plans are still in place.\<close>

definition transitions_ready ::
  "nat \<Rightarrow> 'p commit_plan list \<Rightarrow> (nat \<times> nat) list \<Rightarrow> ('i, 'p, 's) heap \<Rightarrow> bool" where
  "transitions_ready owner pls ts hp \<longleftrightarrow>
     map fst ts = map pl_aggregate pls \<and>
     (\<forall>(pl, a, r) \<in> set (zip pls ts). \<exists>pc. ag_prepared_commit (hp a) = Some pc \<and>
        pc_ref pc = r \<and> pc_owner pc = owner \<and> pc_version pc = plan_final_version pl)"

lemma mark_all_ready:
  assumes "distinct (map pl_aggregate pls)" "transitions_ready owner pls ts hp"
  shows "\<exists>hp'. mark_all ts hp = (Inr (), hp') \<and>
    (\<forall>a. a \<notin> pl_aggregate ` set pls \<longrightarrow> hp' a = hp a) \<and>
    (\<forall>pl \<in> set pls. hp' (pl_aggregate pl) = committed_as pl (hp (pl_aggregate pl)))"
  using assms
proof (induction pls arbitrary: ts hp)
  case Nil
  then show ?case by (simp add: transitions_ready_def)
next
  case (Cons pl pls)
  let ?a = "pl_aggregate pl"
  let ?hp = "hp(?a := committed_as pl (hp ?a))"
  obtain r ts' where ts: "ts = (?a, r) # ts'"
    using Cons.prems(2) by (cases ts) (auto simp: transitions_ready_def)
  have mark: "mark_committed (hp ?a) r = (Inr (), committed_as pl (hp ?a))"
    using Cons.prems(2) by (auto simp: ts transitions_ready_def mark_committed_def committed_as_def)
  have own: "(p, a, q) \<in> set (zip pls ts') \<Longrightarrow> a \<in> pl_aggregate ` set pls" for p a q
    using Cons.prems(2)
    by (metis (no_types, lifting) fst_conv image_eqI image_set list.map(2) list.inject
        set_zip_rightD transitions_ready_def ts)
  have fresh: "?a \<notin> pl_aggregate ` set pls" using Cons.prems(1) by simp
  have "transitions_ready owner pls ts' ?hp"
    using Cons.prems(2) own fresh by (fastforce simp: transitions_ready_def ts)
  then obtain hp' where "mark_all ts' ?hp = (Inr (), hp')"
    "\<forall>a. a \<notin> pl_aggregate ` set pls \<longrightarrow> hp' a = ?hp a"
    "\<forall>p \<in> set pls. hp' (pl_aggregate p) = committed_as p (?hp (pl_aggregate p))"
    using Cons.IH [of ts' ?hp] Cons.prems(1) by fastforce
  moreover have "p \<in> set pls \<Longrightarrow> pl_aggregate p \<noteq> ?a" for p
    using distinct_map_other [OF Cons.prems(1)] .
  ultimately show ?case using mark fresh by (auto simp: ts)
qed

section \<open>Steps\<close>

text \<open>What a suspended unit of work is waiting for.\<close>

datatype uow_wait =
    WaitCommit "(nat \<times> nat) list"
  | WaitAbort es_error
  | WaitRollback "es_error option"

record ('i, 'p, 's) uow_sys =
  us_heap :: "('i, 'p, 's) heap"
  us_uows :: "nat \<rightharpoonup> 'p uow"
  us_wait :: "nat \<rightharpoonup> uow_wait"

definition update_uow ::
  "nat \<Rightarrow> ('i, 'p, 's) heap \<Rightarrow> 'p uow \<Rightarrow> uow_wait option \<Rightarrow> ('i, 'p, 's) uow_sys \<Rightarrow>
   ('i, 'p, 's) uow_sys" where
  "update_uow u hp uw w s = s\<lparr>us_heap := hp, us_uows := (us_uows s)(u \<mapsto> uw),
     us_wait := (us_wait s)(u := w)\<rparr>"

inductive uow_step :: "('i, 'p, 's) uow_sys \<Rightarrow> ('i, 'p, 's) uow_sys \<Rightarrow> bool" where
  step_new: "us_uows s u = None \<Longrightarrow>
     uow_step s (update_uow u (us_heap s) (new_uow u) None s)"
| step_enter: "us_uows s u = Some uw \<Longrightarrow> uow_aenter_start uw = (Inr (), uw') \<Longrightarrow>
     uow_step s (update_uow u (us_heap s) uw' None s)"
| step_entered: "us_uows s u = Some uw \<Longrightarrow> uw_state uw = UowEntering \<Longrightarrow>
     uow_aenter_finish entered uw = (r, uw') \<Longrightarrow>
     uow_step s (update_uow u (us_heap s) uw' None s)"
| step_stage: "us_uows s u = Some uw \<Longrightarrow>
     stage app () uw (us_heap s) a sid pending evs = (r, t, uw', hp') \<Longrightarrow>
     uow_step s (update_uow u hp' uw' (us_wait s u) s)"
| step_rollback: "us_uows s u = Some uw \<Longrightarrow> uow_rollback_start uw = (Inr (), uw') \<Longrightarrow>
     uow_step s (update_uow u (us_heap s) uw' (Some (WaitRollback None)) s)"
| step_exit: "us_uows s u = Some uw \<Longrightarrow> uw_state uw = UowActive \<Longrightarrow>
     uow_step s (update_uow u (us_heap s) (uw\<lparr>uw_state := UowRollingBack\<rparr>)
       (Some (WaitRollback error)) s)"
| step_rolled_back: "us_uows s u = Some uw \<Longrightarrow> us_wait s u = Some (WaitRollback cause) \<Longrightarrow>
     rollback_finish cause rolled_back uw (us_heap s) = (r, uw', hp') \<Longrightarrow>
     uow_step s (update_uow u hp' uw' None s)"
| step_commit: "us_uows s u = Some uw \<Longrightarrow>
     uow_commit_start ref uw (us_heap s) = (Inr prepared, uw', hp') \<Longrightarrow>
     uow_step s (update_uow u hp' uw'
       (Some (case prepared of Inl e \<Rightarrow> WaitAbort e | Inr ts \<Rightarrow> WaitCommit ts)) s)"
| step_aborted: "us_uows s u = Some uw \<Longrightarrow> us_wait s u = Some (WaitAbort cause) \<Longrightarrow>
     rollback_and_fault cause rolled_back uw (us_heap s) = (r, uw', hp') \<Longrightarrow>
     uow_step s (update_uow u hp' uw' None s)"
| step_committed: "us_uows s u = Some uw \<Longrightarrow> us_wait s u = Some (WaitCommit ts) \<Longrightarrow>
     uow_commit_finish ts committed uw (us_heap s) = (cr, uw', hp') \<Longrightarrow>
     uow_step s (update_uow u hp' uw' None s)"
| step_raise_event: "raise_event ap (us_heap s a) ev md fresh = (r, ag') \<Longrightarrow>
     uow_step s (s\<lparr>us_heap := (us_heap s)(a := ag')\<rparr>)"
| step_replay: "replay ap (us_heap s a) rs = (r, ag') \<Longrightarrow>
     uow_step s (s\<lparr>us_heap := (us_heap s)(a := ag')\<rparr>)"

definition usys_initial :: "('i, 'p, 's) uow_sys \<Rightarrow> bool" where
  "usys_initial s \<longleftrightarrow> us_uows s = Map.empty \<and> us_wait s = Map.empty \<and>
     (\<forall>a. \<exists>cls i s0. us_heap s a = new_aggregate_root cls i s0)"

definition uow_reachable :: "('i, 'p, 's) uow_sys \<Rightarrow> bool" where
  "uow_reachable s \<longleftrightarrow> (\<exists>s0. usys_initial s0 \<and> uow_step\<^sup>*\<^sup>* s0 s)"

section \<open>The invariant\<close>

definition live :: "'p uow \<Rightarrow> bool" where
  "live uw \<longleftrightarrow> uw_state uw \<in> {UowActive, UowCommitting, UowRollingBack}"

definition uow_inv ::
  "nat \<Rightarrow> ('i, 'p, 's) heap \<Rightarrow> uow_wait option \<Rightarrow> 'p uow \<Rightarrow> bool" where
  [inv_defs]: "uow_inv u hp w uw \<longleftrightarrow>
     uw_ref uw = u \<and> distinct (map pl_aggregate (uw_plans uw)) \<and>
     uw_aggregates uw = pl_aggregate ` set (uw_plans uw) \<and>
     distinct (map pl_stream_id (uw_plans uw)) \<and>
     uw_streams uw = pl_stream_id ` set (uw_plans uw) \<and>
     (live uw \<longrightarrow> (\<forall>pl \<in> set (uw_plans uw). plan_held u hp pl)) \<and>
     (uw_state uw \<in> {UowNew, UowEntering} \<longrightarrow> uw_plans uw = []) \<and>
     (case w of
        None \<Rightarrow> uw_state uw \<notin> {UowCommitting, UowRollingBack}
      | Some (WaitCommit ts) \<Rightarrow>
          uw_state uw = UowCommitting \<and> transitions_ready u (uw_plans uw) ts hp
      | Some (WaitRollback _) \<Rightarrow> uw_state uw = UowRollingBack
      | Some (WaitAbort _) \<Rightarrow> False)"

definition usys_ok :: "('i, 'p, 's) uow_sys \<Rightarrow> bool" where
  [inv_defs]: "usys_ok s \<longleftrightarrow>
     (\<forall>u uw. us_uows s u = Some uw \<longrightarrow> uow_inv u (us_heap s) (us_wait s u) uw) \<and>
     (\<forall>a en. ag_enlistment (us_heap s a) = Some en \<longrightarrow>
        (\<exists>uw. us_uows s (en_owner en) = Some uw \<and> live uw \<and> a \<in> pl_aggregate ` set (uw_plans uw)))"

lemma zip_keys:
  assumes "map fst ts = map f pls" "(pl, a, r) \<in> set (zip pls ts)"
  shows "a \<in> f ` set pls"
proof -
  have "(a, r) \<in> set ts" using assms(2) by (rule set_zip_rightD)
  then have "a \<in> set (map fst ts)" by force
  then show ?thesis by (simp add: assms(1))
qed

lemma transitions_ready_frame:
  assumes ready: "transitions_ready u pls ts hp"
    and same: "\<forall>pl \<in> set pls. hp' (pl_aggregate pl) = hp (pl_aggregate pl)"
  shows "transitions_ready u pls ts hp'"
proof -
  have keys: "map fst ts = map pl_aggregate pls" using ready by (simp add: transitions_ready_def)
  have "hp' (fst (snd x)) = hp (fst (snd x))" if "x \<in> set (zip pls ts)" for x
    using zip_keys [OF keys, of "fst x" "fst (snd x)" "snd (snd x)"] same that by auto
  then show ?thesis
    using ready unfolding transitions_ready_def by (simp add: case_prod_beta)
qed

lemma uow_inv_frame:
  assumes "uow_inv u hp w uw" "\<And>a. held_by u (hp a) \<Longrightarrow> hp' a = hp a"
  shows "uow_inv u hp' w uw"
proof -
  have same: "\<forall>pl \<in> set (uw_plans uw). hp' (pl_aggregate pl) = hp (pl_aggregate pl)" if "live uw"
    using assms that unfolding uow_inv_def by (meson plan_held_by)
  then have "live uw \<longrightarrow> (\<forall>pl \<in> set (uw_plans uw). plan_held u hp' pl)"
    using assms(1) by (simp add: uow_inv_def plan_held_def)
  moreover have "transitions_ready u (uw_plans uw) ts hp'"
    if "uw_state uw = UowCommitting" "transitions_ready u (uw_plans uw) ts hp" for ts
    using transitions_ready_frame [OF that(2)] same that(1) by (auto simp: live_def)
  ultimately show ?thesis
    using assms(1) unfolding uow_inv_def by (simp split: option.splits uow_wait.splits)
qed

lemma usys_okD:
  assumes "usys_ok s"
  shows "us_uows s u = Some uw \<Longrightarrow> uow_inv u (us_heap s) (us_wait s u) uw"
    and "ag_enlistment (us_heap s a) = Some en \<Longrightarrow>
       \<exists>uw. us_uows s (en_owner en) = Some uw \<and> live uw \<and> a \<in> pl_aggregate ` set (uw_plans uw)"
  using assms by (auto simp: usys_ok_def)

text \<open>A step of one unit of work: it may touch aggregates it holds and aggregates nobody holds.\<close>

lemma usys_ok_update:
  assumes ok: "usys_ok s"
    and frame: "\<And>a v. v \<noteq> u \<Longrightarrow> held_by v (us_heap s a) \<Longrightarrow> hp' a = us_heap s a"
    and inv: "uow_inv u hp' w uw'"
    and enl: "\<And>a en. ag_enlistment (hp' a) = Some en \<Longrightarrow>
       (en_owner en \<noteq> u \<and> hp' a = us_heap s a) \<or>
       (en_owner en = u \<and> live uw' \<and> a \<in> pl_aggregate ` set (uw_plans uw'))"
  shows "usys_ok (update_uow u hp' uw' w s)"
proof -
  have other: "uow_inv v hp' (us_wait s v) uv" if "us_uows s v = Some uv" "v \<noteq> u" for v uv
    using usys_okD(1) [OF ok that(1)] frame [OF that(2)] by (rule uow_inv_frame)
  have "\<exists>uw. ((us_uows s)(u \<mapsto> uw')) (en_owner en) = Some uw \<and> live uw \<and>
      a \<in> pl_aggregate ` set (uw_plans uw)" if "ag_enlistment (hp' a) = Some en" for a en
    using enl [OF that]
  proof
    assume "en_owner en \<noteq> u \<and> hp' a = us_heap s a"
    then show ?thesis using usys_okD(2) [OF ok, of a en] that by simp
  qed simp
  then show ?thesis
    unfolding usys_ok_def update_uow_def using inv other by simp
qed

lemma held_by_unique: "held_by u ag \<Longrightarrow> held_by v ag \<Longrightarrow> u = v"
  by (auto simp: held_by_def)

text \<open>The step ends the unit of work and lets go of its aggregates.\<close>

lemma usys_ok_end:
  assumes ok: "usys_ok s" and uw: "us_uows s u = Some uw" and lv: "live uw"
    and out: "\<And>a. a \<notin> pl_aggregate ` set (uw_plans uw) \<Longrightarrow> hp' a = us_heap s a"
    and gone: "\<And>a. a \<in> pl_aggregate ` set (uw_plans uw) \<Longrightarrow> ag_enlistment (hp' a) = None"
    and uw': "uw_ref uw' = uw_ref uw" "uw_plans uw' = uw_plans uw"
      "uw_aggregates uw' = uw_aggregates uw" "uw_streams uw' = uw_streams uw"
      "uw_state uw' \<in> {UowCommitted, UowRolledBack, UowFaulted}"
  shows "usys_ok (update_uow u hp' uw' None s)"
proof (rule usys_ok_update [OF ok])
  have inv: "uow_inv u (us_heap s) (us_wait s u) uw" using ok uw by (rule usys_okD)
  then have "\<forall>pl \<in> set (uw_plans uw). held_by u (us_heap s (pl_aggregate pl))"
    using lv by (simp add: uow_inv_def plan_held_by)
  then have held: "held_by u (us_heap s a)" if "a \<in> pl_aggregate ` set (uw_plans uw)" for a
    using that by fast
  show "hp' a = us_heap s a" if "v \<noteq> u" "held_by v (us_heap s a)" for a v
  proof (rule out, rule notI)
    assume "a \<in> pl_aggregate ` set (uw_plans uw)"
    from held_by_unique [OF held [OF this] that(2)] that(1) show False by simp
  qed
  have "\<not> live uw'" using uw'(5) by (auto simp: live_def)
  then show "uow_inv u hp' None uw'" using inv uw' unfolding uow_inv_def by auto
  show "(en_owner en \<noteq> u \<and> hp' a = us_heap s a) \<or>
      (en_owner en = u \<and> live uw' \<and> a \<in> pl_aggregate ` set (uw_plans uw'))"
    if en: "ag_enlistment (hp' a) = Some en" for a en
  proof -
    have a: "a \<notin> pl_aggregate ` set (uw_plans uw)"
      using gone [of a] en by (cases "a \<in> pl_aggregate ` set (uw_plans uw)") simp_all
    then have same: "hp' a = us_heap s a" by (rule out)
    then obtain uv where "us_uows s (en_owner en) = Some uv" "a \<in> pl_aggregate ` set (uw_plans uv)"
      using usys_okD(2) [OF ok, of a en] en by auto
    then have "en_owner en \<noteq> u" using a uw by (cases "en_owner en = u") simp_all
    then show ?thesis using same by simp
  qed
qed

section \<open>Outcomes of a commit\<close>

text \<open>Failures after which the aggregates may be used again: the store confirmed that nothing was
  written and no other writer is known to have moved the streams.\<close>

definition reusable :: "es_error \<Rightarrow> bool" where
  "reusable e \<longleftrightarrow> e = CancelledError \<or> e = ConfirmedCommitError"

definition stale :: "es_error \<Rightarrow> bool" where
  "stale e \<longleftrightarrow> (\<exists>sid v w. e = OptimisticConcurrencyError sid v w) \<or> (\<exists>u. e = DuplicateEventIdError u)"

definition failure_state :: "es_error \<Rightarrow> uow_state" where
  "failure_state e = (if reusable e \<or> stale e then UowRolledBack else UowFaulted)"

definition failure_outcome :: "es_error \<Rightarrow> uow_outcome" where
  "failure_outcome e =
     (if reusable e \<or> stale e then ConfirmedNonCommit (Some e) else IndeterminateCommit e)"

lemma commit_failure_eq:
  "commit_failure e uw hp = settle (failure_state e) (failure_outcome e) (Inl e) uw
     ((if reusable e then release_all else fault_all) (uw_ref uw) (uw_plans uw) hp)"
  by (cases e) (auto simp: failure_state_def failure_outcome_def reusable_def stale_def)

lemma settle_Inr [simp]:
  "settle st oc r uw (Inr (), hp) = (r, uw\<lparr>uw_state := st, uw_outcome := Some oc\<rparr>, hp)"
  by (simp add: settle_def)

lemma validate_result_InrD: "validate_result pls c = Inr r \<Longrightarrow> c = Inst r"
  by (cases c) (auto simp: Let_def split: if_splits)

text \<open>The part of a commit after the store has answered, while the transitions are in place.\<close>

lemma commit_finish_ready:
  assumes dist: "distinct (map pl_aggregate (uw_plans uw))"
    and held: "\<forall>pl \<in> set (uw_plans uw). plan_held (uw_ref uw) hp pl"
    and ready: "transitions_ready (uw_ref uw) (uw_plans uw) ts hp"
  shows "uow_commit_finish ts (Inl e) uw hp =
      (Inl e, uw\<lparr>uw_state := failure_state e, uw_outcome := Some (failure_outcome e)\<rparr>,
       on_aggregates (if reusable e then released else faulted) (uw_plans uw) hp)"
    and "validate_result (uw_plans uw) c = Inl e' \<Longrightarrow> uow_commit_finish ts (Inr c) uw hp =
      (Inl e', uw\<lparr>uw_state := UowFaulted, uw_outcome := Some (IndeterminateCommit e')\<rparr>,
       on_aggregates faulted (uw_plans uw) hp)"
    and "validate_result (uw_plans uw) c = Inr r \<Longrightarrow>
      \<exists>hp'. uow_commit_finish ts (Inr c) uw hp =
        (Inr r, uw\<lparr>uw_commit_result := Some r, uw_outcome := Some (ConfirmedCommit r),
           uw_state := UowCommitted\<rparr>, hp') \<and>
        (\<forall>a. a \<notin> pl_aggregate ` set (uw_plans uw) \<longrightarrow> hp' a = hp a) \<and>
        (\<forall>pl \<in> set (uw_plans uw). hp' (pl_aggregate pl) = committed_as pl (hp (pl_aggregate pl)))"
proof -
  have held': "\<forall>pl \<in> set (uw_plans uw). held_by (uw_ref uw) (hp (pl_aggregate pl))"
    using held plan_held_by by blast
  note sweeps = release_all_held [OF dist held'] fault_all_held [OF dist held']
  show "uow_commit_finish ts (Inl e) uw hp =
      (Inl e, uw\<lparr>uw_state := failure_state e, uw_outcome := Some (failure_outcome e)\<rparr>,
       on_aggregates (if reusable e then released else faulted) (uw_plans uw) hp)"
    by (simp add: uow_commit_finish_def commit_failure_eq sweeps)
  show "validate_result (uw_plans uw) c = Inl e' \<Longrightarrow> uow_commit_finish ts (Inr c) uw hp =
      (Inl e', uw\<lparr>uw_state := UowFaulted, uw_outcome := Some (IndeterminateCommit e')\<rparr>,
       on_aggregates faulted (uw_plans uw) hp)"
    by (simp add: uow_commit_finish_def sweeps)
  show "validate_result (uw_plans uw) c = Inr r \<Longrightarrow>
      \<exists>hp'. uow_commit_finish ts (Inr c) uw hp =
        (Inr r, uw\<lparr>uw_commit_result := Some r, uw_outcome := Some (ConfirmedCommit r),
           uw_state := UowCommitted\<rparr>, hp') \<and>
        (\<forall>a. a \<notin> pl_aggregate ` set (uw_plans uw) \<longrightarrow> hp' a = hp a) \<and>
        (\<forall>pl \<in> set (uw_plans uw). hp' (pl_aggregate pl) = committed_as pl (hp (pl_aggregate pl)))"
    using mark_all_ready [OF dist ready] by (auto simp: uow_commit_finish_def Let_def)
qed

lemma commit_start_held:
  assumes "uw_state uw = UowActive" "distinct (map pl_aggregate (uw_plans uw))"
    and "\<forall>pl \<in> set (uw_plans uw). plan_held (uw_ref uw) hp pl"
  shows "\<exists>ts hp'. uow_commit_start ref uw hp = (Inr (Inr ts), uw\<lparr>uw_state := UowCommitting\<rparr>, hp') \<and>
    transitions_ready (uw_ref uw) (uw_plans uw) ts hp' \<and>
    (\<forall>a. \<exists>p. hp' a = (hp a)\<lparr>ag_prepared_commit := p\<rparr>) \<and>
    (\<forall>a. a \<notin> pl_aggregate ` set (uw_plans uw) \<longrightarrow> hp' a = hp a)"
proof -
  obtain ts hp' where prep: "prepare_all ref (uw_ref uw) (uw_plans uw) hp = (Inr ts, hp')"
    and keys: "map fst ts = map pl_aggregate (uw_plans uw)"
    and out: "\<And>a. a \<notin> pl_aggregate ` set (uw_plans uw) \<Longrightarrow> hp' a = hp a"
    and zip: "\<And>pl a r. (pl, a, r) \<in> set (zip (uw_plans uw) ts) \<Longrightarrow>
      hp' a = prepared_as (uw_ref uw) pl r (hp a)"
    using prepare_all_held [OF assms(2,3), of ref] by fastforce
  have ready: "transitions_ready (uw_ref uw) (uw_plans uw) ts hp'"
    unfolding transitions_ready_def using keys zip by (auto simp: prepared_as_def)
  have "\<exists>p. hp' a = (hp a)\<lparr>ag_prepared_commit := p\<rparr>" for a
  proof (cases "a \<in> pl_aggregate ` set (uw_plans uw)")
    case True
    then have "a \<in> set (map fst ts)" using keys by simp
    then obtain i where i: "i < length ts" "fst (ts ! i) = a" by (auto simp: in_set_conv_nth)
    then have "i < length (uw_plans uw)" using keys by (metis length_map)
    then have "(uw_plans uw ! i, ts ! i) \<in> set (zip (uw_plans uw) ts)"
      using i by (auto simp: set_zip)
    then have "hp' a = prepared_as (uw_ref uw) (uw_plans uw ! i) (snd (ts ! i)) (hp a)"
      using zip [of "uw_plans uw ! i" a "snd (ts ! i)"] i by auto
    then show ?thesis unfolding prepared_as_def by blast
  next
    case False
    then have "hp' a = (hp a)\<lparr>ag_prepared_commit := ag_prepared_commit (hp a)\<rparr>" using out by simp
    then show ?thesis by blast
  qed
  then show ?thesis
    using prep ready out assms(1) by (auto simp: uow_commit_start_def uow_require_active_def)
qed

section \<open>Every step keeps the invariant\<close>

lemma plan_held_prepared:
  "plan_held u hp pl \<Longrightarrow> \<exists>p. hp' (pl_aggregate pl) = (hp (pl_aggregate pl))\<lparr>ag_prepared_commit := p\<rparr> \<Longrightarrow>
   plan_held u hp' pl"
  by (auto simp: plan_held_def)

lemma on_aggregates_out: "a \<notin> pl_aggregate ` set pls \<Longrightarrow> on_aggregates f pls hp a = hp a"
  by (simp add: on_aggregates_def)

lemma on_aggregates_in: "a \<in> pl_aggregate ` set pls \<Longrightarrow> on_aggregates f pls hp a = f (hp a)"
  by (simp add: on_aggregates_def)

lemma step_rolled_back_ok:
  assumes ok: "usys_ok s" and uw: "us_uows s u = Some uw"
    and w: "us_wait s u = Some (WaitRollback cause)"
    and rb: "rollback_finish cause rolled_back uw (us_heap s) = (r, uw', hp')"
  shows "usys_ok (update_uow u hp' uw' None s)"
proof -
  have inv: "uow_inv u (us_heap s) (us_wait s u) uw" using ok uw by (rule usys_okD)
  then have lv: "live uw" and ref: "uw_ref uw = u"
    and dist: "distinct (map pl_aggregate (uw_plans uw))"
    and held: "\<forall>pl \<in> set (uw_plans uw). held_by (uw_ref uw) (us_heap s (pl_aggregate pl))"
    using w by (auto simp: uow_inv_def live_def intro: plan_held_by)
  note sweeps = release_all_held [OF dist held] fault_all_held [OF dist held]
  show ?thesis
  proof (rule usys_ok_end [OF ok uw lv])
    show "hp' a = us_heap s a" if "a \<notin> pl_aggregate ` set (uw_plans uw)" for a
      using rb that by (auto simp: rollback_finish_def sweeps on_aggregates_out split: sum.splits)
    show "ag_enlistment (hp' a) = None" if "a \<in> pl_aggregate ` set (uw_plans uw)" for a
      using rb that by (auto simp: rollback_finish_def sweeps on_aggregates_in split: sum.splits)
  qed (use rb in \<open>auto simp: rollback_finish_def sweeps split: sum.splits\<close>)
qed

lemma step_committed_ok:
  assumes ok: "usys_ok s" and uw: "us_uows s u = Some uw"
    and w: "us_wait s u = Some (WaitCommit ts)"
    and cm: "uow_commit_finish ts committed uw (us_heap s) = (cr, uw', hp')"
  shows "usys_ok (update_uow u hp' uw' None s)"
proof -
  have inv: "uow_inv u (us_heap s) (us_wait s u) uw" using ok uw by (rule usys_okD)
  then have st: "uw_state uw = UowCommitting" and ref: "uw_ref uw = u"
    and dist: "distinct (map pl_aggregate (uw_plans uw))"
    and ready: "transitions_ready (uw_ref uw) (uw_plans uw) ts (us_heap s)"
    using w by (auto simp: uow_inv_def)
  have lv: "live uw" using st by (simp add: live_def)
  have held: "\<forall>pl \<in> set (uw_plans uw). plan_held (uw_ref uw) (us_heap s) pl"
    using inv lv ref by (simp add: uow_inv_def)
  note fin = commit_finish_ready [OF dist held ready]
  have res: "(\<forall>a. a \<notin> pl_aggregate ` set (uw_plans uw) \<longrightarrow> hp' a = us_heap s a) \<and>
      (\<forall>a \<in> pl_aggregate ` set (uw_plans uw). ag_enlistment (hp' a) = None) \<and>
      uw_ref uw' = uw_ref uw \<and> uw_plans uw' = uw_plans uw \<and> uw_aggregates uw' = uw_aggregates uw \<and>
      uw_streams uw' = uw_streams uw \<and> uw_state uw' \<in> {UowCommitted, UowRolledBack, UowFaulted}"
  proof (cases committed)
    case (Inl e)
    then have "hp' = on_aggregates (if reusable e then released else faulted) (uw_plans uw) (us_heap s)"
      "uw' = uw\<lparr>uw_state := failure_state e, uw_outcome := Some (failure_outcome e)\<rparr>"
      using cm fin(1) [of e] by simp_all
    then show ?thesis
      by (cases "reusable e") (simp_all add: on_aggregates_out on_aggregates_in failure_state_def)
  next
    case (Inr c)
    show ?thesis
    proof (cases "validate_result (uw_plans uw) c")
      case (Inl e)
      then show ?thesis using cm fin(2) [OF Inl] Inr by (auto simp: on_aggregates_out on_aggregates_in)
    next
      case v: (Inr r')
      then show ?thesis using cm fin(3) [OF v] Inr by (auto simp: committed_as_def)
    qed
  qed
  show ?thesis by (rule usys_ok_end [OF ok uw lv]) (use res in auto)
qed

text \<open>The step leaves the heap alone and the unit of work keeps its plans.\<close>

lemma usys_ok_same_heap:
  assumes ok: "usys_ok s" and inv: "uow_inv u (us_heap s) w uw'"
    and keep: "\<And>uw. us_uows s u = Some uw \<Longrightarrow> live uw \<Longrightarrow> live uw' \<and> uw_plans uw' = uw_plans uw"
  shows "usys_ok (update_uow u (us_heap s) uw' w s)"
proof (rule usys_ok_update [OF ok refl inv])
  fix a en
  assume en: "ag_enlistment (us_heap s a) = Some en"
  obtain uv where "us_uows s (en_owner en) = Some uv" "live uv" "a \<in> pl_aggregate ` set (uw_plans uv)"
    using usys_okD(2) [OF ok en] by blast
  then show "(en_owner en \<noteq> u \<and> us_heap s a = us_heap s a) \<or>
      (en_owner en = u \<and> live uw' \<and> a \<in> pl_aggregate ` set (uw_plans uw'))"
    using keep [of uv] by (cases "en_owner en = u") simp_all
qed

text \<open>One aggregate changes, which nobody holds before and at most this unit of work after.\<close>

lemma usys_ok_one:
  assumes ok: "usys_ok s" and uw: "us_uows s u = Some uw"
    and free: "ag_enlistment (us_heap s a) = None"
    and inv: "uow_inv u ((us_heap s)(a := ag)) w uw'"
    and keep: "live uw \<Longrightarrow> live uw' \<and> set (uw_plans uw) \<subseteq> set (uw_plans uw')"
    and enl: "\<And>en. ag_enlistment ag = Some en \<Longrightarrow>
       en_owner en = u \<and> live uw' \<and> a \<in> pl_aggregate ` set (uw_plans uw')"
  shows "usys_ok (update_uow u ((us_heap s)(a := ag)) uw' w s)"
proof (rule usys_ok_update [OF ok _ inv])
  show "((us_heap s)(a := ag)) b = us_heap s b" if "held_by v (us_heap s b)" for b v
    using free that by (cases "b = a") (simp_all add: held_by_def)
  fix b en
  assume en: "ag_enlistment (((us_heap s)(a := ag)) b) = Some en"
  show "(en_owner en \<noteq> u \<and> ((us_heap s)(a := ag)) b = us_heap s b) \<or>
      (en_owner en = u \<and> live uw' \<and> b \<in> pl_aggregate ` set (uw_plans uw'))"
  proof (cases "b = a")
    case True
    then show ?thesis using en enl by simp
  next
    case False
    then have "ag_enlistment (us_heap s b) = Some en" using en by simp
    then obtain uv where "us_uows s (en_owner en) = Some uv" "live uv"
      "b \<in> pl_aggregate ` set (uw_plans uv)" using usys_okD(2) [OF ok] by blast
    then show ?thesis
      using False uw keep subsetD [OF image_mono, of "set (uw_plans uw)" "set (uw_plans uw')" b pl_aggregate]
      by (cases "en_owner en = u") simp_all
  qed
qed

lemma plan_held_other:
  "plan_held u hp pl \<Longrightarrow> ag_enlistment (hp a) = None \<Longrightarrow> plan_held u (hp(a := ag)) pl"
  by (auto simp: plan_held_def)

lemma enlist_cases:
  "enlist ag owner sid evs = (r, ag') \<Longrightarrow>
     (\<exists>e. r = Inl e) \<and> ag' = ag \<or>
     r = Inr () \<and> \<not> ag_faulted ag \<and> ag_enlistment ag = None \<and> evs = ag_pending_events ag \<and>
     ag' = ag\<lparr>ag_stream_id := Some sid, ag_enlistment :=
                 Some \<lparr>en_owner = owner, en_stream_id = sid, en_events = evs\<rparr>,
                 ag_prepared_commit := None\<rparr>"
  by (cases r) (auto simp: enlist_def require_mutable_def split: option.splits if_splits)

lemma step_stage_ok:
  assumes ok: "usys_ok s" and uw: "us_uows s u = Some uw"
    and stg: "stage app () uw (us_heap s) a sid pending evs = (r, t, uw', hp')"
  shows "usys_ok (update_uow u hp' uw' (us_wait s u) s)"
proof -
  let ?hp = "us_heap s"
  have inv: "uow_inv u ?hp (us_wait s u) uw" using ok uw by (rule usys_okD)
  have same: "usys_ok (update_uow u ?hp uw (us_wait s u) s)"
    using usys_ok_same_heap [OF ok inv] uw by auto
  show ?thesis
  proof (cases "validate_stage uw ?hp a sid")
    case (Inl e)
    then show ?thesis using stg same by (simp add: stage_def)
  next
    case yes: (Inr _)
    then have act: "uw_state uw = UowActive" and new: "a \<notin> uw_aggregates uw" "sid \<notin> uw_streams uw"
      by (auto simp: validate_stage_def uow_require_active_def split: if_splits)
    then have lv: "live uw" by (simp add: live_def)
    have wait: "us_wait s u = None"
      using inv act by (auto simp: uow_inv_def split: option.splits uow_wait.splits)
    obtain er ag where enl: "enlist (?hp a) (uw_ref uw) sid pending = (er, ag)" by (rule prod.exhaust)
    show ?thesis
    proof (cases er)
      case (Inl e)
      then have "ag = ?hp a" using enlist_cases [OF enl] by auto
      then have "uw' = uw" "hp' = ?hp" using stg yes enl Inl by (simp_all add: stage_def)
      then show ?thesis using same by simp
    next
      case (Inr _)
      then have enlisted: "er = Inr ()" "\<not> ag_faulted (?hp a)" "ag_enlistment (?hp a) = None"
        "pending = ag_pending_events (?hp a)"
        "ag = (?hp a)\<lparr>ag_stream_id := Some sid, ag_enlistment :=
           Some \<lparr>en_owner = uw_ref uw, en_stream_id = sid, en_events = pending\<rparr>,
           ag_prepared_commit := None\<rparr>"
        using enlist_cases [OF enl] by simp_all
      have plans: "\<forall>pl \<in> set (uw_plans uw). plan_held u (?hp(a := ag')) pl" for ag'
        using inv lv enlisted(3) by (auto simp: uow_inv_def intro: plan_held_other)
      obtain ar t' where app: "app () sid (ag_version ag) evs = (ar, t')" by (rule prod.exhaust)
      show ?thesis
      proof (cases ar)
        case (Inl e)
        let ?ag = "(?hp a)\<lparr>ag_stream_id := Some sid, ag_enlistment := None,
          ag_prepared_commit := None\<rparr>"
        have res: "uw' = uw" "hp' = ?hp(a := ?ag)"
          using stg yes enl enlisted app Inl
          by (auto simp: stage_def release_def owned_enlistment_def)
        have "uow_inv u (?hp(a := ?ag)) (us_wait s u) uw"
          using inv plans wait by (simp add: uow_inv_def)
        then show ?thesis
          unfolding res by (rule usys_ok_one [OF ok uw enlisted(3)]) auto
      next
        case (Inr _)
        have res: "uw' = uw\<lparr>
             uw_plans := uw_plans uw @ [\<lparr>pl_aggregate = a, pl_stream_id = sid,
               pl_expected_version = ag_version ag, pl_pending = pending,
               pl_append_events = evs\<rparr>],
             uw_aggregates := insert a (uw_aggregates uw),
             uw_streams := insert sid (uw_streams uw)\<rparr>" "hp' = ?hp(a := ag)"
          using stg yes enl enlisted app Inr by (auto simp: stage_def)
        have "uow_inv u (?hp(a := ag)) (us_wait s u) uw'"
          using inv plans [of ag] wait act new enlisted
          unfolding res by (auto simp: uow_inv_def live_def plan_held_def)
        then show ?thesis
          unfolding res(2)
          by (rule usys_ok_one [OF ok uw enlisted(3)])
            (use lv inv enlisted in \<open>auto simp: res live_def uow_inv_def\<close>)
      qed
    qed
  qed
qed

lemma step_commit_ok:
  assumes ok: "usys_ok s" and uw: "us_uows s u = Some uw"
    and cm: "uow_commit_start ref uw (us_heap s) = (Inr prepared, uw', hp')"
  shows "usys_ok (update_uow u hp' uw'
     (Some (case prepared of Inl e \<Rightarrow> WaitAbort e | Inr ts \<Rightarrow> WaitCommit ts)) s)"
proof -
  have inv: "uow_inv u (us_heap s) (us_wait s u) uw" using ok uw by (rule usys_okD)
  have act: "uw_state uw = UowActive"
    using cm by (simp add: uow_commit_start_def uow_require_active_def split: if_splits)
  have ref: "uw_ref uw = u" and dist: "distinct (map pl_aggregate (uw_plans uw))"
    and held: "\<forall>pl \<in> set (uw_plans uw). plan_held (uw_ref uw) (us_heap s) pl"
    using inv act by (simp_all add: uow_inv_def live_def)
  obtain ts where ts: "prepared = Inr ts" "uw' = uw\<lparr>uw_state := UowCommitting\<rparr>"
    "transitions_ready u (uw_plans uw) ts hp'"
    and upd: "\<And>a. \<exists>p. hp' a = (us_heap s a)\<lparr>ag_prepared_commit := p\<rparr>"
    and out: "\<And>a. a \<notin> pl_aggregate ` set (uw_plans uw) \<Longrightarrow> hp' a = us_heap s a"
    using commit_start_held [OF act dist held, of ref] cm ref by auto
  have enl: "ag_enlistment (hp' a) = ag_enlistment (us_heap s a)" for a
    using upd [of a] by auto
  have held': "\<forall>pl \<in> set (uw_plans uw). plan_held u hp' pl"
    using held upd ref plan_held_prepared by blast
  show ?thesis
    unfolding ts(1) sum.case
  proof (rule usys_ok_update [OF ok])
    show "hp' a = us_heap s a" if "v \<noteq> u" "held_by v (us_heap s a)" for a v
    proof (rule out, rule notI)
      assume "a \<in> pl_aggregate ` set (uw_plans uw)"
      then have "held_by u (us_heap s a)" using held ref plan_held_by by fast
      from held_by_unique [OF this that(2)] that(1) show False by simp
    qed
    show "uow_inv u hp' (Some (WaitCommit ts)) uw'"
      using inv held' ts(2,3) unfolding uow_inv_def by (simp add: live_def)
    show "(en_owner en \<noteq> u \<and> hp' a = us_heap s a) \<or>
        (en_owner en = u \<and> live uw' \<and> a \<in> pl_aggregate ` set (uw_plans uw'))"
      if en: "ag_enlistment (hp' a) = Some en" for a en
    proof -
      have en': "ag_enlistment (us_heap s a) = Some en" using en enl by simp
      obtain uv where uv: "us_uows s (en_owner en) = Some uv" "a \<in> pl_aggregate ` set (uw_plans uv)"
        using usys_okD(2) [OF ok en'] by blast
      show ?thesis
      proof (cases "en_owner en = u")
        case True
        then show ?thesis using uv uw ts(2) by (simp add: live_def)
      next
        case False
        have "a \<notin> pl_aggregate ` set (uw_plans uw)"
        proof
          assume "a \<in> pl_aggregate ` set (uw_plans uw)"
          then have "held_by u (us_heap s a)" using held ref plan_held_by by fast
          then show False using False en' by (simp add: held_by_def)
        qed
        then show ?thesis using False out by simp
      qed
    qed
  qed
qed

lemma usys_ok_application:
  assumes ok: "usys_ok s"
    and ag: "ag' = us_heap s a \<or> ag_enlistment (us_heap s a) = None \<and> ag_enlistment ag' = None"
  shows "usys_ok (s\<lparr>us_heap := (us_heap s)(a := ag')\<rparr>)"
proof (cases "ag' = us_heap s a")
  case True
  then show ?thesis using ok by simp
next
  case False
  then have free: "ag_enlistment (us_heap s a) = None" "ag_enlistment ag' = None" using ag by auto
  have "uow_inv u ((us_heap s)(a := ag')) (us_wait s u) uw" if "us_uows s u = Some uw" for u uw
    using usys_okD(1) [OF ok that]
  proof (rule uow_inv_frame)
    show "held_by u (us_heap s b) \<Longrightarrow> ((us_heap s)(a := ag')) b = us_heap s b" for b
      using free by (cases "b = a") (simp_all add: held_by_def)
  qed
  moreover have "\<exists>uw. us_uows s (en_owner en) = Some uw \<and> live uw \<and> b \<in> pl_aggregate ` set (uw_plans uw)"
    if "ag_enlistment (((us_heap s)(a := ag')) b) = Some en" for b en
    using usys_okD(2) [OF ok, of b en] that free by (cases "b = a") simp_all
  ultimately show ?thesis by (simp add: usys_ok_def)
qed

lemma raise_event_free:
  "raise_event ap ag ev md fresh = (r, ag') \<Longrightarrow>
   ag' = ag \<or> ag_enlistment ag = None \<and> ag_enlistment ag' = None"
  by (auto simp: raise_event_def require_mutable_def split: if_splits sum.splits prod.splits)

lemma apply_page_enlistment:
  "apply_page ap ag rs = (r, ag') \<Longrightarrow> ag_enlistment ag' = ag_enlistment ag"
  by (induction ap ag rs rule: apply_page.induct) (auto split: sum.splits prod.splits)

lemma replay_free:
  "replay ap ag rs = (r, ag') \<Longrightarrow> ag' = ag \<or> ag_enlistment ag = None \<and> ag_enlistment ag' = None"
  by (auto simp: replay_def require_mutable_def Let_def simp del: apply_page.simps
      dest: apply_page_enlistment split: if_splits sum.splits option.splits list.splits)

lemma usys_ok_step: "uow_step s s' \<Longrightarrow> usys_ok s \<Longrightarrow> usys_ok s'"
proof (induction rule: uow_step.induct)
  case (step_new s u)
  show ?case
    by (rule usys_ok_same_heap [OF step_new(2)]) (auto simp: uow_inv_def new_uow_def live_def step_new)
next
  case (step_enter s u uw uw')
  have "uow_inv u (us_heap s) (us_wait s u) uw" using step_enter by (blast intro: usys_okD)
  then show ?case
    using step_enter
    by (intro usys_ok_same_heap)
      (auto simp: uow_inv_def uow_aenter_start_def live_def split: if_splits)
next
  case (step_entered s u uw entered r uw')
  have "uow_inv u (us_heap s) (us_wait s u) uw" using step_entered by (blast intro: usys_okD)
  then show ?case
    using step_entered
    by (intro usys_ok_same_heap)
      (auto simp: uow_inv_def uow_aenter_finish_def live_def split: sum.splits)
next
  case (step_stage s u uw app a sid pending evs r t uw' hp')
  then show ?case by (blast intro: step_stage_ok)
next
  case (step_rollback s u uw uw')
  have "uow_inv u (us_heap s) (us_wait s u) uw" using step_rollback by (blast intro: usys_okD)
  then show ?case
    using step_rollback
    by (intro usys_ok_same_heap)
      (auto simp: uow_inv_def uow_rollback_start_def uow_require_active_def live_def split: if_splits)
next
  case (step_exit s u uw error)
  have "uow_inv u (us_heap s) (us_wait s u) uw" using step_exit by (blast intro: usys_okD)
  then show ?case
    using step_exit by (intro usys_ok_same_heap) (auto simp: uow_inv_def live_def)
next
  case (step_rolled_back s u uw cause rolled_back r uw' hp')
  then show ?case by (blast intro: step_rolled_back_ok)
next
  case (step_commit s u uw ref prepared uw' hp')
  then show ?case by (blast intro: step_commit_ok)
next
  case (step_aborted s u uw cause rolled_back r uw' hp')
  have "uow_inv u (us_heap s) (us_wait s u) uw" using step_aborted by (blast intro: usys_okD)
  then show ?case using step_aborted(2) by (simp add: uow_inv_def)
next
  case (step_committed s u uw ts committed cr uw' hp')
  then show ?case by (blast intro: step_committed_ok)
next
  case (step_raise_event ap s a ev md fresh r ag')
  then show ?case by (blast intro: usys_ok_application dest: raise_event_free)
next
  case (step_replay ap s a rs r ag')
  then show ?case by (blast intro: usys_ok_application dest: replay_free)
qed

lemma usys_ok_reachable: "uow_reachable s \<Longrightarrow> usys_ok s"
proof -
  assume "uow_reachable s"
  then obtain s0 where init: "usys_initial s0" and run: "uow_step\<^sup>*\<^sup>* s0 s"
    by (auto simp: uow_reachable_def)
  have "usys_ok s0"
  proof -
    have "ag_enlistment (us_heap s0 a) = None" for a
    proof -
      obtain cls i d where "us_heap s0 a = new_aggregate_root cls i d"
        using init unfolding usys_initial_def by blast
      then show ?thesis by (simp add: new_aggregate_root_def)
    qed
    then show ?thesis using init by (simp add: usys_ok_def usys_initial_def)
  qed
  with run show ?thesis by (induction rule: rtranclp_induct) (auto intro: usys_ok_step)
qed

section \<open>Guarantees\<close>

text \<open>C7: ownership is exclusive and never leaks. In every reachable state an enlisted aggregate is
  planned by the unit of work it names, that unit of work is still active, committing or
  rolling back, and its plan has exactly the aggregate's stream, version and pending events.\<close>

theorem enlisted_aggregate_is_planned:
  assumes "uow_reachable s" "ag_enlistment (us_heap s a) = Some en"
  shows "\<exists>uw pl. us_uows s (en_owner en) = Some uw \<and>
     uw_state uw \<in> {UowActive, UowCommitting, UowRollingBack} \<and>
     pl \<in> set (uw_plans uw) \<and> pl_aggregate pl = a \<and> pl_stream_id pl = en_stream_id en \<and>
     pl_expected_version pl = ag_version (us_heap s a) \<and>
     pl_pending pl = ag_pending_events (us_heap s a) \<and> \<not> ag_faulted (us_heap s a)"
proof -
  have ok: "usys_ok s" using assms(1) by (rule usys_ok_reachable)
  obtain uw pl where uw: "us_uows s (en_owner en) = Some uw" "live uw"
    and pl: "pl \<in> set (uw_plans uw)" "a = pl_aggregate pl"
    using usys_okD(2) [OF ok assms(2)] by blast
  have "plan_held (en_owner en) (us_heap s) pl"
    using usys_okD(1) [OF ok uw(1)] uw(2) pl(1) by (simp add: uow_inv_def)
  then show ?thesis
    using uw pl assms(2) by (auto simp: plan_held_def live_def)
qed

text \<open>C5: what \<open>commit\<close> of an active unit of work does, for every possible answer of the store and
  in every reachable state. It never fails locally: preparing, marking, releasing and
  faulting all succeed. If the store raises \<open>e\<close>, commit raises \<open>e\<close>; the outcome is a confirmed
  non-commit for a version conflict, a duplicate identity, a cancellation or a confirmed
  commit error, and indeterminate otherwise; the aggregates are released for reuse after a
  cancellation or a confirmed commit error and faulted otherwise. A malformed result makes
  the outcome indeterminate and faults the aggregates. A valid result is returned, and each
  planned aggregate moves to its final version with no pending events. No other aggregate
  changes.\<close>

theorem uow_commit_outcomes:
  assumes "uow_reachable s" "us_uows s u = Some uw" "uw_state uw = UowActive"
  shows "(\<forall>e. uow_commit ref rolled_back (Inl e) uw (us_heap s) =
      (Inl e, uw\<lparr>uw_state := failure_state e, uw_outcome := Some (failure_outcome e)\<rparr>,
       on_aggregates (if reusable e then released else faulted) (uw_plans uw) (us_heap s))) \<and>
    (\<forall>c e. validate_result (uw_plans uw) c = Inl e \<longrightarrow>
      uow_commit ref rolled_back (Inr c) uw (us_heap s) =
      (Inl e, uw\<lparr>uw_state := UowFaulted, uw_outcome := Some (IndeterminateCommit e)\<rparr>,
       on_aggregates faulted (uw_plans uw) (us_heap s))) \<and>
    (\<forall>c r. validate_result (uw_plans uw) c = Inr r \<longrightarrow>
      (\<exists>hp'. uow_commit ref rolled_back (Inr c) uw (us_heap s) =
        (Inr r, uw\<lparr>uw_commit_result := Some r, uw_outcome := Some (ConfirmedCommit r),
           uw_state := UowCommitted\<rparr>, hp') \<and>
        (\<forall>a. a \<notin> pl_aggregate ` set (uw_plans uw) \<longrightarrow> hp' a = us_heap s a) \<and>
        (\<forall>pl \<in> set (uw_plans uw).
           hp' (pl_aggregate pl) = committed_as pl (us_heap s (pl_aggregate pl)))))"
proof -
  let ?hp = "us_heap s" and ?uw = "uw\<lparr>uw_state := UowCommitting\<rparr>"
  have inv: "uow_inv u ?hp (us_wait s u) uw"
    using usys_okD(1) [OF usys_ok_reachable [OF assms(1)] assms(2)] .
  have ref: "uw_ref uw = u" and dist: "distinct (map pl_aggregate (uw_plans uw))"
    and held: "\<forall>pl \<in> set (uw_plans uw). plan_held (uw_ref uw) ?hp pl"
    using inv assms(3) by (simp_all add: uow_inv_def live_def)
  obtain ts hp1 where start: "uow_commit_start ref uw ?hp = (Inr (Inr ts), ?uw, hp1)"
    and ready: "transitions_ready (uw_ref ?uw) (uw_plans ?uw) ts hp1"
    and upd: "\<And>a. \<exists>p. hp1 a = (?hp a)\<lparr>ag_prepared_commit := p\<rparr>"
    and out: "\<And>a. a \<notin> pl_aggregate ` set (uw_plans uw) \<Longrightarrow> hp1 a = ?hp a"
    using commit_start_held [OF assms(3) dist held, of ref] by auto
  have held1: "\<forall>pl \<in> set (uw_plans ?uw). plan_held (uw_ref ?uw) hp1 pl"
    using held upd plan_held_prepared by fastforce
  have dist1: "distinct (map pl_aggregate (uw_plans ?uw))" using dist by simp
  note fin = commit_finish_ready [OF dist1 held1 ready]
  have sweep: "on_aggregates f (uw_plans uw) hp1 = on_aggregates f (uw_plans uw) ?hp"
    if "\<And>ag p. f (ag\<lparr>ag_prepared_commit := p\<rparr>) = f ag" for f
  proof
    fix a
    obtain p where p: "hp1 a = (?hp a)\<lparr>ag_prepared_commit := p\<rparr>" using upd by blast
    show "on_aggregates f (uw_plans uw) hp1 a = on_aggregates f (uw_plans uw) ?hp a"
      unfolding on_aggregates_def using out [of a] by (simp add: p that)
  qed
  have committed: "committed_as pl (hp1 a) = committed_as pl (?hp a)" for pl a
    using upd [of a] by (auto simp: committed_as_def)
  have uow: "uow_commit ref rolled_back c uw ?hp = uow_commit_finish ts c ?uw hp1" for c
    by (simp add: uow_commit_def start)
  have raised: "uow_commit ref rolled_back (Inl e) uw ?hp =
      (Inl e, uw\<lparr>uw_state := failure_state e, uw_outcome := Some (failure_outcome e)\<rparr>,
       on_aggregates (if reusable e then released else faulted) (uw_plans uw) ?hp)" for e
    using fin(1) [of e] sweep [of "if reusable e then released else faulted"] by (simp add: uow)
  have malformed: "uow_commit ref rolled_back (Inr c) uw ?hp =
      (Inl e, uw\<lparr>uw_state := UowFaulted, uw_outcome := Some (IndeterminateCommit e)\<rparr>,
       on_aggregates faulted (uw_plans uw) ?hp)"
    if "validate_result (uw_plans uw) c = Inl e" for c e
    using fin(2) [of c e] sweep [of faulted] that by (simp add: uow)
  have valid: "\<exists>hp'. uow_commit ref rolled_back (Inr c) uw ?hp =
        (Inr r, uw\<lparr>uw_commit_result := Some r, uw_outcome := Some (ConfirmedCommit r),
           uw_state := UowCommitted\<rparr>, hp') \<and>
        (\<forall>a. a \<notin> pl_aggregate ` set (uw_plans uw) \<longrightarrow> hp' a = ?hp a) \<and>
        (\<forall>pl \<in> set (uw_plans uw). hp' (pl_aggregate pl) = committed_as pl (?hp (pl_aggregate pl)))"
    if "validate_result (uw_plans uw) c = Inr r" for c r
    using fin(3) [of c r] that out by (auto simp: uow committed)
  show ?thesis using raised malformed valid by blast
qed

section \<open>A concrete unit of work\<close>

text \<open>Aggregate 0 has raised an event and unit of work 7 has staged it at version 0.\<close>

definition demo_pending :: "nat pending_event" where
  "demo_pending = \<lparr>pe_event = demo_event 5, pe_metadata = demo_md 9\<rparr>"

definition demo_stream :: stream_id where
  "demo_stream = \<lparr>sid_category = ''counter'', sid_key = ''0''\<rparr>"

definition demo_encoded :: append_event where
  "demo_encoded = \<lparr>ae_encoded = \<lparr>ee_event_type = ''counted'', ee_schema_version = 1,
     ee_payload = [5]\<rparr>, ae_metadata = demo_md 9\<rparr>"

definition demo_plan :: "nat commit_plan" where
  "demo_plan = \<lparr>pl_aggregate = 0, pl_stream_id = demo_stream, pl_expected_version = 0,
     pl_pending = [demo_pending], pl_append_events = [demo_encoded]\<rparr>"

definition demo_uow :: "nat uow" where
  "demo_uow = \<lparr>uw_ref = 7, uw_state = UowActive, uw_context = True, uw_plans = [demo_plan],
     uw_aggregates = {0}, uw_streams = {demo_stream}, uw_commit_result = None, uw_outcome = None\<rparr>"

definition demo_heap :: "(nat, nat, nat list) heap" where
  "demo_heap = (\<lambda>a. new_aggregate_root ''Counter'' a [])"

definition demo_staged :: "(nat, nat, nat list) aggregate" where
  "demo_staged = \<lparr>ag_class = ''Counter'', ag_id = 0, ag_version = 0,
     ag_stream_id = Some demo_stream, ag_pending_events = [demo_pending], ag_faulted = False,
     ag_enlistment = Some \<lparr>en_owner = 7, en_stream_id = demo_stream, en_events = [demo_pending]\<rparr>,
     ag_prepared_commit = None, ag_state = [5]\<rparr>"

definition demo_sys :: "(nat, nat, nat list) uow_sys" where
  "demo_sys = \<lparr>us_heap = demo_heap(0 := demo_staged), us_uows = [7 \<mapsto> demo_uow],
     us_wait = Map.empty\<rparr>"

lemma demo_sys_reachable: "uow_reachable demo_sys"
proof -
  let ?s0 = "\<lparr>us_heap = demo_heap, us_uows = Map.empty, us_wait = Map.empty\<rparr>"
  let ?ag = "demo_staged\<lparr>ag_stream_id := None, ag_enlistment := None\<rparr>"
  let ?s1 = "?s0\<lparr>us_heap := demo_heap(0 := ?ag)\<rparr>"
  let ?s2 = "?s1\<lparr>us_uows := [7 \<mapsto> new_uow 7]\<rparr>"
  let ?s3 = "?s1\<lparr>us_uows := [7 \<mapsto> (new_uow 7)\<lparr>uw_state := UowEntering\<rparr>]\<rparr>"
  let ?s4 = "?s1\<lparr>us_uows := [7 \<mapsto> (new_uow 7)\<lparr>uw_context := True, uw_state := UowActive\<rparr>]\<rparr>"
  have "raise_event log_applier (us_heap ?s0 0) (Inst (demo_event 5)) None (demo_md 9) = (Inr (), ?ag)"
    by (simp add: raise_event_def require_mutable_def demo_heap_def new_aggregate_root_def
        mk_pending_event_def demo_event_def log_applier_def demo_staged_def demo_pending_def)
  from step_raise_event [OF this] have 1: "uow_step ?s0 ?s1" by simp
  have 2: "uow_step ?s1 ?s2" using step_new [of ?s1 7] by (simp add: update_uow_def)
  have 3: "uow_step ?s2 ?s3"
    using step_enter [of ?s2 7 "new_uow 7" "(new_uow 7)\<lparr>uw_state := UowEntering\<rparr>"]
    by (simp add: update_uow_def uow_aenter_start_def new_uow_def)
  have 4: "uow_step ?s3 ?s4"
    using step_entered [of ?s3 7 "(new_uow 7)\<lparr>uw_state := UowEntering\<rparr>" "Inr ()" "Inr ()"]
    by (simp add: update_uow_def uow_aenter_finish_def new_uow_def)
  have "stage (\<lambda>t sid v evs. (Inr (), ())) () ((new_uow 7)\<lparr>uw_context := True, uw_state := UowActive\<rparr>)
      (us_heap ?s4) 0 demo_stream [demo_pending] [demo_encoded] =
      (Inr (), (), demo_uow, demo_heap(0 := demo_staged))"
    by (simp add: stage_def validate_stage_def uow_require_active_def new_uow_def validate_staging_def
        require_mutable_def enlist_def demo_staged_def demo_uow_def demo_plan_def)
  from step_stage [OF _ this, of 7] have 5: "uow_step ?s4 demo_sys"
    by (simp add: update_uow_def demo_sys_def)
  have "usys_initial ?s0"
    unfolding usys_initial_def demo_heap_def by auto
  moreover have "uow_step\<^sup>*\<^sup>* ?s0 demo_sys"
    using 1 2 3 4 5 by (meson converse_rtranclp_into_rtranclp rtranclp.rtrancl_refl)
  ultimately show ?thesis unfolding uow_reachable_def by blast
qed

theorem enlisted_aggregate_is_planned_witness:
  "\<exists>uw pl. us_uows demo_sys 7 = Some uw \<and> pl \<in> set (uw_plans uw) \<and> pl_aggregate pl = 0"
proof -
  have "ag_enlistment (us_heap demo_sys 0) =
      Some \<lparr>en_owner = 7, en_stream_id = demo_stream, en_events = [demo_pending]\<rparr>"
    by (simp add: demo_sys_def demo_staged_def)
  from enlisted_aggregate_is_planned [OF demo_sys_reachable this] show ?thesis by auto
qed

definition demo_result :: commit_result where
  "demo_result = \<lparr>cr_events = [\<lparr>se_stream_id = demo_stream,
     se_stream_version = 1, se_global_position = 3, se_event = demo_encoded\<rparr>]\<rparr>"

theorem uow_commit_outcomes_witness:
  "\<exists>hp'. uow_commit 100 (Inr ()) (Inr (Inst demo_result)) demo_uow (us_heap demo_sys) =
     (Inr demo_result, demo_uow\<lparr>uw_commit_result := Some demo_result,
        uw_outcome := Some (ConfirmedCommit demo_result), uw_state := UowCommitted\<rparr>, hp') \<and>
     ag_version (hp' 0) = 1 \<and> ag_pending_events (hp' 0) = []"
proof -
  have uw: "us_uows demo_sys 7 = Some demo_uow" "uw_state demo_uow = UowActive"
    "uw_plans demo_uow = [demo_plan]"
    by (simp_all add: demo_sys_def demo_uow_def)
  have "validate_result (uw_plans demo_uow) (Inst demo_result) = Inr demo_result"
    unfolding uw(3) by (simp add: expected_events_def demo_plan_def demo_result_def)
  then obtain hp' where "uow_commit 100 (Inr ()) (Inr (Inst demo_result)) demo_uow (us_heap demo_sys) =
     (Inr demo_result, demo_uow\<lparr>uw_commit_result := Some demo_result,
        uw_outcome := Some (ConfirmedCommit demo_result), uw_state := UowCommitted\<rparr>, hp')"
    "\<forall>pl \<in> set (uw_plans demo_uow).
       hp' (pl_aggregate pl) = committed_as pl (us_heap demo_sys (pl_aggregate pl))"
    using uow_commit_outcomes [OF demo_sys_reachable uw(1,2), of 100 "Inr ()"] by blast
  then show ?thesis
    unfolding uw(3) by (auto simp: committed_as_def plan_final_version_def demo_plan_def)
qed

end
