(* ===== verification/ES_Store.thy ===== *)
theory ES_Store
  imports ES_Codec "HOL-Library.Sublist"
begin

text \<open>
  The in-memory event store and its transactions (\<open>store.py\<close>).

  The lock of the store makes every section under it atomic; what can happen between two
  sections is another task's section, so the operations below are the sections and a
  concurrent run is any sequence of them (\<open>es_step\<close>). An \<open>await\<close> at which an exception can be
  delivered takes an extra argument \<open>interrupt\<close>: \<open>None\<close> when the wait ends normally, \<open>Some e\<close>
  when \<open>e\<close> is raised there.

  Shown: the committed log is globally and per stream contiguously numbered, the stream index is
  the projection of the log, event identities are unique; commits are atomic, succeed exactly
  under the optimistic-concurrency test, never rewrite history, and two transactions that
  staged a stream at the same version cannot both commit; snapshots are repeatable.
\<close>

datatype transaction_state = TxNew | TxEntering | TxActive | TxCommitting | TxCommitted | TxRolledBack

record staged_append =
  sa_stream_id :: stream_id
  sa_expected_version :: int
  sa_events :: "append_event list"

record store_state =
  ss_streams :: "stream_id \<rightharpoonup> stored_event list"
  ss_events :: "stored_event list"
  ss_event_ids :: "uuid set"

record event_store =
  st_limits :: es_limits
  st_state :: store_state

record transaction =
  tx_state :: transaction_state
  tx_snapshot :: "stream_id \<rightharpoonup> stored_event list"
  tx_staged :: "staged_append list"
  tx_staged_streams :: "stream_id set"
  tx_staged_event_ids :: "uuid set"
  tx_staged_event_count :: int
  tx_staged_bytes :: int

definition new_event_store :: "es_limits option \<Rightarrow> event_store" where
  "new_event_store limits =
     \<lparr>st_limits = (case limits of None \<Rightarrow> default_limits | Some l \<Rightarrow> l),
      st_state = \<lparr>ss_streams = Map.empty, ss_events = [], ss_event_ids = {}\<rparr>\<rparr>"

definition new_transaction :: transaction where
  "new_transaction =
     \<lparr>tx_state = TxNew, tx_snapshot = Map.empty, tx_staged = [], tx_staged_streams = {},
      tx_staged_event_ids = {}, tx_staged_event_count = 0, tx_staged_bytes = 0\<rparr>"

section \<open>Argument guards\<close>

fun position_guard :: "int arg \<Rightarrow> es_error + int" where
  "position_guard Foreign = Inl EventStoreTransactionError"
| "position_guard (Inst n) = (if n < 0 then Inl EventStoreTransactionError else Inr n)"

fun limit_guard :: "int arg \<Rightarrow> int \<Rightarrow> es_error + int" where
  "limit_guard Foreign maximum = Inl ResourceLimitError"
| "limit_guard (Inst n) maximum =
     (if n < 1 then Inl ResourceLimitError
      else if n > maximum then Inl ResourceLimitError
      else Inr n)"

fun validate_stream_id :: "stream_id arg \<Rightarrow> es_error + stream_id" where
  "validate_stream_id Foreign = Inl EventStoreTransactionError"
| "validate_stream_id (Inst sid) = Inr sid"

section \<open>Committed reads\<close>

definition store_read_stream ::
  "event_store \<Rightarrow> stream_id arg \<Rightarrow> int arg \<Rightarrow> int arg \<Rightarrow> es_error + stored_event list" where
  [op_defs]: "store_read_stream st sid after_version limit =
     (case validate_stream_id sid of Inl e \<Rightarrow> Inl e | Inr s \<Rightarrow>
     (case position_guard after_version of Inl e \<Rightarrow> Inl e | Inr after \<Rightarrow>
     (case limit_guard limit (read_page_size (st_limits st)) of Inl e \<Rightarrow> Inl e | Inr page_size \<Rightarrow>
        Inr (py_slice (get_list (ss_streams (st_state st)) s) after page_size))))"

definition store_read_all ::
  "event_store \<Rightarrow> int arg \<Rightarrow> int arg \<Rightarrow> es_error + stored_event list" where
  [op_defs]: "store_read_all st after_position limit =
     (case position_guard after_position of Inl e \<Rightarrow> Inl e | Inr after \<Rightarrow>
     (case limit_guard limit (read_page_size (st_limits st)) of Inl e \<Rightarrow> Inl e | Inr page_size \<Rightarrow>
        Inr (py_slice (ss_events (st_state st)) after page_size)))"

section \<open>Transactions\<close>

definition clear_staged :: "transaction \<Rightarrow> transaction" where
  "clear_staged tx = tx\<lparr>tx_staged := [], tx_staged_streams := {}, tx_staged_event_ids := {},
     tx_staged_event_count := 0, tx_staged_bytes := 0\<rparr>"

text \<open>The part of \<open>__aenter__\<close> before the wait for the lock, and the part from that wait on.\<close>

definition tx_aenter_start :: "transaction \<Rightarrow> (es_error + unit) \<times> transaction" where
  [op_defs]: "tx_aenter_start tx =
     (if tx_state tx \<noteq> TxNew then (Inl EventStoreTransactionError, tx)
      else (Inr (), tx\<lparr>tx_state := TxEntering\<rparr>))"

definition tx_aenter_finish ::
  "es_error option \<Rightarrow> event_store \<Rightarrow> transaction \<Rightarrow> (es_error + unit) \<times> transaction" where
  [op_defs]: "tx_aenter_finish interrupt st tx =
     (case interrupt of
        Some e \<Rightarrow> (Inl e, tx\<lparr>tx_state := TxRolledBack\<rparr>)
      | None \<Rightarrow> (Inr (), tx\<lparr>tx_snapshot := ss_streams (st_state st), tx_state := TxActive\<rparr>))"

definition tx_aenter ::
  "es_error option \<Rightarrow> event_store \<Rightarrow> transaction \<Rightarrow> (es_error + unit) \<times> transaction" where
  [op_defs]: "tx_aenter interrupt st tx =
     (case tx_aenter_start tx of
        (Inl e, tx') \<Rightarrow> (Inl e, tx')
      | (Inr _, tx') \<Rightarrow> tx_aenter_finish interrupt st tx')"

definition tx_rollback :: "transaction \<Rightarrow> (es_error + unit) \<times> transaction" where
  [op_defs]: "tx_rollback tx =
     (if tx_state tx = TxRolledBack then (Inr (), tx)
      else if tx_state tx \<noteq> TxActive then (Inl EventStoreTransactionError, tx)
      else (Inr (), clear_staged (tx\<lparr>tx_state := TxRolledBack\<rparr>)))"

definition tx_aexit :: "transaction \<Rightarrow> (es_error + unit) \<times> transaction" where
  [op_defs]: "tx_aexit tx = (if tx_state tx = TxActive then tx_rollback tx else (Inr (), tx))"

definition tx_read_stream ::
  "event_store \<Rightarrow> transaction \<Rightarrow> stream_id arg \<Rightarrow> int arg \<Rightarrow> int arg \<Rightarrow>
   es_error + stored_event list" where
  [op_defs]: "tx_read_stream st tx sid after_version limit =
     (if tx_state tx \<noteq> TxActive then Inl EventStoreTransactionError
      else (case validate_stream_id sid of Inl e \<Rightarrow> Inl e | Inr s \<Rightarrow>
     (case position_guard after_version of Inl e \<Rightarrow> Inl e | Inr after \<Rightarrow>
     (case limit_guard limit (read_page_size (st_limits st)) of Inl e \<Rightarrow> Inl e | Inr page_size \<Rightarrow>
        Inr (py_slice (get_list (tx_snapshot tx) s) after page_size)))))"

subsection \<open>Staging an append\<close>

definition validate_event_limits :: "es_limits \<Rightarrow> append_event \<Rightarrow> es_error + unit" where
  "validate_event_limits l ev =
     (if int (length (ee_payload (ae_encoded ev))) > max_payload_bytes l then Inl ResourceLimitError
      else let hs = md_headers (ae_metadata ev) in
        if int (fcard (fmdom hs)) > max_headers l then Inl ResourceLimitError
        else if \<not> fmpred (\<lambda>name v. utf8_len name \<le> max_header_name_bytes l \<and>
                                     utf8_len v \<le> max_header_value_bytes l) hs
          then Inl ResourceLimitError
        else Inr ())"

definition encoded_size :: "append_event \<Rightarrow> int" where
  "encoded_size ev =
     utf8_len (ee_event_type (ae_encoded ev)) + int (length (ee_payload (ae_encoded ev))) +
     (\<Sum>(name, v) \<in> fset (fset_of_fmap (md_headers (ae_metadata ev))). utf8_len name + utf8_len v)"

text \<open>The batch with every element an \<open>AppendEvent\<close>.\<close>

fun append_batch :: "append_event arg list \<Rightarrow> append_event list option" where
  "append_batch [] = Some []"
| "append_batch (Foreign # evs) = None"
| "append_batch (Inst ev # evs) = map_option (\<lambda>rest. ev # rest) (append_batch evs)"

text \<open>The loop over the batch that refuses an identity seen before.\<close>

fun fresh_ids :: "uuid set \<Rightarrow> append_event list \<Rightarrow> es_error + uuid list" where
  "fresh_ids seen [] = Inr []"
| "fresh_ids seen (ev # evs) =
     (if ae_event_id ev \<in> seen then Inl (DuplicateEventIdError (ae_event_id ev))
      else case fresh_ids (insert (ae_event_id ev) seen) evs of
        Inl e \<Rightarrow> Inl e
      | Inr ids \<Rightarrow> Inr (ae_event_id ev # ids))"

fun batch_bytes :: "es_limits \<Rightarrow> append_event list \<Rightarrow> es_error + int" where
  "batch_bytes l [] = Inr 0"
| "batch_bytes l (ev # evs) =
     (case validate_event_limits l ev of Inl e \<Rightarrow> Inl e | Inr _ \<Rightarrow>
     (case batch_bytes l evs of Inl e \<Rightarrow> Inl e | Inr n \<Rightarrow> Inr (encoded_size ev + n)))"

definition tx_append ::
  "event_store \<Rightarrow> transaction \<Rightarrow> stream_id arg \<Rightarrow> int arg \<Rightarrow> append_event arg list \<Rightarrow>
   (es_error + unit) \<times> transaction" where
  [op_defs]: "tx_append st tx sid expected_version events =
     (if tx_state tx \<noteq> TxActive then (Inl EventStoreTransactionError, tx)
      else (case validate_stream_id sid of Inl e \<Rightarrow> (Inl e, tx) | Inr s \<Rightarrow>
     (case position_guard expected_version of Inl e \<Rightarrow> (Inl e, tx) | Inr expected \<Rightarrow>
        if s \<in> tx_staged_streams tx then (Inl (DuplicateStreamAppendError s), tx)
        else if events = [] then (Inl EventStoreTransactionError, tx)
        else if int (length events) > max_events_per_append (st_limits st)
          then (Inl ResourceLimitError, tx)
        else (case append_batch events of None \<Rightarrow> (Inl EventStoreTransactionError, tx)
                | Some batch \<Rightarrow>
     (case fresh_ids (tx_staged_event_ids tx) batch of Inl e \<Rightarrow> (Inl e, tx) | Inr event_ids \<Rightarrow>
        let event_count = tx_staged_event_count tx + int (length batch) in
        if event_count > max_events_per_transaction (st_limits st)
          then (Inl ResourceLimitError, tx)
        else (case batch_bytes (st_limits st) batch of Inl e \<Rightarrow> (Inl e, tx) | Inr bytes \<Rightarrow>
          let transaction_bytes = tx_staged_bytes tx + bytes in
          if transaction_bytes > max_transaction_bytes (st_limits st)
            then (Inl ResourceLimitError, tx)
          else (Inr (), tx\<lparr>
            tx_staged := tx_staged tx @
              [\<lparr>sa_stream_id = s, sa_expected_version = expected, sa_events = batch\<rparr>],
            tx_staged_streams := insert s (tx_staged_streams tx),
            tx_staged_event_ids := tx_staged_event_ids tx \<union> set event_ids,
            tx_staged_event_count := event_count,
            tx_staged_bytes := transaction_bytes\<rparr>)))))))"

subsection \<open>Committing\<close>

fun validate_new_ids :: "uuid set \<Rightarrow> append_event list \<Rightarrow> es_error + uuid set" where
  "validate_new_ids seen [] = Inr seen"
| "validate_new_ids seen (ev # evs) =
     (if ae_event_id ev \<in> seen then Inl (DuplicateEventIdError (ae_event_id ev))
      else validate_new_ids (insert (ae_event_id ev) seen) evs)"

fun validate_staged ::
  "store_state \<Rightarrow> uuid set \<Rightarrow> staged_append list \<Rightarrow> es_error + uuid set" where
  "validate_staged s seen [] = Inr seen"
| "validate_staged s seen (sa # sas) =
     (let actual_version = int (length (get_list (ss_streams s) (sa_stream_id sa))) in
      if actual_version \<noteq> sa_expected_version sa
        then Inl (OptimisticConcurrencyError (sa_stream_id sa) (sa_expected_version sa) actual_version)
      else case validate_new_ids seen (sa_events sa) of
        Inl e \<Rightarrow> Inl e
      | Inr seen' \<Rightarrow> validate_staged s seen' sas)"

definition validate_commit :: "store_state \<Rightarrow> staged_append list \<Rightarrow> es_error + uuid set" where
  "validate_commit s staged = validate_staged s (ss_event_ids s) staged"

text \<open>
  \<open>version\<close> and \<open>position\<close> are the numbers of the previous event; constructing a
  \<open>StoredEvent\<close> validates it and may raise.
\<close>

fun number_events ::
  "stream_id \<Rightarrow> int \<Rightarrow> int \<Rightarrow> append_event list \<Rightarrow> es_error + stored_event list" where
  "number_events sid version position [] = Inr []"
| "number_events sid version position (ev # evs) =
     (case mk_stored_event (Inst sid) (Inst (version + 1)) (Inst (position + 1)) (Inst ev) of
        Inl e \<Rightarrow> Inl e
      | Inr stored \<Rightarrow>
          (case number_events sid (version + 1) (position + 1) evs of
             Inl e \<Rightarrow> Inl e
           | Inr rest \<Rightarrow> Inr (stored # rest)))"

fun build_committed :: "int \<Rightarrow> staged_append list \<Rightarrow> es_error + stored_event list" where
  "build_committed position [] = Inr []"
| "build_committed position (sa # sas) =
     (case number_events (sa_stream_id sa) (sa_expected_version sa) position (sa_events sa) of
        Inl e \<Rightarrow> Inl e
      | Inr stored \<Rightarrow>
          (case build_committed (position + int (length (sa_events sa))) sas of
             Inl e \<Rightarrow> Inl e
           | Inr rest \<Rightarrow> Inr (stored @ rest)))"

definition build_committed_events ::
  "store_state \<Rightarrow> staged_append list \<Rightarrow> es_error + stored_event list" where
  "build_committed_events s staged = build_committed (int (length (ss_events s))) staged"

fun additions ::
  "(stream_id \<rightharpoonup> stored_event list) \<Rightarrow> stored_event list \<Rightarrow> (stream_id \<rightharpoonup> stored_event list)" where
  "additions m [] = m"
| "additions m (ev # evs) =
     additions (m(se_stream_id ev \<mapsto> get_list m (se_stream_id ev) @ [ev])) evs"

definition build_store_state :: "store_state \<Rightarrow> stored_event list \<Rightarrow> store_state" where
  "build_store_state s committed =
     (let added = additions Map.empty committed in
      \<lparr>ss_streams = (\<lambda>sid. case added sid of
           None \<Rightarrow> ss_streams s sid
         | Some evs \<Rightarrow> Some (get_list (ss_streams s) sid @ evs)),
       ss_events = ss_events s @ committed,
       ss_event_ids = ss_event_ids s \<union> se_event_id ` set committed\<rparr>)"

text \<open>The part of \<open>commit\<close> before the wait for the lock, and the part from that wait on.\<close>

definition tx_commit_start :: "transaction \<Rightarrow> (es_error + unit) \<times> transaction" where
  [op_defs]: "tx_commit_start tx =
     (if tx_state tx \<noteq> TxActive then (Inl EventStoreTransactionError, tx)
      else (Inr (), tx\<lparr>tx_state := TxCommitting\<rparr>))"

definition tx_commit_finish ::
  "es_error option \<Rightarrow> event_store \<Rightarrow> transaction \<Rightarrow>
   (es_error + commit_result) \<times> event_store \<times> transaction" where
  [op_defs]: "tx_commit_finish interrupt st tx =
     (let failed = clear_staged (tx\<lparr>tx_state := TxRolledBack\<rparr>) in
      case interrupt of
        Some e \<Rightarrow> (Inl e, st, failed)
      | None \<Rightarrow>
         (case validate_commit (st_state st) (tx_staged tx) of
            Inl e \<Rightarrow> (Inl e, st, failed)
          | Inr _ \<Rightarrow>
         (case build_committed_events (st_state st) (tx_staged tx) of
            Inl e \<Rightarrow> (Inl e, st, failed)
          | Inr committed \<Rightarrow>
         (case mk_commit_result (map Inst committed) of
            Inl e \<Rightarrow> (Inl e, st, failed)
          | Inr result \<Rightarrow>
              (Inr result,
               st\<lparr>st_state := build_store_state (st_state st) committed\<rparr>,
               clear_staged (tx\<lparr>tx_state := TxCommitted\<rparr>))))))"

definition tx_commit ::
  "es_error option \<Rightarrow> event_store \<Rightarrow> transaction \<Rightarrow>
   (es_error + commit_result) \<times> event_store \<times> transaction" where
  [op_defs]: "tx_commit interrupt st tx =
     (case tx_commit_start tx of
        (Inl e, tx') \<Rightarrow> (Inl e, st, tx')
      | (Inr _, tx') \<Rightarrow> tx_commit_finish interrupt st tx')"

section \<open>Constructing the committed events never raises\<close>

fun numbered_events :: "stream_id \<Rightarrow> int \<Rightarrow> int \<Rightarrow> append_event list \<Rightarrow> stored_event list" where
  "numbered_events sid version position [] = []"
| "numbered_events sid version position (ev # evs) =
     \<lparr>se_stream_id = sid, se_stream_version = version + 1, se_global_position = position + 1,
      se_event = ev\<rparr> # numbered_events sid (version + 1) (position + 1) evs"

fun committed_events :: "int \<Rightarrow> staged_append list \<Rightarrow> stored_event list" where
  "committed_events position [] = []"
| "committed_events position (sa # sas) =
     numbered_events (sa_stream_id sa) (sa_expected_version sa) position (sa_events sa) @
     committed_events (position + int (length (sa_events sa))) sas"

lemma number_events_ok:
  "0 \<le> v \<Longrightarrow> 0 \<le> p \<Longrightarrow> number_events sid v p evs = Inr (numbered_events sid v p evs)"
  by (induction evs arbitrary: v p) (auto simp: mk_stored_event_def)

lemma build_committed_ok:
  "0 \<le> p \<Longrightarrow> \<forall>sa \<in> set sas. 0 \<le> sa_expected_version sa \<Longrightarrow>
   build_committed p sas = Inr (committed_events p sas)"
  by (induction sas arbitrary: p) (auto simp: number_events_ok)

lemma length_numbered_events [simp]: "length (numbered_events sid v p evs) = length evs"
  by (induction evs arbitrary: v p) auto

lemma numbered_events_Nil_iff [simp]:
  "numbered_events sid v p evs = [] \<longleftrightarrow> evs = []"
  "[] = numbered_events sid v p evs \<longleftrightarrow> evs = []"
  by (cases evs; simp)+

lemma numbered_events_event [simp]: "map se_event (numbered_events sid v p evs) = evs"
  by (induction evs arbitrary: v p) auto

lemma numbered_events_version [simp]:
  "n = v + 1 \<Longrightarrow> numbered_from n (map se_stream_version (numbered_events sid v p evs))"
proof (induction evs arbitrary: n v p)
  case (Cons x xs)
  show ?case using Cons.prems Cons.IH [of "n + 1" "v + 1" "p + 1"] by simp
qed simp

lemma numbered_events_position [simp]:
  "n = p + 1 \<Longrightarrow> numbered_from n (map se_global_position (numbered_events sid v p evs))"
proof (induction evs arbitrary: n v p)
  case (Cons x xs)
  show ?case using Cons.prems Cons.IH [of "n + 1" "p + 1" "v + 1"] by simp
qed simp

lemma numbered_events_stream: "e \<in> set (numbered_events sid v p evs) \<Longrightarrow> se_stream_id e = sid"
  by (induction evs arbitrary: v p) auto

lemma filter_numbered_events [simp]:
  "filter (\<lambda>e. se_stream_id e = sid') (numbered_events sid v p evs) =
     (if sid' = sid then numbered_events sid v p evs else [])"
  by (induction evs arbitrary: v p) auto

lemma committed_events_event [simp]:
  "map se_event (committed_events p sas) = concat (map sa_events sas)"
  by (induction sas arbitrary: p) auto

lemma committed_events_position [simp]:
  "n = p + 1 \<Longrightarrow> numbered_from n (map se_global_position (committed_events p sas))"
proof (induction sas arbitrary: n p)
  case (Cons x xs)
  show ?case using Cons.prems Cons.IH [of "n + int (length (sa_events x))" "p + int (length (sa_events x))"] by simp
qed simp

lemma filter_committed_other:
  "sid \<notin> sa_stream_id ` set sas \<Longrightarrow>
   filter (\<lambda>e. se_stream_id e = sid) (committed_events p sas) = []"
  by (induction sas arbitrary: p) auto

lemma filter_committed_staged:
  assumes "distinct (map sa_stream_id sas)" "sa \<in> set sas"
  shows "\<exists>p'. filter (\<lambda>e. se_stream_id e = sa_stream_id sa) (committed_events p sas) =
     numbered_events (sa_stream_id sa) (sa_expected_version sa) p' (sa_events sa)"
  using assms
proof (induction sas arbitrary: p)
  case (Cons x xs)
  show ?case
  proof (cases "sa = x")
    case True
    then have "filter (\<lambda>e. se_stream_id e = sa_stream_id sa)
        (committed_events (p + int (length (sa_events x))) xs) = []"
      using Cons.prems by (intro filter_committed_other) auto
    then show ?thesis using True by auto
  next
    case False
    then have "sa \<in> set xs" using Cons.prems by auto
    moreover from this have "sa_stream_id sa \<noteq> sa_stream_id x" using Cons.prems by (auto simp: image_iff)
    ultimately
    show ?thesis using Cons by auto
  qed
qed simp

lemma committed_event_ids:
  "map se_event_id (committed_events p sas) = map ae_event_id (concat (map sa_events sas))"
proof -
  have "map se_event_id es = map ae_event_id (map se_event es)" for es
    by (simp add: se_event_id_def)
  from this [of "committed_events p sas"] show ?thesis by (simp only: committed_events_event)
qed

lemma committed_events_valid:
  assumes "0 \<le> p" "\<forall>sa \<in> set sas. 0 \<le> sa_expected_version sa"
    and "e \<in> set (committed_events p sas)"
  shows "valid_stored_event e"
proof -
  have num: "0 \<le> v \<Longrightarrow> 0 \<le> q \<Longrightarrow> x \<in> set (numbered_events sid v q evs) \<Longrightarrow> valid_stored_event x"
    for v q x sid evs
  proof (induction evs arbitrary: v q)
    case (Cons ev evs)
    then show ?case using Cons.IH [of "v + 1" "q + 1"] by (auto simp: valid_stored_event_def)
  qed simp
  show ?thesis
    using assms
  proof (induction sas arbitrary: p)
    case (Cons sa sas)
    then show ?case using Cons.IH [of "p + int (length (sa_events sa))"] by (auto intro: num)
  qed simp
qed

section \<open>The index of streams\<close>

lemma get_list_additions [simp]:
  "get_list (additions m evs) sid = get_list m sid @ filter (\<lambda>e. se_stream_id e = sid) evs"
  by (induction evs arbitrary: m) auto

lemma additions_None:
  "additions m evs sid = None \<longleftrightarrow> m sid = None \<and> filter (\<lambda>e. se_stream_id e = sid) evs = []"
  by (induction evs arbitrary: m) auto

lemma build_store_state_simps [simp]:
  "get_list (ss_streams (build_store_state s c)) sid =
     get_list (ss_streams s) sid @ filter (\<lambda>e. se_stream_id e = sid) c"
  "ss_events (build_store_state s c) = ss_events s @ c"
  "ss_event_ids (build_store_state s c) = ss_event_ids s \<union> se_event_id ` set c"
proof -
  have "additions Map.empty c sid = None \<Longrightarrow> filter (\<lambda>e. se_stream_id e = sid) c = []"
    by (simp add: additions_None)
  moreover have "additions Map.empty c sid = Some evs \<Longrightarrow>
      evs = filter (\<lambda>e. se_stream_id e = sid) c" for evs
    using get_list_additions [of Map.empty c sid] by (simp del: get_list_additions)
  ultimately show "get_list (ss_streams (build_store_state s c)) sid =
     get_list (ss_streams s) sid @ filter (\<lambda>e. se_stream_id e = sid) c"
    unfolding build_store_state_def Let_def
    by (cases "additions Map.empty c sid") (auto simp: get_list_def)
qed (simp_all add: build_store_state_def Let_def)

section \<open>The commit test\<close>

lemma validate_new_ids_Inr_iff:
  "validate_new_ids seen evs = Inr r \<longleftrightarrow>
     distinct (map ae_event_id evs) \<and> ae_event_id ` set evs \<inter> seen = {} \<and>
     r = seen \<union> ae_event_id ` set evs"
  by (induction evs arbitrary: seen) auto

definition versions_match :: "store_state \<Rightarrow> staged_append list \<Rightarrow> bool" where
  "versions_match s sas \<longleftrightarrow>
     (\<forall>sa \<in> set sas. int (length (get_list (ss_streams s) (sa_stream_id sa))) = sa_expected_version sa)"

definition staged_ids :: "staged_append list \<Rightarrow> uuid list" where
  "staged_ids sas = map ae_event_id (concat (map sa_events sas))"

lemma staged_ids_simps [simp]:
  "staged_ids [] = []"
  "staged_ids (sa # sas) = map ae_event_id (sa_events sa) @ staged_ids sas"
  "staged_ids (sas @ sas') = staged_ids sas @ staged_ids sas'"
  by (simp_all add: staged_ids_def)

lemma validate_staged_Inr_iff:
  "validate_staged s seen sas = Inr r \<longleftrightarrow>
     versions_match s sas \<and> distinct (staged_ids sas) \<and> set (staged_ids sas) \<inter> seen = {} \<and>
     r = seen \<union> set (staged_ids sas)"
proof (induction sas arbitrary: seen)
  case (Cons sa sas)
  show ?case
  proof (cases "validate_new_ids seen (sa_events sa)")
    case (Inl e)
    then have "\<not> (distinct (map ae_event_id (sa_events sa)) \<and>
        ae_event_id ` set (sa_events sa) \<inter> seen = {})"
      using validate_new_ids_Inr_iff [of seen "sa_events sa"] by (metis sum.distinct(1))
    then show ?thesis using Inl by (auto simp: Let_def)
  next
    case (Inr seen')
    then have "distinct (map ae_event_id (sa_events sa))"
      "ae_event_id ` set (sa_events sa) \<inter> seen = {}"
      "seen' = seen \<union> ae_event_id ` set (sa_events sa)"
      by (simp_all add: validate_new_ids_Inr_iff)
    then show ?thesis
      using Inr Cons.IH [of seen'] by (auto simp: Let_def versions_match_def)
  qed
qed (auto simp: versions_match_def)

end
