(* ===== verification/ES_Store_Runs.thy ===== *)
theory ES_Store_Runs
  imports ES_Store
begin

text \<open>
  Concurrent runs of the in-memory event store: any number of transactions, their operations
  interleaved at every point where \<open>store.py\<close> can be suspended. A step is one atomic section of
  one transaction, with any argument and any interruption; \<open>es_reachable\<close> are the states of all
  runs from a new store. The invariants of the store and of each transaction are proved by rule
  induction, and the transaction guarantees (atomicity, optimistic concurrency, repeatable
  reads, append-only history, resource bounds) follow from them.
\<close>

section \<open>Invariants\<close>

definition store_ok :: "store_state \<Rightarrow> bool" where
  [inv_defs]: "store_ok s \<longleftrightarrow>
     numbered_from 1 (map se_global_position (ss_events s)) \<and>
     (\<forall>sid. get_list (ss_streams s) sid = filter (\<lambda>e. se_stream_id e = sid) (ss_events s)) \<and>
     (\<forall>sid. numbered_from 1 (map se_stream_version (get_list (ss_streams s) sid))) \<and>
     ss_event_ids s = se_event_id ` set (ss_events s) \<and>
     distinct (map se_event_id (ss_events s))"

definition staged_bytes :: "staged_append list \<Rightarrow> int" where
  "staged_bytes sas = sum_list (map encoded_size (concat (map sa_events sas)))"

definition tx_ok :: "es_limits \<Rightarrow> transaction \<Rightarrow> bool" where
  [inv_defs]: "tx_ok l tx \<longleftrightarrow>
     tx_staged_streams tx = sa_stream_id ` set (tx_staged tx) \<and>
     distinct (map sa_stream_id (tx_staged tx)) \<and>
     tx_staged_event_ids tx = set (staged_ids (tx_staged tx)) \<and>
     distinct (staged_ids (tx_staged tx)) \<and>
     tx_staged_event_count tx = int (length (staged_ids (tx_staged tx))) \<and>
     tx_staged_bytes tx = staged_bytes (tx_staged tx) \<and>
     tx_staged_event_count tx \<le> max_events_per_transaction l \<and>
     tx_staged_bytes tx \<le> max_transaction_bytes l \<and>
     (\<forall>sa \<in> set (tx_staged tx). 0 \<le> sa_expected_version sa \<and> sa_events sa \<noteq> [] \<and>
        (\<forall>ev \<in> set (sa_events sa). validate_event_limits l ev = Inr ())) \<and>
     (tx_state tx \<notin> {TxActive, TxCommitting} \<longrightarrow> tx_staged tx = [])"

section \<open>Steps\<close>

record es_system =
  sys_store :: event_store
  sys_txs :: "nat \<rightharpoonup> transaction"

definition put_tx :: "nat \<Rightarrow> transaction \<Rightarrow> es_system \<Rightarrow> es_system" where
  "put_tx t tx s = s\<lparr>sys_txs := (sys_txs s)(t \<mapsto> tx)\<rparr>"

lemma put_tx_simps [simp]:
  "sys_store (put_tx t tx s) = sys_store s"
  "sys_txs (put_tx t tx s) = (sys_txs s)(t \<mapsto> tx)"
  by (simp_all add: put_tx_def)

inductive es_step :: "es_system \<Rightarrow> es_system \<Rightarrow> bool" where
  step_transaction: "sys_txs s t = None \<Longrightarrow> es_step s (put_tx t new_transaction s)"
| step_aenter_start: "sys_txs s t = Some tx \<Longrightarrow> tx_aenter_start tx = (r, tx') \<Longrightarrow>
     es_step s (put_tx t tx' s)"
| step_aenter_finish: "sys_txs s t = Some tx \<Longrightarrow> tx_state tx = TxEntering \<Longrightarrow>
     tx_aenter_finish interrupt (sys_store s) tx = (r, tx') \<Longrightarrow> es_step s (put_tx t tx' s)"
| step_append: "sys_txs s t = Some tx \<Longrightarrow>
     tx_append (sys_store s) tx sid expected events = (r, tx') \<Longrightarrow> es_step s (put_tx t tx' s)"
| step_rollback: "sys_txs s t = Some tx \<Longrightarrow> tx_rollback tx = (r, tx') \<Longrightarrow>
     es_step s (put_tx t tx' s)"
| step_aexit: "sys_txs s t = Some tx \<Longrightarrow> tx_aexit tx = (r, tx') \<Longrightarrow>
     es_step s (put_tx t tx' s)"
| step_commit_start: "sys_txs s t = Some tx \<Longrightarrow> tx_commit_start tx = (r, tx') \<Longrightarrow>
     es_step s (put_tx t tx' s)"
| step_commit_finish: "sys_txs s t = Some tx \<Longrightarrow> tx_state tx = TxCommitting \<Longrightarrow>
     tx_commit_finish interrupt (sys_store s) tx = (cr, st', tx') \<Longrightarrow>
     es_step s (put_tx t tx' (s\<lparr>sys_store := st'\<rparr>))"

inductive_cases es_stepE: "es_step s s'"

definition es_initial :: "es_limits option \<Rightarrow> es_system" where
  "es_initial l = \<lparr>sys_store = new_event_store l, sys_txs = Map.empty\<rparr>"

definition es_reachable :: "es_system \<Rightarrow> bool" where
  "es_reachable s \<longleftrightarrow>
     (\<exists>l. (\<forall>l'. l = Some l' \<longrightarrow> limits_ok l') \<and> es_step\<^sup>*\<^sup>* (es_initial l) s)"

definition sys_ok :: "es_system \<Rightarrow> bool" where
  [inv_defs]: "sys_ok s \<longleftrightarrow>
     limits_ok (st_limits (sys_store s)) \<and> store_ok (st_state (sys_store s)) \<and>
     (\<forall>t tx. sys_txs s t = Some tx \<longrightarrow> tx_ok (st_limits (sys_store s)) tx)"

section \<open>Operations keep the transaction invariant\<close>

lemma staged_bytes_simps [simp]:
  "staged_bytes [] = 0"
  "staged_bytes (sas @ [sa]) = staged_bytes sas + sum_list (map encoded_size (sa_events sa))"
  by (simp_all add: staged_bytes_def)

lemma clear_staged_simps [simp]:
  "tx_state (clear_staged tx) = tx_state tx"
  "tx_snapshot (clear_staged tx) = tx_snapshot tx"
  "tx_staged (clear_staged tx) = []"
  by (simp_all add: clear_staged_def)

lemma tx_ok_clear_staged: "limits_ok l \<Longrightarrow> tx_ok l (clear_staged tx)"
  by (simp add: tx_ok_def clear_staged_def limits_ok_def)

lemma tx_ok_new: "limits_ok l \<Longrightarrow> tx_ok l new_transaction"
  by (simp add: tx_ok_def new_transaction_def limits_ok_def)

lemma fresh_ids_InrD:
  "fresh_ids seen evs = Inr ids \<Longrightarrow>
     ids = map ae_event_id evs \<and> distinct (map ae_event_id evs) \<and>
     ae_event_id ` set evs \<inter> seen = {}"
  by (induction evs arbitrary: seen ids) (fastforce split: if_splits sum.splits)+

lemma batch_bytes_InrD:
  "batch_bytes l evs = Inr n \<Longrightarrow>
     n = sum_list (map encoded_size evs) \<and> (\<forall>ev \<in> set evs. validate_event_limits l ev = Inr ())"
  by (induction evs arbitrary: n) (auto split: sum.splits)

lemma append_batch_Some: "append_batch events = Some batch \<Longrightarrow> events = map Inst batch"
  by (induction events arbitrary: batch rule: append_batch.induct) auto

lemma position_guard_Inr_iff: "position_guard a = Inr n \<longleftrightarrow> a = Inst n \<and> 0 \<le> n"
  by (cases a) auto

lemma tx_append_cases:
  assumes "tx_append st tx sid expected events = (r, tx')"
  obtains (refused) e where "r = Inl e" "tx' = tx"
  | (staged) s v batch where "r = Inr ()" "sid = Inst s" "expected = Inst v" "0 \<le> v"
      "events = map Inst batch" "batch \<noteq> []" "tx_state tx = TxActive" "s \<notin> tx_staged_streams tx"
      "distinct (map ae_event_id batch)" "ae_event_id ` set batch \<inter> tx_staged_event_ids tx = {}"
      "tx_staged_event_count tx + int (length batch) \<le> max_events_per_transaction (st_limits st)"
      "tx_staged_bytes tx + sum_list (map encoded_size batch) \<le> max_transaction_bytes (st_limits st)"
      "\<forall>ev \<in> set batch. validate_event_limits (st_limits st) ev = Inr ()"
      "tx' = tx\<lparr>
            tx_staged := tx_staged tx @
              [\<lparr>sa_stream_id = s, sa_expected_version = v, sa_events = batch\<rparr>],
            tx_staged_streams := insert s (tx_staged_streams tx),
            tx_staged_event_ids := tx_staged_event_ids tx \<union> ae_event_id ` set batch,
            tx_staged_event_count := tx_staged_event_count tx + int (length batch),
            tx_staged_bytes := tx_staged_bytes tx + sum_list (map encoded_size batch)\<rparr>"
proof (cases r)
  case (Inl e)
  then have "tx' = tx"
    using assms by (auto simp: tx_append_def Let_def split: if_splits sum.splits option.splits)
  then show ?thesis using Inl refused by blast
next
  case (Inr u)
  have "\<exists>s. sid = Inst s" using Inr assms
    by (cases sid) (auto simp: tx_append_def split: if_splits)
  then obtain s where s: "sid = Inst s" ..
  obtain v batch ids n where v: "expected = Inst v" "0 \<le> v"
    and b: "append_batch events = Some batch" "events \<noteq> []"
    and ids: "fresh_ids (tx_staged_event_ids tx) batch = Inr ids"
    and n: "batch_bytes (st_limits st) batch = Inr n"
    and rest: "tx_state tx = TxActive" "s \<notin> tx_staged_streams tx"
      "tx_staged_event_count tx + int (length batch) \<le> max_events_per_transaction (st_limits st)"
      "tx_staged_bytes tx + n \<le> max_transaction_bytes (st_limits st)"
    and tx': "tx' = tx\<lparr>
            tx_staged := tx_staged tx @
              [\<lparr>sa_stream_id = s, sa_expected_version = v, sa_events = batch\<rparr>],
            tx_staged_streams := insert s (tx_staged_streams tx),
            tx_staged_event_ids := tx_staged_event_ids tx \<union> set ids,
            tx_staged_event_count := tx_staged_event_count tx + int (length batch),
            tx_staged_bytes := tx_staged_bytes tx + n\<rparr>"
    using assms Inr unfolding s
    by (auto simp: tx_append_def Let_def position_guard_Inr_iff not_less
        simp del: position_guard.simps split: if_splits sum.splits option.splits)
  have "events = map Inst batch" "batch \<noteq> []" using b append_batch_Some [OF b(1)] by auto
  moreover note fresh_ids_InrD [OF ids] batch_bytes_InrD [OF n]
  ultimately show ?thesis
    using Inr v rest tx' by (intro staged [of s v batch]) (auto simp: s)
qed

lemma tx_ok_append:
  assumes "tx_ok (st_limits st) tx" "tx_append st tx sid expected events = (r, tx')"
  shows "tx_ok (st_limits st) tx'"
  using assms(2)
proof (cases rule: tx_append_cases)
  case refused
  then show ?thesis using assms(1) by simp
next
  case staged
  then show ?thesis using assms(1) by (auto simp: tx_ok_def)
qed

section \<open>Commit\<close>

definition can_commit :: "store_state \<Rightarrow> staged_append list \<Rightarrow> bool" where
  "can_commit s sas \<longleftrightarrow> versions_match s sas \<and> set (staged_ids sas) \<inter> ss_event_ids s = {}"

abbreviation next_events :: "store_state \<Rightarrow> staged_append list \<Rightarrow> stored_event list" where
  "next_events s sas \<equiv> committed_events (int (length (ss_events s))) sas"

lemma validate_commit_Inr_iff:
  "tx_ok l tx \<Longrightarrow>
   (\<exists>r. validate_commit s (tx_staged tx) = Inr r) \<longleftrightarrow> can_commit s (tx_staged tx)"
  by (auto simp: validate_commit_def validate_staged_Inr_iff can_commit_def tx_ok_def)

lemma commit_finish_success:
  assumes "tx_ok l tx" "can_commit (st_state st) (tx_staged tx)"
  shows "tx_commit_finish None st tx =
     (Inr \<lparr>cr_events = next_events (st_state st) (tx_staged tx)\<rparr>,
      st\<lparr>st_state := build_store_state (st_state st) (next_events (st_state st) (tx_staged tx))\<rparr>,
      clear_staged (tx\<lparr>tx_state := TxCommitted\<rparr>))"
proof -
  obtain r where "validate_commit (st_state st) (tx_staged tx) = Inr r"
    using assms validate_commit_Inr_iff by blast
  moreover have "build_committed_events (st_state st) (tx_staged tx) =
      Inr (next_events (st_state st) (tx_staged tx))"
    using assms(1) unfolding build_committed_events_def
    by (intro build_committed_ok) (auto simp: tx_ok_def)
  ultimately show ?thesis by (simp add: tx_commit_finish_def)
qed

lemma commit_finish_failure:
  assumes "tx_ok l tx" "\<not> can_commit (st_state st) (tx_staged tx)"
  shows "\<exists>e. validate_commit (st_state st) (tx_staged tx) = Inl e \<and>
     tx_commit_finish None st tx = (Inl e, st, clear_staged (tx\<lparr>tx_state := TxRolledBack\<rparr>))"
proof -
  obtain e where "validate_commit (st_state st) (tx_staged tx) = Inl e"
    using assms validate_commit_Inr_iff [of l tx "st_state st"]
    by (metis obj_sumE)
  then show ?thesis by (simp add: tx_commit_finish_def)
qed

lemma commit_finish_cases:
  assumes "tx_ok l tx" "tx_commit_finish interrupt st tx = (cr, st', tx')"
  obtains (failed) e where "cr = Inl e" "st' = st"
      "tx' = clear_staged (tx\<lparr>tx_state := TxRolledBack\<rparr>)"
  | (committed) "interrupt = None" "can_commit (st_state st) (tx_staged tx)"
      "cr = Inr \<lparr>cr_events = next_events (st_state st) (tx_staged tx)\<rparr>"
      "st' = st\<lparr>st_state :=
         build_store_state (st_state st) (next_events (st_state st) (tx_staged tx))\<rparr>"
      "tx' = clear_staged (tx\<lparr>tx_state := TxCommitted\<rparr>)"
proof (cases interrupt)
  case (Some e)
  then show ?thesis using assms(2) failed by (auto simp: tx_commit_finish_def)
next
  case None
  show ?thesis
  proof (cases "can_commit (st_state st) (tx_staged tx)")
    case True
    then show ?thesis using None assms commit_finish_success [OF assms(1) True] committed by simp
  next
    case False
    then show ?thesis using None assms(2) commit_finish_failure [OF assms(1) False] failed by auto
  qed
qed

lemma store_ok_commit:
  assumes st: "store_ok s" and tx: "tx_ok l tx" and can: "can_commit s (tx_staged tx)"
  shows "store_ok (build_store_state s (next_events s (tx_staged tx)))"
proof -
  let ?sas = "tx_staged tx" and ?c = "next_events s (tx_staged tx)"
  have dist: "distinct (map sa_stream_id ?sas)" and ids: "distinct (staged_ids ?sas)"
    using tx by (auto simp: tx_ok_def)
  have cids: "map se_event_id ?c = staged_ids ?sas"
    by (simp add: committed_event_ids staged_ids_def)
  have vers: "numbered_from (1 + int (length (get_list (ss_streams s) sid)))
      (map se_stream_version (filter (\<lambda>e. se_stream_id e = sid) ?c))" for sid
  proof (cases "\<exists>sa \<in> set ?sas. sa_stream_id sa = sid")
    case True
    then obtain sa where sa: "sa \<in> set ?sas" "sa_stream_id sa = sid" by auto
    then have "int (length (get_list (ss_streams s) sid)) = sa_expected_version sa"
      using can by (auto simp: can_commit_def versions_match_def)
    then show ?thesis
      using filter_committed_staged [OF dist sa(1), of "int (length (ss_events s))"] sa(2) by auto
  next
    case False
    then show ?thesis by (subst filter_committed_other) auto
  qed
  have "set (map se_event_id ?c) \<inter> se_event_id ` set (ss_events s) = {}"
    using can st by (simp add: cids can_commit_def store_ok_def)
  moreover have "distinct (map se_event_id ?c)" using cids ids by simp
  ultimately show ?thesis
    using st vers by (auto simp: store_ok_def image_Un)
qed

section \<open>Reachable states\<close>

lemma tx_ok_aenter_start:
  "tx_ok l tx \<Longrightarrow> tx_aenter_start tx = (r, tx') \<Longrightarrow> tx_ok l tx'"
  by (auto simp: tx_aenter_start_def tx_ok_def split: if_splits)

lemma tx_ok_aenter_finish:
  "tx_ok l tx \<Longrightarrow> tx_state tx = TxEntering \<Longrightarrow> tx_aenter_finish i st tx = (r, tx') \<Longrightarrow> tx_ok l tx'"
  by (auto simp: tx_aenter_finish_def tx_ok_def split: option.splits)

lemma tx_ok_rollback:
  "limits_ok l \<Longrightarrow> tx_ok l tx \<Longrightarrow> tx_rollback tx = (r, tx') \<Longrightarrow> tx_ok l tx'"
  by (auto simp: tx_rollback_def tx_ok_clear_staged split: if_splits)

lemma tx_ok_aexit:
  "limits_ok l \<Longrightarrow> tx_ok l tx \<Longrightarrow> tx_aexit tx = (r, tx') \<Longrightarrow> tx_ok l tx'"
  by (auto simp: tx_aexit_def dest: tx_ok_rollback split: if_splits)

lemma tx_ok_commit_start:
  "tx_ok l tx \<Longrightarrow> tx_commit_start tx = (r, tx') \<Longrightarrow> tx_ok l tx'"
  by (auto simp: tx_commit_start_def tx_ok_def split: if_splits)

lemma sys_ok_put_tx:
  "sys_ok s \<Longrightarrow> tx_ok (st_limits (sys_store s)) tx \<Longrightarrow> sys_ok (put_tx t tx s)"
  by (auto simp: sys_ok_def)

lemma sys_okD:
  assumes "sys_ok s"
  shows "limits_ok (st_limits (sys_store s))" "store_ok (st_state (sys_store s))"
    "sys_txs s t = Some tx \<Longrightarrow> tx_ok (st_limits (sys_store s)) tx"
  using assms by (auto simp: sys_ok_def)

lemma sys_ok_commit_finish:
  assumes "sys_ok s" "sys_txs s t = Some tx"
    and "tx_commit_finish i (sys_store s) tx = (cr, st', tx')"
  shows "sys_ok (put_tx t tx' (s\<lparr>sys_store := st'\<rparr>))"
  using sys_okD(3) [OF assms(1,2)] assms(3)
proof (cases rule: commit_finish_cases)
  case failed
  then show ?thesis
    using assms(1) sys_okD(1) [OF assms(1)]
    by (intro sys_ok_put_tx) (auto simp: sys_ok_def tx_ok_clear_staged)
next
  case committed
  then show ?thesis
    using assms(1) store_ok_commit [OF sys_okD(2) [OF assms(1)] sys_okD(3) [OF assms(1,2)]]
    by (intro sys_ok_put_tx) (auto simp: sys_ok_def tx_ok_clear_staged)
qed

lemma sys_ok_step: "es_step s s' \<Longrightarrow> sys_ok s \<Longrightarrow> sys_ok s'"
proof (induction rule: es_step.induct)
  case step_transaction
  then show ?case by (intro sys_ok_put_tx tx_ok_new) (auto dest: sys_okD)
next
  case step_aenter_start
  then show ?case by (blast intro: sys_ok_put_tx tx_ok_aenter_start sys_okD)
next
  case step_aenter_finish
  then show ?case by (blast intro: sys_ok_put_tx tx_ok_aenter_finish sys_okD)
next
  case step_append
  then show ?case by (blast intro: sys_ok_put_tx tx_ok_append sys_okD)
next
  case step_rollback
  then show ?case by (blast intro: sys_ok_put_tx tx_ok_rollback sys_okD)
next
  case step_aexit
  then show ?case by (blast intro: sys_ok_put_tx tx_ok_aexit sys_okD)
next
  case step_commit_start
  then show ?case by (blast intro: sys_ok_put_tx tx_ok_commit_start sys_okD)
next
  case step_commit_finish
  then show ?case by (blast intro: sys_ok_commit_finish)
qed

lemma sys_ok_steps: "es_step\<^sup>*\<^sup>* s s' \<Longrightarrow> sys_ok s \<Longrightarrow> sys_ok s'"
  by (induction rule: rtranclp_induct) (auto intro: sys_ok_step)

lemma sys_ok_initial: "(\<And>l'. l = Some l' \<Longrightarrow> limits_ok l') \<Longrightarrow> sys_ok (es_initial l)"
  by (auto simp: sys_ok_def es_initial_def new_event_store_def store_ok_def split: option.splits)

lemma sys_ok_reachable: "es_reachable s \<Longrightarrow> sys_ok s"
  unfolding es_reachable_def by (blast intro: sys_ok_steps sys_ok_initial)

lemma es_reachable_steps: "es_reachable s \<Longrightarrow> es_step\<^sup>*\<^sup>* s s' \<Longrightarrow> es_reachable s'"
  unfolding es_reachable_def by (meson rtranclp_trans)

section \<open>History only grows\<close>

lemma es_step_store:
  assumes "es_step s s'" "sys_ok s"
  shows "st_limits (sys_store s') = st_limits (sys_store s) \<and>
    (\<exists>c. ss_events (st_state (sys_store s')) = ss_events (st_state (sys_store s)) @ c \<and>
      (\<forall>sid. get_list (ss_streams (st_state (sys_store s'))) sid =
        get_list (ss_streams (st_state (sys_store s))) sid @ filter (\<lambda>e. se_stream_id e = sid) c))"
  using assms(1)
proof cases
  case (step_commit_finish t tx interrupt cr st' tx')
  then show ?thesis
    using sys_okD(3) [OF assms(2) step_commit_finish(2)]
    by (cases rule: commit_finish_cases [OF _ step_commit_finish(4)]) auto
qed auto

lemma es_steps_store:
  assumes "es_step\<^sup>*\<^sup>* s s'" "sys_ok s"
  shows "st_limits (sys_store s') = st_limits (sys_store s) \<and>
    (\<exists>c. ss_events (st_state (sys_store s')) = ss_events (st_state (sys_store s)) @ c \<and>
      (\<forall>sid. get_list (ss_streams (st_state (sys_store s'))) sid =
        get_list (ss_streams (st_state (sys_store s))) sid @ filter (\<lambda>e. se_stream_id e = sid) c))"
  using assms
proof (induction rule: rtranclp_induct)
  case (step y z)
  then have "sys_ok y" by (blast intro: sys_ok_steps)
  from es_step_store [OF step.hyps(2) this] step.IH [OF step.prems] show ?case by auto
qed auto

section \<open>Life of one transaction\<close>

fun tx_rank :: "transaction_state \<Rightarrow> nat" where
  "tx_rank TxNew = 0"
| "tx_rank TxEntering = 1"
| "tx_rank TxActive = 2"
| "tx_rank TxCommitting = 3"
| "tx_rank TxCommitted = 4"
| "tx_rank TxRolledBack = 4"

lemma tx_append_frame:
  "tx_append st tx sid v evs = (r, tx') \<Longrightarrow> tx_state tx' = tx_state tx \<and> tx_snapshot tx' = tx_snapshot tx"
  by (erule tx_append_cases) auto

lemma tx_commit_finish_frame:
  "tx_commit_finish i st tx = (cr, st', tx') \<Longrightarrow>
   tx_rank (tx_state tx') = 4 \<and> tx_snapshot tx' = tx_snapshot tx"
  by (auto simp: tx_commit_finish_def Let_def split: option.splits sum.splits)

text \<open>A transaction's state only moves forward and its snapshot is fixed once taken.\<close>

lemma es_step_tx:
  assumes "es_step s s'" "sys_txs s t = Some tx"
  shows "\<exists>tx'. sys_txs s' t = Some tx' \<and> tx_rank (tx_state tx) \<le> tx_rank (tx_state tx') \<and>
    (2 \<le> tx_rank (tx_state tx) \<longrightarrow> tx_snapshot tx' = tx_snapshot tx)"
  using assms
proof cases
  case (step_append u)
  then show ?thesis using assms(2) by (cases "u = t") (auto dest: tx_append_frame)
next
  case (step_commit_finish u tx0)
  then show ?thesis using assms(2) by (cases "u = t") (auto dest!: tx_commit_finish_frame)
qed (auto simp: tx_aenter_start_def tx_aenter_finish_def tx_rollback_def tx_aexit_def
      tx_commit_start_def clear_staged_def split: if_splits option.splits)

lemma es_steps_tx:
  assumes "es_step\<^sup>*\<^sup>* s s'" "sys_txs s t = Some tx"
  shows "\<exists>tx'. sys_txs s' t = Some tx' \<and> tx_rank (tx_state tx) \<le> tx_rank (tx_state tx') \<and>
    (2 \<le> tx_rank (tx_state tx) \<longrightarrow> tx_snapshot tx' = tx_snapshot tx)"
  using assms
proof (induction rule: rtranclp_induct)
  case (step y z)
  then obtain ty where "sys_txs y t = Some ty" "tx_rank (tx_state tx) \<le> tx_rank (tx_state ty)"
    "2 \<le> tx_rank (tx_state tx) \<longrightarrow> tx_snapshot ty = tx_snapshot tx" by auto
  then show ?case using es_step_tx [OF step.hyps(2), of t ty] by force
qed auto

section \<open>Why a commit fails\<close>

lemma validate_new_ids_Inl:
  "validate_new_ids seen evs = Inl e \<Longrightarrow> distinct (map ae_event_id evs) \<Longrightarrow>
   \<exists>u \<in> ae_event_id ` set evs \<inter> seen. e = DuplicateEventIdError u"
proof (induction evs arbitrary: seen)
  case (Cons ev evs)
  show ?case
  proof (cases "ae_event_id ev \<in> seen")
    case True
    then show ?thesis using Cons.prems by auto
  next
    case False
    then show ?thesis using Cons.prems Cons.IH [of "insert (ae_event_id ev) seen"] by auto
  qed
qed simp

lemma validate_staged_Inl:
  assumes "validate_staged s seen sas = Inl e" "distinct (staged_ids sas)"
  shows "(\<exists>sa \<in> set sas. let actual = int (length (get_list (ss_streams s) (sa_stream_id sa))) in
       actual \<noteq> sa_expected_version sa \<and>
       e = OptimisticConcurrencyError (sa_stream_id sa) (sa_expected_version sa) actual) \<or>
    (\<exists>u \<in> set (staged_ids sas) \<inter> seen. e = DuplicateEventIdError u)"
  using assms
proof (induction sas arbitrary: seen)
  case (Cons sa sas)
  consider (version) "int (length (get_list (ss_streams s) (sa_stream_id sa))) \<noteq> sa_expected_version sa"
    | (dup) "validate_new_ids seen (sa_events sa) = Inl e"
    | (rest) seen' where "validate_new_ids seen (sa_events sa) = Inr seen'"
        "validate_staged s seen' sas = Inl e"
    using Cons.prems(1) by (auto simp: Let_def split: if_splits sum.splits)
  then show ?case
  proof cases
    case version
    then show ?thesis using Cons.prems(1) by (auto simp: Let_def)
  next
    case dup
    then show ?thesis using validate_new_ids_Inl [OF dup] Cons.prems(2) by auto
  next
    case rest
    then show ?thesis
      using Cons.IH [OF rest(2)] Cons.prems(2) by (auto simp: validate_new_ids_Inr_iff)
  qed
qed simp

section \<open>Guarantees\<close>

text \<open>C2: in every reachable state of every concurrent run, the committed log is numbered
  1, 2, 3, ... by global position, each stream is the projection of the log to it and is
  numbered 1, 2, 3, ... by stream version, no event identity occurs twice, and the identity
  set is exactly that of the log.\<close>

theorem committed_log_consistent:
  assumes "es_reachable s"
  shows "store_ok (st_state (sys_store s))"
  using sys_ok_reachable [OF assms] by (rule sys_okD)

text \<open>C6: a commit succeeds exactly when every staged stream is still at its expected version
  and no staged identity has been committed before. It then appends the staged batches to the
  log as one block, each stream gets its own batch numbered from its expected version, no
  other stream changes, and the result lists the block; otherwise nothing is committed.\<close>

theorem commit_atomic:
  assumes "es_reachable s" "sys_txs s t = Some tx" "tx_state tx = TxCommitting"
    and "tx_commit_finish None (sys_store s) tx = (cr, st', tx')"
  shows "if can_commit (st_state (sys_store s)) (tx_staged tx)
    then \<exists>c. cr = Inr \<lparr>cr_events = c\<rparr> \<and> tx_state tx' = TxCommitted \<and>
        ss_events (st_state st') = ss_events (st_state (sys_store s)) @ c \<and>
        map se_event c = concat (map sa_events (tx_staged tx)) \<and>
        (\<forall>sa \<in> set (tx_staged tx). \<exists>new.
           get_list (ss_streams (st_state st')) (sa_stream_id sa) =
             get_list (ss_streams (st_state (sys_store s))) (sa_stream_id sa) @ new \<and>
           map se_event new = sa_events sa \<and>
           numbered_from (sa_expected_version sa + 1) (map se_stream_version new)) \<and>
        (\<forall>sid. sid \<notin> sa_stream_id ` set (tx_staged tx) \<longrightarrow>
           get_list (ss_streams (st_state st')) sid =
             get_list (ss_streams (st_state (sys_store s))) sid)
    else \<exists>e. cr = Inl e \<and> tx_state tx' = TxRolledBack \<and> st' = sys_store s"
proof (cases "can_commit (st_state (sys_store s)) (tx_staged tx)")
  case True
  let ?s = "st_state (sys_store s)"
  have ok: "tx_ok (st_limits (sys_store s)) tx"
    using sys_okD(3) [OF sys_ok_reachable] assms(1,2) by blast
  have dist: "distinct (map sa_stream_id (tx_staged tx))" using ok by (auto simp: tx_ok_def)
  have new: "\<exists>new. filter (\<lambda>e. se_stream_id e = sa_stream_id sa) (next_events ?s (tx_staged tx)) = new \<and>
      map se_event new = sa_events sa \<and>
      numbered_from (sa_expected_version sa + 1) (map se_stream_version new)"
    if "sa \<in> set (tx_staged tx)" for sa
    using filter_committed_staged [OF dist that, of "int (length (ss_events ?s))"] by auto
  have res: "cr = Inr \<lparr>cr_events = next_events ?s (tx_staged tx)\<rparr>" "tx_state tx' = TxCommitted"
    "st_state st' = build_store_state ?s (next_events ?s (tx_staged tx))"
    using assms(4) commit_finish_success [OF ok True] by auto
  show ?thesis
    using True new by (auto simp: res filter_committed_other)
next
  case False
  moreover have "tx_ok (st_limits (sys_store s)) tx"
    using sys_okD(3) [OF sys_ok_reachable] assms(1,2) by blast
  ultimately show ?thesis using commit_finish_failure [of _ tx "sys_store s"] assms(4) by force
qed

text \<open>C31: a commit that is not interrupted fails only for a reason that holds: either it names
  a staged stream, the version it was staged at and the different version the store has, or
  it names a staged event identity that is already committed.\<close>

theorem commit_failure_cause:
  assumes "es_reachable s" "sys_txs s t = Some tx" "tx_state tx = TxCommitting"
    and "tx_commit_finish None (sys_store s) tx = (Inl e, st', tx')"
  shows "(\<exists>sa \<in> set (tx_staged tx).
       let actual = int (length (get_list (ss_streams (st_state (sys_store s))) (sa_stream_id sa))) in
       actual \<noteq> sa_expected_version sa \<and>
       e = OptimisticConcurrencyError (sa_stream_id sa) (sa_expected_version sa) actual) \<or>
    (\<exists>u \<in> set (staged_ids (tx_staged tx)) \<inter> ss_event_ids (st_state (sys_store s)).
       e = DuplicateEventIdError u)"
proof -
  have ok: "tx_ok (st_limits (sys_store s)) tx"
    using sys_okD(3) [OF sys_ok_reachable] assms(1,2) by blast
  have "\<not> can_commit (st_state (sys_store s)) (tx_staged tx)"
    using assms(4) commit_finish_success [OF ok] by auto
  then have "validate_commit (st_state (sys_store s)) (tx_staged tx) = Inl e"
    using commit_finish_failure [OF ok, of "sys_store s"] assms(4) by auto
  moreover have "distinct (staged_ids (tx_staged tx))" using ok by (auto simp: tx_ok_def)
  ultimately show ?thesis
    unfolding validate_commit_def by (rule validate_staged_Inl)
qed

text \<open>C1: no lost update. Once a transaction has committed a batch to a stream, every other
  transaction that staged an append to that stream at the same or an older version fails to
  commit, whatever happens in between, and its failure leaves the store as it was.\<close>

theorem no_lost_update:
  assumes "es_reachable s" "sys_txs s t1 = Some tx1" "tx_state tx1 = TxCommitting"
    and "tx_commit_finish None (sys_store s) tx1 = (Inr result, st1, tx1')"
    and "es_step\<^sup>*\<^sup>* (put_tx t1 tx1' (s\<lparr>sys_store := st1\<rparr>)) s'"
    and "sys_txs s' t2 = Some tx2"
    and "sa1 \<in> set (tx_staged tx1)" "sa2 \<in> set (tx_staged tx2)"
    and "sa_stream_id sa2 = sa_stream_id sa1" "sa_expected_version sa2 \<le> sa_expected_version sa1"
  shows "\<exists>e. tx_commit_finish i (sys_store s') tx2 =
     (Inl e, sys_store s', clear_staged (tx2\<lparr>tx_state := TxRolledBack\<rparr>))"
proof -
  let ?s1 = "put_tx t1 tx1' (s\<lparr>sys_store := st1\<rparr>)" and ?sid = "sa_stream_id sa1"
  have ok1: "tx_ok (st_limits (sys_store s)) tx1"
    using sys_okD(3) [OF sys_ok_reachable] assms(1,2) by blast
  have step: "es_step s ?s1" using assms(2,3,4) by (rule step_commit_finish)
  have sys1: "sys_ok ?s1" using sys_ok_step [OF step] sys_ok_reachable [OF assms(1)] by blast
  have sys': "sys_ok s'" using sys_ok_steps [OF assms(5) sys1] .
  then have ok2: "tx_ok (st_limits (sys_store s')) tx2" using assms(6) by (rule sys_okD)
  have can: "can_commit (st_state (sys_store s)) (tx_staged tx1)"
    using commit_finish_failure [OF ok1, of "sys_store s"] assms(4) by auto
  have st1: "st_state st1 = build_store_state (st_state (sys_store s))
        (next_events (st_state (sys_store s)) (tx_staged tx1))"
    using commit_finish_success [OF ok1 can] assms(4) by auto
  have "distinct (map sa_stream_id (tx_staged tx1))" "sa_events sa1 \<noteq> []"
    using ok1 assms(7) by (auto simp: tx_ok_def)
  then have "length (filter (\<lambda>e. se_stream_id e = ?sid)
      (next_events (st_state (sys_store s)) (tx_staged tx1))) > 0"
    using filter_committed_staged [of "tx_staged tx1" sa1 "int (length (ss_events (st_state (sys_store s))))"]
      assms(7) by auto
  moreover have "int (length (get_list (ss_streams (st_state (sys_store s))) ?sid)) =
      sa_expected_version sa1"
    using can assms(7) by (auto simp: can_commit_def versions_match_def)
  ultimately have "int (length (get_list (ss_streams (st_state st1)) ?sid)) > sa_expected_version sa1"
    by (simp add: st1 del: length_greater_0_conv)
  moreover obtain c where "get_list (ss_streams (st_state (sys_store s'))) ?sid =
      get_list (ss_streams (st_state st1)) ?sid @ c"
    using es_steps_store [OF assms(5) sys1] by auto
  ultimately have "int (length (get_list (ss_streams (st_state (sys_store s'))) (sa_stream_id sa2))) \<noteq>
      sa_expected_version sa2"
    using assms(9,10) by simp
  then have "\<not> can_commit (st_state (sys_store s')) (tx_staged tx2)"
    using assms(8) unfolding can_commit_def versions_match_def by blast
  then show ?thesis
    using commit_finish_failure [OF ok2, of "sys_store s'"]
    by (cases i) (auto simp: tx_commit_finish_def [of "Some _"])
qed

text \<open>C29: reads of one transaction are repeatable. As long as the transaction is active, a read
  returns the same page (or the same error) however many other transactions commit between.\<close>

theorem snapshot_reads_repeatable:
  assumes "es_reachable s" "es_step\<^sup>*\<^sup>* s s'"
    and "sys_txs s t = Some tx" "tx_state tx = TxActive"
    and "sys_txs s' t = Some tx'" "tx_state tx' = TxActive"
  shows "tx_read_stream (sys_store s') tx' sid after n = tx_read_stream (sys_store s) tx sid after n"
proof -
  have "tx_snapshot tx' = tx_snapshot tx"
    using es_steps_tx [OF assms(2,3)] assms(4-6) by auto
  moreover have "st_limits (sys_store s') = st_limits (sys_store s)"
    using es_steps_store [OF assms(2) sys_ok_reachable [OF assms(1)]] by blast
  ultimately show ?thesis using assms(4,6) by (simp only: tx_read_stream_def)
qed

lemma py_slice_append_prefix:
  "0 \<le> a \<Longrightarrow> \<exists>more. py_slice (xs @ ys) a n = py_slice xs a n @ more \<and>
     (int (length (py_slice xs a n)) = n \<longrightarrow> more = [])"
  by (rule exI [of _ "take (nat n - length (drop (nat a) xs)) (drop (nat a - length xs) ys)"])
    (auto simp: py_slice_def)

lemma read_stream_grows:
  assumes "st_limits st' = st_limits st"
    and "\<And>k. \<exists>c. get_list (ss_streams (st_state st')) k = get_list (ss_streams (st_state st)) k @ c"
    and page: "store_read_stream st sid after limit = Inr page"
  shows "\<exists>more. store_read_stream st' sid after limit = Inr (page @ more) \<and>
        (limit = Inst (int (length page)) \<longrightarrow> more = [])"
proof -
  obtain k a n where args: "sid = Inst k" "after = Inst a" "0 \<le> a" "limit = Inst n"
    using page by (cases sid; cases after; cases limit) (auto simp: store_read_stream_def split: if_splits)
  obtain c where c: "get_list (ss_streams (st_state st')) k = get_list (ss_streams (st_state st)) k @ c"
    using assms(2) by blast
  show ?thesis
    using page py_slice_append_prefix [OF args(3), of "get_list (ss_streams (st_state st)) k" c n]
    by (auto simp: store_read_stream_def assms(1) args c split: if_splits)
qed

lemma read_all_grows:
  assumes "st_limits st' = st_limits st"
    and c: "ss_events (st_state st') = ss_events (st_state st) @ c"
    and page: "store_read_all st after limit = Inr page"
  shows "\<exists>more. store_read_all st' after limit = Inr (page @ more) \<and>
        (limit = Inst (int (length page)) \<longrightarrow> more = [])"
proof -
  obtain a n where args: "after = Inst a" "0 \<le> a" "limit = Inst n"
    using page by (cases after; cases limit) (auto simp: store_read_all_def split: if_splits)
  show ?thesis
    using page py_slice_append_prefix [OF args(2), of "ss_events (st_state st)" c n]
    by (auto simp: store_read_all_def assms(1) args c split: if_splits)
qed

text \<open>C32: history is append-only for readers. A page read from a stream or from the global log
  is, in every later state, still the beginning of the same page, and a full page never
  changes again.\<close>

theorem committed_pages_stable:
  assumes "es_reachable s" "es_step\<^sup>*\<^sup>* s s'"
  shows "(\<forall>page. store_read_stream (sys_store s) sid after limit = Inr page \<longrightarrow>
      (\<exists>more. store_read_stream (sys_store s') sid after limit = Inr (page @ more) \<and>
        (limit = Inst (int (length page)) \<longrightarrow> more = []))) \<and>
    (\<forall>page. store_read_all (sys_store s) after limit = Inr page \<longrightarrow>
      (\<exists>more. store_read_all (sys_store s') after limit = Inr (page @ more) \<and>
        (limit = Inst (int (length page)) \<longrightarrow> more = [])))"
proof -
  obtain c where "st_limits (sys_store s') = st_limits (sys_store s)"
    and "ss_events (st_state (sys_store s')) = ss_events (st_state (sys_store s)) @ c"
    and "\<And>k. \<exists>c. get_list (ss_streams (st_state (sys_store s'))) k =
       get_list (ss_streams (st_state (sys_store s))) k @ c"
    using es_steps_store [OF assms(2) sys_ok_reachable [OF assms(1)]] by blast
  then show ?thesis
    by (intro conjI allI impI; elim read_stream_grows read_all_grows)
qed

section \<open>A concrete race\<close>

text \<open>Two transactions open a new store, both append to stream \<open>c/k\<close> at version 0, and both
  start to commit.\<close>

definition race_stream :: stream_id where
  "race_stream = \<lparr>sid_category = ''c'', sid_key = ''k''\<rparr>"

definition race_tx :: "uuid \<Rightarrow> transaction" where
  "race_tx u = \<lparr>tx_state = TxCommitting, tx_snapshot = Map.empty,
     tx_staged = [\<lparr>sa_stream_id = race_stream, sa_expected_version = 0,
        sa_events = [demo_append u 2 [1]]\<rparr>],
     tx_staged_streams = {race_stream}, tx_staged_event_ids = {u}, tx_staged_event_count = 1,
     tx_staged_bytes = 6\<rparr>"

definition race_sys :: es_system where
  "race_sys = \<lparr>sys_store = new_event_store None, sys_txs = [0 \<mapsto> race_tx 10, 1 \<mapsto> race_tx 11]\<rparr>"

definition race_event :: stored_event where
  "race_event = \<lparr>se_stream_id = race_stream, se_stream_version = 1, se_global_position = 1,
     se_event = demo_append 10 2 [1]\<rparr>"

definition race_won :: event_store where
  "race_won = (new_event_store None)\<lparr>st_state := \<lparr>ss_streams = [race_stream \<mapsto> [race_event]],
     ss_events = [race_event], ss_event_ids = {10}\<rparr>\<rparr>"

lemma race_append:
  "tx_append (new_event_store l) \<lparr>tx_state = TxActive, tx_snapshot = Map.empty, tx_staged = [],
     tx_staged_streams = {}, tx_staged_event_ids = {}, tx_staged_event_count = 0,
     tx_staged_bytes = 0\<rparr> (Inst race_stream) (Inst 0) [Inst (demo_append u 2 [1])] =
   (Inr (), (race_tx u)\<lparr>tx_state := TxActive\<rparr>)" if "l = None"
  by (simp add: tx_append_def that new_event_store_def default_limits_def demo_append_def
      demo_metadata_def validate_event_limits_def encoded_size_def race_tx_def ae_event_id_def
      fcard.rep_eq py_defs code_point_def fset_of_fmap.rep_eq set_of_map_def)

lemma race_open:
  assumes "sys_store s = new_event_store None" "sys_txs s t = None"
  shows "es_step\<^sup>*\<^sup>* s (put_tx t (race_tx u) s)"
proof -
  let ?a = "\<lparr>tx_state = TxActive, tx_snapshot = Map.empty, tx_staged = [],
     tx_staged_streams = {}, tx_staged_event_ids = {}, tx_staged_event_count = 0,
     tx_staged_bytes = 0\<rparr>"
  let ?p = "\<lambda>tx. put_tx t tx s"
  have put: "put_tx t tx (?p tx') = ?p tx" for tx tx' by (simp add: put_tx_def)
  have step: "es_step s (?p new_transaction)" using assms(2) by (rule step_transaction)
  have "es_step (?p new_transaction) (?p (new_transaction\<lparr>tx_state := TxEntering\<rparr>))"
    using step_aenter_start [of "?p new_transaction" t new_transaction "Inr ()"]
    by (simp add: tx_aenter_start_def put new_transaction_def)
  moreover have "es_step (?p (new_transaction\<lparr>tx_state := TxEntering\<rparr>)) (?p ?a)"
    using step_aenter_finish [of "?p (new_transaction\<lparr>tx_state := TxEntering\<rparr>)" t
        "new_transaction\<lparr>tx_state := TxEntering\<rparr>" None "Inr ()" ?a]
    by (simp add: tx_aenter_finish_def put new_transaction_def assms new_event_store_def)
  moreover have "es_step (?p ?a) (?p ((race_tx u)\<lparr>tx_state := TxActive\<rparr>))"
    using step_append [of "?p ?a" t ?a "Inst race_stream" "Inst 0" "[Inst (demo_append u 2 [1])]"
        "Inr ()" "(race_tx u)\<lparr>tx_state := TxActive\<rparr>"]
    by (simp add: put assms race_append)
  moreover have "es_step (?p ((race_tx u)\<lparr>tx_state := TxActive\<rparr>)) (?p (race_tx u))"
    using step_commit_start [of "?p ((race_tx u)\<lparr>tx_state := TxActive\<rparr>)" t
        "(race_tx u)\<lparr>tx_state := TxActive\<rparr>" "Inr ()" "race_tx u"]
    by (simp add: put tx_commit_start_def race_tx_def)
  ultimately show ?thesis using step by (meson r_into_rtranclp rtranclp_trans)
qed

lemma race_reachable: "es_reachable race_sys"
proof -
  have "es_step\<^sup>*\<^sup>* (es_initial None) (put_tx 0 (race_tx 10) (es_initial None))"
    by (rule race_open) (simp_all add: es_initial_def)
  moreover have "es_step\<^sup>*\<^sup>* (put_tx 0 (race_tx 10) (es_initial None))
      (put_tx 1 (race_tx 11) (put_tx 0 (race_tx 10) (es_initial None)))"
    by (rule race_open) (simp_all add: es_initial_def)
  moreover have "put_tx 1 (race_tx 11) (put_tx 0 (race_tx 10) (es_initial None)) = race_sys"
    by (simp add: put_tx_def es_initial_def race_sys_def)
  ultimately show ?thesis unfolding es_reachable_def by (metis option.distinct(1) rtranclp_trans)
qed

lemma race_commit:
  "tx_commit_finish None (new_event_store None) (race_tx 10) =
     (Inr \<lparr>cr_events = [race_event]\<rparr>, race_won, clear_staged ((race_tx 10)\<lparr>tx_state := TxCommitted\<rparr>))"
  by (auto simp: tx_commit_finish_def validate_commit_def build_committed_events_def
      new_event_store_def race_tx_def race_won_def race_event_def mk_stored_event_def
      mk_commit_result_def build_store_state_def demo_append_def ae_event_id_def se_event_id_def
      demo_metadata_def)

lemma race_txs [simp]:
  "sys_txs race_sys 0 = Some (race_tx 10)" "sys_txs race_sys 1 = Some (race_tx 11)"
  "sys_store race_sys = new_event_store None" "tx_state (race_tx u) = TxCommitting"
  by (simp_all add: race_sys_def race_tx_def)

definition race_sys' :: es_system where
  "race_sys' = put_tx 0 (clear_staged ((race_tx 10)\<lparr>tx_state := TxCommitted\<rparr>))
     (race_sys\<lparr>sys_store := race_won\<rparr>)"

lemma race_step: "es_step race_sys race_sys'"
  unfolding race_sys'_def
  by (rule step_commit_finish [where interrupt = None and tx = "race_tx 10"]) (auto simp: race_commit)

lemma race_reachable': "es_reachable race_sys'"
  using es_reachable_steps [OF race_reachable r_into_rtranclp [of es_step, OF race_step]] .

theorem committed_log_consistent_witness:
  "store_ok (st_state race_won) \<and> ss_events (st_state race_won) = [race_event]"
  using committed_log_consistent [OF race_reachable'] by (simp add: race_sys'_def race_won_def)

theorem commit_atomic_witness:
  "\<exists>c. (Inr \<lparr>cr_events = [race_event]\<rparr> :: es_error + commit_result) = Inr \<lparr>cr_events = c\<rparr> \<and>
     ss_events (st_state race_won) = ss_events (st_state (new_event_store None)) @ c \<and>
     map se_event c = [demo_append 10 2 [1]]"
proof -
  have can: "can_commit (st_state (new_event_store None)) (tx_staged (race_tx 10))"
    by (simp add: can_commit_def versions_match_def new_event_store_def race_tx_def)
  have commit: "tx_commit_finish None (sys_store race_sys) (race_tx 10) =
     (Inr \<lparr>cr_events = [race_event]\<rparr>, race_won, clear_staged ((race_tx 10)\<lparr>tx_state := TxCommitted\<rparr>))"
    by (simp add: race_commit)
  show ?thesis
    using commit_atomic [OF race_reachable race_txs(1) race_txs(4) commit] can
    by (auto simp: race_tx_def)
qed

lemma race_lost:
  "tx_commit_finish None race_won (race_tx 11) =
     (Inl (OptimisticConcurrencyError race_stream 0 1), race_won,
      clear_staged ((race_tx 11)\<lparr>tx_state := TxRolledBack\<rparr>))"
  by (simp add: tx_commit_finish_def validate_commit_def race_won_def race_tx_def)

lemma race_sys'_simps:
  "sys_store race_sys' = race_won" "sys_txs race_sys' 1 = Some (race_tx 11)"
  by (simp_all add: race_sys'_def race_sys_def)

theorem commit_failure_cause_witness:
  "\<exists>sa \<in> set (tx_staged (race_tx 11)). OptimisticConcurrencyError race_stream 0 1 =
     OptimisticConcurrencyError (sa_stream_id sa) (sa_expected_version sa) 1"
proof -
  have commit: "tx_commit_finish None (sys_store race_sys') (race_tx 11) =
     (Inl (OptimisticConcurrencyError race_stream 0 1), race_won,
      clear_staged ((race_tx 11)\<lparr>tx_state := TxRolledBack\<rparr>))"
    by (simp add: race_sys'_simps race_lost)
  show ?thesis
    using commit_failure_cause [OF race_reachable' race_sys'_simps(2) race_txs(4) commit]
    by (auto simp: Let_def)
qed

theorem no_lost_update_witness:
  "\<exists>e. tx_commit_finish None race_won (race_tx 11) =
     (Inl e, race_won, clear_staged ((race_tx 11)\<lparr>tx_state := TxRolledBack\<rparr>))"
proof -
  have commit: "tx_commit_finish None (sys_store race_sys) (race_tx 10) =
     (Inr \<lparr>cr_events = [race_event]\<rparr>, race_won, clear_staged ((race_tx 10)\<lparr>tx_state := TxCommitted\<rparr>))"
    by (simp add: race_commit)
  have run: "es_step\<^sup>*\<^sup>* (put_tx 0 (clear_staged ((race_tx 10)\<lparr>tx_state := TxCommitted\<rparr>))
      (race_sys\<lparr>sys_store := race_won\<rparr>)) race_sys'"
    by (simp add: race_sys'_def)
  have staged: "hd (tx_staged (race_tx u)) \<in> set (tx_staged (race_tx u))"
    "sa_stream_id (hd (tx_staged (race_tx u))) = race_stream"
    "sa_expected_version (hd (tx_staged (race_tx u))) = 0" for u
    by (simp_all add: race_tx_def)
  show ?thesis
    using no_lost_update [OF race_reachable race_txs(1) race_txs(4) commit run
        race_sys'_simps(2) staged(1) staged(1), of None]
    by (simp add: staged race_sys'_simps)
qed

text \<open>The race with a third transaction that only reads.\<close>

definition race_reader :: transaction where
  "race_reader = new_transaction\<lparr>tx_state := TxActive\<rparr>"

lemma race_reader_run:
  "es_reachable (put_tx 2 race_reader race_sys)"
  "es_step (put_tx 2 race_reader race_sys) (put_tx 2 race_reader race_sys')"
proof -
  let ?p = "\<lambda>tx. put_tx 2 tx race_sys"
  have put: "put_tx 2 tx (?p tx') = ?p tx" for tx tx' by (simp add: put_tx_def)
  have "es_step race_sys (?p new_transaction)"
    by (rule step_transaction) (simp add: race_sys_def)
  moreover have "es_step (?p new_transaction) (?p (new_transaction\<lparr>tx_state := TxEntering\<rparr>))"
    using step_aenter_start [of "?p new_transaction" 2 new_transaction "Inr ()"]
    by (simp add: tx_aenter_start_def put new_transaction_def)
  moreover have "es_step (?p (new_transaction\<lparr>tx_state := TxEntering\<rparr>)) (?p race_reader)"
    using step_aenter_finish [of "?p (new_transaction\<lparr>tx_state := TxEntering\<rparr>)" 2
        "new_transaction\<lparr>tx_state := TxEntering\<rparr>" None "Inr ()" race_reader]
    by (simp add: tx_aenter_finish_def put new_transaction_def race_reader_def new_event_store_def)
  ultimately have "es_step\<^sup>*\<^sup>* race_sys (?p race_reader)"
    by (meson r_into_rtranclp rtranclp_trans)
  then show "es_reachable (put_tx 2 race_reader race_sys)"
    using race_reachable es_reachable_steps by blast
  have "es_step (?p race_reader) (put_tx 0 (clear_staged ((race_tx 10)\<lparr>tx_state := TxCommitted\<rparr>))
      (?p race_reader\<lparr>sys_store := race_won\<rparr>))"
    by (rule step_commit_finish [where interrupt = None and tx = "race_tx 10"]) (auto simp: race_commit)
  then show "es_step (put_tx 2 race_reader race_sys) (put_tx 2 race_reader race_sys')"
    by (simp add: race_sys'_def put_tx_def fun_upd_twist)
qed

theorem snapshot_reads_repeatable_witness:
  "tx_read_stream race_won race_reader (Inst race_stream) (Inst 0) (Inst 5) = Inr []"
proof -
  have tx: "sys_txs (put_tx 2 race_reader race_sys) 2 = Some race_reader"
    "sys_txs (put_tx 2 race_reader race_sys') 2 = Some race_reader" "tx_state race_reader = TxActive"
    by (simp_all add: race_reader_def)
  show ?thesis
    using snapshot_reads_repeatable [OF race_reader_run(1)
        r_into_rtranclp [of es_step, OF race_reader_run(2)] tx(1,3,2,3),
        of "Inst race_stream" "Inst 0" "Inst 5"]
    by (simp add: race_sys'_simps tx_read_stream_def race_reader_def new_transaction_def
        new_event_store_def default_limits_def py_slice_def)
qed

theorem committed_pages_stable_witness:
  "store_read_all (new_event_store None) (Inst 0) (Inst 3) = Inr [] \<and>
   (\<exists>more. store_read_all race_won (Inst 0) (Inst 3) = Inr more)"
proof -
  have "store_read_all (new_event_store None) (Inst 0) (Inst 3) = Inr []"
    by (simp add: store_read_all_def new_event_store_def default_limits_def py_slice_def)
  then show ?thesis
    using committed_pages_stable [OF race_reachable r_into_rtranclp [of es_step, OF race_step],
        where after = "Inst 0" and limit = "Inst 3"]
    by (auto simp: race_sys'_simps)
qed

end
