(* ===== verification/ES_Repository.thy ===== *)
theory ES_Repository
  imports ES_UnitOfWork_Runs ES_Store_Runs
begin

text \<open>
  The event-sourced repository (\<open>EventSourcedRepository\<close> of \<open>repository.py\<close>), and the contract
  between the unit of work and repository on one side and a store transaction on the other
  (\<open>EventStoreTransaction\<close> of \<open>protocols.py\<close>) as a locale: what the client relies on is assumed
  there, the client's facts are proved once from it, and the in-memory store is shown to meet it.

  The loading loop runs until the store returns an empty page, so it is a partial function:
  \<open>None\<close> is a call that never returns. For a store that meets the contract it always returns,
  and it returns the replay of the whole stream.
\<close>

record ('i, 'p, 's) repository =
  rp_category :: "string arg"
  rp_factory :: "'i \<Rightarrow> es_error + ('i, 'p, 's) aggregate arg"
  rp_aggregate_type :: string
  rp_id_encoder :: "'i \<Rightarrow> es_error + string arg"
  rp_schemas :: "'p schema_registry"
  rp_page_size :: int

text \<open>\<open>uow_arg\<close>, \<open>cls\<close> and \<open>lease\<close> stand for the checks that the unit of work is one, that the
  aggregate type is a subclass of the base class, and that the lease, if given, is callable.\<close>

definition mk_repository ::
  "unit arg \<Rightarrow> string arg \<Rightarrow> ('i \<Rightarrow> es_error + ('i, 'p, 's) aggregate arg) \<Rightarrow> string arg \<Rightarrow>
   ('i \<Rightarrow> es_error + string arg) \<Rightarrow> 'p schema_registry \<Rightarrow> int arg option \<Rightarrow> unit arg option \<Rightarrow>
   es_error + ('i, 'p, 's) repository" where
  "mk_repository uow_arg category factory cls id_encoder schemas page_size lease =
     (case uow_arg of Foreign \<Rightarrow> Inl TypeError | Inst _ \<Rightarrow>
      if \<not> rg_frozen schemas then Inl SchemaRegistryNotFrozenError
      else (case cls of Foreign \<Rightarrow> Inl TypeError | Inst c \<Rightarrow>
       if lease = Some Foreign then Inl TypeError
       else (case (case page_size of None \<Rightarrow> Inst (read_page_size (rg_limits schemas)) | Some n \<Rightarrow> n) of
          Foreign \<Rightarrow> Inl ResourceLimitError
        | Inst n \<Rightarrow>
            if n < 1 \<or> n > read_page_size (rg_limits schemas) then Inl ResourceLimitError
            else Inr \<lparr>rp_category = category, rp_factory = factory, rp_aggregate_type = c,
                      rp_id_encoder = id_encoder, rp_schemas = schemas, rp_page_size = n\<rparr>)))"

definition repo_stream_id :: "('i, 'p, 's) repository \<Rightarrow> 'i \<Rightarrow> es_error + stream_id" where
  "repo_stream_id rp i =
     (case rp_id_encoder rp i of
        Inl e \<Rightarrow> Inl (wrap_exception RepositoryError e)
      | Inr key \<Rightarrow> mk_stream_id (rp_category rp) key)"

definition repo_new_aggregate ::
  "('i, 'p, 's) repository \<Rightarrow> 'i \<Rightarrow> es_error + ('i, 'p, 's) aggregate" where
  "repo_new_aggregate rp i =
     (case rp_factory rp i of
        Inl e \<Rightarrow> Inl (wrap_exception RepositoryError e)
      | Inr Foreign \<Rightarrow> Inl AggregateTypeMismatchError
      | Inr (Inst ag) \<Rightarrow>
          if ag_class ag \<noteq> rp_aggregate_type rp then Inl AggregateTypeMismatchError
          else if ag_id ag \<noteq> i then Inl RepositoryError
          else Inr ag)"

text \<open>\<open>lease\<close> is what the optional operation lease does when it is called.\<close>

definition require_operation_lease :: "(es_error + unit) option \<Rightarrow> es_error + unit" where
  "require_operation_lease lease = (case lease of None \<Rightarrow> Inr () | Some r \<Rightarrow> r)"

section \<open>Loading\<close>

fun decode_page :: "'p schema_registry \<Rightarrow> stored_event list \<Rightarrow> es_error + 'p recorded_event list" where
  "decode_page rg [] = Inr []"
| "decode_page rg (e # es) =
     (case decode rg (Inst e) of
        Inl err \<Rightarrow> Inl err
      | Inr r \<Rightarrow> (case decode_page rg es of Inl err \<Rightarrow> Inl err | Inr rs \<Rightarrow> Inr (r # rs)))"

text \<open>\<open>read\<close> is \<open>self._unit_of_work.transaction.read_stream\<close> at the time of the call.\<close>

partial_function (option) load_loop ::
  "(stream_id \<Rightarrow> int \<Rightarrow> int \<Rightarrow> es_error + stored_event list) \<Rightarrow> ('p, 's) applier \<Rightarrow>
   'p schema_registry \<Rightarrow> int \<Rightarrow> stream_id \<Rightarrow> int \<Rightarrow> bool \<Rightarrow> ('i, 'p, 's) aggregate \<Rightarrow>
   (es_error + (bool \<times> ('i, 'p, 's) aggregate)) option" where
  "load_loop read ap rg page_size sid after found ag =
     (case read sid after page_size of
        Inl e \<Rightarrow> Some (Inl e)
      | Inr page \<Rightarrow>
          if page = [] then Some (Inr (found, ag))
          else (case decode_page rg page of
             Inl e \<Rightarrow> Some (Inl e)
           | Inr recorded \<Rightarrow>
               (case replay ap ag (map Inst recorded) of
                  (Inl e, ag') \<Rightarrow> Some (Inl e)
                | (Inr _, ag') \<Rightarrow>
                    load_loop read ap rg page_size sid (se_stream_version (last page)) True ag')))"

definition repo_load_inner ::
  "(stream_id \<Rightarrow> int \<Rightarrow> int \<Rightarrow> es_error + stored_event list) \<Rightarrow> ('p, 's) applier \<Rightarrow>
   ('i, 'p, 's) repository \<Rightarrow> 'i \<Rightarrow> (es_error + ('i, 'p, 's) aggregate option) option" where
  [op_defs]: "repo_load_inner read ap rp i =
     (case repo_stream_id rp i of Inl e \<Rightarrow> Some (Inl e) | Inr sid \<Rightarrow>
     (case repo_new_aggregate rp i of Inl e \<Rightarrow> Some (Inl e) | Inr ag \<Rightarrow>
     (case load_loop read ap (rp_schemas rp) (rp_page_size rp) sid 0 False ag of
        None \<Rightarrow> None
      | Some (Inl e) \<Rightarrow> Some (Inl e)
      | Some (Inr (found, ag')) \<Rightarrow> Some (Inr (if found then Some ag' else None)))))"

definition repo_load ::
  "(es_error + unit) option \<Rightarrow> (stream_id \<Rightarrow> int \<Rightarrow> int \<Rightarrow> es_error + stored_event list) \<Rightarrow>
   ('p, 's) applier \<Rightarrow> ('i, 'p, 's) repository \<Rightarrow> 'i \<Rightarrow>
   (es_error + ('i, 'p, 's) aggregate option) option" where
  [op_defs]: "repo_load lease read ap rp i =
     (case require_operation_lease lease of Inl e \<Rightarrow> Some (Inl e)
      | Inr _ \<Rightarrow> repo_load_inner read ap rp i)"

definition repo_get ::
  "(es_error + unit) option \<Rightarrow> (stream_id \<Rightarrow> int \<Rightarrow> int \<Rightarrow> es_error + stored_event list) \<Rightarrow>
   ('p, 's) applier \<Rightarrow> ('i, 'p, 's) repository \<Rightarrow> 'i \<Rightarrow>
   (es_error + ('i, 'p, 's) aggregate) option" where
  [op_defs]: "repo_get lease read ap rp i =
     (case require_operation_lease lease of Inl e \<Rightarrow> Some (Inl e)
      | Inr _ \<Rightarrow>
          (case repo_load_inner read ap rp i of
             None \<Rightarrow> None
           | Some (Inl e) \<Rightarrow> Some (Inl e)
           | Some (Inr None) \<Rightarrow>
               (case repo_stream_id rp i of
                  Inl e \<Rightarrow> Some (Inl e)
                | Inr _ \<Rightarrow> Some (Inl AggregateNotFoundError))
           | Some (Inr (Some ag)) \<Rightarrow> Some (Inr ag)))"

section \<open>Saving\<close>

fun encode_all :: "'p schema_registry \<Rightarrow> 'p pending_event list \<Rightarrow> es_error + append_event list" where
  "encode_all rg [] = Inr []"
| "encode_all rg (pe # pes) =
     (case encode rg (Inst pe) of
        Inl e \<Rightarrow> Inl e
      | Inr a \<Rightarrow> (case encode_all rg pes of Inl e \<Rightarrow> Inl e | Inr as \<Rightarrow> Inr (a # as)))"

definition repo_save ::
  "('t \<Rightarrow> stream_id \<Rightarrow> int \<Rightarrow> append_event list \<Rightarrow> (es_error + unit) \<times> 't) \<Rightarrow> 't \<Rightarrow>
   (es_error + unit) option \<Rightarrow> ('i, 'p, 's) repository \<Rightarrow> 'p uow \<Rightarrow> ('i, 'p, 's) heap \<Rightarrow> nat \<Rightarrow>
   (es_error + unit) \<times> 't \<times> 'p uow \<times> ('i, 'p, 's) heap" where
  [op_defs]: "repo_save app t lease rp uw hp a =
     (case require_operation_lease lease of Inl e \<Rightarrow> (Inl e, t, uw, hp) | Inr _ \<Rightarrow>
      if ag_class (hp a) \<noteq> rp_aggregate_type rp then (Inl AggregateTypeMismatchError, t, uw, hp)
      else (case repo_stream_id rp (ag_id (hp a)) of Inl e \<Rightarrow> (Inl e, t, uw, hp) | Inr sid \<Rightarrow>
     (case validate_stage uw hp a sid of Inl e \<Rightarrow> (Inl e, t, uw, hp) | Inr _ \<Rightarrow>
      if ag_pending_events (hp a) = [] then (Inr (), t, uw, hp)
      else (case encode_all (rp_schemas rp) (ag_pending_events (hp a)) of
         Inl e \<Rightarrow> (Inl e, t, uw, hp)
       | Inr append_events \<Rightarrow>
           stage app t uw hp a sid (ag_pending_events (hp a)) append_events))))"

section \<open>Decoding and replaying a page\<close>

lemma decode_columns:
  "decode rg (Inst e) = Inr r \<Longrightarrow>
   re_stream_id r = se_stream_id e \<and> re_stream_version r = se_stream_version e"
  by (auto simp: decode_def mk_recorded_event_def positive_int_Inr_iff Let_def
      simp del: stable_text.simps positive_int.simps
      split: if_splits option.splits sum.splits arg.splits)

lemma decode_page_columns:
  "decode_page rg es = Inr rs \<Longrightarrow>
   map re_stream_id rs = map se_stream_id es \<and> map re_stream_version rs = map se_stream_version es"
  by (induction es arbitrary: rs) (auto simp: decode_columns split: sum.splits)

lemma decode_page_append:
  "decode_page rg (xs @ ys) = Inr rs \<Longrightarrow>
   \<exists>r1 r2. decode_page rg xs = Inr r1 \<and> decode_page rg ys = Inr r2 \<and> rs = r1 @ r2"
  by (induction xs arbitrary: rs) (fastforce split: sum.splits)+

lemma apply_page_ok:
  assumes "run_events ap (map re_event rs) (ag_state ag) = Some st"
    and "numbered_from (ag_version ag + 1) (map re_stream_version rs)"
  shows "apply_page ap ag rs =
     (Inr (), ag\<lparr>ag_state := st, ag_version := ag_version ag + int (length rs)\<rparr>)"
  using assms
proof (induction rs arbitrary: ag)
  case (Cons r rs)
  obtain o1 s1 where ap: "ap (re_event r) (ag_state ag) = (o1, s1)" by (rule prod.exhaust)
  then have o1: "o1 = Inr ()" and run: "run_events ap (map re_event rs) s1 = Some st"
    using Cons.prems(1) by (auto split: sum.splits)
  show ?case
    using Cons.IH [of "ag\<lparr>ag_state := s1, ag_version := re_stream_version r\<rparr>"] ap o1 run Cons.prems(2)
    by (simp add: add.assoc)
qed simp

lemma replay_ok:
  assumes "rs \<noteq> []" "run_events ap (map re_event rs) (ag_state ag) = Some st"
    and "numbered_from (ag_version ag + 1) (map re_stream_version rs)"
    and "\<forall>r \<in> set rs. re_stream_id r = sid"
    and "\<not> ag_faulted ag" "ag_enlistment ag = None" "ag_pending_events ag = []"
    and "ag_stream_id ag \<in> {None, Some sid}"
  shows "replay ap ag (map Inst rs) =
     (Inr (), ag\<lparr>ag_stream_id := Some sid, ag_state := st,
        ag_version := ag_version ag + int (length rs)\<rparr>)"
proof -
  obtain r rs' where rs: "rs = r # rs'" using assms(1) by (cases rs) auto
  have chk: "check_page sid (ag_version ag + 1) (r # rs') = Inr ()"
    using assms(3,4) unfolding check_page_Inr_iff rs by blast
  have sid: "(case ag_stream_id ag of Some s \<Rightarrow> s | None \<Rightarrow> re_stream_id r) = sid"
    using assms(4,8) rs by auto
  have app: "apply_page ap (ag\<lparr>ag_stream_id := Some sid\<rparr>) (r # rs') =
      (Inr (), ag\<lparr>ag_stream_id := Some sid, ag_state := st,
        ag_version := ag_version ag + int (length (r # rs'))\<rparr>)"
    using apply_page_ok [of ap "r # rs'" "ag\<lparr>ag_stream_id := Some sid\<rparr>" st] assms(2,3)
    unfolding rs by (simp del: apply_page.simps)
  show ?thesis
    using chk app assms(5-7) sid
    by (simp add: replay_def require_mutable_def record_page_Inst Let_def rs
        del: list.map apply_page.simps check_page.simps)
qed

section \<open>The contract of a store transaction\<close>

definition result_matches ::
  "(stream_id \<times> int \<times> append_event list) list \<Rightarrow> commit_result \<Rightarrow> bool" where
  "result_matches batches r \<longleftrightarrow>
     map (\<lambda>e. (se_stream_id e, se_stream_version e, se_event e)) (cr_events r) =
       concat (map (\<lambda>(sid, v, evs). enumerate_versions sid v evs) batches) \<and>
     distinct (map se_event_id (cr_events r)) \<and>
     (\<exists>p. numbered_from p (map se_global_position (cr_events r)))"

definition plan_batch :: "'p commit_plan \<Rightarrow> stream_id \<times> int \<times> append_event list" where
  "plan_batch pl = (pl_stream_id pl, pl_expected_version pl, pl_append_events pl)"

lemma zip_tl_contiguous:
  "numbered_from p (map f es) \<Longrightarrow> list_ex (\<lambda>(x, y). f y \<noteq> f x + 1) (zip es (tl es)) = False"
  by (induction es arbitrary: p) (auto simp: list_ex_iff neq_Nil_conv, (case_tac es, auto)+)

lemma list_ex_zip_map:
  "map f xs = ys \<Longrightarrow> list_ex (\<lambda>(x, y). P x y) (zip xs ys) \<longleftrightarrow> list_ex (\<lambda>x. P x (f x)) xs"
  by (induction xs arbitrary: ys) auto

lemma validate_result_matches:
  assumes "result_matches (map plan_batch pls) r"
  shows "validate_result pls (Inst r) = Inr r"
proof -
  let ?row = "\<lambda>e. (se_stream_id e, se_stream_version e, se_event e)"
  have rows: "map ?row (cr_events r) = expected_events pls"
    using assms by (simp add: result_matches_def plan_batch_def expected_events_def comp_def)
  then have len: "length (cr_events r) = length (expected_events pls)"
    by (metis length_map)
  have zip: "\<not> list_ex (\<lambda>(stored, (sid, version, ev)).
          se_stream_id stored \<noteq> sid \<or> se_stream_version stored \<noteq> version \<or> se_event stored \<noteq> ev)
          (zip (cr_events r) (expected_events pls))"
    by (simp add: rows [symmetric] zip_map2 list_ex_iff zip_same_conv_map)
  have ids: "length (cr_events r) = card (set (map se_event_id (cr_events r)))"
    using assms distinct_card [of "map se_event_id (cr_events r)"] by (simp add: result_matches_def)
  obtain p where "numbered_from p (map se_global_position (cr_events r))"
    using assms by (auto simp: result_matches_def)
  then have "\<not> list_ex (\<lambda>(previous, current).
      se_global_position current \<noteq> se_global_position previous + 1) (zip (cr_events r) (tl (cr_events r)))"
    by (simp add: zip_tl_contiguous)
  then show ?thesis using len zip ids by (simp add: Let_def)
qed

locale event_store_transaction =
  fixes read :: "'t \<Rightarrow> stream_id \<Rightarrow> int \<Rightarrow> int \<Rightarrow> es_error + stored_event list"
    and app :: "'t \<Rightarrow> stream_id \<Rightarrow> int \<Rightarrow> append_event list \<Rightarrow> (es_error + unit) \<times> 't"
    and commit :: "'t \<Rightarrow> (es_error + commit_result) \<times> 't"
    and valid :: "'t \<Rightarrow> bool"
    and stream :: "'t \<Rightarrow> stream_id \<Rightarrow> stored_event list"
    and staged :: "'t \<Rightarrow> (stream_id \<times> int \<times> append_event list) list"
    and page_max :: "'t \<Rightarrow> int"
  assumes read_page: "valid t \<Longrightarrow> 0 \<le> a \<Longrightarrow> 1 \<le> n \<Longrightarrow> n \<le> page_max t \<Longrightarrow>
      read t sid a n = Inr (py_slice (stream t sid) a n)"
    and stream_numbered: "valid t \<Longrightarrow> numbered_from 1 (map se_stream_version (stream t sid))"
    and stream_own: "valid t \<Longrightarrow> e \<in> set (stream t sid) \<Longrightarrow> se_stream_id e = sid"
    and app_staged: "valid t \<Longrightarrow> app t sid v evs = (Inr (), t') \<Longrightarrow>
      valid t' \<and> staged t' = staged t @ [(sid, v, evs)]"
    and app_refused: "app t sid v evs = (Inl err, t') \<Longrightarrow> t' = t"
    and commit_matches: "valid t \<Longrightarrow> commit t = (Inr r, t') \<Longrightarrow> result_matches (staged t) r"
begin

lemma commit_validates:
  "valid t \<Longrightarrow> staged t = map plan_batch pls \<Longrightarrow> commit t = (Inr r, t') \<Longrightarrow>
   validate_result pls (Inst r) = Inr r"
  using commit_matches validate_result_matches by metis

lemma stage_keeps_batches:
  assumes "valid t" "staged t = map plan_batch (uw_plans uw)"
    and stg: "stage app t uw hp a sid pending evs = (r, t', uw', hp')"
  shows "valid t' \<and> staged t' = map plan_batch (uw_plans uw')"
proof -
  obtain er ag where enl: "enlist (hp a) (uw_ref uw) sid pending = (er, ag)" by (rule prod.exhaust)
  obtain ar t1 where ap: "app t sid (ag_version ag) evs = (ar, t1)" by (rule prod.exhaust)
  show ?thesis
  proof (cases "validate_stage uw hp a sid")
    case (Inl e)
    then show ?thesis using assms by (simp add: stage_def)
  next
    case v: (Inr _)
    show ?thesis
    proof (cases er)
      case (Inl e)
      then show ?thesis using assms v enl by (simp add: stage_def)
    next
      case er: (Inr _)
      show ?thesis
      proof (cases ar)
        case (Inl e)
        then have "t1 = t" using ap app_refused by simp
        then show ?thesis
          using assms v enl er ap Inl by (auto simp: stage_def split: prod.splits sum.splits)
      next
        case (Inr _)
        then have "valid t1" "staged t1 = staged t @ [(sid, ag_version ag, evs)]"
          using ap app_staged [OF assms(1)] by auto
        then show ?thesis
          using assms v enl er ap Inr by (auto simp: stage_def plan_batch_def)
      qed
    qed
  qed
qed

text \<open>Reading from position \<open>k\<close> of a stream on.\<close>

lemma page_at:
  assumes "valid t" "k \<le> length (stream t sid)" "1 \<le> n" "n \<le> page_max t"
  defines "page \<equiv> py_slice (stream t sid) (int k) n"
  shows "read t sid (int k) n = Inr page"
    and "page = [] \<longleftrightarrow> k = length (stream t sid)"
    and "page \<noteq> [] \<Longrightarrow> se_stream_version (last page) = int (k + length page)"
    and "k + length page \<le> length (stream t sid)"
    and "drop k (stream t sid) = page @ drop (k + length page) (stream t sid)"
    and "numbered_from (int k + 1) (map se_stream_version page)"
    and "\<forall>e \<in> set page. se_stream_id e = sid"
proof -
  let ?xs = "stream t sid"
  have page: "page = take (nat n) (drop k ?xs)" by (simp add: page_def py_slice_def)
  show "read t sid (int k) n = Inr page" using assms read_page by simp
  show "page = [] \<longleftrightarrow> k = length ?xs" using assms(2,3) by (auto simp: page)
  show num: "numbered_from (int k + 1) (map se_stream_version page)"
    using numbered_from_take [OF numbered_from_drop [OF stream_numbered [OF assms(1)], of k sid], of "nat n"]
      assms(2) by (simp add: page take_map drop_map add.commute)
  show "page \<noteq> [] \<Longrightarrow> se_stream_version (last page) = int (k + length page)"
    using numbered_from_last [OF num] by (simp add: last_map)
  show "k + length page \<le> length ?xs" using assms(2) by (auto simp: page)
  show "drop k ?xs = page @ drop (k + length page) ?xs"
    using py_slice_append_drop [of "int k" ?xs n] by (simp add: page_def)
  show "\<forall>e \<in> set page. se_stream_id e = sid"
    using stream_own [OF assms(1)] by (auto simp: page dest!: in_set_takeD in_set_dropD)
qed

lemma load_loop_returns:
  assumes "valid t" "k \<le> length (stream t sid)" "1 \<le> n" "n \<le> page_max t"
  shows "\<exists>r. load_loop (read t) ap rg n sid (int k) found ag = Some r"
  using assms(2)
proof (induction "length (stream t sid) - k" arbitrary: k found ag rule: less_induct)
  case less
  note pg = page_at [OF assms(1) less.prems assms(3,4)]
  let ?page = "py_slice (stream t sid) (int k) n"
  show ?case
  proof (cases "?page = []")
    case True
    then show ?thesis using pg(1) by (subst load_loop.simps) simp
  next
    case False
    then have "k < length (stream t sid)" using pg(2) less.prems by auto
    moreover have "0 < length ?page" using False by simp
    ultimately have "length (stream t sid) - (k + length ?page) < length (stream t sid) - k"
      by linarith
    from less.hyps [OF this pg(4)] show ?thesis
      using pg(1) pg(3) [OF False] False
      by (subst load_loop.simps) (auto split: sum.splits prod.splits)
  qed
qed

lemma load_loop_replays:
  assumes "valid t" "k \<le> length (stream t sid)" "1 \<le> n" "n \<le> page_max t"
    and "decode_page rg (drop k (stream t sid)) = Inr recs"
    and "run_events ap (map re_event recs) (ag_state ag) = Some st"
    and "ag_version ag = int k" "\<not> ag_faulted ag" "ag_enlistment ag = None"
    and "ag_pending_events ag = []" "ag_stream_id ag \<in> {None, Some sid}"
  shows "load_loop (read t) ap rg n sid (int k) found ag =
     Some (Inr (found \<or> k < length (stream t sid),
       ag\<lparr>ag_state := st, ag_version := int (length (stream t sid)),
         ag_stream_id := if k < length (stream t sid) then Some sid else ag_stream_id ag\<rparr>))"
  using assms(2,5-11)
proof (induction "length (stream t sid) - k" arbitrary: k found ag recs rule: less_induct)
  case less
  note pg = page_at [OF assms(1) less.prems(1) assms(3,4)]
  let ?page = "py_slice (stream t sid) (int k) n"
  show ?case
  proof (cases "?page = []")
    case True
    then have "k = length (stream t sid)" using pg(2) by simp
    then show ?thesis using pg(1) True less.prems by (subst load_loop.simps) simp
  next
    case False
    let ?k = "k + length ?page"
    obtain r1 r2 where dec: "decode_page rg ?page = Inr r1"
      "decode_page rg (drop ?k (stream t sid)) = Inr r2" "recs = r1 @ r2"
      using decode_page_append less.prems(2) pg(5) by metis
    note cols = decode_page_columns [OF dec(1)]
    have len: "length r1 = length ?page" using cols by (metis length_map)
    obtain s1 where run: "run_events ap (map re_event r1) (ag_state ag) = Some s1"
      "run_events ap (map re_event r2) s1 = Some st"
      using less.prems(3) dec(3) by (auto simp: run_events_append bind_eq_Some_conv)
    let ?ag = "ag\<lparr>ag_stream_id := Some sid, ag_state := s1,
        ag_version := ag_version ag + int (length r1)\<rparr>"
    have own: "\<forall>r \<in> set r1. re_stream_id r = sid"
    proof
      fix r assume "r \<in> set r1"
      then have "re_stream_id r \<in> set (map re_stream_id r1)" by simp
      then show "re_stream_id r = sid" using cols pg(7) by auto
    qed
    have rep: "replay ap ag (map Inst r1) = (Inr (), ?ag)"
      using len False cols pg(6) own less.prems run(1) by (intro replay_ok) auto
    have lt: "k < length (stream t sid)" using False pg(2) less.prems(1) by auto
    have dec_less: "length (stream t sid) - ?k < length (stream t sid) - k"
      using False lt by (simp add: diff_less_mono2 le_add1)
    have "load_loop (read t) ap rg n sid (int ?k) True ?ag =
        Some (Inr (True, ?ag\<lparr>ag_state := st, ag_version := int (length (stream t sid)),
          ag_stream_id := Some sid\<rparr>))"
      using less.hyps [OF dec_less pg(4) dec(2), of ?ag True] run(2) less.prems len by simp
    then show ?thesis
      using pg(1) pg(3) [OF False] False dec(1) rep lt by (subst load_loop.simps) simp
  qed
qed

end

section \<open>The in-memory store meets the contract\<close>

type_synonym mem_tx = "event_store \<times> transaction"

definition mem_read :: "mem_tx \<Rightarrow> stream_id \<Rightarrow> int \<Rightarrow> int \<Rightarrow> es_error + stored_event list" where
  "mem_read t sid a n = tx_read_stream (fst t) (snd t) (Inst sid) (Inst a) (Inst n)"

definition mem_append ::
  "mem_tx \<Rightarrow> stream_id \<Rightarrow> int \<Rightarrow> append_event list \<Rightarrow> (es_error + unit) \<times> mem_tx" where
  "mem_append t sid v evs =
     (case tx_append (fst t) (snd t) (Inst sid) (Inst v) (map Inst evs) of
        (r, tx) \<Rightarrow> (r, (fst t, tx)))"

definition mem_commit :: "mem_tx \<Rightarrow> (es_error + commit_result) \<times> mem_tx" where
  "mem_commit t = (case tx_commit None (fst t) (snd t) of (r, st, tx) \<Rightarrow> (r, (st, tx)))"

definition snapshot_ok :: "(stream_id \<rightharpoonup> stored_event list) \<Rightarrow> bool" where
  [inv_defs]: "snapshot_ok m \<longleftrightarrow>
     (\<forall>sid. numbered_from 1 (map se_stream_version (get_list m sid)) \<and>
        (\<forall>e \<in> set (get_list m sid). se_stream_id e = sid))"

definition mem_valid :: "mem_tx \<Rightarrow> bool" where
  [inv_defs]: "mem_valid t \<longleftrightarrow> tx_state (snd t) = TxActive \<and> limits_ok (st_limits (fst t)) \<and>
     store_ok (st_state (fst t)) \<and> tx_ok (st_limits (fst t)) (snd t) \<and>
     snapshot_ok (tx_snapshot (snd t))"

definition mem_stream :: "mem_tx \<Rightarrow> stream_id \<Rightarrow> stored_event list" where
  "mem_stream t sid = get_list (tx_snapshot (snd t)) sid"

definition batch_of :: "staged_append \<Rightarrow> stream_id \<times> int \<times> append_event list" where
  "batch_of sa = (sa_stream_id sa, sa_expected_version sa, sa_events sa)"

definition mem_staged :: "mem_tx \<Rightarrow> (stream_id \<times> int \<times> append_event list) list" where
  "mem_staged t = map batch_of (tx_staged (snd t))"

definition mem_page_max :: "mem_tx \<Rightarrow> int" where
  "mem_page_max t = read_page_size (st_limits (fst t))"

lemma numbered_events_rows:
  "map (\<lambda>e. (se_stream_id e, se_stream_version e, se_event e)) (numbered_events sid v p evs) =
   enumerate_versions sid v evs"
  by (induction evs arbitrary: v p) auto

lemma committed_events_rows:
  "map (\<lambda>e. (se_stream_id e, se_stream_version e, se_event e)) (committed_events p sas) =
   concat (map (\<lambda>(sid, v, evs). enumerate_versions sid v evs) (map batch_of sas))"
  by (induction sas arbitrary: p) (auto simp: numbered_events_rows batch_of_def)

lemma committed_events_match:
  assumes "tx_ok l tx"
  shows "result_matches (map batch_of (tx_staged tx))
     \<lparr>cr_events = committed_events p (tx_staged tx)\<rparr>"
proof -
  have "distinct (map se_event_id (committed_events p (tx_staged tx)))"
    using assms by (simp add: committed_event_ids tx_ok_def staged_ids_def)
  moreover have "\<exists>q. numbered_from q (map se_global_position (committed_events p (tx_staged tx)))"
    by (rule exI [of _ "p + 1"]) simp
  ultimately show ?thesis by (simp add: result_matches_def committed_events_rows)
qed

lemma tx_ok_committing: "tx_ok l tx \<Longrightarrow> tx_state tx = TxActive \<Longrightarrow> tx_ok l (tx\<lparr>tx_state := TxCommitting\<rparr>)"
  by (simp add: tx_ok_def)

lemma tx_append_state:
  "tx_append st tx sid v evs = (r, tx') \<Longrightarrow>
   tx_state tx' = tx_state tx \<and> tx_snapshot tx' = tx_snapshot tx"
  by (rule tx_append_frame)

lemma mem_append_staged:
  assumes "mem_valid t" "mem_append t sid v evs = (Inr (), t')"
  shows "mem_valid t' \<and> mem_staged t' = mem_staged t @ [(sid, v, evs)]"
proof -
  obtain tx' where tx': "tx_append (fst t) (snd t) (Inst sid) (Inst v) (map Inst evs) = (Inr (), tx')"
    "t' = (fst t, tx')"
    using assms(2) by (auto simp: mem_append_def split: prod.splits)
  have "tx_ok (st_limits (fst t)) tx'"
    using tx_ok_append [OF _ tx'(1)] assms(1) by (simp add: mem_valid_def)
  moreover have "tx_staged tx' = tx_staged (snd t) @
      [\<lparr>sa_stream_id = sid, sa_expected_version = v, sa_events = evs\<rparr>]"
    using tx'(1) by (cases rule: tx_append_cases) (auto dest: map_injective simp: inj_def)
  ultimately show ?thesis
    using assms(1) tx_append_state [OF tx'(1)]
    by (simp add: mem_valid_def mem_staged_def tx'(2) batch_of_def)
qed

lemma mem_commit_eq:
  assumes "mem_valid t"
  shows "mem_commit t =
    (let s = st_state (fst t); sas = tx_staged (snd t) in
     if can_commit s sas then
       (Inr \<lparr>cr_events = next_events s sas\<rparr>,
        ((fst t)\<lparr>st_state := build_store_state s (next_events s sas)\<rparr>,
         clear_staged ((snd t)\<lparr>tx_state := TxCommitted\<rparr>)))
     else (case validate_commit s sas of
         Inl e \<Rightarrow> (Inl e, (fst t, clear_staged ((snd t)\<lparr>tx_state := TxRolledBack\<rparr>)))
       | Inr _ \<Rightarrow> (Inl EventStoreTransactionError, t)))"
proof -
  let ?tx = "(snd t)\<lparr>tx_state := TxCommitting\<rparr>" and ?s = "st_state (fst t)"
  have start: "tx_commit None (fst t) (snd t) = tx_commit_finish None (fst t) ?tx"
    using assms by (simp add: tx_commit_def tx_commit_start_def mem_valid_def)
  have ok: "tx_ok (st_limits (fst t)) ?tx"
    using assms tx_ok_committing by (simp add: mem_valid_def)
  show ?thesis
  proof (cases "can_commit ?s (tx_staged (snd t))")
    case True
    then show ?thesis
      using commit_finish_success [OF ok, of "fst t"] by (simp add: mem_commit_def start Let_def)
  next
    case False
    then obtain e where "validate_commit ?s (tx_staged (snd t)) = Inl e"
      "tx_commit_finish None (fst t) ?tx = (Inl e, fst t, clear_staged (?tx\<lparr>tx_state := TxRolledBack\<rparr>))"
      using commit_finish_failure [OF ok, of "fst t"] by auto
    then show ?thesis using False by (simp add: mem_commit_def start Let_def)
  qed
qed

interpretation mem: event_store_transaction
  mem_read mem_append mem_commit mem_valid mem_stream mem_staged mem_page_max
proof
  show "mem_read t sid a n = Inr (py_slice (mem_stream t sid) a n)"
    if "mem_valid t" "0 \<le> a" "1 \<le> n" "n \<le> mem_page_max t" for t sid a n
    using that by (simp add: mem_read_def tx_read_stream_def mem_valid_def mem_stream_def mem_page_max_def)
  show "numbered_from 1 (map se_stream_version (mem_stream t sid))" if "mem_valid t" for t sid
    using that by (simp add: mem_valid_def mem_stream_def snapshot_ok_def)
  show "se_stream_id e = sid" if "mem_valid t" "e \<in> set (mem_stream t sid)" for t sid e
    using that by (simp add: mem_valid_def mem_stream_def snapshot_ok_def)
  show "mem_valid t' \<and> mem_staged t' = mem_staged t @ [(sid, v, evs)]"
    if "mem_valid t" "mem_append t sid v evs = (Inr (), t')" for t sid v evs t'
    using that by (rule mem_append_staged)
  show "t' = t" if refused: "mem_append t sid v evs = (Inl err, t')" for t sid v evs err t'
  proof -
    obtain tx' where "tx_append (fst t) (snd t) (Inst sid) (Inst v) (map Inst evs) = (Inl err, tx')"
      "t' = (fst t, tx')" using refused by (auto simp: mem_append_def split: prod.splits)
    then show ?thesis by (auto elim: tx_append_cases)
  qed
  show "result_matches (mem_staged t) r" if "mem_valid t" "mem_commit t = (Inr r, t')" for t r t'
    using that committed_events_match [of "st_limits (fst t)" "snd t"]
    by (auto simp: mem_commit_eq mem_staged_def mem_valid_def Let_def split: if_splits sum.splits)
qed

section \<open>Active transactions of reachable stores are valid\<close>

lemma store_ok_snapshot: "store_ok s \<Longrightarrow> snapshot_ok (ss_streams s)"
  by (auto simp: store_ok_def snapshot_ok_def)

lemma snapshot_ok_step:
  assumes "es_step s s'" "sys_ok s" "\<And>t tx. sys_txs s t = Some tx \<Longrightarrow> snapshot_ok (tx_snapshot tx)"
    and "sys_txs s' t = Some tx'"
  shows "snapshot_ok (tx_snapshot tx')"
  using assms(1)
proof cases
  case (step_transaction u)
  then show ?thesis
    using assms(3,4) by (cases "u = t") (auto simp: new_transaction_def snapshot_ok_def)
next
  case (step_aenter_start u tx)
  then show ?thesis
    using assms(3,4) by (cases "u = t") (auto simp: tx_aenter_start_def split: if_splits)
next
  case (step_aenter_finish u tx i r)
  then show ?thesis
    using assms(3,4) store_ok_snapshot [OF sys_okD(2) [OF assms(2)]]
    by (cases "u = t") (auto simp: tx_aenter_finish_def split: option.splits)
next
  case (step_append u tx sid v evs r tx2)
  then show ?thesis
    using assms(3,4) tx_append_state [OF step_append(3)] by (cases "u = t") auto
next
  case (step_rollback u tx)
  then show ?thesis
    using assms(3,4) by (cases "u = t") (auto simp: tx_rollback_def split: if_splits)
next
  case (step_aexit u tx)
  then show ?thesis
    using assms(3,4) by (cases "u = t") (auto simp: tx_aexit_def tx_rollback_def split: if_splits)
next
  case (step_commit_start u tx)
  then show ?thesis
    using assms(3,4) by (cases "u = t") (auto simp: tx_commit_start_def split: if_splits)
next
  case (step_commit_finish u tx i cr st2 tx2)
  then show ?thesis
    using assms(3,4) tx_commit_finish_frame [OF step_commit_finish(4)] by (cases "u = t") auto
qed

lemma snapshot_ok_reachable:
  assumes "es_reachable s" "sys_txs s t = Some tx"
  shows "snapshot_ok (tx_snapshot tx)"
proof -
  obtain l where l: "\<forall>l'. l = Some l' \<longrightarrow> limits_ok l'" and run: "es_step\<^sup>*\<^sup>* (es_initial l) s"
    using assms(1) by (auto simp: es_reachable_def)
  have "sys_ok s \<and> (\<forall>t tx. sys_txs s t = Some tx \<longrightarrow> snapshot_ok (tx_snapshot tx))"
    using run
  proof (induction rule: rtranclp_induct)
    case base
    then show ?case using sys_ok_initial l by (auto simp: es_initial_def)
  next
    case (step y z)
    then show ?case using sys_ok_step snapshot_ok_step by blast
  qed
  then show ?thesis using assms(2) by blast
qed

lemma mem_valid_reachable:
  assumes "es_reachable s" "sys_txs s t = Some tx" "tx_state tx = TxActive"
  shows "mem_valid (sys_store s, tx)"
  using assms snapshot_ok_reachable [OF assms(1,2)] sys_okD [OF sys_ok_reachable [OF assms(1)]]
  by (auto simp: mem_valid_def)

section \<open>Guarantees\<close>

text \<open>C28: loading always returns. For every reachable state of the store, every active transaction,
  every repository with a legal page size and whatever the application's factory, encoders,
  decoders and appliers do, the paging loop of \<open>load\<close> ends.\<close>

theorem repository_load_returns:
  assumes "es_reachable s" "sys_txs s t = Some tx" "tx_state tx = TxActive"
    and "1 \<le> rp_page_size rp" "rp_page_size rp \<le> read_page_size (st_limits (sys_store s))"
  shows "\<exists>r. repo_load lease (mem_read (sys_store s, tx)) ap rp i = Some r"
proof -
  have "\<exists>r. load_loop (mem_read (sys_store s, tx)) ap (rp_schemas rp) (rp_page_size rp) sid 0 False ag = Some r"
    for sid ag
    using mem.load_loop_returns [of "(sys_store s, tx)" 0 sid "rp_page_size rp"]
      mem_valid_reachable [OF assms(1-3)] assms(4,5) by (simp add: mem_page_max_def)
  then have "\<exists>r. repo_load_inner (mem_read (sys_store s, tx)) ap rp i = Some r"
    unfolding repo_load_inner_def
    by (cases "repo_stream_id rp i"; cases "repo_new_aggregate rp i")
      (auto split: sum.splits option.splits prod.splits dest: spec)
  then show ?thesis by (auto simp: repo_load_def split: sum.splits)
qed

text \<open>C4: loading rebuilds the aggregate from its whole stream, whatever the page size. If the
  factory gives a new aggregate, every stored event decodes and the decoded events apply, the
  result is absent for an empty stream, and otherwise the aggregate whose version is the
  length of the stream as of the transaction's snapshot and whose state is the fold of
  all its events.\<close>

theorem repository_load_replays:
  assumes "es_reachable s" "sys_txs s t = Some tx" "tx_state tx = TxActive"
    and "1 \<le> rp_page_size rp" "rp_page_size rp \<le> read_page_size (st_limits (sys_store s))"
    and "repo_stream_id rp i = Inr sid"
    and "repo_new_aggregate rp i = Inr (new_aggregate_root cls i s0)"
    and "decode_page (rp_schemas rp) (get_list (tx_snapshot tx) sid) = Inr recs"
    and "run_events ap (map re_event recs) s0 = Some st"
  shows "repo_load None (mem_read (sys_store s, tx)) ap rp i =
     Some (Inr (if get_list (tx_snapshot tx) sid = [] then None
       else Some ((new_aggregate_root cls i s0)\<lparr>ag_stream_id := Some sid, ag_state := st,
         ag_version := int (length (get_list (tx_snapshot tx) sid))\<rparr>)))"
proof -
  let ?t = "(sys_store s, tx)"
  have "load_loop (mem_read ?t) ap (rp_schemas rp) (rp_page_size rp) sid 0 False
      (new_aggregate_root cls i s0) =
     Some (Inr (mem_stream ?t sid \<noteq> [],
       (new_aggregate_root cls i s0)\<lparr>ag_state := st, ag_version := int (length (mem_stream ?t sid)),
         ag_stream_id := if mem_stream ?t sid \<noteq> [] then Some sid else None\<rparr>))"
    using mem.load_loop_replays [of ?t 0 sid "rp_page_size rp" "rp_schemas rp" recs ap
        "new_aggregate_root cls i s0" st False]
      mem_valid_reachable [OF assms(1-3)] assms(4,5,8,9)
    by (simp add: mem_page_max_def mem_stream_def new_aggregate_root_def)
  then show ?thesis
    by (simp add: repo_load_def require_operation_lease_def repo_load_inner_def assms(6,7) mem_stream_def)
qed

lemma mem_commit_stale:
  assumes "mem_valid t" "mem_commit t = (Inl e, t')"
  shows "stale e \<and> fst t' = fst t"
proof -
  have "distinct (staged_ids (tx_staged (snd t)))"
    using assms(1) by (simp add: mem_valid_def tx_ok_def)
  moreover have "validate_commit (st_state (fst t)) (tx_staged (snd t)) = Inl e" "fst t' = fst t"
    using assms validate_commit_Inr_iff [of "st_limits (fst t)" "snd t" "st_state (fst t)"]
    by (auto simp: mem_commit_eq mem_valid_def Let_def split: if_splits sum.splits)
  ultimately show ?thesis
    using validate_staged_Inl [of "st_state (fst t)" "ss_event_ids (st_state (fst t))" "tx_staged (snd t)" e]
    by (auto simp: validate_commit_def stale_def Let_def)
qed

lemma mem_commit_streams:
  assumes "mem_valid t" "mem_commit t = (Inr r, t')" "(sid, v, evs) \<in> set (mem_staged t)"
  shows "\<exists>new. get_list (ss_streams (st_state (fst t'))) sid =
       get_list (ss_streams (st_state (fst t))) sid @ new \<and> map se_event new = evs \<and>
     int (length (get_list (ss_streams (st_state (fst t))) sid)) = v"
proof -
  let ?s = "st_state (fst t)" and ?sas = "tx_staged (snd t)"
  have can: "can_commit ?s ?sas" and t': "fst t' = (fst t)\<lparr>st_state := build_store_state ?s (next_events ?s ?sas)\<rparr>"
    using assms(1,2) by (auto simp: mem_commit_eq Let_def split: if_splits sum.splits)
  obtain sa where sa: "sa \<in> set ?sas" "sid = sa_stream_id sa" "v = sa_expected_version sa" "evs = sa_events sa"
    using assms(3) by (auto simp: mem_staged_def batch_of_def)
  have "distinct (map sa_stream_id ?sas)" using assms(1) by (simp add: mem_valid_def tx_ok_def)
  from filter_committed_staged [OF this sa(1)]
  obtain p where "filter (\<lambda>e. se_stream_id e = sid) (next_events ?s ?sas) = numbered_events sid v p evs"
    using sa by blast
  moreover have "int (length (get_list (ss_streams ?s) sid)) = v"
    using can sa by (simp add: can_commit_def versions_match_def)
  ultimately show ?thesis by (simp add: t')
qed

text \<open>C3: aggregates and storage agree. When a unit of work commits through the in-memory store, either
  the store appends to each planned stream exactly its encoded events, commit returns the
  store's result and each aggregate's version is the new length of its stream; or nothing is
  written, the outcome is a confirmed non-commit, never indeterminate, and every planned
  aggregate is faulted, so that it has to be reloaded.\<close>

theorem uow_commit_in_memory:
  assumes "uow_reachable s" "us_uows s u = Some uw" "uw_state uw = UowActive"
    and "mem_valid t" "mem_staged t = map plan_batch (uw_plans uw)"
    and "\<forall>pl \<in> set (uw_plans uw). length (pl_append_events pl) = length (pl_pending pl)"
  shows "case mem_commit t of
      (Inr r, t') \<Rightarrow> \<exists>uw' hp'. uow_commit ref rolled_back (Inr (Inst r)) uw (us_heap s) = (Inr r, uw', hp') \<and>
        uw_state uw' = UowCommitted \<and> uw_outcome uw' = Some (ConfirmedCommit r) \<and>
        (\<forall>pl \<in> set (uw_plans uw). \<exists>new.
           get_list (ss_streams (st_state (fst t'))) (pl_stream_id pl) =
             get_list (ss_streams (st_state (fst t))) (pl_stream_id pl) @ new \<and>
           map se_event new = pl_append_events pl \<and>
           ag_version (hp' (pl_aggregate pl)) =
             int (length (get_list (ss_streams (st_state (fst t'))) (pl_stream_id pl))) \<and>
           ag_pending_events (hp' (pl_aggregate pl)) = [])
    | (Inl e, t') \<Rightarrow> fst t' = fst t \<and>
        (\<exists>uw' hp'. uow_commit ref rolled_back (Inl e) uw (us_heap s) = (Inl e, uw', hp') \<and>
           uw_state uw' = UowRolledBack \<and> uw_outcome uw' = Some (ConfirmedNonCommit (Some e)) \<and>
           (\<forall>pl \<in> set (uw_plans uw). ag_faulted (hp' (pl_aggregate pl)) \<and>
              ag_enlistment (hp' (pl_aggregate pl)) = None))"
proof -
  note out = uow_commit_outcomes [OF assms(1-3), of ref rolled_back]
  obtain cr t' where cm: "mem_commit t = (cr, t')" by (rule prod.exhaust)
  show ?thesis
  proof (cases cr)
    case (Inl e)
    have "stale e" "fst t' = fst t" using mem_commit_stale [OF assms(4)] cm Inl by auto
    moreover from this have "\<not> reusable e" by (auto simp: stale_def reusable_def)
    moreover have "uow_commit ref rolled_back (Inl e) uw (us_heap s) =
        (Inl e, uw\<lparr>uw_state := failure_state e, uw_outcome := Some (failure_outcome e)\<rparr>,
         on_aggregates (if reusable e then released else faulted) (uw_plans uw) (us_heap s))"
      using out by blast
    ultimately show ?thesis
      using cm Inl by (auto simp: failure_state_def failure_outcome_def on_aggregates_def)
  next
    case (Inr r)
    have "validate_result (uw_plans uw) (Inst r) = Inr r"
      using mem.commit_validates [OF assms(4,5)] cm Inr by simp
    then obtain hp' where hp': "uow_commit ref rolled_back (Inr (Inst r)) uw (us_heap s) =
        (Inr r, uw\<lparr>uw_commit_result := Some r, uw_outcome := Some (ConfirmedCommit r),
           uw_state := UowCommitted\<rparr>, hp')"
      "\<forall>pl \<in> set (uw_plans uw). hp' (pl_aggregate pl) = committed_as pl (us_heap s (pl_aggregate pl))"
      using out by blast
    have streams: "\<exists>new. get_list (ss_streams (st_state (fst t'))) (pl_stream_id pl) =
             get_list (ss_streams (st_state (fst t))) (pl_stream_id pl) @ new \<and>
           map se_event new = pl_append_events pl \<and>
           ag_version (hp' (pl_aggregate pl)) =
             int (length (get_list (ss_streams (st_state (fst t'))) (pl_stream_id pl))) \<and>
           ag_pending_events (hp' (pl_aggregate pl)) = []"
      if pl: "pl \<in> set (uw_plans uw)" for pl
    proof -
      have "plan_batch pl \<in> set (mem_staged t)" using assms(5) pl by simp
      then obtain new where new: "get_list (ss_streams (st_state (fst t'))) (pl_stream_id pl) =
          get_list (ss_streams (st_state (fst t))) (pl_stream_id pl) @ new"
        "map se_event new = pl_append_events pl"
        "int (length (get_list (ss_streams (st_state (fst t))) (pl_stream_id pl))) = pl_expected_version pl"
        using mem_commit_streams [OF assms(4), of r t'] cm Inr unfolding plan_batch_def by blast
      have "length new = length (pl_pending pl)" using new(2) assms(6) pl by (metis length_map)
      then show ?thesis
        using new hp'(2) pl by (intro exI [of _ new]) (simp add: committed_as_def plan_final_version_def)
    qed
    show ?thesis using cm Inr hp'(1) streams by auto
  qed
qed

section \<open>Concrete inputs\<close>

text \<open>A third transaction opened after the race of the store theory was won, and a repository that
  reads the stream of the race one event at a time.\<close>

definition late_tx :: transaction where
  "late_tx = new_transaction\<lparr>tx_snapshot := ss_streams (st_state race_won), tx_state := TxActive\<rparr>"

definition late_sys :: es_system where
  "late_sys = put_tx 3 late_tx race_sys'"

lemma late_sys_reachable: "es_reachable late_sys"
proof -
  let ?p = "\<lambda>tx. put_tx 3 tx race_sys'"
  have put: "put_tx 3 tx (?p tx') = ?p tx" for tx tx' by (simp add: put_tx_def)
  have "es_step race_sys' (?p new_transaction)"
    by (rule step_transaction) (simp add: race_sys'_def race_sys_def)
  moreover have "es_step (?p new_transaction) (?p (new_transaction\<lparr>tx_state := TxEntering\<rparr>))"
    using step_aenter_start [of "?p new_transaction" 3 new_transaction "Inr ()"]
    by (simp add: tx_aenter_start_def put new_transaction_def)
  moreover have "es_step (?p (new_transaction\<lparr>tx_state := TxEntering\<rparr>)) late_sys"
    using step_aenter_finish [of "?p (new_transaction\<lparr>tx_state := TxEntering\<rparr>)" 3
        "new_transaction\<lparr>tx_state := TxEntering\<rparr>" None "Inr ()" late_tx]
    by (simp add: tx_aenter_finish_def put late_sys_def late_tx_def race_sys'_simps)
  ultimately have "es_step\<^sup>*\<^sup>* race_sys' late_sys" by (meson r_into_rtranclp rtranclp_trans)
  then show ?thesis using race_reachable' es_reachable_steps by blast
qed

definition body_applier :: "(byte_string, byte_string list) applier" where
  "body_applier e s = (Inr (), s @ [ev_body e])"

definition demo_repository :: "(nat, byte_string, byte_string list) repository" where
  "demo_repository = \<lparr>rp_category = Inst ''c'',
     rp_factory = (\<lambda>i. Inr (Inst (new_aggregate_root ''Order'' i []))),
     rp_aggregate_type = ''Order'', rp_id_encoder = (\<lambda>i. Inr (Inst ''k'')),
     rp_schemas = demo_registry, rp_page_size = 1\<rparr>"

lemma late_sys_simps:
  "sys_txs late_sys 3 = Some late_tx" "tx_state late_tx = TxActive" "sys_store late_sys = race_won"
  "get_list (tx_snapshot late_tx) race_stream = [race_event]"
  by (simp_all add: late_sys_def late_tx_def race_sys'_simps race_won_def)

lemma demo_repository_simps:
  "1 \<le> rp_page_size demo_repository"
  "rp_page_size demo_repository \<le> read_page_size (st_limits (sys_store late_sys))"
  "repo_stream_id demo_repository 4 = Inr race_stream"
  "repo_new_aggregate demo_repository 4 = Inr (new_aggregate_root ''Order'' 4 [])"
  by (simp_all add: demo_repository_def late_sys_simps race_won_def new_event_store_def
      default_limits_def repo_stream_id_def mk_stream_id_def race_stream_def py_defs code_point_def
      repo_new_aggregate_def new_aggregate_root_def)

theorem repository_load_returns_witness:
  "\<exists>r. repo_load None (mem_read (race_won, late_tx)) body_applier demo_repository 4 = Some r"
  using repository_load_returns [OF late_sys_reachable late_sys_simps(1,2) demo_repository_simps(1,2),
      of None body_applier 4] by (simp add: late_sys_simps)

theorem repository_load_replays_witness:
  "repo_load None (mem_read (race_won, late_tx)) body_applier demo_repository 4 =
     Some (Inr (Some ((new_aggregate_root ''Order'' 4 [])\<lparr>ag_stream_id := Some race_stream,
       ag_state := [[1]], ag_version := 1\<rparr>)))"
proof -
  have dec: "decode_page (rp_schemas demo_repository) (get_list (tx_snapshot late_tx) race_stream) =
      Inr [\<lparr>re_stream_id = race_stream, re_stream_version = 1, re_global_position = 1,
        re_event_type = ''order'', re_schema_version = 2,
        re_event = \<lparr>ev_class = ''OrderPlaced'', ev_body = [1]\<rparr>, re_metadata = demo_metadata 10\<rparr>]"
    by (simp add: late_sys_simps demo_repository_def decode_def race_event_def demo_append_def
        demo_registry_def demo_schema_def freeze_def new_registry_def default_limits_def
        validate_header_mapping_def demo_metadata_def mk_recorded_event_def py_defs code_point_def
        fcard.rep_eq upcast_loop.simps Let_def)
  show ?thesis
    using repository_load_replays [OF late_sys_reachable late_sys_simps(1,2) demo_repository_simps dec,
        of body_applier "[[1]]"]
    by (simp add: body_applier_def late_sys_simps)
qed

text \<open>The unit of work of the previous theory with the transaction that staged its batch.\<close>

definition demo_mem_tx :: mem_tx where
  "demo_mem_tx = snd (mem_append (new_event_store None, new_transaction\<lparr>tx_state := TxActive\<rparr>)
     demo_stream 0 [demo_encoded])"

lemma demo_mem_tx_ok:
  "mem_valid demo_mem_tx \<and> mem_staged demo_mem_tx = map plan_batch (uw_plans demo_uow)"
proof -
  let ?t = "(new_event_store None, new_transaction\<lparr>tx_state := TxActive\<rparr>)"
  have "mem_valid ?t"
    by (simp add: mem_valid_def new_event_store_def store_ok_def tx_ok_def new_transaction_def
        snapshot_ok_def limits_ok_def default_limits_def)
  moreover have "fst (mem_append ?t demo_stream 0 [demo_encoded]) = Inr ()"
    by (simp add: mem_append_def tx_append_def new_event_store_def default_limits_def
        new_transaction_def demo_encoded_def demo_md_def validate_event_limits_def encoded_size_def
        ae_event_id_def fcard.rep_eq py_defs code_point_def fset_of_fmap.rep_eq set_of_map_def)
  ultimately have "mem_valid demo_mem_tx \<and>
      mem_staged demo_mem_tx = mem_staged ?t @ [(demo_stream, 0, [demo_encoded])]"
    unfolding demo_mem_tx_def by (metis mem_append_staged prod.collapse)
  then show ?thesis
    by (simp add: mem_staged_def new_transaction_def demo_uow_def plan_batch_def demo_plan_def)
qed

theorem uow_commit_in_memory_witness:
  "case mem_commit demo_mem_tx of
      (Inr r, t') \<Rightarrow> \<exists>uw' hp'. uow_commit 100 (Inr ()) (Inr (Inst r)) demo_uow (us_heap demo_sys) = (Inr r, uw', hp') \<and>
        uw_state uw' = UowCommitted
    | (Inl e, t') \<Rightarrow> fst t' = fst demo_mem_tx"
proof -
  have uw: "us_uows demo_sys 7 = Some demo_uow" "uw_state demo_uow = UowActive"
    "\<forall>pl \<in> set (uw_plans demo_uow). length (pl_append_events pl) = length (pl_pending pl)"
    by (simp_all add: demo_sys_def demo_uow_def demo_plan_def)
  show ?thesis
    using uow_commit_in_memory [OF demo_sys_reachable uw(1,2) conjunct1 [OF demo_mem_tx_ok]
        conjunct2 [OF demo_mem_tx_ok] uw(3), of 100 "Inr ()"]
    by (auto split: prod.splits sum.splits)
qed

end
