(* ===== verification/Streams_Routing.thy ===== *)
theory Streams_Routing
  imports Tori_Prelude
begin

text \<open>
  Partition routing of the persistent streams core (\<open>routing.py\<close>). The default router hashes the
  partition key with SHA-256 and reduces the digest, read as a big-endian integer, modulo the
  partition count. SHA-256 is written out here (FIPS 180-4), so that the route of a concrete key
  can be computed.
\<close>

unbundle bit_operations_syntax

section \<open>SHA-256\<close>

type_synonym w32 = "32 word"

definition rotr :: "nat \<Rightarrow> w32 \<Rightarrow> w32" where
  "rotr n x = (drop_bit n x) OR (push_bit (32 - n) x)"

definition sha_ch :: "w32 \<Rightarrow> w32 \<Rightarrow> w32 \<Rightarrow> w32" where
  "sha_ch x y z = (x AND y) XOR ((NOT x) AND z)"

definition sha_maj :: "w32 \<Rightarrow> w32 \<Rightarrow> w32 \<Rightarrow> w32" where
  "sha_maj x y z = (x AND y) XOR (x AND z) XOR (y AND z)"

definition big_sigma0 :: "w32 \<Rightarrow> w32" where
  "big_sigma0 x = rotr 2 x XOR rotr 13 x XOR rotr 22 x"

definition big_sigma1 :: "w32 \<Rightarrow> w32" where
  "big_sigma1 x = rotr 6 x XOR rotr 11 x XOR rotr 25 x"

definition small_sigma0 :: "w32 \<Rightarrow> w32" where
  "small_sigma0 x = rotr 7 x XOR rotr 18 x XOR drop_bit 3 x"

definition small_sigma1 :: "w32 \<Rightarrow> w32" where
  "small_sigma1 x = rotr 17 x XOR rotr 19 x XOR drop_bit 10 x"

text \<open>
  The round constants are the first 32 bits of the fractional parts of the cube roots of the first
  64 primes, the initial hash value those of the square roots of the first 8 primes. A root is
  found bit by bit: \<open>int_root k n b a\<close> adds the powers below \<open>2 ^ b\<close> to \<open>a\<close> as long as the \<open>k\<close>-th
  power stays within \<open>n\<close>.
\<close>

fun int_root :: "nat \<Rightarrow> nat \<Rightarrow> nat \<Rightarrow> nat \<Rightarrow> nat" where
  "int_root k n 0 a = a"
| "int_root k n (Suc b) a = int_root k n b (if (a + 2 ^ b) ^ k \<le> n then a + 2 ^ b else a)"

definition small_primes :: "nat list" where
  "small_primes = filter (\<lambda>n. list_all (\<lambda>m. n mod m \<noteq> 0) [2..<n]) [2..<312]"

definition sha_k :: "w32 list" where
  "sha_k = map (\<lambda>p. word_of_nat (int_root 3 (p * 2 ^ 96) 36 0)) small_primes"

definition sha_h0 :: "w32 list" where
  "sha_h0 = map (\<lambda>p. word_of_nat (int_root 2 (p * 2 ^ 64) 37 0)) (take 8 small_primes)"

text \<open>Big-endian bytes of a number, and the number of a big-endian byte string.\<close>

definition be_bytes :: "nat \<Rightarrow> nat \<Rightarrow> byte_string" where
  "be_bytes n v = map (\<lambda>i. word_of_nat (v div 256 ^ i)) (rev [0..<n])"

fun from_bytes_big :: "byte_string \<Rightarrow> int" where
  "from_bytes_big bs = foldl (\<lambda>acc b. acc * 256 + uint b) 0 bs"

definition sha_pad :: "byte_string \<Rightarrow> byte_string" where
  "sha_pad m = m @ 0x80 # replicate ((119 - length m mod 64) mod 64) 0 @ be_bytes 8 (8 * length m)"

fun be_word :: "byte_string \<Rightarrow> w32" where
  "be_word bs = word_of_int (from_bytes_big bs)"

fun chunks :: "nat \<Rightarrow> nat \<Rightarrow> 'a list \<Rightarrow> 'a list list" where
  "chunks 0 n xs = []"
| "chunks (Suc k) n xs = take n xs # chunks k n (drop n xs)"

text \<open>The message schedule is built by appending 48 words to the 16 words of the block.\<close>

fun sha_extend :: "nat \<Rightarrow> w32 list \<Rightarrow> w32 list" where
  "sha_extend 0 w = w"
| "sha_extend (Suc n) w =
     (let t = length w in
      sha_extend n (w @ [small_sigma1 (w ! (t - 2)) + w ! (t - 7) + small_sigma0 (w ! (t - 15)) +
        w ! (t - 16)]))"

fun sha_rounds :: "(w32 \<times> w32) list \<Rightarrow> w32 list \<Rightarrow> w32 list" where
  "sha_rounds [] s = s"
| "sha_rounds ((k, w) # kws) s =
     (case s of
        [a, b, c, d, e, f, g, h] \<Rightarrow>
          (let t1 = h + big_sigma1 e + sha_ch e f g + k + w;
               t2 = big_sigma0 a + sha_maj a b c
           in sha_rounds kws [t1 + t2, a, b, c, d + t1, e, f, g])
      | _ \<Rightarrow> s)"

definition sha_block :: "w32 list \<Rightarrow> byte_string \<Rightarrow> w32 list" where
  "sha_block hs block =
     (let w = sha_extend 48 (map be_word (chunks 16 4 block))
      in map2 (+) hs (sha_rounds (zip sha_k w) hs))"

definition sha256 :: "byte_string \<Rightarrow> byte_string" where
  "sha256 m =
     (let p = sha_pad m
      in concat (map (\<lambda>h. be_bytes 4 (unat h))
           (foldl sha_block sha_h0 (chunks (length p div 64) 64 p))))"

end
