(* ===== verification/Streams_Models.thy ===== *)
theory Streams_Models
  imports Streams_Routing
begin

text \<open>
  Values and failures of the persistent streams core (\<open>models.py\<close>, \<open>errors.py\<close>,
  \<open>validation.py\<close>, \<open>routing.py\<close>). Each dataclass is a record, and its \<open>__post_init__\<close> a
  constructor function from dynamically typed arguments. An instant is its microseconds in UTC.
  A partition router is application code: its attributes and its route may raise, and the route
  may return anything.
\<close>

section \<open>Values\<close>

record available_bounds =
  ab_earliest_offset :: int
  ab_end_offset :: int

datatype cursor_kind = INITIALIZED | LAST_SUCCESSFUL

record resume_cursor =
  rc_kind :: cursor_kind
  rc_offset :: int

record checkpoint_key =
  ck_stream :: string
  ck_group :: string
  ck_partition :: int

record ownership_token =
  ot_owner_id :: string
  ot_generation :: int

record stored_record =
  sr_record_id :: uuid
  sr_stream :: string
  sr_partition_key :: byte_string
  sr_payload :: byte_string
  sr_headers :: "(string, byte_string) fmap"
  sr_partition :: int
  sr_offset :: int
  sr_appended_at :: int

record stream_page =
  pg_records :: "stored_record list"
  pg_bounds :: "available_bounds option"

text \<open>\<open>CancelledError\<close> and \<open>ControlExit\<close> are not subclasses of \<open>Exception\<close>.\<close>

datatype ps_error =
    ValidationError
  | ResourceLimitError
  | UnknownStreamError
  | IncompatibleStreamError
  | InvalidPartitionError
  | PublishingConflictError
  | StalePublishingIdError
  | RetentionGapError string int "int option" "int option" "available_bounds option" "string option"
  | OwnershipError
  | CheckpointError
  | CheckpointPersistenceError "resume_cursor option" ps_error
  | CheckpointStrategyError
  | LifecycleError
  | PoisonRecordError string string int int uuid ps_error
  | AdapterContractError
  | ValueError
  | TypeError
  | AssertionError
  | OverflowError
  | CancelledError
  | ControlExit
  | OtherError nat

fun is_exception :: "ps_error \<Rightarrow> bool" where
  "is_exception CancelledError = False"
| "is_exception ControlExit = False"
| "is_exception _ = True"

section \<open>Argument guards\<close>

fun positive :: "int arg \<Rightarrow> ps_error + int" where
  "positive Foreign = Inl ValidationError"
| "positive (Inst n) = (if n \<le> 0 then Inl ValidationError else Inr n)"

fun offset_guard :: "int arg \<Rightarrow> ps_error + int" where
  "offset_guard Foreign = Inl ValidationError"
| "offset_guard (Inst n) = (if n < 0 then Inl ValidationError else Inr n)"

fun name_guard :: "string arg \<Rightarrow> int \<Rightarrow> ps_error + string" where
  "name_guard Foreign limit = Inl ValidationError"
| "name_guard (Inst s) limit =
     (if s = [] then Inl ValidationError
      else if int (length s) > limit then Inl ResourceLimitError
      else Inr s)"

fun text_guard :: "string arg \<Rightarrow> ps_error + string" where
  "text_guard Foreign = Inl ValidationError"
| "text_guard (Inst s) = (if s = [] then Inl ValidationError else Inr s)"

fun aware_guard :: "datetime arg \<Rightarrow> ps_error + int" where
  "aware_guard Foreign = Inl ValidationError"
| "aware_guard (Inst (Naive t)) = Inl ValidationError"
| "aware_guard (Inst (Aware t)) = Inr t"

fun bytes_guard :: "byte_string arg \<Rightarrow> ps_error + byte_string" where
  "bytes_guard Foreign = Inl ValidationError"
| "bytes_guard (Inst b) = Inr b"

fun uuid_arg :: "uuid arg \<Rightarrow> ps_error + uuid" where
  "uuid_arg Foreign = Inl ValidationError"
| "uuid_arg (Inst u) = Inr u"

section \<open>Stream limits and definitions\<close>

record stream_limits =
  sl_max_name_chars :: int
  sl_max_group_chars :: int
  sl_max_owner_chars :: int
  sl_max_producer_chars :: int
  sl_max_header_name_chars :: int
  sl_max_partitions :: int
  sl_max_payload_bytes :: int
  sl_max_partition_key_bytes :: int
  sl_max_headers :: int
  sl_max_header_value_bytes :: int
  sl_max_header_bytes :: int
  sl_max_read_records :: int
  sl_max_relative_age_days :: int

definition default_stream_limits :: stream_limits where
  "default_stream_limits =
     \<lparr>sl_max_name_chars = 128, sl_max_group_chars = 128, sl_max_owner_chars = 128,
      sl_max_producer_chars = 128, sl_max_header_name_chars = 128, sl_max_partitions = 1024,
      sl_max_payload_bytes = 1048576, sl_max_partition_key_bytes = 4096, sl_max_headers = 64,
      sl_max_header_value_bytes = 16384, sl_max_header_bytes = 65536, sl_max_read_records = 1000,
      sl_max_relative_age_days = 365000\<rparr>"

text \<open>The fields are checked in declaration order; every failure is the same error.\<close>

definition mk_stream_limits :: "int arg list \<Rightarrow> ps_error + stream_limits" where
  "mk_stream_limits args =
     (case args of
        [Inst n, Inst g, Inst ow, Inst p, Inst hn, Inst pa, Inst pl, Inst pk, Inst h, Inst hv, Inst hb,
         Inst r, Inst a] \<Rightarrow>
          if list_all (\<lambda>x. outcome_ok (positive x)) args
          then Inr \<lparr>sl_max_name_chars = n, sl_max_group_chars = g, sl_max_owner_chars = ow,
                 sl_max_producer_chars = p, sl_max_header_name_chars = hn, sl_max_partitions = pa,
                 sl_max_payload_bytes = pl, sl_max_partition_key_bytes = pk, sl_max_headers = h,
                 sl_max_header_value_bytes = hv, sl_max_header_bytes = hb,
                 sl_max_read_records = r, sl_max_relative_age_days = a\<rparr>
          else Inl ValidationError
      | _ \<Rightarrow> Inl ValidationError)"

record router =
  rt_copy :: "ps_error + unit"
  rt_identity :: "ps_error + string arg"
  rt_compatibility_key :: "ps_error + nat"
  rt_route :: "byte_string \<Rightarrow> int \<Rightarrow> ps_error + int arg"

definition wrap_validation :: "ps_error \<Rightarrow> ps_error" where
  "wrap_validation e = (if is_exception e then ValidationError else e)"

record stream_definition =
  sd_name :: string
  sd_partition_count :: int
  sd_limits :: stream_limits
  sd_router :: router
  sd_router_identity :: string
  sd_router_compatibility_key :: nat

definition mk_stream_definition ::
  "string arg \<Rightarrow> int arg \<Rightarrow> stream_limits arg \<Rightarrow> router arg \<Rightarrow> ps_error + stream_definition" where
  "mk_stream_definition name partition_count limits rt =
     (case limits of Foreign \<Rightarrow> Inl ValidationError | Inst l \<Rightarrow>
     (case name_guard name (sl_max_name_chars l) of Inl e \<Rightarrow> Inl e | Inr nm \<Rightarrow>
     (case positive partition_count of Inl e \<Rightarrow> Inl e | Inr n \<Rightarrow>
      if n > sl_max_partitions l then Inl ResourceLimitError
      else (case rt of Foreign \<Rightarrow> Inl ValidationError | Inst r \<Rightarrow>
     (case rt_copy r of Inl e \<Rightarrow> Inl (wrap_validation e) | Inr _ \<Rightarrow>
     (case rt_identity r of Inl e \<Rightarrow> Inl (wrap_validation e) | Inr ident \<Rightarrow>
     (case text_guard ident of Inl e \<Rightarrow> Inl e | Inr ident' \<Rightarrow>
     (case rt_compatibility_key r of Inl e \<Rightarrow> Inl (wrap_validation e) | Inr key \<Rightarrow>
        Inr \<lparr>sd_name = nm, sd_partition_count = n, sd_limits = l, sd_router = r,
             sd_router_identity = ident', sd_router_compatibility_key = key\<rparr>))))))))"

definition sd_compatibility_key :: "stream_definition \<Rightarrow> int \<times> stream_limits \<times> string \<times> nat" where
  "sd_compatibility_key sd = (sd_partition_count sd, sd_limits sd, sd_router_identity sd,
     sd_router_compatibility_key sd)"

section \<open>The default router\<close>

definition sha256_route :: "byte_string \<Rightarrow> int arg \<Rightarrow> ps_error + int" where
  "sha256_route partition_key partition_count =
     (if partition_key = [] then Inl ValidationError
      else case positive partition_count of Inl e \<Rightarrow> Inl e | Inr n \<Rightarrow>
        Inr (from_bytes_big (sha256 partition_key) mod n))"

text \<open>The compatibility key \<open>("sha256-v1",)\<close> is numbered 0.\<close>

definition sha256_router :: router where
  "sha256_router = \<lparr>rt_copy = Inr (), rt_identity = Inr (Inst ''sha256-v1''),
     rt_compatibility_key = Inr 0,
     rt_route = (\<lambda>key count. case sha256_route key (Inst count) of Inl e \<Rightarrow> Inl e | Inr p \<Rightarrow> Inr (Inst p))\<rparr>"

section \<open>Requests, receipts and records\<close>

record append_request =
  rq_record_id :: uuid
  rq_partition_key :: byte_string
  rq_payload :: byte_string
  rq_headers :: "(string, byte_string) fmap"
  rq_producer_name :: "string option"
  rq_publishing_id :: "int option"

text \<open>The items of a mapping have distinct keys, so the uniqueness check of the loop never fires.\<close>

fun byte_header_items ::
  "(string arg \<times> byte_string arg) list \<Rightarrow> ps_error + (string \<times> byte_string) list" where
  "byte_header_items [] = Inr []"
| "byte_header_items ((k, v) # items) =
     (case text_guard k of Inl e \<Rightarrow> Inl e | Inr k' \<Rightarrow>
     (case bytes_guard v of Inl e \<Rightarrow> Inl e | Inr v' \<Rightarrow>
     (case byte_header_items items of Inl e \<Rightarrow> Inl e | Inr rest \<Rightarrow> Inr ((k', v') # rest))))"

definition mk_append_request ::
  "uuid arg \<Rightarrow> byte_string arg \<Rightarrow> byte_string arg \<Rightarrow> (string arg \<times> byte_string arg) list arg \<Rightarrow>
   string arg option \<Rightarrow> int arg option \<Rightarrow> ps_error + append_request" where
  "mk_append_request record_id partition_key payload hs producer_name publishing_id =
     (case uuid_arg record_id of Inl e \<Rightarrow> Inl e | Inr u \<Rightarrow>
     (case bytes_guard partition_key of Inl e \<Rightarrow> Inl e | Inr key \<Rightarrow>
      if key = [] then Inl ValidationError
      else (case bytes_guard payload of Inl e \<Rightarrow> Inl e | Inr body \<Rightarrow>
     (case hs of Foreign \<Rightarrow> Inl ValidationError | Inst items \<Rightarrow>
     (case byte_header_items items of Inl e \<Rightarrow> Inl e | Inr copied \<Rightarrow>
      if (producer_name = None) \<noteq> (publishing_id = None) then Inl ValidationError
      else (case (case producer_name of None \<Rightarrow> Inr None
                  | Some p \<Rightarrow> (case text_guard p of Inl e \<Rightarrow> Inl e | Inr s \<Rightarrow> Inr (Some s))) of
         Inl e \<Rightarrow> Inl e | Inr producer \<Rightarrow>
           (case (case publishing_id of None \<Rightarrow> Inr None
                  | Some n \<Rightarrow> (case offset_guard n of Inl e \<Rightarrow> Inl e | Inr k \<Rightarrow> Inr (Some k))) of
              Inl e \<Rightarrow> Inl e | Inr pid \<Rightarrow>
                Inr \<lparr>rq_record_id = u, rq_partition_key = key, rq_payload = body,
                     rq_headers = fmap_of_list copied, rq_producer_name = producer,
                     rq_publishing_id = pid\<rparr>)))))))"

datatype publish_outcome =
  CONFIRMED | DEDUPLICATED | REJECTED | TIMED_OUT | CLOSED | BACKPRESSURED | INDETERMINATE

record publish_receipt =
  pr_record_id :: uuid
  pr_partition :: int
  pr_outcome :: publish_outcome
  pr_confirmation_facts :: "string list"

definition mk_publish_receipt ::
  "uuid arg \<Rightarrow> int arg \<Rightarrow> publish_outcome arg \<Rightarrow> string arg list arg \<Rightarrow> ps_error + publish_receipt" where
  "mk_publish_receipt record_id part oc facts =
     (case uuid_arg record_id of Inl e \<Rightarrow> Inl e | Inr u \<Rightarrow>
     (case offset_guard part of Inl e \<Rightarrow> Inl e | Inr p \<Rightarrow>
     (case oc of Foreign \<Rightarrow> Inl ValidationError | Inst o' \<Rightarrow>
     (case facts of Foreign \<Rightarrow> Inl ValidationError | Inst fs \<Rightarrow>
      if length fs > 16 \<or> list_ex (\<lambda>f. case f of Foreign \<Rightarrow> True | Inst s \<Rightarrow> length s > 256) fs
      then Inl ResourceLimitError
      else Inr \<lparr>pr_record_id = u, pr_partition = p, pr_outcome = o',
        pr_confirmation_facts = concat (map (\<lambda>f. case f of Inst s \<Rightarrow> [s] | Foreign \<Rightarrow> []) fs)\<rparr>))))"

definition mk_stored_record ::
  "uuid arg \<Rightarrow> string arg \<Rightarrow> byte_string arg \<Rightarrow> byte_string arg \<Rightarrow> (string, byte_string) fmap \<Rightarrow>
   int arg \<Rightarrow> int arg \<Rightarrow> datetime arg \<Rightarrow> ps_error + stored_record" where
  "mk_stored_record record_id stream partition_key payload hs part offset appended_at =
     (case uuid_arg record_id of Inl e \<Rightarrow> Inl e | Inr u \<Rightarrow>
     (case text_guard stream of Inl e \<Rightarrow> Inl e | Inr s \<Rightarrow>
     (case bytes_guard partition_key of Inl e \<Rightarrow> Inl e | Inr key \<Rightarrow>
      if key = [] then Inl ValidationError
      else (case bytes_guard payload of Inl e \<Rightarrow> Inl e | Inr body \<Rightarrow>
      if [] |\<in>| fmdom hs then Inl ValidationError
      else (case offset_guard part of Inl e \<Rightarrow> Inl e | Inr p \<Rightarrow>
     (case offset_guard offset of Inl e \<Rightarrow> Inl e | Inr k \<Rightarrow>
     (case aware_guard appended_at of Inl e \<Rightarrow> Inl e | Inr t \<Rightarrow>
        Inr \<lparr>sr_record_id = u, sr_stream = s, sr_partition_key = key, sr_payload = body,
             sr_headers = hs, sr_partition = p, sr_offset = k, sr_appended_at = t\<rparr>)))))))"

definition mk_available_bounds :: "int arg \<Rightarrow> int arg \<Rightarrow> ps_error + available_bounds" where
  "mk_available_bounds earliest end_offset =
     (case offset_guard earliest of Inl e \<Rightarrow> Inl e | Inr a \<Rightarrow>
     (case offset_guard end_offset of Inl e \<Rightarrow> Inl e | Inr b \<Rightarrow>
      if b < a then Inl ValidationError
      else Inr \<lparr>ab_earliest_offset = a, ab_end_offset = b\<rparr>))"

definition mk_stream_page ::
  "stored_record list \<Rightarrow> available_bounds option \<Rightarrow> ps_error + stream_page" where
  "mk_stream_page records bounds =
     (if list_ex (\<lambda>(current, following). sr_offset current \<ge> sr_offset following)
           (zip records (tl records))
      then Inl ValidationError
      else Inr \<lparr>pg_records = records, pg_bounds = bounds\<rparr>)"

section \<open>Positions, cursors and subscriptions\<close>

text \<open>The age of a relative start is a duration in microseconds.\<close>

datatype start_position = Beginning | End | ExactOffset int | Timestamp int | RelativeTime int

fun mk_exact_offset :: "int arg \<Rightarrow> ps_error + start_position" where
  "mk_exact_offset a = (case offset_guard a of Inl e \<Rightarrow> Inl e | Inr n \<Rightarrow> Inr (ExactOffset n))"

fun mk_timestamp :: "datetime arg \<Rightarrow> ps_error + start_position" where
  "mk_timestamp a = (case aware_guard a of Inl e \<Rightarrow> Inl e | Inr t \<Rightarrow> Inr (Timestamp t))"

fun mk_relative_time :: "int arg \<Rightarrow> ps_error + start_position" where
  "mk_relative_time Foreign = Inl ValidationError"
| "mk_relative_time (Inst age) = (if age < 0 then Inl ValidationError else Inr (RelativeTime age))"

record start_mode_capabilities =
  sm_beginning :: bool
  sm_end :: bool
  sm_exact_offset :: bool
  sm_timestamp :: bool
  sm_relative_time :: bool

fun supports :: "start_mode_capabilities \<Rightarrow> start_position \<Rightarrow> bool" where
  "supports c Beginning = sm_beginning c"
| "supports c End = sm_end c"
| "supports c (ExactOffset n) = sm_exact_offset c"
| "supports c (Timestamp t) = sm_timestamp c"
| "supports c (RelativeTime age) = sm_relative_time c"

definition mk_resume_cursor :: "cursor_kind arg \<Rightarrow> int arg \<Rightarrow> ps_error + resume_cursor" where
  "mk_resume_cursor kind offset =
     (case kind of Foreign \<Rightarrow> Inl ValidationError | Inst k \<Rightarrow>
     (case offset_guard offset of Inl e \<Rightarrow> Inl e | Inr n \<Rightarrow> Inr \<lparr>rc_kind = k, rc_offset = n\<rparr>))"

definition cursor_initialized :: "int \<Rightarrow> ps_error + resume_cursor" where
  "cursor_initialized offset = mk_resume_cursor (Inst INITIALIZED) (Inst offset)"

definition cursor_last_successful :: "int \<Rightarrow> ps_error + resume_cursor" where
  "cursor_last_successful offset = mk_resume_cursor (Inst LAST_SUCCESSFUL) (Inst offset)"

definition mk_checkpoint_key ::
  "string arg \<Rightarrow> string arg \<Rightarrow> int arg \<Rightarrow> ps_error + checkpoint_key" where
  "mk_checkpoint_key stream grp part =
     (case text_guard stream of Inl e \<Rightarrow> Inl e | Inr s \<Rightarrow>
     (case text_guard grp of Inl e \<Rightarrow> Inl e | Inr g \<Rightarrow>
     (case offset_guard part of Inl e \<Rightarrow> Inl e | Inr p \<Rightarrow>
        Inr \<lparr>ck_stream = s, ck_group = g, ck_partition = p\<rparr>)))"

definition mk_ownership_token :: "string arg \<Rightarrow> int arg \<Rightarrow> ps_error + ownership_token" where
  "mk_ownership_token owner_id generation =
     (case text_guard owner_id of Inl e \<Rightarrow> Inl e | Inr w \<Rightarrow>
     (case positive generation of Inl e \<Rightarrow> Inl e | Inr g \<Rightarrow>
        Inr \<lparr>ot_owner_id = w, ot_generation = g\<rparr>))"

record subscription =
  su_stream :: string
  su_group :: string
  su_owner_id :: string
  su_start :: start_position

definition mk_subscription ::
  "string arg \<Rightarrow> string arg \<Rightarrow> string arg \<Rightarrow> start_position arg \<Rightarrow> ps_error + subscription" where
  "mk_subscription stream grp owner_id start =
     (case text_guard stream of Inl e \<Rightarrow> Inl e | Inr s \<Rightarrow>
     (case text_guard grp of Inl e \<Rightarrow> Inl e | Inr g \<Rightarrow>
     (case text_guard owner_id of Inl e \<Rightarrow> Inl e | Inr w \<Rightarrow>
     (case start of Foreign \<Rightarrow> Inl ValidationError | Inst p \<Rightarrow>
        Inr \<lparr>su_stream = s, su_group = g, su_owner_id = w, su_start = p\<rparr>))))"

section \<open>Limits of an append\<close>

definition validate_append_request_limits :: "stream_definition \<Rightarrow> append_request \<Rightarrow> ps_error + unit" where
  "validate_append_request_limits sd rq =
     (let l = sd_limits sd; hs = rq_headers rq in
      if int (length (rq_partition_key rq)) > sl_max_partition_key_bytes l then Inl ResourceLimitError
      else if int (length (rq_payload rq)) > sl_max_payload_bytes l then Inl ResourceLimitError
      else if int (fcard (fmdom hs)) > sl_max_headers l then Inl ResourceLimitError
      else if \<not> fmpred (\<lambda>name v. int (length name) \<le> sl_max_header_name_chars l \<and>
                                   int (length v) \<le> sl_max_header_value_bytes l) hs
        then Inl ResourceLimitError
      else if (\<Sum>name \<in> fset (fmdom hs). utf8_len name + int (length (the (fmlookup hs name)))) >
             sl_max_header_bytes l
        then Inl ResourceLimitError
      else case rq_producer_name rq of
        Some p \<Rightarrow> if int (length p) > sl_max_producer_chars l then Inl ResourceLimitError else Inr ()
      | None \<Rightarrow> Inr ())"

end
