(* ===== verification/Streams_Checkpoints.thy ===== *)
theory Streams_Checkpoints
  imports Streams_Models
begin

text \<open>
  Checkpoint stores (\<open>checkpoints.py\<close>): the contract of an external store as the locale
  \<open>checkpoint_store\<close>, the in-memory store that implements it, and the normalisation of what a
  store call gives. Each method of the in-memory store holds its lock from the first to the last
  access, so it is one function of the state.
\<close>

section \<open>Strategies\<close>

text \<open>A store object is named by a number; two stores are the same object when the numbers agree.\<close>

datatype checkpoint_strategy = BROKER_MANAGED | External string nat

fun mk_external_checkpoint_strategy :: "string arg \<Rightarrow> nat arg \<Rightarrow> ps_error + checkpoint_strategy" where
  "mk_external_checkpoint_strategy Foreign store = Inl ValidationError"
| "mk_external_checkpoint_strategy (Inst ident) store =
     (if ident = [] then Inl ValidationError
      else if length ident > 256 then Inl ValidationError
      else case store of Foreign \<Rightarrow> Inl TypeError | Inst s \<Rightarrow> Inr (External ident s))"

section \<open>The in-memory store\<close>

record checkpoint_store_state =
  cs_cursors :: "checkpoint_key \<rightharpoonup> resume_cursor"
  cs_owners :: "checkpoint_key \<rightharpoonup> ownership_token"

definition new_checkpoint_store :: checkpoint_store_state where
  "new_checkpoint_store = \<lparr>cs_cursors = Map.empty, cs_owners = Map.empty\<rparr>"

definition cs_require_owner ::
  "checkpoint_store_state \<Rightarrow> checkpoint_key \<Rightarrow> ownership_token \<Rightarrow> ps_error + unit" where
  [op_defs]: "cs_require_owner s key owner =
     (if cs_owners s key \<noteq> Some owner then Inl OwnershipError else Inr ())"

definition cs_fence ::
  "checkpoint_store_state \<Rightarrow> checkpoint_key \<Rightarrow> ownership_token \<Rightarrow>
   (ps_error + unit) \<times> checkpoint_store_state" where
  [op_defs]: "cs_fence s key owner = (Inr (), s\<lparr>cs_owners := (cs_owners s)(key \<mapsto> owner)\<rparr>)"

definition cs_load ::
  "checkpoint_store_state \<Rightarrow> checkpoint_key \<Rightarrow>
   (ps_error + resume_cursor option) \<times> checkpoint_store_state" where
  [op_defs]: "cs_load s key = (Inr (cs_cursors s key), s)"

definition cs_compare_and_create ::
  "checkpoint_store_state \<Rightarrow> checkpoint_key \<Rightarrow> resume_cursor arg \<Rightarrow> ownership_token \<Rightarrow>
   (ps_error + resume_cursor) \<times> checkpoint_store_state" where
  [op_defs]: "cs_compare_and_create s key cursor owner =
     (case cursor of Foreign \<Rightarrow> (Inl CheckpointError, s)
      | Inst c \<Rightarrow>
          if rc_kind c \<noteq> INITIALIZED then (Inl CheckpointError, s)
          else (case cs_require_owner s key owner of
              Inl e \<Rightarrow> (Inl e, s)
            | Inr _ \<Rightarrow>
                (case cs_cursors s key of
                   Some old \<Rightarrow> (Inr old, s)
                 | None \<Rightarrow> (Inr c, s\<lparr>cs_cursors := (cs_cursors s)(key \<mapsto> c)\<rparr>))))"

definition cs_save ::
  "checkpoint_store_state \<Rightarrow> checkpoint_key \<Rightarrow> resume_cursor arg \<Rightarrow> resume_cursor arg \<Rightarrow>
   ownership_token \<Rightarrow> (ps_error + unit) \<times> checkpoint_store_state" where
  [op_defs]: "cs_save s key expected cursor owner =
     (case (expected, cursor) of
        (Inst e, Inst c) \<Rightarrow>
          (case cs_require_owner s key owner of
             Inl err \<Rightarrow> (Inl err, s)
           | Inr _ \<Rightarrow>
               if cs_cursors s key \<noteq> Some e then (Inl CheckpointError, s)
               else if rc_kind c \<noteq> LAST_SUCCESSFUL then (Inl CheckpointError, s)
               else if rc_kind e = LAST_SUCCESSFUL \<and> rc_offset c \<le> rc_offset e
                 then (Inl CheckpointError, s)
               else if rc_kind e = INITIALIZED \<and> rc_offset c < rc_offset e
                 then (Inl CheckpointError, s)
               else (Inr (), s\<lparr>cs_cursors := (cs_cursors s)(key \<mapsto> c)\<rparr>))
      | _ \<Rightarrow> (Inl CheckpointError, s))"

section \<open>Normalising a store call\<close>

datatype store_result = RNone | RCursor resume_cursor | RForeign

definition store_result_check :: "string \<Rightarrow> store_result \<Rightarrow> ps_error + resume_cursor option" where
  "store_result_check returns result =
     (if returns = ''none''
      then (if result \<noteq> RNone then Inl AdapterContractError else Inr None)
      else if returns = ''cursor''
      then (case result of RCursor c \<Rightarrow> Inr (Some c) | _ \<Rightarrow> Inl AdapterContractError)
      else if returns = ''optional_cursor''
      then (case result of RNone \<Rightarrow> Inr None | RCursor c \<Rightarrow> Inr (Some c)
            | RForeign \<Rightarrow> Inl AdapterContractError)
      else Inl ValueError)"

definition validate_checkpoint_store_call ::
  "(ps_error + store_result) \<Rightarrow> resume_cursor option \<Rightarrow> string \<Rightarrow> ps_error + resume_cursor option" where
  "validate_checkpoint_store_call operation cursor returns =
     (case (case operation of Inl e \<Rightarrow> Inl e | Inr result \<Rightarrow> store_result_check returns result) of
        Inr r \<Rightarrow> Inr r
      | Inl e \<Rightarrow> Inl (if is_exception e then CheckpointPersistenceError cursor e else e))"

fun none_result :: "(ps_error + unit) \<Rightarrow> ps_error + store_result" where
  "none_result (Inl e) = Inl e"
| "none_result (Inr _) = Inr RNone"

fun cursor_result :: "(ps_error + resume_cursor) \<Rightarrow> ps_error + store_result" where
  "cursor_result (Inl e) = Inl e"
| "cursor_result (Inr c) = Inr (RCursor c)"

fun optional_cursor_result :: "(ps_error + resume_cursor option) \<Rightarrow> ps_error + store_result" where
  "optional_cursor_result (Inl e) = Inl e"
| "optional_cursor_result (Inr None) = Inr RNone"
| "optional_cursor_result (Inr (Some c)) = Inr (RCursor c)"

end
