(* ===== verification/Streams_Log.thy ===== *)
theory Streams_Log
  imports Streams_Checkpoints
begin

text \<open>
  The in-memory persistent log (\<open>inmemory.py\<close>). The log and its leases are mutable objects: the
  log is a record whose component \<open>lg_heap\<close> holds the lease objects by reference, so that two
  holders of a lease see the same flags. Every \<open>async with self._lock\<close> section is one function
  from the state to an outcome and a state. An operation that leaves the lock between two sections
  is one function per section; what it carries across is its argument.
\<close>

section \<open>State\<close>

record partition_state =
  pt_records :: "stored_record list"
  pt_next_offset :: int
  pt_earliest_offset :: int
  pt_last_timestamp :: "int option"
  pt_removed_through :: "int option"

definition new_partition_state :: partition_state where
  "new_partition_state = \<lparr>pt_records = [], pt_next_offset = 0, pt_earliest_offset = 0,
     pt_last_timestamp = None, pt_removed_through = None\<rparr>"

record producer_state =
  pd_publishing_id :: int
  pd_request :: append_request
  pd_receipt :: publish_receipt

record stream_state =
  ss_definition :: stream_definition
  ss_partitions :: "partition_state list"
  ss_producers :: "int \<times> string \<rightharpoonup> producer_state"

record strategy_binding =
  sb_mode :: string
  sb_identity :: "string option"
  sb_store :: "nat option"

record lease =
  ls_subscription :: subscription
  ls_key :: checkpoint_key
  ls_owner :: ownership_token
  ls_store :: "nat option"
  ls_stopped :: bool
  ls_released :: bool
  ls_revocation_requested :: bool
  ls_in_flight :: "stored_record option"
  ls_delivery_completed :: bool

type_synonym group_scope = "string \<times> string"

text \<open>
  \<open>lg_fresh\<close> is the reference of the next lease object, \<open>lg_fresh_marker\<close> that of the next transfer
  marker (a bare \<open>object()\<close>).
\<close>

record log =
  lg_max_active_leases :: int
  lg_streams :: "string \<rightharpoonup> stream_state"
  lg_owners :: "(checkpoint_key, ownership_token) fmap"
  lg_leases :: "(checkpoint_key, nat) fmap"
  lg_transfers :: "checkpoint_key \<rightharpoonup> nat"
  lg_generations :: "checkpoint_key \<rightharpoonup> int"
  lg_broker_cursors :: "checkpoint_key \<rightharpoonup> resume_cursor"
  lg_group_strategies :: "group_scope \<rightharpoonup> strategy_binding"
  lg_pending_group_strategies :: "group_scope \<rightharpoonup> strategy_binding \<times> int"
  lg_closed :: bool
  lg_started :: bool
  lg_quiescing :: bool
  lg_heap :: "nat \<Rightarrow> lease"
  lg_fresh :: nat
  lg_fresh_marker :: nat

definition log_capabilities :: start_mode_capabilities where
  "log_capabilities = \<lparr>sm_beginning = True, sm_end = True, sm_exact_offset = True,
     sm_timestamp = True, sm_relative_time = True\<rparr>"

text \<open>The contents of the heap before any lease is created are irrelevant.\<close>

definition new_log :: "int arg \<Rightarrow> (nat \<Rightarrow> lease) \<Rightarrow> ps_error + log" where
  "new_log max_active_leases heap =
     (case positive max_active_leases of Inl e \<Rightarrow> Inl e | Inr n \<Rightarrow>
        Inr \<lparr>lg_max_active_leases = n, lg_streams = Map.empty, lg_owners = fmempty,
             lg_leases = fmempty, lg_transfers = Map.empty, lg_generations = Map.empty,
             lg_broker_cursors = Map.empty, lg_group_strategies = Map.empty,
             lg_pending_group_strategies = Map.empty, lg_closed = False, lg_started = False,
             lg_quiescing = False, lg_heap = heap, lg_fresh = 0,
             lg_fresh_marker = 0\<rparr>)"

section \<open>Guards\<close>

definition require_open :: "log \<Rightarrow> ps_error + unit" where
  [op_defs]: "require_open l = (if lg_closed l then Inl LifecycleError else Inr ())"

definition stream_of :: "log \<Rightarrow> string \<Rightarrow> ps_error + stream_state" where
  [op_defs]: "stream_of l name =
     (case lg_streams l name of None \<Rightarrow> Inl UnknownStreamError | Some ss \<Rightarrow> Inr ss)"

fun partition_of :: "stream_state \<Rightarrow> int arg \<Rightarrow> ps_error + partition_state" where
  "partition_of ss Foreign = Inl InvalidPartitionError"
| "partition_of ss (Inst p) =
     (if p < 0 \<or> p \<ge> int (length (ss_partitions ss)) then Inl InvalidPartitionError
      else Inr (ss_partitions ss ! nat p))"

text \<open>The clock is application code; its argument here is what the call gave.\<close>

fun now_of :: "ps_error + datetime arg \<Rightarrow> ps_error + int" where
  "now_of (Inl e) = Inl e"
| "now_of (Inr v) = aware_guard v"

definition require_owner_locked :: "log \<Rightarrow> checkpoint_key \<Rightarrow> ownership_token \<Rightarrow> ps_error + unit" where
  [op_defs]: "require_owner_locked l key owner =
     (case require_open l of Inl e \<Rightarrow> Inl e
      | Inr _ \<Rightarrow> if fmlookup (lg_owners l) key \<noteq> Some owner then Inl OwnershipError else Inr ())"

definition bounds_of :: "partition_state \<Rightarrow> ps_error + available_bounds" where
  [op_defs]: "bounds_of pt =
     mk_available_bounds (Inst (pt_earliest_offset pt)) (Inst (pt_next_offset pt))"

definition retention_gap ::
  "string \<Rightarrow> int \<Rightarrow> int option \<Rightarrow> int option \<Rightarrow> partition_state \<Rightarrow> string option \<Rightarrow> ps_error" where
  [op_defs]: "retention_gap stream p offset timestamp pt grp =
     (case bounds_of pt of Inl e \<Rightarrow> e
      | Inr b \<Rightarrow> RetentionGapError stream p offset timestamp (Some b) grp)"

definition require_retained ::
  "string \<Rightarrow> int \<Rightarrow> int \<Rightarrow> partition_state \<Rightarrow> string option \<Rightarrow> ps_error + unit" where
  [op_defs]: "require_retained stream p offset pt grp =
     (if offset < pt_earliest_offset pt then Inl (retention_gap stream p (Some offset) None pt grp)
      else Inr ())"

fun validate_read :: "stream_definition \<Rightarrow> int arg \<Rightarrow> int arg \<Rightarrow> ps_error + int \<times> int" where
  "validate_read sd Foreign limit = Inl ValidationError"
| "validate_read sd (Inst from_offset) limit =
     (if from_offset < 0 then Inl ValidationError
      else case limit of Foreign \<Rightarrow> Inl ValidationError
      | Inst n \<Rightarrow>
          if n \<le> 0 then Inl ValidationError
          else if n > sl_max_read_records (sd_limits sd) then Inl ResourceLimitError
          else Inr (from_offset, n))"

text \<open>
  \<open>timedelta(days=...)\<close> is evaluated for a relative start only and overflows beyond 999999999 days.
\<close>

definition validate_subscription :: "stream_definition \<Rightarrow> subscription \<Rightarrow> ps_error + unit" where
  [op_defs]: "validate_subscription sd sub =
     (let limits = sd_limits sd in
      if int (length (su_group sub)) > sl_max_group_chars limits then Inl ResourceLimitError
      else if int (length (su_owner_id sub)) > sl_max_owner_chars limits then Inl ResourceLimitError
      else case su_start sub of
        RelativeTime age \<Rightarrow>
          if sl_max_relative_age_days limits > 999999999 then Inl OverflowError
          else if age > sl_max_relative_age_days limits * 86400000000 then Inl ResourceLimitError
          else Inr ()
      | _ \<Rightarrow> Inr ())"

definition validate_advance :: "resume_cursor \<Rightarrow> resume_cursor \<Rightarrow> ps_error + unit" where
  [op_defs]: "validate_advance expected cursor =
     (if rc_kind expected = LAST_SUCCESSFUL \<and> rc_offset cursor \<le> rc_offset expected
      then Inl CheckpointError
      else if rc_kind expected = INITIALIZED \<and> rc_offset cursor < rc_offset expected
      then Inl CheckpointError
      else Inr ())"

text \<open>
  The earliest \<open>datetime\<close> is the first of January of the year 1, in microseconds from the epoch.
  Subtracting the age from a UTC clock overflows below it.
\<close>

definition datetime_min :: int where
  "datetime_min = -62135596800000000"

definition start_target ::
  "ps_error + datetime arg \<Rightarrow> start_position \<Rightarrow> ps_error + int" where
  [op_defs]: "start_target clock start =
     (case start of
        RelativeTime age \<Rightarrow>
          (case now_of clock of Inl e \<Rightarrow> Inl e
           | Inr now \<Rightarrow> if now - age < datetime_min then Inl ValidationError else Inr (now - age))
      | Timestamp t \<Rightarrow> Inr t
      | _ \<Rightarrow> Inl TypeError)"

definition resolve_start_locked ::
  "ps_error + datetime arg \<Rightarrow> start_position \<Rightarrow> string \<Rightarrow> int \<Rightarrow> partition_state \<Rightarrow> ps_error + int" where
  [op_defs]: "resolve_start_locked clock start stream p pt =
     (case start of
        Beginning \<Rightarrow> Inr (pt_earliest_offset pt)
      | End \<Rightarrow> Inr (pt_next_offset pt)
      | ExactOffset k \<Rightarrow>
          (case require_retained stream p k pt None of Inl e \<Rightarrow> Inl e | Inr _ \<Rightarrow> Inr k)
      | _ \<Rightarrow>
          (case start_target clock start of Inl e \<Rightarrow> Inl e
           | Inr target \<Rightarrow>
               if (case pt_removed_through pt of None \<Rightarrow> False | Some t \<Rightarrow> target \<le> t)
               then Inl (retention_gap stream p None (Some target) pt None)
               else (case find (\<lambda>r. sr_appended_at r \<ge> target) (pt_records pt) of
                       Some r \<Rightarrow> Inr (sr_offset r)
                     | None \<Rightarrow> Inr (pt_next_offset pt))))"

section \<open>Life cycle and streams\<close>

definition log_start :: "log \<Rightarrow> (ps_error + unit) \<times> log" where
  [op_defs]: "log_start l =
     (case require_open l of Inl e \<Rightarrow> (Inl e, l)
      | Inr _ \<Rightarrow> (Inr (), l\<lparr>lg_started := True, lg_quiescing := False\<rparr>))"

definition log_quiesce :: "log \<Rightarrow> (ps_error + unit) \<times> log" where
  [op_defs]: "log_quiesce l = (Inr (), l\<lparr>lg_quiescing := True\<rparr>)"

definition declare_stream :: "log \<Rightarrow> stream_definition \<Rightarrow> (ps_error + unit) \<times> log" where
  [op_defs]: "declare_stream l sd =
     (case mk_stream_definition (Inst (sd_name sd)) (Inst (sd_partition_count sd))
             (Inst (sd_limits sd)) (Inst (sd_router sd)) of
        Inl e \<Rightarrow> (Inl e, l)
      | Inr snapshot \<Rightarrow>
          (case require_open l of Inl e \<Rightarrow> (Inl e, l)
           | Inr _ \<Rightarrow>
               (case lg_streams l (sd_name snapshot) of
                  Some current \<Rightarrow>
                    if sd_compatibility_key (ss_definition current) \<noteq> sd_compatibility_key snapshot
                    then (Inl IncompatibleStreamError, l) else (Inr (), l)
                | None \<Rightarrow>
                    (Inr (), l\<lparr>lg_streams := (lg_streams l)(sd_name snapshot \<mapsto>
                       \<lparr>ss_definition = snapshot,
                        ss_partitions =
                          replicate (nat (sd_partition_count snapshot)) new_partition_state,
                        ss_producers = Map.empty\<rparr>)\<rparr>))))"

section \<open>Appending\<close>

definition set_partition :: "log \<Rightarrow> string \<Rightarrow> stream_state \<Rightarrow> int \<Rightarrow> partition_state \<Rightarrow> log" where
  [op_defs]: "set_partition l stream ss p pt =
     l\<lparr>lg_streams := (lg_streams l)(stream \<mapsto> ss\<lparr>ss_partitions := (ss_partitions ss)[nat p := pt]\<rparr>)\<rparr>"

definition route_partition :: "stream_definition \<Rightarrow> byte_string \<Rightarrow> ps_error + int" where
  [op_defs]: "route_partition sd partition_key =
     (case rt_route (sd_router sd) partition_key (sd_partition_count sd) of
        Inl e \<Rightarrow> Inl e
      | Inr Foreign \<Rightarrow> Inl InvalidPartitionError
      | Inr (Inst p) \<Rightarrow>
          if p < 0 \<or> p \<ge> sd_partition_count sd then Inl InvalidPartitionError else Inr p)"

text \<open>The receipt of a retry, or nothing when the request is new.\<close>

definition producer_check ::
  "stream_state \<Rightarrow> int \<Rightarrow> append_request \<Rightarrow> ps_error + publish_receipt option" where
  [op_defs]: "producer_check ss p rq =
     (case rq_producer_name rq of None \<Rightarrow> Inr None
      | Some name \<Rightarrow>
         (case ss_producers ss (p, name) of None \<Rightarrow> Inr None
          | Some old \<Rightarrow>
             (case rq_publishing_id rq of None \<Rightarrow> Inl AssertionError
              | Some n \<Rightarrow>
                  if n = pd_publishing_id old
                  then (if rq \<noteq> pd_request old then Inl PublishingConflictError
                        else (case mk_publish_receipt (Inst (pr_record_id (pd_receipt old))) (Inst p)
                                     (Inst DEDUPLICATED)
                                     (Inst (map Inst (pr_confirmation_facts (pd_receipt old)))) of
                                Inl e \<Rightarrow> Inl e | Inr receipt \<Rightarrow> Inr (Some receipt)))
                  else if n < pd_publishing_id old then Inl StalePublishingIdError
                  else Inr None)))"

definition append_record ::
  "log \<Rightarrow> string \<Rightarrow> stream_state \<Rightarrow> int \<Rightarrow> append_request \<Rightarrow> int \<Rightarrow>
   (ps_error + publish_receipt) \<times> log" where
  [op_defs]: "append_record l stream ss p rq now =
     (let pt = ss_partitions ss ! nat p;
          appended_at = (case pt_last_timestamp pt of None \<Rightarrow> now
                         | Some t \<Rightarrow> if now < t then t else now);
          offset = pt_next_offset pt;
          pt1 = pt\<lparr>pt_next_offset := pt_next_offset pt + 2\<rparr>
      in case mk_stored_record (Inst (rq_record_id rq)) (Inst stream) (Inst (rq_partition_key rq))
                (Inst (rq_payload rq)) (rq_headers rq) (Inst p) (Inst offset)
                (Inst (Aware appended_at)) of
           Inl e \<Rightarrow> (Inl e, set_partition l stream ss p pt1)
         | Inr r \<Rightarrow>
             let pt2 = pt1\<lparr>pt_records := pt_records pt1 @ [r], pt_last_timestamp := Some appended_at\<rparr>
             in case mk_publish_receipt (Inst (rq_record_id rq)) (Inst p) (Inst CONFIRMED)
                       (Inst [Inst ''in-memory-accepted'']) of
                  Inl e \<Rightarrow> (Inl e, set_partition l stream ss p pt2)
                | Inr receipt \<Rightarrow>
                    (case rq_producer_name rq of
                       None \<Rightarrow> (Inr receipt, set_partition l stream ss p pt2)
                     | Some name \<Rightarrow>
                         (case rq_publishing_id rq of
                            None \<Rightarrow> (Inl AssertionError, set_partition l stream ss p pt2)
                          | Some n \<Rightarrow>
                              (Inr receipt, set_partition l stream
                                 (ss\<lparr>ss_producers := (ss_producers ss)((p, name) \<mapsto>
                                    \<lparr>pd_publishing_id = n, pd_request = rq, pd_receipt = receipt\<rparr>)\<rparr>)
                                 p pt2))))"

definition log_append ::
  "log \<Rightarrow> ps_error + datetime arg \<Rightarrow> string \<Rightarrow> append_request \<Rightarrow> (ps_error + publish_receipt) \<times> log" where
  [op_defs]: "log_append l clock stream rq =
     (case require_open l of Inl e \<Rightarrow> (Inl e, l) | Inr _ \<Rightarrow>
     (case stream_of l stream of Inl e \<Rightarrow> (Inl e, l) | Inr ss \<Rightarrow>
     (case validate_append_request_limits (ss_definition ss) rq of Inl e \<Rightarrow> (Inl e, l) | Inr _ \<Rightarrow>
     (case route_partition (ss_definition ss) (rq_partition_key rq) of Inl e \<Rightarrow> (Inl e, l) | Inr p \<Rightarrow>
     (case producer_check ss p rq of
        Inl e \<Rightarrow> (Inl e, l)
      | Inr (Some receipt) \<Rightarrow> (Inr receipt, l)
      | Inr None \<Rightarrow>
          (case now_of clock of Inl e \<Rightarrow> (Inl e, l)
           | Inr now \<Rightarrow> append_record l stream ss p rq now))))))"

section \<open>Reading and trimming\<close>

definition log_bounds :: "log \<Rightarrow> string \<Rightarrow> int arg \<Rightarrow> ps_error + available_bounds" where
  [op_defs]: "log_bounds l stream part =
     (case require_open l of Inl e \<Rightarrow> Inl e | Inr _ \<Rightarrow>
     (case stream_of l stream of Inl e \<Rightarrow> Inl e | Inr ss \<Rightarrow>
     (case partition_of ss part of Inl e \<Rightarrow> Inl e | Inr pt \<Rightarrow> bounds_of pt)))"

fun arg_value :: "int arg \<Rightarrow> int" where
  "arg_value (Inst n) = n"
| "arg_value Foreign = 0"

definition log_read ::
  "log \<Rightarrow> string \<Rightarrow> int arg \<Rightarrow> int arg \<Rightarrow> int arg \<Rightarrow> ps_error + stream_page" where
  [op_defs]: "log_read l stream part from_offset limit =
     (case require_open l of Inl e \<Rightarrow> Inl e | Inr _ \<Rightarrow>
     (case stream_of l stream of Inl e \<Rightarrow> Inl e | Inr ss \<Rightarrow>
     (case partition_of ss part of Inl e \<Rightarrow> Inl e | Inr pt \<Rightarrow>
     (case validate_read (ss_definition ss) from_offset limit of Inl e \<Rightarrow> Inl e | Inr (k, n) \<Rightarrow>
     (case require_retained stream (arg_value part) k pt None of Inl e \<Rightarrow> Inl e | Inr _ \<Rightarrow>
      let records = take (nat n) (filter (\<lambda>r. sr_offset r \<ge> k) (pt_records pt)) in
      (case bounds_of pt of Inl e \<Rightarrow> Inl e | Inr b \<Rightarrow> mk_stream_page records (Some b)))))))"

definition trim_partition :: "partition_state \<Rightarrow> int \<Rightarrow> int \<times> partition_state" where
  [op_defs]: "trim_partition pt before_offset =
     (let boundary = min before_offset (pt_next_offset pt);
          removed = filter (\<lambda>r. sr_offset r < boundary) (pt_records pt);
          pt1 = pt\<lparr>pt_records := filter (\<lambda>r. sr_offset r \<ge> boundary) (pt_records pt),
                   pt_earliest_offset := max (pt_earliest_offset pt) boundary\<rparr>
      in (int (length removed),
          if removed \<noteq> [] then pt1\<lparr>pt_removed_through := Some (sr_appended_at (last removed))\<rparr>
          else pt1))"

definition log_trim :: "log \<Rightarrow> string \<Rightarrow> int arg \<Rightarrow> int arg \<Rightarrow> (ps_error + int) \<times> log" where
  [op_defs]: "log_trim l stream part before_offset =
     (case require_open l of Inl e \<Rightarrow> (Inl e, l) | Inr _ \<Rightarrow>
     (case stream_of l stream of Inl e \<Rightarrow> (Inl e, l) | Inr ss \<Rightarrow>
     (case partition_of ss part of Inl e \<Rightarrow> (Inl e, l) | Inr pt \<Rightarrow>
     (case validate_read (ss_definition ss) before_offset (Inst 1) of Inl e \<Rightarrow> (Inl e, l)
      | Inr (k, _) \<Rightarrow>
          let (n, pt') = trim_partition pt k
          in (Inr n, set_partition l stream ss (arg_value part) pt')))))"

end
