(* ===== verification/Streams_History.thy ===== *)
theory Streams_History
  imports Streams_Log
begin

text \<open>
  What the log promises about records, and that \<open>inmemory.py\<close> keeps it. The promise is stated on an
  abstract log: a stream keeps, for every partition, the complete sequence of accepted requests
  with their timestamps, and the offset below which records are no longer available. Every part of
  the stored state (records, offsets, timestamps, producer table, trimmed boundary) is a function
  of that history, and every operation of the log is the abstract operation seen through it.
\<close>

section \<open>The abstract log\<close>

type_synonym history = "(append_request \<times> int) list"

record history_stream =
  hs_definition :: stream_definition
  hs_history :: "int \<Rightarrow> history"
  hs_low :: "int \<Rightarrow> int"

type_synonym history_log = "string \<rightharpoonup> history_stream"

definition confirmed_receipt :: "publish_outcome \<Rightarrow> int \<Rightarrow> append_request \<Rightarrow> publish_receipt" where
  "confirmed_receipt oc p rq = \<lparr>pr_record_id = rq_record_id rq, pr_partition = p, pr_outcome = oc,
     pr_confirmation_facts = [''in-memory-accepted'']\<rparr>"

definition last_publication :: "string \<Rightarrow> history \<Rightarrow> append_request option" where
  "last_publication name h = find (\<lambda>rq. rq_producer_name rq = Some name) (rev (map fst h))"

datatype publication = Accept | Repeat append_request | Refuse ps_error

definition decide :: "history \<Rightarrow> append_request \<Rightarrow> publication" where
  "decide h rq =
     (case rq_producer_name rq of None \<Rightarrow> Accept
      | Some name \<Rightarrow>
          (case last_publication name h of None \<Rightarrow> Accept
           | Some old \<Rightarrow>
               if rq_publishing_id rq = rq_publishing_id old
               then (if rq = old then Repeat old else Refuse PublishingConflictError)
               else if the (rq_publishing_id rq) < the (rq_publishing_id old)
               then Refuse StalePublishingIdError else Accept))"

definition accept_time :: "history \<Rightarrow> int \<Rightarrow> int" where
  "accept_time h now = (if h = [] then now else max now (snd (last h)))"

definition history_append ::
  "history_log \<Rightarrow> ps_error + datetime arg \<Rightarrow> string \<Rightarrow> append_request \<Rightarrow>
   (ps_error + publish_receipt) \<times> history_log" where
  "history_append A clock stream rq =
     (case A stream of None \<Rightarrow> (Inl UnknownStreamError, A) | Some x \<Rightarrow>
     (case validate_append_request_limits (hs_definition x) rq of Inl e \<Rightarrow> (Inl e, A) | Inr _ \<Rightarrow>
     (case route_partition (hs_definition x) (rq_partition_key rq) of Inl e \<Rightarrow> (Inl e, A) | Inr p \<Rightarrow>
     (case decide (hs_history x p) rq of
        Refuse e \<Rightarrow> (Inl e, A)
      | Repeat old \<Rightarrow> (Inr (confirmed_receipt DEDUPLICATED p old), A)
      | Accept \<Rightarrow>
          (case now_of clock of Inl e \<Rightarrow> (Inl e, A)
           | Inr now \<Rightarrow>
               (Inr (confirmed_receipt CONFIRMED p rq),
                A(stream \<mapsto> x\<lparr>hs_history := (hs_history x)
                   (p := hs_history x p @ [(rq, accept_time (hs_history x p) now)])\<rparr>)))))))"

definition record_at :: "string \<Rightarrow> int \<Rightarrow> nat \<Rightarrow> append_request \<times> int \<Rightarrow> stored_record" where
  "record_at stream p i e = \<lparr>sr_record_id = rq_record_id (fst e), sr_stream = stream,
     sr_partition_key = rq_partition_key (fst e), sr_payload = rq_payload (fst e),
     sr_headers = rq_headers (fst e), sr_partition = p, sr_offset = 2 * int i,
     sr_appended_at = snd e\<rparr>"

definition history_records :: "string \<Rightarrow> int \<Rightarrow> history \<Rightarrow> stored_record list" where
  "history_records stream p h = map (\<lambda>i. record_at stream p i (h ! i)) [0..<length h]"

text \<open>The page of the untrimmed partition: trimming only decides whether the offset is available.\<close>

definition history_page ::
  "string \<Rightarrow> int \<Rightarrow> history \<Rightarrow> int \<Rightarrow> int \<Rightarrow> nat \<Rightarrow> stream_page" where
  "history_page stream p h low k n =
     \<lparr>pg_records = take n (filter (\<lambda>r. sr_offset r \<ge> k) (history_records stream p h)),
      pg_bounds = Some \<lparr>ab_earliest_offset = low, ab_end_offset = 2 * int (length h)\<rparr>\<rparr>"

section \<open>The stored state as a view of the history\<close>

definition removed_through :: "stored_record list \<Rightarrow> int \<Rightarrow> int option" where
  "removed_through rs low =
     (case filter (\<lambda>r. sr_offset r < low) rs of [] \<Rightarrow> None
      | r # rs' \<Rightarrow> Some (sr_appended_at (last (r # rs'))))"

definition partition_view :: "string \<Rightarrow> int \<Rightarrow> history \<Rightarrow> int \<Rightarrow> partition_state" where
  "partition_view stream p h low =
     \<lparr>pt_records = filter (\<lambda>r. sr_offset r \<ge> low) (history_records stream p h),
      pt_next_offset = 2 * int (length h),
      pt_earliest_offset = low,
      pt_last_timestamp = (if h = [] then None else Some (snd (last h))),
      pt_removed_through = removed_through (history_records stream p h) low\<rparr>"

definition producer_view :: "(int \<Rightarrow> history) \<Rightarrow> int \<times> string \<rightharpoonup> producer_state" where
  "producer_view hist = (\<lambda>(p, name).
     map_option (\<lambda>rq. \<lparr>pd_publishing_id = the (rq_publishing_id rq), pd_request = rq,
                       pd_receipt = confirmed_receipt CONFIRMED p rq\<rparr>)
       (last_publication name (hist p)))"

definition stream_view :: "string \<Rightarrow> history_stream \<Rightarrow> stream_state" where
  "stream_view stream x =
     \<lparr>ss_definition = hs_definition x,
      ss_partitions = map (\<lambda>i. partition_view stream (int i) (hs_history x (int i)) (hs_low x (int i)))
        [0..<nat (sd_partition_count (hs_definition x))],
      ss_producers = producer_view (hs_history x)\<rparr>"

definition streams_view :: "history_log \<Rightarrow> string \<rightharpoonup> stream_state" where
  "streams_view A = (\<lambda>stream. map_option (stream_view stream) (A stream))"

section \<open>Well-formed histories\<close>

text \<open>What the constructor of a request guarantees.\<close>

definition request_ok :: "append_request \<Rightarrow> bool" where
  [inv_defs]: "request_ok rq \<longleftrightarrow> rq_partition_key rq \<noteq> [] \<and> [] |\<notin>| fmdom (rq_headers rq) \<and>
     (rq_producer_name rq = None \<longleftrightarrow> rq_publishing_id rq = None)"

text \<open>The requests of a named producer carry strictly increasing publishing ids.\<close>

definition ids_increase :: "history \<Rightarrow> bool" where
  [inv_defs]: "ids_increase h \<longleftrightarrow>
     sorted_wrt (\<lambda>a b. rq_producer_name a \<noteq> None \<and> rq_producer_name a = rq_producer_name b \<longrightarrow>
                       the (rq_publishing_id a) < the (rq_publishing_id b)) (map fst h)"

definition history_ok :: "history \<Rightarrow> int \<Rightarrow> bool" where
  [inv_defs]: "history_ok h low \<longleftrightarrow>
     (\<forall>e \<in> set h. request_ok (fst e)) \<and> sorted (map snd h) \<and> ids_increase h \<and>
     0 \<le> low \<and> low \<le> 2 * int (length h)"

definition history_stream_ok :: "string \<Rightarrow> history_stream \<Rightarrow> bool" where
  [inv_defs]: "history_stream_ok stream x \<longleftrightarrow>
     stream \<noteq> [] \<and> sd_name (hs_definition x) = stream \<and> 0 < sd_partition_count (hs_definition x) \<and>
     (\<forall>p. history_ok (hs_history x p) (hs_low x p) \<and>
        (\<forall>e \<in> set (hs_history x p). validate_append_request_limits (hs_definition x) (fst e) = Inr () \<and>
           route_partition (hs_definition x) (rq_partition_key (fst e)) = Inr p))"

definition history_log_ok :: "history_log \<Rightarrow> bool" where
  [inv_defs]: "history_log_ok A \<longleftrightarrow> (\<forall>stream x. A stream = Some x \<longrightarrow> history_stream_ok stream x)"

section \<open>Facts about histories\<close>

lemma length_history_records [simp]: "length (history_records s p h) = length h"
  by (simp add: history_records_def)

lemma history_records_nth: "i < length h \<Longrightarrow> history_records s p h ! i = record_at s p i (h ! i)"
  by (simp add: history_records_def)

lemma history_records_Nil [simp]: "history_records s p [] = []"
  by (simp add: history_records_def)

lemma history_records_snoc [simp]:
  "history_records s p (h @ [e]) = history_records s p h @ [record_at s p (length h) e]"
  by (auto simp: history_records_def nth_append intro!: map_cong)

lemma record_at_simps [simp]:
  "sr_offset (record_at s p i e) = 2 * int i" "sr_appended_at (record_at s p i e) = snd e"
  "sr_partition (record_at s p i e) = p" "sr_stream (record_at s p i e) = s"
  by (simp_all add: record_at_def)

lemma history_record_offsets:
  "r \<in> set (history_records s p h) \<Longrightarrow> 0 \<le> sr_offset r \<and> sr_offset r < 2 * int (length h)"
  by (auto simp: history_records_def)

lemma history_records_increasing:
  "sorted_wrt (\<lambda>a b. sr_offset a < sr_offset b) (history_records s p h)"
  by (auto simp: sorted_wrt_iff_nth_less history_records_nth)

lemma history_records_times:
  "sorted (map snd h) \<Longrightarrow> sorted_wrt (\<lambda>a b. sr_appended_at a \<le> sr_appended_at b) (history_records s p h)"
  by (auto simp: sorted_wrt_iff_nth_less history_records_nth sorted_iff_nth_mono)

text \<open>The records below two bounds, of a list of increasing offsets.\<close>

lemma filter_below_split:
  fixes low b :: int
  assumes "sorted_wrt (\<lambda>a b. sr_offset a < sr_offset b) rs" and "low \<le> b"
  shows "filter (\<lambda>r. sr_offset r < b) rs =
    filter (\<lambda>r. sr_offset r < low) rs @ filter (\<lambda>r. low \<le> sr_offset r \<and> sr_offset r < b) rs"
  using assms
proof (induction rs)
  case (Cons r rs)
  show ?case
  proof (cases "sr_offset r < low")
    case True
    then show ?thesis using Cons by simp
  next
    case False
    then have "filter (\<lambda>r. sr_offset r < low) rs = []"
      using Cons.prems by (auto simp: filter_empty_conv)
    then show ?thesis using Cons False by simp
  qed
qed simp

lemma removed_through_snoc [simp]:
  "low \<le> sr_offset r \<Longrightarrow> removed_through (rs @ [r]) low = removed_through rs low"
  by (simp add: removed_through_def)

lemma removed_through_zero [simp]: "removed_through (history_records s p h) 0 = None"
proof -
  have "filter (\<lambda>r. sr_offset r < 0) (history_records s p h) = []"
    by (auto simp: filter_empty_conv dest: history_record_offsets)
  then show ?thesis by (simp add: removed_through_def)
qed

lemma removed_through_last:
  "removed_through rs low =
     (let f = filter (\<lambda>r. sr_offset r < low) rs in
      if f = [] then None else Some (sr_appended_at (last f)))"
  by (simp add: removed_through_def Let_def split: list.split)

section \<open>Views under the operations\<close>

lemma new_partition_view: "partition_view s p [] 0 = new_partition_state"
  by (simp add: partition_view_def new_partition_state_def removed_through_def)

lemma partition_view_snoc:
  assumes "low \<le> 2 * int (length h)"
  shows "partition_view s p (h @ [e]) low =
    (partition_view s p h low)\<lparr>
       pt_next_offset := 2 * int (length h) + 2,
       pt_records := pt_records (partition_view s p h low) @ [record_at s p (length h) e],
       pt_last_timestamp := Some (snd e)\<rparr>"
  using assms by (simp add: partition_view_def)

lemma trim_partition_view:
  assumes "0 \<le> low"
  shows "trim_partition (partition_view s p h low) k =
    (int (length (filter (\<lambda>r. low \<le> sr_offset r \<and> sr_offset r < k) (history_records s p h))),
     partition_view s p h (max low (min k (2 * int (length h)))))"
proof -
  let ?rs = "history_records s p h" and ?n = "2 * int (length h)"
  let ?b = "min k ?n" and ?low = "max low (min k (2 * int (length h)))"
  let ?removed = "filter (\<lambda>r. low \<le> sr_offset r \<and> sr_offset r < ?b) ?rs"
  have removed: "filter (\<lambda>r. sr_offset r < ?b) (filter (\<lambda>r. low \<le> sr_offset r) ?rs) = ?removed"
    by (simp add: conj_commute)
  have count: "?removed = filter (\<lambda>r. low \<le> sr_offset r \<and> sr_offset r < k) ?rs"
    by (rule filter_cong) (auto dest: history_record_offsets)
  have kept: "filter (\<lambda>r. ?b \<le> sr_offset r) (filter (\<lambda>r. low \<le> sr_offset r) ?rs) =
      filter (\<lambda>r. ?low \<le> sr_offset r) ?rs"
    by (simp add: conj_commute)
  have split: "filter (\<lambda>r. sr_offset r < ?low) ?rs = filter (\<lambda>r. sr_offset r < low) ?rs @ ?removed"
    using filter_below_split [OF history_records_increasing, of low ?low s p h]
    by (auto simp: max_def intro!: filter_cong split: if_splits)
  have through: "removed_through ?rs ?low =
      (if ?removed = [] then removed_through ?rs low else Some (sr_appended_at (last ?removed)))"
    by (simp add: removed_through_last split)
  show ?thesis
    unfolding trim_partition_def Let_def
    by (simp add: partition_view_def removed kept through count [symmetric])
qed

lemma stream_view_partition:
  assumes "0 \<le> p" "p < sd_partition_count (hs_definition x)"
  shows "ss_partitions (stream_view s x) ! nat p = partition_view s p (hs_history x p) (hs_low x p)"
  using assms by (simp add: stream_view_def)

lemma stream_view_simps [simp]:
  "ss_definition (stream_view s x) = hs_definition x"
  "length (ss_partitions (stream_view s x)) = nat (sd_partition_count (hs_definition x))"
  "ss_producers (stream_view s x) = producer_view (hs_history x)"
  by (simp_all add: stream_view_def)

lemma partition_of_view:
  assumes "0 < sd_partition_count (hs_definition x)"
  shows "partition_of (stream_view s x) part =
    (case part of Foreign \<Rightarrow> Inl InvalidPartitionError
     | Inst p \<Rightarrow> if p < 0 \<or> p \<ge> sd_partition_count (hs_definition x) then Inl InvalidPartitionError
               else Inr (partition_view s p (hs_history x p) (hs_low x p)))"
  using assms by (cases part) (auto simp: stream_view_partition)

lemma stream_view_update_history:
  assumes "0 \<le> p"
  shows "ss_partitions (stream_view s (x\<lparr>hs_history := (hs_history x)(p := h)\<rparr>)) =
    (ss_partitions (stream_view s x))[nat p := partition_view s p h (hs_low x p)]"
  using assms by (auto simp: stream_view_def list_eq_iff_nth_eq nth_list_update)

lemma stream_view_update_low:
  assumes "0 \<le> p"
  shows "ss_partitions (stream_view s (x\<lparr>hs_low := (hs_low x)(p := low)\<rparr>)) =
    (ss_partitions (stream_view s x))[nat p := partition_view s p (hs_history x p) low]"
  using assms by (auto simp: stream_view_def list_eq_iff_nth_eq nth_list_update)

lemma stream_view_producers:
  "(stream_view s x)\<lparr>ss_partitions := ps, ss_producers := producer_view (hs_history x)\<rparr> =
     (stream_view s x)\<lparr>ss_partitions := ps\<rparr>"
  by (simp add: stream_view_def)

lemma stream_state_update_swap:
  "(ss :: stream_state)\<lparr>ss_producers := a, ss_partitions := b\<rparr> = ss\<lparr>ss_partitions := b, ss_producers := a\<rparr>"
  by simp

lemma producer_view_snoc:
  "producer_view (hist(p := hist p @ [(rq, t)])) =
     (case rq_producer_name rq of None \<Rightarrow> producer_view hist
      | Some name \<Rightarrow> (producer_view hist)((p, name) \<mapsto>
          \<lparr>pd_publishing_id = the (rq_publishing_id rq), pd_request = rq,
           pd_receipt = confirmed_receipt CONFIRMED p rq\<rparr>))"
  by (auto simp: producer_view_def last_publication_def fun_eq_iff split: option.splits)

section \<open>Publishing decisions\<close>

lemma last_publication_Some:
  assumes "last_publication name h = Some rq"
  shows "rq \<in> fst ` set h" and "rq_producer_name rq = Some name"
  using find_SomeD [OF assms [unfolded last_publication_def]] by auto

lemma last_publication_None:
  "last_publication name h = None \<longleftrightarrow> (\<forall>e \<in> set h. rq_producer_name (fst e) \<noteq> Some name)"
  by (auto simp: last_publication_def find_None_iff)

lemma last_publication_snoc:
  "last_publication name (h @ [e]) =
     (if rq_producer_name (fst e) = Some name then Some (fst e) else last_publication name h)"
  by (simp add: last_publication_def)

text \<open>The last publication of a producer carries the largest publishing id.\<close>

lemma last_publication_max:
  assumes "ids_increase h" "last_publication name h = Some old" "e \<in> set h"
    and "rq_producer_name (fst e) = Some name"
  shows "the (rq_publishing_id (fst e)) \<le> the (rq_publishing_id old)"
  using assms
proof (induction h rule: rev_induct)
  case (snoc y h)
  then show ?case
    by (auto simp: last_publication_snoc ids_increase_def sorted_wrt_append split: if_splits)
qed (simp add: last_publication_def)

lemma mk_publish_receipt_confirmed:
  "0 \<le> p \<Longrightarrow> mk_publish_receipt (Inst u) (Inst p) (Inst oc) (Inst [Inst ''in-memory-accepted'']) =
     Inr \<lparr>pr_record_id = u, pr_partition = p, pr_outcome = oc,
          pr_confirmation_facts = [''in-memory-accepted'']\<rparr>"
  by (simp add: mk_publish_receipt_def)

lemma producer_check_view:
  assumes rq: "request_ok rq" and ok: "\<forall>e \<in> set (hs_history x p). request_ok (fst e)" and p: "0 \<le> p"
  shows "producer_check (stream_view s x) p rq =
    (case decide (hs_history x p) rq of
       Accept \<Rightarrow> Inr None
     | Repeat old \<Rightarrow> Inr (Some (confirmed_receipt DEDUPLICATED p old))
     | Refuse e \<Rightarrow> Inl e)"
proof (cases "rq_producer_name rq")
  case None
  then show ?thesis by (simp add: producer_check_def decide_def)
next
  case name: (Some name)
  then obtain n where n: "rq_publishing_id rq = Some n"
    using rq by (auto simp: request_ok_def)
  show ?thesis
  proof (cases "last_publication name (hs_history x p)")
    case None
    then show ?thesis using name by (simp add: producer_check_def decide_def producer_view_def)
  next
    case old: (Some old)
    have "request_ok old" "rq_producer_name old = Some name"
      using last_publication_Some [OF old] ok by auto
    then obtain m where m: "rq_publishing_id old = Some m"
      by (auto simp: request_ok_def)
    show ?thesis
      using name old n m p
      by (simp add: producer_check_def decide_def producer_view_def confirmed_receipt_def
          mk_publish_receipt_confirmed)
  qed
qed

section \<open>The log refines the abstract log\<close>

lemma append_record_view:
  assumes rq: "request_ok rq" and x: "history_stream_ok s x"
    and p: "0 \<le> p" "p < sd_partition_count (hs_definition x)"
  shows "append_record l s (stream_view s x) p rq now =
    (Inr (confirmed_receipt CONFIRMED p rq),
     l\<lparr>lg_streams := (lg_streams l)(s \<mapsto> stream_view s (x\<lparr>hs_history := (hs_history x)
        (p := hs_history x p @ [(rq, accept_time (hs_history x p) now)])\<rparr>))\<rparr>)"
proof -
  let ?h = "hs_history x p" and ?t = "accept_time (hs_history x p) now"
  let ?pt = "partition_view s p (hs_history x p) (hs_low x p)"
  let ?x = "x\<lparr>hs_history := (hs_history x)(p := hs_history x p @ [(rq, ?t)])\<rparr>"
  have low: "hs_low x p \<le> 2 * int (length ?h)"
    using x by (auto simp: history_stream_ok_def history_ok_def)
  have tm: "(case pt_last_timestamp ?pt of None \<Rightarrow> now | Some t \<Rightarrow> if now < t then t else now) = ?t"
    by (auto simp: partition_view_def accept_time_def)
  have rec: "mk_stored_record (Inst (rq_record_id rq)) (Inst s) (Inst (rq_partition_key rq))
      (Inst (rq_payload rq)) (rq_headers rq) (Inst p) (Inst (pt_next_offset ?pt)) (Inst (Aware ?t)) =
      Inr (record_at s p (length ?h) (rq, ?t))"
    using rq x p
    by (auto simp: mk_stored_record_def request_ok_def history_stream_ok_def partition_view_def record_at_def)
  have parts: "stream_view s ?x = (stream_view s x)\<lparr>
      ss_partitions := (ss_partitions (stream_view s x))
        [nat p := partition_view s p (?h @ [(rq, ?t)]) (hs_low x p)],
      ss_producers := producer_view (hs_history ?x)\<rparr>"
    using stream_view_update_history [OF p(1), of s x "?h @ [(rq, ?t)]"]
    by (simp add: stream_view_def)
  have pt: "partition_view s p (?h @ [(rq, ?t)]) (hs_low x p) = ?pt\<lparr>
      pt_next_offset := pt_next_offset ?pt + 2,
      pt_records := pt_records ?pt @ [record_at s p (length ?h) (rq, ?t)],
      pt_last_timestamp := Some ?t\<rparr>"
    using partition_view_snoc [OF low, of s p "(rq, ?t)"] by (simp add: partition_view_def)
  show ?thesis
  proof (cases "rq_producer_name rq")
    case None
    then show ?thesis
      unfolding append_record_def Let_def stream_view_partition [OF p] tm rec parts pt
      using p by (simp add: mk_publish_receipt_confirmed set_partition_def confirmed_receipt_def
          producer_view_snoc stream_view_producers)
  next
    case (Some name)
    moreover obtain n where "rq_publishing_id rq = Some n"
      using rq Some by (auto simp: request_ok_def)
    ultimately show ?thesis
      unfolding append_record_def Let_def stream_view_partition [OF p] tm rec parts pt
      using p by (simp add: mk_publish_receipt_confirmed set_partition_def confirmed_receipt_def
          producer_view_snoc stream_state_update_swap)
  qed
qed

lemma route_partition_bounds:
  "route_partition sd key = Inr p \<Longrightarrow> 0 \<le> p \<and> p < sd_partition_count sd"
  by (auto simp: route_partition_def split: sum.splits arg.splits if_splits)

lemma streams_view_upd: "streams_view (A(s \<mapsto> x)) = (streams_view A)(s \<mapsto> stream_view s x)"
  by (auto simp: streams_view_def)

lemma log_append_view:
  assumes l: "lg_streams l = streams_view A" "\<not> lg_closed l"
    and A: "history_log_ok A" and rq: "request_ok rq"
  shows "log_append l clock s rq =
    (fst (history_append A clock s rq),
     l\<lparr>lg_streams := streams_view (snd (history_append A clock s rq))\<rparr>)"
proof (cases "A s")
  case None
  then show ?thesis
    using l by (simp add: log_append_def require_open_def stream_of_def streams_view_def history_append_def)
next
  case (Some x)
  have x: "history_stream_ok s x" using A Some by (simp add: history_log_ok_def)
  have stream: "stream_of l s = Inr (stream_view s x)"
    using l Some by (simp add: stream_of_def streams_view_def)
  have keep: "l\<lparr>lg_streams := streams_view A\<rparr> = l" using l by simp
  show ?thesis
  proof (cases "route_partition (hs_definition x) (rq_partition_key rq)")
    case (Inl e)
    then show ?thesis
      using Some keep l
      by (auto simp: log_append_def require_open_def stream history_append_def split: sum.splits)
  next
    case (Inr p)
    have p: "0 \<le> p" "p < sd_partition_count (hs_definition x)"
      using route_partition_bounds [OF Inr] by auto
    have ok: "\<forall>e \<in> set (hs_history x p). request_ok (fst e)"
      using x by (auto simp: history_stream_ok_def history_ok_def)
    show ?thesis
      using Some keep l
      by (simp add: log_append_def require_open_def stream history_append_def Inr
          producer_check_view [OF rq ok p(1)] append_record_view [OF rq x p] streams_view_upd
          split: sum.split publication.split)
  qed
qed

section \<open>The other operations\<close>

definition history_declare :: "history_log \<Rightarrow> stream_definition \<Rightarrow> (ps_error + unit) \<times> history_log" where
  "history_declare A sd =
     (case mk_stream_definition (Inst (sd_name sd)) (Inst (sd_partition_count sd))
             (Inst (sd_limits sd)) (Inst (sd_router sd)) of
        Inl e \<Rightarrow> (Inl e, A)
      | Inr snapshot \<Rightarrow>
          (case A (sd_name snapshot) of
             Some x \<Rightarrow>
               (if sd_compatibility_key (hs_definition x) \<noteq> sd_compatibility_key snapshot
                then Inl IncompatibleStreamError else Inr (), A)
           | None \<Rightarrow> (Inr (), A(sd_name snapshot \<mapsto>
               \<lparr>hs_definition = snapshot, hs_history = (\<lambda>_. []), hs_low = (\<lambda>_. 0)\<rparr>))))"

definition history_trim ::
  "history_log \<Rightarrow> string \<Rightarrow> int arg \<Rightarrow> int arg \<Rightarrow> (ps_error + int) \<times> history_log" where
  "history_trim A stream part before_offset =
     (case A stream of None \<Rightarrow> (Inl UnknownStreamError, A) | Some x \<Rightarrow>
     (case part of Foreign \<Rightarrow> (Inl InvalidPartitionError, A) | Inst p \<Rightarrow>
      if p < 0 \<or> p \<ge> sd_partition_count (hs_definition x) then (Inl InvalidPartitionError, A)
      else (case validate_read (hs_definition x) before_offset (Inst 1) of Inl e \<Rightarrow> (Inl e, A)
       | Inr (k, _) \<Rightarrow>
           (Inr (int (length (filter (\<lambda>r. hs_low x p \<le> sr_offset r \<and> sr_offset r < k)
                   (history_records stream p (hs_history x p))))),
            A(stream \<mapsto> x\<lparr>hs_low := (hs_low x)
               (p := max (hs_low x p) (min k (2 * int (length (hs_history x p)))))\<rparr>)))))"

definition history_read ::
  "history_log \<Rightarrow> string \<Rightarrow> int arg \<Rightarrow> int arg \<Rightarrow> int arg \<Rightarrow> ps_error + stream_page" where
  "history_read A stream part from_offset limit =
     (case A stream of None \<Rightarrow> Inl UnknownStreamError | Some x \<Rightarrow>
     (case part of Foreign \<Rightarrow> Inl InvalidPartitionError | Inst p \<Rightarrow>
      if p < 0 \<or> p \<ge> sd_partition_count (hs_definition x) then Inl InvalidPartitionError
      else (case validate_read (hs_definition x) from_offset limit of Inl e \<Rightarrow> Inl e
       | Inr (k, n) \<Rightarrow>
           if k < hs_low x p
           then Inl (RetentionGapError stream p (Some k) None
                  (Some \<lparr>ab_earliest_offset = hs_low x p,
                         ab_end_offset = 2 * int (length (hs_history x p))\<rparr>) None)
           else Inr (history_page stream p (hs_history x p) (hs_low x p) k (nat n)))))"

lemma mk_stream_definition_ok:
  assumes "mk_stream_definition (Inst nm) (Inst n) (Inst lim) (Inst rt) = Inr sd"
  shows "sd_name sd = nm \<and> nm \<noteq> [] \<and> 0 < sd_partition_count sd"
  using assms
  by (auto simp: mk_stream_definition_def split: sum.splits if_splits arg.splits)

lemma declare_stream_view:
  assumes l: "lg_streams l = streams_view A" "\<not> lg_closed l"
  shows "declare_stream l sd =
    (fst (history_declare A sd), l\<lparr>lg_streams := streams_view (snd (history_declare A sd))\<rparr>)"
proof -
  have keep: "l\<lparr>lg_streams := streams_view A\<rparr> = l" using l by simp
  have new: "stream_view s \<lparr>hs_definition = d, hs_history = (\<lambda>_. []), hs_low = (\<lambda>_. 0)\<rparr> =
      \<lparr>ss_definition = d, ss_partitions = replicate (nat (sd_partition_count d)) new_partition_state,
       ss_producers = Map.empty\<rparr>" for s d
    by (simp add: stream_view_def new_partition_view map_replicate_const producer_view_def
        last_publication_def fun_eq_iff)
  have streams: "streams_view A s = map_option (stream_view s) (A s)" for s
    by (simp add: streams_view_def)
  show ?thesis
    using l keep
    by (auto simp: declare_stream_def history_declare_def require_open_def streams new streams_view_upd
        split: sum.split option.split)
qed

lemma log_trim_view:
  assumes l: "lg_streams l = streams_view A" "\<not> lg_closed l" and A: "history_log_ok A"
  shows "log_trim l s part k =
    (fst (history_trim A s part k), l\<lparr>lg_streams := streams_view (snd (history_trim A s part k))\<rparr>)"
proof (cases "A s")
  case None
  then show ?thesis
    using l by (simp add: log_trim_def require_open_def stream_of_def streams_view_def history_trim_def)
next
  case (Some x)
  have x: "0 < sd_partition_count (hs_definition x)" and low: "0 \<le> hs_low x p" for p
    using A Some by (auto simp: history_log_ok_def history_stream_ok_def history_ok_def)
  have stream: "stream_of l s = Inr (stream_view s x)"
    using l Some by (simp add: stream_of_def streams_view_def)
  have keep: "l\<lparr>lg_streams := streams_view A\<rparr> = l" using l by simp
  have upd: "stream_view s (x\<lparr>hs_low := (hs_low x)(p := low)\<rparr>) = (stream_view s x)\<lparr>ss_partitions :=
      (ss_partitions (stream_view s x))[nat p := partition_view s p (hs_history x p) low]\<rparr>"
    if "0 \<le> p" for p low
    using stream_view_update_low [OF that, of s x low] by (simp add: stream_view_def)
  show ?thesis
    using Some keep l
    by (auto simp: log_trim_def require_open_def stream partition_of_view [OF x] history_trim_def
        trim_partition_view [OF low] set_partition_def streams_view_upd upd
        split: sum.split arg.split)
qed

lemma take_filter_increasing:
  assumes "sorted_wrt (\<lambda>a b. sr_offset a < sr_offset b) rs"
  shows "sorted_wrt (\<lambda>a b. sr_offset a < sr_offset b) (take n (filter P rs))"
  using assms by (simp add: sorted_wrt_filter sorted_wrt_take)

lemma mk_stream_page_increasing:
  assumes "sorted_wrt (\<lambda>a b. sr_offset a < sr_offset b) rs"
  shows "mk_stream_page rs b = Inr \<lparr>pg_records = rs, pg_bounds = b\<rparr>"
proof -
  have "\<forall>i < length rs - Suc 0. \<not> sr_offset (rs ! Suc i) \<le> sr_offset (rs ! i)"
    using assms by (auto simp: not_le intro: sorted_wrt_nth_less)
  then have "\<not> list_ex (\<lambda>(current, following). sr_offset current \<ge> sr_offset following) (zip rs (tl rs))"
    by (auto simp: list_ex_iff in_set_conv_nth nth_tl)
  then show ?thesis by (simp add: mk_stream_page_def)
qed

lemma bounds_of_view:
  assumes "history_ok h low"
  shows "bounds_of (partition_view s p h low) =
    Inr \<lparr>ab_earliest_offset = low, ab_end_offset = 2 * int (length h)\<rparr>"
  using assms by (simp add: bounds_of_def mk_available_bounds_def partition_view_def history_ok_def)

lemma log_read_view:
  assumes l: "lg_streams l = streams_view A" "\<not> lg_closed l" and A: "history_log_ok A"
  shows "log_read l s part k n = history_read A s part k n"
proof (cases "A s")
  case None
  then show ?thesis
    using l by (simp add: log_read_def require_open_def stream_of_def streams_view_def history_read_def)
next
  case (Some x)
  have x: "0 < sd_partition_count (hs_definition x)" and h: "history_ok (hs_history x p) (hs_low x p)" for p
    using A Some by (auto simp: history_log_ok_def history_stream_ok_def)
  have stream: "stream_of l s = Inr (stream_view s x)"
    using l Some by (simp add: stream_of_def streams_view_def)
  have retained: "filter (\<lambda>r. k \<le> sr_offset r) (pt_records (partition_view s p h low)) =
      filter (\<lambda>r. k \<le> sr_offset r) (history_records s p h)" if "low \<le> k" for k p h low
    using that by (auto simp: partition_view_def intro!: filter_cong)
  have page: "mk_stream_page (take n (filter P (history_records s p h))) b =
      Inr \<lparr>pg_records = take n (filter P (history_records s p h)), pg_bounds = b\<rparr>" for n P p h b
    by (rule mk_stream_page_increasing) (rule take_filter_increasing [OF history_records_increasing])
  have low: "pt_earliest_offset (partition_view s p h low) = low" for p h low
    by (simp add: partition_view_def)
  show ?thesis
    using Some l
    by (auto simp: log_read_def require_open_def stream partition_of_view [OF x] history_read_def
        require_retained_def retention_gap_def bounds_of_view [OF h] low retained page history_page_def
        Let_def split: sum.split arg.split)
qed

section \<open>Well-formedness is kept\<close>

lemma text_guard_Inr: "text_guard a = Inr s \<Longrightarrow> a = Inst s \<and> s \<noteq> []"
  by (cases a) (auto split: if_splits)

lemma byte_header_items_keys:
  "byte_header_items items = Inr kvs \<Longrightarrow> list_all (\<lambda>kv. fst kv \<noteq> []) kvs"
  by (induction items arbitrary: kvs rule: byte_header_items.induct) (auto split: sum.splits dest!: text_guard_Inr)

lemma mk_append_request_ok:
  assumes "mk_append_request u key payload hs producer pid = Inr rq"
  shows "request_ok rq"
proof -
  have "[] |\<notin>| fmdom (fmap_of_list kvs)" if "byte_header_items items = Inr kvs" for items kvs
    using byte_header_items_keys [OF that]
    by (intro fmdom_notI) (auto simp: fmlookup_of_list map_of_eq_None_iff list_all_iff)
  with assms show ?thesis
    by (auto simp: mk_append_request_def request_ok_def split: sum.splits arg.splits if_splits option.splits)
qed

lemma history_ok_snoc:
  assumes h: "history_ok h low" and rq: "request_ok rq" and new: "decide h rq = Accept"
  shows "history_ok (h @ [(rq, accept_time h now)]) low"
proof -
  have ids: "the (rq_publishing_id (fst e)) < the (rq_publishing_id rq)"
    if e: "e \<in> set h" and same: "rq_producer_name (fst e) = Some name" "rq_producer_name rq = Some name"
    for e name
  proof -
    obtain old where old: "last_publication name h = Some old"
      using e same last_publication_None [of name h] by (cases "last_publication name h") auto
    have "request_ok old" using last_publication_Some(1) [OF old] h by (auto simp: history_ok_def)
    moreover have "rq_producer_name old = Some name" using last_publication_Some(2) [OF old] .
    ultimately have some: "rq_publishing_id old \<noteq> None" "rq_publishing_id rq \<noteq> None"
      using rq same by (auto simp: request_ok_def)
    have "the (rq_publishing_id old) < the (rq_publishing_id rq)"
      using new same old some by (auto simp: decide_def split: if_splits)
    moreover have "the (rq_publishing_id (fst e)) \<le> the (rq_publishing_id old)"
      using last_publication_max [OF _ old e same(1)] h by (simp add: history_ok_def)
    ultimately show ?thesis by simp
  qed
  have time: "snd e \<le> accept_time h now" if "e \<in> set h" for e
  proof -
    have "h \<noteq> []" using that by auto
    then have "snd e \<le> snd (last h)"
      using that h by (auto simp: history_ok_def in_set_conv_nth last_conv_nth sorted_iff_nth_mono)
    then show ?thesis using that by (auto simp: accept_time_def)
  qed
  show ?thesis
    using h rq ids time by (auto simp: history_ok_def ids_increase_def sorted_wrt_append sorted_append)
qed

lemma history_log_ok_upd:
  "history_log_ok A \<Longrightarrow> history_stream_ok s x \<Longrightarrow> history_log_ok (A(s \<mapsto> x))"
  by (simp add: history_log_ok_def)

lemma history_append_ok:
  assumes "history_log_ok A" "request_ok rq"
  shows "history_log_ok (snd (history_append A clock s rq))"
proof -
  have "history_stream_ok s (x\<lparr>hs_history := (hs_history x)
      (p := hs_history x p @ [(rq, accept_time (hs_history x p) now)])\<rparr>)"
    if "A s = Some x" "decide (hs_history x p) rq = Accept" "validate_append_request_limits (hs_definition x) rq = Inr ()"
      "route_partition (hs_definition x) (rq_partition_key rq) = Inr p" for x p now
    using that assms history_ok_snoc [OF _ assms(2) that(2)]
    by (auto simp: history_log_ok_def history_stream_ok_def)
  with assms(1) show ?thesis
    by (auto simp: history_append_def intro!: history_log_ok_upd split: option.split sum.split publication.split)
qed

lemma history_declare_ok:
  assumes "history_log_ok A"
  shows "history_log_ok (snd (history_declare A sd))"
  using assms mk_stream_definition_ok
  by (auto simp: history_declare_def history_stream_ok_def history_ok_def ids_increase_def
      intro!: history_log_ok_upd split: sum.split option.split)

lemma validate_read_Inr:
  "validate_read sd k n = Inr (a, b) \<Longrightarrow> k = Inst a \<and> n = Inst b \<and> 0 \<le> a \<and> 0 < b"
  by (cases "(sd, k, n)" rule: validate_read.cases) (auto split: if_splits arg.splits)

lemma history_trim_ok:
  assumes "history_log_ok A"
  shows "history_log_ok (snd (history_trim A s part k))"
proof -
  have "history_stream_ok s (x\<lparr>hs_low := (hs_low x)
      (p := max (hs_low x p) (min b (2 * int (length (hs_history x p)))))\<rparr>)"
    if "A s = Some x" for x p b
    using that assms by (auto simp: history_log_ok_def history_stream_ok_def history_ok_def le_max_iff_disj)
  with assms show ?thesis
    by (auto simp: history_trim_def intro!: history_log_ok_upd split: option.split sum.split arg.split)
qed

section \<open>Start positions\<close>

lemma find_append: "find P (xs @ ys) = (case find P xs of Some x \<Rightarrow> Some x | None \<Rightarrow> find P ys)"
  by (induction xs) auto

lemma filter_low_split:
  assumes "sorted_wrt (\<lambda>a b. sr_offset a < sr_offset b) rs"
  shows "rs = filter (\<lambda>r. sr_offset r < low) rs @ filter (\<lambda>r. low \<le> sr_offset r) rs"
  using assms
proof (induction rs)
  case (Cons r rs)
  show ?case
  proof (cases "sr_offset r < low")
    case True
    then show ?thesis using Cons by simp
  next
    case False
    then have "filter (\<lambda>r. sr_offset r < low) rs = []" "filter (\<lambda>r. low \<le> sr_offset r) rs = rs"
      using Cons.prems by (auto simp: filter_empty_conv filter_id_conv)
    then show ?thesis using False by simp
  qed
qed simp

lemma find_last_sorted:
  fixes f :: "'a \<Rightarrow> int"
  assumes "sorted_wrt (\<lambda>a b. f a \<le> f b) xs" and "xs \<noteq> []"
  shows "find (\<lambda>x. t \<le> f x) xs \<noteq> None \<longleftrightarrow> t \<le> f (last xs)"
  using assms by (induction xs) (auto, (metis last_in_set order_trans)+)

text \<open>
  A start by time is the first record of the whole history at or after the target, and a gap when
  that record has been trimmed.
\<close>

lemma resolve_start_view:
  assumes h: "history_ok h low" and t: "start_target clock start = Inr t"
  shows "resolve_start_locked clock start s p (partition_view s p h low) =
    (case find (\<lambda>r. t \<le> sr_appended_at r) (history_records s p h) of
       None \<Rightarrow> Inr (2 * int (length h))
     | Some r \<Rightarrow>
         if sr_offset r < low
         then Inl (RetentionGapError s p None (Some t)
                (Some \<lparr>ab_earliest_offset = low, ab_end_offset = 2 * int (length h)\<rparr>) None)
         else Inr (sr_offset r))"
proof -
  let ?rs = "history_records s p h"
  let ?old = "filter (\<lambda>r. sr_offset r < low) ?rs" and ?kept = "filter (\<lambda>r. low \<le> sr_offset r) ?rs"
  have rs: "find (\<lambda>r. t \<le> sr_appended_at r) ?rs =
      (case find (\<lambda>r. t \<le> sr_appended_at r) ?old of Some r \<Rightarrow> Some r
       | None \<Rightarrow> find (\<lambda>r. t \<le> sr_appended_at r) ?kept)"
    using filter_low_split [OF history_records_increasing, of s p h low]
    by (metis (no_types, lifting) find_append)
  have times: "sorted_wrt (\<lambda>a b. sr_appended_at a \<le> sr_appended_at b) ?old"
    using h by (auto simp: history_ok_def intro!: sorted_wrt_filter history_records_times)
  have gap: "(case removed_through ?rs low of None \<Rightarrow> False | Some u \<Rightarrow> t \<le> u) \<longleftrightarrow>
      find (\<lambda>r. t \<le> sr_appended_at r) ?old \<noteq> None"
    using find_last_sorted [OF times, of t] by (auto simp: removed_through_last Let_def)
  have kept: "low \<le> sr_offset r" if "find (\<lambda>r. t \<le> sr_appended_at r) ?kept = Some r" for r
    using find_SomeD [OF that] by simp
  have old: "sr_offset r < low" if "find (\<lambda>r. t \<le> sr_appended_at r) ?old = Some r" for r
    using find_SomeD [OF that] by simp
  have view: "pt_removed_through (partition_view s p h low) = removed_through ?rs low"
    "pt_records (partition_view s p h low) = ?kept" "pt_next_offset (partition_view s p h low) = 2 * int (length h)"
    by (simp_all add: partition_view_def)
  have "resolve_start_locked clock start s p (partition_view s p h low) =
    (if (case removed_through ?rs low of None \<Rightarrow> False | Some u \<Rightarrow> t \<le> u)
     then Inl (retention_gap s p None (Some t) (partition_view s p h low) None)
     else case find (\<lambda>r. t \<le> sr_appended_at r) ?kept of
       Some r \<Rightarrow> Inr (sr_offset r) | None \<Rightarrow> Inr (2 * int (length h)))"
    using t by (cases start) (simp_all add: resolve_start_locked_def view start_target_def cong: option.case_cong)
  note res = this [unfolded gap]
  have err: "retention_gap s p None (Some t) (partition_view s p h low) None =
      RetentionGapError s p None (Some t)
        (Some \<lparr>ab_earliest_offset = low, ab_end_offset = 2 * int (length h)\<rparr>) None"
    by (simp add: retention_gap_def bounds_of_view [OF h])
  show ?thesis
  proof (cases "find (\<lambda>r. t \<le> sr_appended_at r) ?old")
    case old_none: None
    show ?thesis
    proof (cases "find (\<lambda>r. t \<le> sr_appended_at r) ?kept")
      case None
      with old_none show ?thesis by (simp add: rs res)
    next
      case (Some r)
      with old_none kept [OF Some] show ?thesis by (simp add: rs res)
    qed
  next
    case (Some r)
    then show ?thesis using old [OF Some] by (simp add: rs res err)
  qed
qed

end
