(* ===== verification/Streams_Leases.thy ===== *)
theory Streams_Leases
  imports Streams_Log
begin

text \<open>
  Ownership of partitions (\<open>inmemory.py\<close>, from \<open>acquire\<close> on): acquisition and transfer of leases,
  initialization of the resume cursor, delivery, checkpoint, stop, release and close. An awaited
  call of an external checkpoint store is represented by the outcome it gives.
\<close>

section \<open>Lease objects\<close>

definition mk_lease ::
  "subscription \<Rightarrow> checkpoint_key \<Rightarrow> ownership_token \<Rightarrow> nat option \<Rightarrow> lease" where
  "mk_lease sub key owner store = \<lparr>ls_subscription = sub, ls_key = key, ls_owner = owner,
     ls_store = store, ls_stopped = False, ls_released = False, ls_revocation_requested = False,
     ls_in_flight = None, ls_delivery_completed = True\<rparr>"

definition update_lease :: "log \<Rightarrow> nat \<Rightarrow> (lease \<Rightarrow> lease) \<Rightarrow> log" where
  [op_defs]: "update_lease l r f = l\<lparr>lg_heap := (lg_heap l)(r := f (lg_heap l r))\<rparr>"

definition complete_delivery :: "lease \<Rightarrow> lease" where
  [op_defs]: "complete_delivery ls = ls\<lparr>ls_in_flight := None, ls_delivery_completed := True\<rparr>"

definition require_active :: "lease \<Rightarrow> ps_error + unit" where
  [op_defs]: "require_active ls =
     (if ls_released ls then Inl LifecycleError
      else if ls_stopped ls then Inl LifecycleError else Inr ())"

section \<open>Strategy reservations\<close>

definition reserve_strategy ::
  "log \<Rightarrow> group_scope \<Rightarrow> strategy_binding \<Rightarrow> (ps_error + unit) \<times> log" where
  [op_defs]: "reserve_strategy l scope binding =
     (if (case lg_group_strategies l scope of None \<Rightarrow> False | Some current \<Rightarrow> current \<noteq> binding)
      then (Inl CheckpointStrategyError, l)
      else (case lg_pending_group_strategies l scope of
          None \<Rightarrow> (Inr (), l\<lparr>lg_pending_group_strategies :=
                     (lg_pending_group_strategies l)(scope \<mapsto> (binding, 1))\<rparr>)
        | Some (b, n) \<Rightarrow>
            if b \<noteq> binding then (Inl CheckpointStrategyError, l)
            else (Inr (), l\<lparr>lg_pending_group_strategies :=
                     (lg_pending_group_strategies l)(scope \<mapsto> (binding, n + 1))\<rparr>)))"

definition release_strategy_reservation :: "log \<Rightarrow> group_scope \<Rightarrow> strategy_binding \<Rightarrow> log" where
  [op_defs]: "release_strategy_reservation l scope binding =
     (case lg_pending_group_strategies l scope of
        None \<Rightarrow> l
      | Some (b, n) \<Rightarrow>
          if b \<noteq> binding then l
          else if n = 1
          then l\<lparr>lg_pending_group_strategies := (lg_pending_group_strategies l)(scope := None)\<rparr>
          else l\<lparr>lg_pending_group_strategies :=
                 (lg_pending_group_strategies l)(scope \<mapsto> (binding, n - 1))\<rparr>)"

section \<open>Acquisition\<close>

text \<open>What an acquisition keeps in its local variables after its first section.\<close>

record acquisition =
  aq_subscription :: subscription
  aq_key :: checkpoint_key
  aq_scope :: group_scope
  aq_binding :: strategy_binding
  aq_store :: "nat option"
  aq_current :: "nat option"
  aq_marker :: "nat option"
  aq_waits :: bool

fun strategy_binding_of ::
  "checkpoint_strategy arg \<Rightarrow> ps_error + nat option \<times> strategy_binding" where
  "strategy_binding_of Foreign = Inl CheckpointStrategyError"
| "strategy_binding_of (Inst BROKER_MANAGED) =
     Inr (None, \<lparr>sb_mode = ''broker_managed'', sb_identity = None, sb_store = None\<rparr>)"
| "strategy_binding_of (Inst (External ident s)) =
     Inr (Some s, \<lparr>sb_mode = ''external'', sb_identity = Some ident, sb_store = Some s\<rparr>)"

text \<open>The first section, after the reservation: claim the key or ask for its transfer.\<close>

definition acquire_claim ::
  "log \<Rightarrow> subscription \<Rightarrow> checkpoint_key \<Rightarrow> group_scope \<Rightarrow> strategy_binding \<Rightarrow> nat option \<Rightarrow> bool \<Rightarrow>
   (ps_error + acquisition) \<times> log" where
  [op_defs]: "acquire_claim l sub key scope binding store transfer =
     (case fmlookup (lg_leases l) key of
        Some cur \<Rightarrow>
          if \<not> transfer then (Inl OwnershipError, release_strategy_reservation l scope binding)
          else if lg_transfers l key \<noteq> None
          then (Inl OwnershipError, release_strategy_reservation l scope binding)
          else
            (let marker = lg_fresh_marker l;
                 l1 = update_lease
                        (l\<lparr>lg_fresh_marker := Suc marker, lg_transfers := (lg_transfers l)(key \<mapsto> marker)\<rparr>)
                        cur (\<lambda>ls. ls\<lparr>ls_revocation_requested := True\<rparr>)
             in (Inr \<lparr>aq_subscription = sub, aq_key = key, aq_scope = scope, aq_binding = binding,
                      aq_store = store, aq_current = Some cur, aq_marker = Some marker,
                      aq_waits = (ls_in_flight (lg_heap l cur) \<noteq> None)\<rparr>, l1))
      | None \<Rightarrow>
          if int (fcard (fmdom (lg_owners l))) \<ge> lg_max_active_leases l
          then (Inl ResourceLimitError, release_strategy_reservation l scope binding)
          else (Inr \<lparr>aq_subscription = sub, aq_key = key, aq_scope = scope, aq_binding = binding,
                     aq_store = store, aq_current = None, aq_marker = None, aq_waits = False\<rparr>, l))"

definition acquire_begin ::
  "log \<Rightarrow> subscription \<Rightarrow> int arg \<Rightarrow> checkpoint_strategy arg \<Rightarrow> bool \<Rightarrow>
   (ps_error + acquisition) \<times> log" where
  [op_defs]: "acquire_begin l sub part strategy transfer =
     (case strategy_binding_of strategy of Inl e \<Rightarrow> (Inl e, l) | Inr (store, binding) \<Rightarrow>
     (case require_open l of Inl e \<Rightarrow> (Inl e, l) | Inr _ \<Rightarrow>
     (case stream_of l (su_stream sub) of Inl e \<Rightarrow> (Inl e, l) | Inr ss \<Rightarrow>
     (case partition_of ss part of Inl e \<Rightarrow> (Inl e, l) | Inr _ \<Rightarrow>
     (case validate_subscription (ss_definition ss) sub of Inl e \<Rightarrow> (Inl e, l) | Inr _ \<Rightarrow>
      if \<not> supports log_capabilities (su_start sub) then (Inl ValidationError, l)
      else
        (let scope = (su_stream sub, su_group sub) in
         case reserve_strategy l scope binding of (Inl e, l1) \<Rightarrow> (Inl e, l1) | (Inr _, l1) \<Rightarrow>
           (case mk_checkpoint_key (Inst (su_stream sub)) (Inst (su_group sub)) part of
              Inl e \<Rightarrow> (Inl e, l1)
            | Inr key \<Rightarrow> acquire_claim l1 sub key scope binding store transfer)))))))"

text \<open>The wait before the second section ends once the previous delivery is completed.\<close>

definition acquire_ready :: "log \<Rightarrow> acquisition \<Rightarrow> bool" where
  [op_defs]: "acquire_ready l aq \<longleftrightarrow>
     (case aq_current aq of None \<Rightarrow> True
      | Some cur \<Rightarrow> aq_waits aq \<longrightarrow> ls_delivery_completed (lg_heap l cur))"

definition drop_owner :: "log \<Rightarrow> checkpoint_key \<Rightarrow> log" where
  [op_defs]: "drop_owner l key =
     l\<lparr>lg_leases := fmdrop key (lg_leases l), lg_owners := fmdrop key (lg_owners l)\<rparr>"

definition acquire_supersede :: "log \<Rightarrow> acquisition \<Rightarrow> (ps_error + unit) \<times> log" where
  [op_defs]: "acquire_supersede l aq =
     (let key = aq_key aq in
      case aq_marker aq of
        Some marker \<Rightarrow>
          if lg_transfers l key \<noteq> Some marker then (Inl OwnershipError, l)
          else if fmlookup (lg_leases l) key = aq_current aq
          then (case aq_current aq of
                  None \<Rightarrow> (Inl AssertionError, l)
                | Some cur \<Rightarrow>
                    if ls_in_flight (lg_heap l cur) \<noteq> None then (Inl OwnershipError, l)
                    else (Inr (), (drop_owner l key)\<lparr>lg_transfers := (lg_transfers l)(key := None)\<rparr>))
          else (Inr (), l\<lparr>lg_transfers := (lg_transfers l)(key := None)\<rparr>)
      | None \<Rightarrow>
          if fmlookup (lg_leases l) key \<noteq> None then (Inl OwnershipError, l) else (Inr (), l))"

definition acquire_install :: "log \<Rightarrow> acquisition \<Rightarrow> (ps_error + nat) \<times> log" where
  [op_defs]: "acquire_install l aq =
     (let key = aq_key aq;
          generation = (case lg_generations l key of None \<Rightarrow> 0 | Some g \<Rightarrow> g) + 1
      in case mk_ownership_token (Inst (su_owner_id (aq_subscription aq))) (Inst generation) of
           Inl e \<Rightarrow> (Inl e, l)
         | Inr token \<Rightarrow>
             let r = lg_fresh l in
             (Inr r, l\<lparr>lg_fresh := Suc r,
                       lg_heap := (lg_heap l)(r := mk_lease (aq_subscription aq) key token (aq_store aq)),
                       lg_generations := (lg_generations l)(key \<mapsto> generation),
                       lg_owners := fmupd key token (lg_owners l),
                       lg_leases := fmupd key r (lg_leases l)\<rparr>))"

definition acquire_take :: "log \<Rightarrow> acquisition \<Rightarrow> (ps_error + nat) \<times> log" where
  [op_defs]: "acquire_take l aq =
     (case require_open l of Inl e \<Rightarrow> (Inl e, l) | Inr _ \<Rightarrow>
     (case acquire_supersede l aq of (Inl e, l1) \<Rightarrow> (Inl e, l1)
      | (Inr _, l1) \<Rightarrow> acquire_install l1 aq))"

definition cancel_acquire :: "log \<Rightarrow> acquisition \<Rightarrow> (ps_error + unit) \<times> log" where
  [op_defs]: "cancel_acquire l aq =
     (let key = aq_key aq in
      if aq_marker aq \<noteq> None \<and> lg_transfers l key = aq_marker aq
      then (let l1 = l\<lparr>lg_transfers := (lg_transfers l)(key := None)\<rparr> in
            if fmlookup (lg_leases l1) key = aq_current aq
            then (case aq_current aq of
                    None \<Rightarrow> (Inl AssertionError, l1)
                  | Some cur \<Rightarrow>
                      (Inr (), release_strategy_reservation
                         (update_lease l1 cur (\<lambda>ls. ls\<lparr>ls_revocation_requested := False\<rparr>))
                         (aq_scope aq) (aq_binding aq)))
            else (Inr (), release_strategy_reservation l1 (aq_scope aq) (aq_binding aq)))
      else (Inr (), release_strategy_reservation l (aq_scope aq) (aq_binding aq)))"

text \<open>The last section of a successful acquisition.\<close>

definition acquire_confirm :: "log \<Rightarrow> acquisition \<Rightarrow> log" where
  [op_defs]: "acquire_confirm l aq =
     release_strategy_reservation
       (l\<lparr>lg_group_strategies := (lg_group_strategies l)(aq_scope aq \<mapsto> aq_binding aq)\<rparr>)
       (aq_scope aq) (aq_binding aq)"

section \<open>Stop, release and close\<close>

definition lease_stop :: "log \<Rightarrow> nat \<Rightarrow> log" where
  [op_defs]: "lease_stop l r = update_lease l r (\<lambda>ls. complete_delivery (ls\<lparr>ls_stopped := True\<rparr>))"

definition log_release :: "log \<Rightarrow> nat \<Rightarrow> log" where
  [op_defs]: "log_release l r =
     (let l1 = update_lease l r (\<lambda>ls. complete_delivery (ls\<lparr>ls_released := True\<rparr>));
          key = ls_key (lg_heap l r)
      in if fmlookup (lg_leases l1) key = Some r then drop_owner l1 key else l1)"

definition lease_release :: "log \<Rightarrow> nat \<Rightarrow> log" where
  [op_defs]: "lease_release l r = (if ls_released (lg_heap l r) then l else log_release l r)"

text \<open>The section of \<open>_failed_initialization\<close> that follows \<open>lease.release()\<close>.\<close>

definition drop_reservation :: "log \<Rightarrow> acquisition \<Rightarrow> log" where
  [op_defs]: "drop_reservation l aq = release_strategy_reservation l (aq_scope aq) (aq_binding aq)"

definition log_close :: "log \<Rightarrow> log" where
  [op_defs]: "log_close l =
     l\<lparr>lg_closed := True, lg_quiescing := True,
       lg_heap := (\<lambda>r. if r |\<in>| fmran (lg_leases l)
                       then complete_delivery ((lg_heap l r)\<lparr>ls_released := True\<rparr>)
                       else lg_heap l r),
       lg_owners := fmempty, lg_leases := fmempty, lg_transfers := Map.empty\<rparr>"

section \<open>Initialization of the cursor\<close>

definition resolved_cursor ::
  "log \<Rightarrow> ps_error + datetime arg \<Rightarrow> nat \<Rightarrow> ps_error + resume_cursor" where
  [op_defs]: "resolved_cursor l clock r =
     (let ls = lg_heap l r; key = ls_key ls in
      case require_owner_locked l key (ls_owner ls) of Inl e \<Rightarrow> Inl e | Inr _ \<Rightarrow>
     (case stream_of l (ck_stream key) of Inl e \<Rightarrow> Inl e | Inr ss \<Rightarrow>
     (case partition_of ss (Inst (ck_partition key)) of Inl e \<Rightarrow> Inl e | Inr pt \<Rightarrow>
     (case resolve_start_locked clock (su_start (ls_subscription ls)) (ck_stream key)
             (ck_partition key) pt of
        Inl e \<Rightarrow> Inl e
      | Inr offset \<Rightarrow> cursor_initialized offset))))"

definition initialize_broker ::
  "log \<Rightarrow> ps_error + datetime arg \<Rightarrow> nat \<Rightarrow> (ps_error + unit) \<times> log" where
  [op_defs]: "initialize_broker l clock r =
     (let ls = lg_heap l r; key = ls_key ls in
      case require_owner_locked l key (ls_owner ls) of Inl e \<Rightarrow> (Inl e, l) | Inr _ \<Rightarrow>
      if lg_broker_cursors l key \<noteq> None then (Inr (), l)
      else (case resolved_cursor l clock r of Inl e \<Rightarrow> (Inl e, l)
            | Inr c \<Rightarrow> (Inr (), l\<lparr>lg_broker_cursors := (lg_broker_cursors l)(key \<mapsto> c)\<rparr>)))"

text \<open>The calls of the external store before and after the cursor is resolved.\<close>

definition initialize_store_load ::
  "ps_error + store_result \<Rightarrow> ps_error + store_result \<Rightarrow> ps_error + resume_cursor option" where
  [op_defs]: "initialize_store_load fence load =
     (case validate_checkpoint_store_call fence None ''none'' of Inl e \<Rightarrow> Inl e
      | Inr _ \<Rightarrow> validate_checkpoint_store_call load None ''optional_cursor'')"

definition initialize_store_create ::
  "ps_error + store_result \<Rightarrow> resume_cursor \<Rightarrow> ps_error + resume_cursor option" where
  [op_defs]: "initialize_store_create create cursor =
     validate_checkpoint_store_call create (Some cursor) ''cursor''"

section \<open>Delivery and checkpoint\<close>

definition stop_on_persistence_error :: "log \<Rightarrow> nat \<Rightarrow> ps_error \<Rightarrow> log" where
  [op_defs]: "stop_on_persistence_error l r e =
     (case e of CheckpointPersistenceError _ _ \<Rightarrow> lease_stop l r | _ \<Rightarrow> l)"

text \<open>\<open>_load_cursor\<close> of a broker-managed lease, one section.\<close>

definition load_cursor_broker :: "log \<Rightarrow> nat \<Rightarrow> ps_error + resume_cursor" where
  [op_defs]: "load_cursor_broker l r =
     (let ls = lg_heap l r in
      case require_owner_locked l (ls_key ls) (ls_owner ls) of Inl e \<Rightarrow> Inl e | Inr _ \<Rightarrow>
      (case lg_broker_cursors l (ls_key ls) of None \<Rightarrow> Inl CheckpointError | Some c \<Rightarrow> Inr c))"

text \<open>
  \<open>_load_cursor\<close> of an external lease up to the owner check: what the store gave, and the log
  stopped when that is a persistence failure.
\<close>

definition load_cursor_external ::
  "log \<Rightarrow> nat \<Rightarrow> ps_error + store_result \<Rightarrow> (ps_error + resume_cursor) \<times> log" where
  [op_defs]: "load_cursor_external l r load =
     (case validate_checkpoint_store_call load None ''optional_cursor'' of
        Inl e \<Rightarrow> (Inl e, stop_on_persistence_error l r e)
      | Inr None \<Rightarrow>
          (let e = CheckpointPersistenceError None AdapterContractError
           in (Inl e, stop_on_persistence_error l r e))
      | Inr (Some c) \<Rightarrow> (Inr c, l))"

definition cursor_admits :: "resume_cursor \<Rightarrow> stored_record \<Rightarrow> bool" where
  [op_defs]: "cursor_admits cursor r \<longleftrightarrow>
     (rc_kind cursor = INITIALIZED \<and> sr_offset r \<ge> rc_offset cursor) \<or>
     (rc_kind cursor = LAST_SUCCESSFUL \<and> sr_offset r > rc_offset cursor)"

definition next_locked :: "log \<Rightarrow> nat \<Rightarrow> resume_cursor \<Rightarrow> (ps_error + stored_record option) \<times> log" where
  [op_defs]: "next_locked l r cursor =
     (let ls = lg_heap l r; key = ls_key ls in
      case require_owner_locked l key (ls_owner ls) of Inl e \<Rightarrow> (Inl e, l) | Inr _ \<Rightarrow>
      if ls_revocation_requested ls then (Inl OwnershipError, l)
      else if ls_in_flight ls \<noteq> None then (Inl LifecycleError, l)
      else (case stream_of l (ck_stream key) of Inl e \<Rightarrow> (Inl e, l) | Inr ss \<Rightarrow>
     (case partition_of ss (Inst (ck_partition key)) of Inl e \<Rightarrow> (Inl e, l) | Inr pt \<Rightarrow>
     (case require_retained (ck_stream key) (ck_partition key) (rc_offset cursor) pt
             (Some (ck_group key)) of
        Inl e \<Rightarrow> (Inl e, l)
      | Inr _ \<Rightarrow>
          (case find (cursor_admits cursor) (pt_records pt) of
             None \<Rightarrow> (Inr None, l)
           | Some record \<Rightarrow>
               (Inr (Some record), update_lease l r
                  (\<lambda>ls. ls\<lparr>ls_in_flight := Some record, ls_delivery_completed := False\<rparr>)))))))"

text \<open>
  The section of \<open>checkpoint\<close> before \<open>_checkpoint\<close>. A delivered record is known by its value: two
  records of one partition differ in their offset.
\<close>

definition checkpoint_guard :: "log \<Rightarrow> nat \<Rightarrow> stored_record \<Rightarrow> ps_error + unit" where
  [op_defs]: "checkpoint_guard l r record =
     (let ls = lg_heap l r in
      case require_owner_locked l (ls_key ls) (ls_owner ls) of Inl e \<Rightarrow> Inl e | Inr _ \<Rightarrow>
      if ls_in_flight ls \<noteq> Some record then Inl CheckpointError else Inr ())"

definition checkpoint_broker ::
  "log \<Rightarrow> nat \<Rightarrow> stored_record \<Rightarrow> resume_cursor \<Rightarrow> (ps_error + unit) \<times> log" where
  [op_defs]: "checkpoint_broker l r record expected =
     (let ls = lg_heap l r; key = ls_key ls in
      case cursor_last_successful (sr_offset record) of Inl e \<Rightarrow> (Inl e, l) | Inr cursor \<Rightarrow>
     (case require_owner_locked l key (ls_owner ls) of Inl e \<Rightarrow> (Inl e, l) | Inr _ \<Rightarrow>
      if lg_broker_cursors l key \<noteq> Some expected then (Inl CheckpointError, l)
      else (case validate_advance expected cursor of Inl e \<Rightarrow> (Inl e, l) | Inr _ \<Rightarrow>
        (Inr (), update_lease (l\<lparr>lg_broker_cursors := (lg_broker_cursors l)(key \<mapsto> cursor)\<rparr>)
                   r complete_delivery))))"

definition checkpoint_saved ::
  "log \<Rightarrow> nat \<Rightarrow> resume_cursor \<Rightarrow> ps_error + store_result \<Rightarrow> (ps_error + unit) \<times> log" where
  [op_defs]: "checkpoint_saved l r cursor save =
     (case validate_checkpoint_store_call save (Some cursor) ''none'' of
        Inl e \<Rightarrow> (Inl e, stop_on_persistence_error l r e)
      | Inr _ \<Rightarrow> (Inr (), l))"

definition checkpoint_external_finish :: "log \<Rightarrow> nat \<Rightarrow> (ps_error + unit) \<times> log" where
  [op_defs]: "checkpoint_external_finish l r =
     (let ls = lg_heap l r in
      case require_owner_locked l (ls_key ls) (ls_owner ls) of Inl e \<Rightarrow> (Inl e, l)
      | Inr _ \<Rightarrow> (Inr (), update_lease l r complete_delivery))"

end
