(* ===== verification/Streams_Runs.thy ===== *)
theory Streams_Runs
  imports Streams_History Streams_Leases "HOL-Library.Multiset"
begin

text \<open>
  Concurrent use of the in-memory log. Tasks call the log in any order; a call that leaves the lock
  between two sections is kept in a multiset of running calls, at the section it reaches next, and
  any running call may take its next section, or be cancelled while it waits. Every lock section is a
  possible switch between tasks here; an event loop whose lock is never contended switches at fewer
  points, so its runs are among these. A step also drives the abstract log of \<open>Streams_History\<close>, the
  first component of the state.
\<close>

section \<open>Running calls\<close>

text \<open>
  \<open>Acquiring\<close> to \<open>InitReleased\<close> are the points of \<open>acquire\<close>, \<open>Loading\<close> to \<open>Delivering\<close> those of
  \<open>next_record\<close>, \<open>CkChecking\<close> to \<open>CkSaved\<close> those of \<open>checkpoint\<close>, and \<open>Releasing\<close> is \<open>release\<close>
  behind its guard. \<open>Abandoned\<close> is an acquisition that ended by a cancellation no handler covers.
\<close>

datatype call =
    Acquiring acquisition
  | AcquireFailed acquisition
  | Initializing acquisition nat
  | Resolving acquisition nat
  | Creating acquisition nat resume_cursor
  | Confirming acquisition nat
  | Initialized acquisition nat
  | InitFailed acquisition nat
  | InitReleased acquisition
  | Abandoned acquisition "nat option"
  | Loading nat
  | Loaded nat resume_cursor
  | Delivering nat resume_cursor
  | CkChecking nat stored_record
  | CkLoading nat stored_record
  | CkLoaded nat stored_record resume_cursor
  | CkReady nat stored_record resume_cursor
  | CkSaving nat stored_record resume_cursor
  | CkSaved nat
  | Releasing nat

text \<open>What the environment answers: the clock and the external checkpoint store.\<close>

record environment =
  ev_clock :: "ps_error + datetime arg"
  ev_fence :: "ps_error + store_result"
  ev_load :: "ps_error + store_result"
  ev_create :: "ps_error + store_result"
  ev_save :: "ps_error + store_result"

definition call_ready :: "log \<Rightarrow> call \<Rightarrow> bool" where
  "call_ready l c \<longleftrightarrow> (case c of Acquiring aq \<Rightarrow> acquire_ready l aq | Abandoned _ _ \<Rightarrow> False | _ \<Rightarrow> True)"

definition owner_check :: "log \<Rightarrow> nat \<Rightarrow> ps_error + unit" where
  "owner_check l r = require_owner_locked l (ls_key (lg_heap l r)) (ls_owner (lg_heap l r))"

definition advance_initializing :: "log \<Rightarrow> environment \<Rightarrow> acquisition \<Rightarrow> nat \<Rightarrow> log \<times> call option" where
  "advance_initializing l ev aq r =
     (if ls_store (lg_heap l r) = None
      then (case initialize_broker l (ev_clock ev) r of
              (Inl e, l') \<Rightarrow> (l', Some (InitFailed aq r))
            | (Inr _, l') \<Rightarrow> (l', Some (Initialized aq r)))
      else (l, Some (case initialize_store_load (ev_fence ev) (ev_load ev) of
                Inl e \<Rightarrow> InitFailed aq r
              | Inr None \<Rightarrow> Resolving aq r
              | Inr (Some c) \<Rightarrow> Confirming aq r)))"

definition advance_loading ::
  "log \<Rightarrow> environment \<Rightarrow> nat \<Rightarrow> (resume_cursor \<Rightarrow> call) \<Rightarrow> (resume_cursor \<Rightarrow> call) \<Rightarrow> log \<times> call option" where
  "advance_loading l ev r checked unchecked =
     (if ls_store (lg_heap l r) = None
      then (l, case load_cursor_broker l r of Inl e \<Rightarrow> None | Inr c \<Rightarrow> Some (checked c))
      else (case load_cursor_external l r (ev_load ev) of
              (Inl e, l') \<Rightarrow> (l', None)
            | (Inr c, l') \<Rightarrow> (l', Some (unchecked c))))"

fun call_advance :: "log \<Rightarrow> environment \<Rightarrow> call \<Rightarrow> log \<times> call option" where
  "call_advance l ev (Acquiring aq) =
     (case acquire_take l aq of (Inl e, l') \<Rightarrow> (l', Some (AcquireFailed aq))
      | (Inr r, l') \<Rightarrow> (l', Some (Initializing aq r)))"
| "call_advance l ev (AcquireFailed aq) = (snd (cancel_acquire l aq), None)"
| "call_advance l ev (Initializing aq r) = advance_initializing l ev aq r"
| "call_advance l ev (Resolving aq r) =
     (l, Some (case resolved_cursor l (ev_clock ev) r of Inl e \<Rightarrow> InitFailed aq r | Inr c \<Rightarrow> Creating aq r c))"
| "call_advance l ev (Creating aq r c) =
     (l, Some (case initialize_store_create (ev_create ev) c of Inl e \<Rightarrow> InitFailed aq r
               | Inr _ \<Rightarrow> Confirming aq r))"
| "call_advance l ev (Confirming aq r) =
     (l, Some (case owner_check l r of Inl e \<Rightarrow> InitFailed aq r | Inr _ \<Rightarrow> Initialized aq r))"
| "call_advance l ev (Initialized aq r) = (acquire_confirm l aq, None)"
| "call_advance l ev (InitFailed aq r) = (lease_release l r, Some (InitReleased aq))"
| "call_advance l ev (InitReleased aq) = (drop_reservation l aq, None)"
| "call_advance l ev (Abandoned aq ro) = (l, Some (Abandoned aq ro))"
| "call_advance l ev (Loading r) = advance_loading l ev r (Delivering r) (Loaded r)"
| "call_advance l ev (Loaded r c) =
     (l, case owner_check l r of Inl e \<Rightarrow> None | Inr _ \<Rightarrow> Some (Delivering r c))"
| "call_advance l ev (Delivering r c) = (snd (next_locked l r c), None)"
| "call_advance l ev (CkChecking r rec) =
     (l, case checkpoint_guard l r rec of Inl e \<Rightarrow> None | Inr _ \<Rightarrow> Some (CkLoading r rec))"
| "call_advance l ev (CkLoading r rec) = advance_loading l ev r (CkReady r rec) (CkLoaded r rec)"
| "call_advance l ev (CkLoaded r rec c) =
     (l, case owner_check l r of Inl e \<Rightarrow> None | Inr _ \<Rightarrow> Some (CkReady r rec c))"
| "call_advance l ev (CkReady r rec c) =
     (if ls_store (lg_heap l r) = None then (snd (checkpoint_broker l r rec c), None)
      else (l, case owner_check l r of Inl e \<Rightarrow> None | Inr _ \<Rightarrow> Some (CkSaving r rec c)))"
| "call_advance l ev (CkSaving r rec c) =
     (case checkpoint_saved l r \<lparr>rc_kind = LAST_SUCCESSFUL, rc_offset = sr_offset rec\<rparr> (ev_save ev) of
        (Inl e, l') \<Rightarrow> (l', None) | (Inr _, l') \<Rightarrow> (l', Some (CkSaved r)))"
| "call_advance l ev (CkSaved r) = (snd (checkpoint_external_finish l r), None)"
| "call_advance l ev (Releasing r) = (log_release l r, None)"

text \<open>
  Cancellation while a call waits. The handlers of \<open>acquire\<close> turn it into the clean-up sections;
  the wait for the last section is outside them. A further cancellation ends the clean-up itself.
\<close>

fun call_cancel :: "call \<Rightarrow> call option" where
  "call_cancel (Acquiring aq) = Some (AcquireFailed aq)"
| "call_cancel (AcquireFailed aq) = Some (Abandoned aq None)"
| "call_cancel (Initializing aq r) = Some (InitFailed aq r)"
| "call_cancel (Resolving aq r) = Some (InitFailed aq r)"
| "call_cancel (Creating aq r c) = Some (InitFailed aq r)"
| "call_cancel (Confirming aq r) = Some (InitFailed aq r)"
| "call_cancel (Initialized aq r) = Some (Abandoned aq (Some r))"
| "call_cancel (InitFailed aq r) = Some (Abandoned aq (Some r))"
| "call_cancel (InitReleased aq) = Some (Abandoned aq None)"
| "call_cancel (Abandoned aq ro) = Some (Abandoned aq ro)"
| "call_cancel _ = None"

fun add_call :: "call option \<Rightarrow> call multiset \<Rightarrow> call multiset" where
  "add_call None M = M"
| "add_call (Some c) M = add_mset c M"

section \<open>Steps\<close>

type_synonym psys = "history_log \<times> log \<times> call multiset"

text \<open>What the constructor of a subscription guarantees.\<close>

definition subscription_ok :: "subscription \<Rightarrow> bool" where
  [inv_defs]: "subscription_ok sub \<longleftrightarrow> su_stream sub \<noteq> [] \<and> su_group sub \<noteq> [] \<and> su_owner_id sub \<noteq> []"

lemma mk_subscription_ok:
  "mk_subscription s g w p = Inr sub \<Longrightarrow> subscription_ok sub"
  by (auto simp: mk_subscription_def subscription_ok_def split: sum.splits arg.splits dest!: text_guard_Inr)

inductive ps_step :: "psys \<Rightarrow> psys \<Rightarrow> bool" where
  start: "ps_step (A, l, M) (A, snd (log_start l), M)"
| quiesce: "ps_step (A, l, M) (A, snd (log_quiesce l), M)"
| declare_s: "ps_step (A, l, M)
    (if lg_closed l then A else snd (history_declare A sd), snd (declare_stream l sd), M)"
| append_s: "request_ok rq \<Longrightarrow> ps_step (A, l, M)
    (if lg_closed l then A else snd (history_append A clock s rq), snd (log_append l clock s rq), M)"
| trim: "ps_step (A, l, M)
    (if lg_closed l then A else snd (history_trim A s part k), snd (log_trim l s part k), M)"
| close: "ps_step (A, l, M) (A, log_close l, M)"
| acquire: "subscription_ok sub \<Longrightarrow> acquire_begin l sub part strategy transfer = (Inr aq, l') \<Longrightarrow>
    ps_step (A, l, M) (A, l', add_mset (Acquiring aq) M)"
| refuse: "subscription_ok sub \<Longrightarrow> acquire_begin l sub part strategy transfer = (Inl e, l') \<Longrightarrow>
    ps_step (A, l, M) (A, l', M)"
| next_record: "r < lg_fresh l \<Longrightarrow> require_active (lg_heap l r) = Inr () \<Longrightarrow>
    ps_step (A, l, M) (A, l, add_mset (Loading r) M)"
| checkpoint: "r < lg_fresh l \<Longrightarrow> require_active (lg_heap l r) = Inr () \<Longrightarrow>
    ps_step (A, l, M) (A, l, add_mset (CkChecking r rec) M)"
| stop: "r < lg_fresh l \<Longrightarrow> ps_step (A, l, M) (A, lease_stop l r, M)"
| release: "r < lg_fresh l \<Longrightarrow> \<not> ls_released (lg_heap l r) \<Longrightarrow>
    ps_step (A, l, M) (A, l, add_mset (Releasing r) M)"
| advance: "call_ready l c \<Longrightarrow> call_advance l ev c = (l', c') \<Longrightarrow>
    ps_step (A, l, add_mset c M) (A, l', add_call c' M)"
| cancel: "ps_step (A, l, add_mset c M) (A, l, add_call (call_cancel c) M)"

inductive ps_reachable :: "psys \<Rightarrow> bool" where
  init: "new_log n heap = Inr l \<Longrightarrow> ps_reachable (Map.empty, l, {#})"
| step: "ps_reachable s \<Longrightarrow> ps_step s s' \<Longrightarrow> ps_reachable s'"

inductive_cases ps_stepE: "ps_step s s'"

section \<open>Frames\<close>

lemma update_lease_simps [simp]:
  "lg_streams (update_lease l r f) = lg_streams l"
  "lg_owners (update_lease l r f) = lg_owners l"
  "lg_leases (update_lease l r f) = lg_leases l"
  "lg_transfers (update_lease l r f) = lg_transfers l"
  "lg_generations (update_lease l r f) = lg_generations l"
  "lg_broker_cursors (update_lease l r f) = lg_broker_cursors l"
  "lg_group_strategies (update_lease l r f) = lg_group_strategies l"
  "lg_pending_group_strategies (update_lease l r f) = lg_pending_group_strategies l"
  "lg_closed (update_lease l r f) = lg_closed l"
  "lg_fresh (update_lease l r f) = lg_fresh l"
  "lg_fresh_marker (update_lease l r f) = lg_fresh_marker l"
  "lg_max_active_leases (update_lease l r f) = lg_max_active_leases l"
  "lg_heap (update_lease l r f) r' = (if r' = r then f (lg_heap l r) else lg_heap l r')"
  by (simp_all add: update_lease_def)

lemma release_strategy_reservation_simps [simp]:
  "lg_streams (release_strategy_reservation l sc b) = lg_streams l"
  "lg_owners (release_strategy_reservation l sc b) = lg_owners l"
  "lg_leases (release_strategy_reservation l sc b) = lg_leases l"
  "lg_transfers (release_strategy_reservation l sc b) = lg_transfers l"
  "lg_generations (release_strategy_reservation l sc b) = lg_generations l"
  "lg_broker_cursors (release_strategy_reservation l sc b) = lg_broker_cursors l"
  "lg_group_strategies (release_strategy_reservation l sc b) = lg_group_strategies l"
  "lg_closed (release_strategy_reservation l sc b) = lg_closed l"
  "lg_fresh (release_strategy_reservation l sc b) = lg_fresh l"
  "lg_fresh_marker (release_strategy_reservation l sc b) = lg_fresh_marker l"
  "lg_heap (release_strategy_reservation l sc b) = lg_heap l"
  by (auto simp: release_strategy_reservation_def split: option.splits)

lemma reserve_strategy_simps:
  assumes "reserve_strategy l sc b = (x, l')"
  shows "lg_streams l' = lg_streams l" "lg_owners l' = lg_owners l" "lg_leases l' = lg_leases l"
    "lg_transfers l' = lg_transfers l" "lg_generations l' = lg_generations l"
    "lg_broker_cursors l' = lg_broker_cursors l" "lg_group_strategies l' = lg_group_strategies l"
    "lg_closed l' = lg_closed l" "lg_fresh l' = lg_fresh l" "lg_fresh_marker l' = lg_fresh_marker l"
    "lg_heap l' = lg_heap l"
  using assms by (auto simp: reserve_strategy_def split: option.splits if_splits)

lemma drop_owner_simps [simp]:
  "lg_streams (drop_owner l k) = lg_streams l"
  "lg_owners (drop_owner l k) = fmdrop k (lg_owners l)"
  "lg_leases (drop_owner l k) = fmdrop k (lg_leases l)"
  "lg_transfers (drop_owner l k) = lg_transfers l"
  "lg_generations (drop_owner l k) = lg_generations l"
  "lg_broker_cursors (drop_owner l k) = lg_broker_cursors l"
  "lg_group_strategies (drop_owner l k) = lg_group_strategies l"
  "lg_pending_group_strategies (drop_owner l k) = lg_pending_group_strategies l"
  "lg_closed (drop_owner l k) = lg_closed l"
  "lg_fresh (drop_owner l k) = lg_fresh l"
  "lg_fresh_marker (drop_owner l k) = lg_fresh_marker l"
  "lg_heap (drop_owner l k) = lg_heap l"
  by (simp_all add: drop_owner_def)

text \<open>No operation on leases touches the stored records.\<close>

lemma acquire_begin_streams:
  "acquire_begin l sub part st tr = (x, l') \<Longrightarrow> lg_streams l' = lg_streams l \<and> lg_closed l' = lg_closed l"
  by (auto simp: acquire_begin_def acquire_claim_def Let_def
      split: sum.splits option.splits if_splits prod.splits dest: reserve_strategy_simps)

lemmas lease_op_defs = lease_stop_def log_release_def lease_release_def drop_reservation_def
  acquire_confirm_def stop_on_persistence_error_def

lemma stop_on_persistence_error_cases:
  "stop_on_persistence_error l r e = lease_stop l r \<or> stop_on_persistence_error l r e = l"
  by (simp add: stop_on_persistence_error_def split: ps_error.split)

lemma lease_ops_streams [simp]:
  "lg_streams (lease_stop l r) = lg_streams l"
  "lg_streams (log_release l r) = lg_streams l"
  "lg_streams (lease_release l r) = lg_streams l"
  "lg_streams (drop_reservation l aq) = lg_streams l"
  "lg_streams (acquire_confirm l aq) = lg_streams l"
  "lg_streams (stop_on_persistence_error l r e) = lg_streams l"
  "lg_closed (lease_stop l r) = lg_closed l"
  "lg_closed (log_release l r) = lg_closed l"
  "lg_closed (lease_release l r) = lg_closed l"
  "lg_closed (drop_reservation l aq) = lg_closed l"
  "lg_closed (acquire_confirm l aq) = lg_closed l"
  "lg_closed (stop_on_persistence_error l r e) = lg_closed l"
  by (simp_all add: lease_op_defs Let_def split: ps_error.split)

lemma acquire_take_streams:
  "acquire_take l aq = (x, l') \<Longrightarrow> lg_streams l' = lg_streams l \<and> lg_closed l' = lg_closed l"
  by (auto simp: acquire_take_def acquire_supersede_def acquire_install_def Let_def
      split: sum.splits option.splits if_splits)

lemma cancel_acquire_streams:
  "lg_streams (snd (cancel_acquire l aq)) = lg_streams l \<and> lg_closed (snd (cancel_acquire l aq)) = lg_closed l"
  by (auto simp: cancel_acquire_def Let_def split: option.split)

lemma initialize_broker_streams:
  "initialize_broker l clock r = (x, l') \<Longrightarrow> lg_streams l' = lg_streams l \<and> lg_closed l' = lg_closed l"
  by (auto simp: initialize_broker_def Let_def split: sum.splits if_splits)

lemma next_locked_streams:
  "lg_streams (snd (next_locked l r c)) = lg_streams l \<and> lg_closed (snd (next_locked l r c)) = lg_closed l"
  by (auto simp: next_locked_def Let_def split: sum.split option.split)

lemma checkpoint_streams:
  "lg_streams (snd (checkpoint_broker l r rec c)) = lg_streams l"
  "lg_closed (snd (checkpoint_broker l r rec c)) = lg_closed l"
  "lg_streams (snd (checkpoint_external_finish l r)) = lg_streams l"
  "lg_closed (snd (checkpoint_external_finish l r)) = lg_closed l"
  by (auto simp: checkpoint_broker_def checkpoint_external_finish_def Let_def split: sum.split)

lemma call_advance_streams:
  assumes "call_advance l ev c = (l', c')"
  shows "lg_streams l' = lg_streams l \<and> lg_closed l' = lg_closed l"
  using assms cancel_acquire_streams next_locked_streams
  by (cases c)
     (auto simp: advance_initializing_def advance_loading_def load_cursor_external_def checkpoint_saved_def
        checkpoint_streams Let_def
        split: sum.splits prod.splits option.splits if_splits
        dest: acquire_take_streams initialize_broker_streams)

section \<open>Stored records are the accepted history\<close>

lemma log_append_closed: "lg_closed l \<Longrightarrow> snd (log_append l clock s rq) = l"
  by (simp add: log_append_def require_open_def)

lemma log_trim_closed: "lg_closed l \<Longrightarrow> snd (log_trim l s part k) = l"
  by (simp add: log_trim_def require_open_def)

lemma declare_stream_closed: "lg_closed l \<Longrightarrow> snd (declare_stream l sd) = l"
  by (simp add: declare_stream_def require_open_def split: sum.split)

definition stored_ok :: "psys \<Rightarrow> bool" where
  [inv_defs]: "stored_ok s \<longleftrightarrow> (case s of (A, l, M) \<Rightarrow> lg_streams l = streams_view A \<and> history_log_ok A)"

lemma stored_ok_step:
  assumes "stored_ok s" "ps_step s s'"
  shows "stored_ok s'"
  using assms(2,1)
proof cases
  case (declare_s A l M sd)
  then show ?thesis
    using assms(1) history_declare_ok [of A sd] declare_stream_view [of l A sd]
    by (cases "lg_closed l") (auto simp: stored_ok_def declare_stream_closed)
next
  case (append_s rq A l M clock st)
  then show ?thesis
    using assms(1) history_append_ok [of A rq clock st] log_append_view [of l A rq clock st]
    by (cases "lg_closed l") (auto simp: stored_ok_def log_append_closed)
next
  case (trim A l M st part k)
  then show ?thesis
    using assms(1) history_trim_ok [of A st part k] log_trim_view [of l A st part k]
    by (cases "lg_closed l") (auto simp: stored_ok_def log_trim_closed)
next
  case (advance l c ev l' c' A M)
  then show ?thesis using assms(1) call_advance_streams [of l ev c l' c'] by (simp add: stored_ok_def)
qed (use assms(1) in \<open>auto simp: stored_ok_def log_start_def log_quiesce_def log_close_def
      split: sum.splits dest: acquire_begin_streams\<close>)

lemma stored_ok_reachable: "ps_reachable s \<Longrightarrow> stored_ok s"
proof (induction rule: ps_reachable.induct)
  case (init n heap l)
  then show ?case
    by (auto simp: stored_ok_def new_log_def streams_view_def history_log_ok_def split: sum.splits)
next
  case (step s s')
  then show ?case using stored_ok_step by blast
qed

end
