(* ===== verification/Streams_Ownership.thy ===== *)
theory Streams_Ownership
  imports Streams_Runs
begin

text \<open>
  Fencing of partition owners. Every lease carries a generation that no other lease of its key has;
  the tables of owners and of leases agree; a lease that has lost its partition never owns it again.
  The invariants are kept by every interleaving of \<open>Streams_Runs\<close>.
\<close>

section \<open>Invariants\<close>

definition generation_of :: "log \<Rightarrow> nat \<Rightarrow> int" where
  "generation_of l r = ot_generation (ls_owner (lg_heap l r))"

definition lease_ok :: "log \<Rightarrow> nat \<Rightarrow> bool" where
  [inv_defs]: "lease_ok l r \<longleftrightarrow>
     (\<exists>g. lg_generations l (ls_key (lg_heap l r)) = Some g \<and> generation_of l r \<le> g) \<and>
     0 < generation_of l r \<and>
     (ls_in_flight (lg_heap l r) = None \<longleftrightarrow> ls_delivery_completed (lg_heap l r)) \<and>
     (ls_released (lg_heap l r) \<longrightarrow> ls_in_flight (lg_heap l r) = None)"

definition owners_ok :: "log \<Rightarrow> bool" where
  [inv_defs]: "owners_ok l \<longleftrightarrow>
     fmdom (lg_owners l) = fmdom (lg_leases l) \<and>
     (\<forall>k r. fmlookup (lg_leases l) k = Some r \<longrightarrow> r < lg_fresh l \<and> ls_key (lg_heap l r) = k \<and>
        fmlookup (lg_owners l) k = Some (ls_owner (lg_heap l r)) \<and> \<not> ls_released (lg_heap l r)) \<and>
     (\<forall>r < lg_fresh l. lease_ok l r) \<and>
     (\<forall>k g. lg_generations l k = Some g \<longrightarrow> 0 < g) \<and>
     (\<forall>r < lg_fresh l. \<forall>r' < lg_fresh l.
        ls_key (lg_heap l r) = ls_key (lg_heap l r') \<and> generation_of l r = generation_of l r' \<longrightarrow> r = r')"

text \<open>The lease references a running call holds.\<close>

fun call_acquisition :: "call \<Rightarrow> acquisition option" where
  "call_acquisition (Acquiring aq) = Some aq"
| "call_acquisition (AcquireFailed aq) = Some aq"
| "call_acquisition (Initializing aq r) = Some aq"
| "call_acquisition (Resolving aq r) = Some aq"
| "call_acquisition (Creating aq r c) = Some aq"
| "call_acquisition (Confirming aq r) = Some aq"
| "call_acquisition (Initialized aq r) = Some aq"
| "call_acquisition (InitFailed aq r) = Some aq"
| "call_acquisition (InitReleased aq) = Some aq"
| "call_acquisition (Abandoned aq ro) = Some aq"
| "call_acquisition _ = None"

fun call_lease :: "call \<Rightarrow> nat option" where
  "call_lease (Acquiring aq) = None"
| "call_lease (AcquireFailed aq) = None"
| "call_lease (Initializing aq r) = Some r"
| "call_lease (Resolving aq r) = Some r"
| "call_lease (Creating aq r c) = Some r"
| "call_lease (Confirming aq r) = Some r"
| "call_lease (Initialized aq r) = Some r"
| "call_lease (InitFailed aq r) = Some r"
| "call_lease (InitReleased aq) = None"
| "call_lease (Abandoned aq ro) = ro"
| "call_lease (Loading r) = Some r"
| "call_lease (Loaded r c) = Some r"
| "call_lease (Delivering r c) = Some r"
| "call_lease (CkChecking r rec) = Some r"
| "call_lease (CkLoading r rec) = Some r"
| "call_lease (CkLoaded r rec c) = Some r"
| "call_lease (CkReady r rec c) = Some r"
| "call_lease (CkSaving r rec c) = Some r"
| "call_lease (CkSaved r) = Some r"
| "call_lease (Releasing r) = Some r"

definition acquisition_ok :: "log \<Rightarrow> acquisition \<Rightarrow> bool" where
  [inv_defs]: "acquisition_ok l aq \<longleftrightarrow>
     subscription_ok (aq_subscription aq) \<and>
     aq_scope aq = (ck_stream (aq_key aq), ck_group (aq_key aq)) \<and>
     sb_store (aq_binding aq) = aq_store aq \<and>
     (aq_marker aq = None \<longleftrightarrow> aq_current aq = None) \<and>
     (\<forall>m. aq_marker aq = Some m \<longrightarrow> m < lg_fresh_marker l) \<and>
     (\<forall>cur. aq_current aq = Some cur \<longrightarrow> cur < lg_fresh l \<and> ls_key (lg_heap l cur) = aq_key aq)"

definition call_ok :: "log \<Rightarrow> call \<Rightarrow> bool" where
  [inv_defs]: "call_ok l c \<longleftrightarrow>
     (\<forall>r. call_lease c = Some r \<longrightarrow> r < lg_fresh l) \<and>
     (\<forall>aq. call_acquisition c = Some aq \<longrightarrow> acquisition_ok l aq \<and>
        (\<forall>r. call_lease c = Some r \<longrightarrow> ls_key (lg_heap l r) = aq_key aq \<and> ls_store (lg_heap l r) = aq_store aq))"

section \<open>Growth of the lease objects\<close>

text \<open>
  A step never changes the key, the owner or the store of a lease, never takes a reference back and
  never lowers a generation.
\<close>

definition heap_grows :: "log \<Rightarrow> log \<Rightarrow> bool" where
  "heap_grows l l' \<longleftrightarrow> lg_fresh l \<le> lg_fresh l' \<and> lg_fresh_marker l \<le> lg_fresh_marker l' \<and>
     (\<forall>r < lg_fresh l. ls_key (lg_heap l' r) = ls_key (lg_heap l r) \<and>
        ls_owner (lg_heap l' r) = ls_owner (lg_heap l r) \<and> ls_store (lg_heap l' r) = ls_store (lg_heap l r) \<and>
        (ls_released (lg_heap l r) \<longrightarrow> ls_released (lg_heap l' r)))"

lemma heap_grows_refl [simp]: "heap_grows l l"
  by (simp add: heap_grows_def)

lemma heap_grows_trans: "heap_grows a b \<Longrightarrow> heap_grows b c \<Longrightarrow> heap_grows a c"
  by (auto simp: heap_grows_def)

lemma heap_grows_eq:
  "lg_heap l' = lg_heap l \<Longrightarrow> lg_fresh l' = lg_fresh l \<Longrightarrow> lg_fresh_marker l' = lg_fresh_marker l \<Longrightarrow> heap_grows l l'"
  by (simp add: heap_grows_def)

lemma call_ok_grows: "call_ok l c \<Longrightarrow> heap_grows l l' \<Longrightarrow> call_ok l' c"
  by (auto simp: call_ok_def acquisition_ok_def heap_grows_def)

lemma acquisition_ok_grows: "acquisition_ok l aq \<Longrightarrow> heap_grows l l' \<Longrightarrow> acquisition_ok l' aq"
  by (auto simp: acquisition_ok_def heap_grows_def)

lemma acquire_begin_grows:
  "acquire_begin l sub part st tr = (x, l') \<Longrightarrow> heap_grows l l'"
  by (auto simp: acquire_begin_def acquire_claim_def Let_def heap_grows_def
      split: sum.splits option.splits if_splits prod.splits dest: reserve_strategy_simps)

lemma lease_ops_grow [simp]:
  "heap_grows l (lease_stop l r)" "heap_grows l (log_release l r)" "heap_grows l (lease_release l r)"
  "heap_grows l (drop_reservation l aq)" "heap_grows l (acquire_confirm l aq)"
  "heap_grows l (stop_on_persistence_error l r e)" "heap_grows l (log_close l)"
  by (auto simp: lease_op_defs heap_grows_def complete_delivery_def log_close_def Let_def split: ps_error.split)

lemma acquire_take_grows: "acquire_take l aq = (x, l') \<Longrightarrow> heap_grows l l'"
  by (auto simp: acquire_take_def acquire_supersede_def acquire_install_def Let_def heap_grows_def
      split: sum.splits option.splits if_splits)

lemma cancel_acquire_grows: "heap_grows l (snd (cancel_acquire l aq))"
  by (auto simp: cancel_acquire_def Let_def heap_grows_def split: option.split)

lemma next_locked_grows: "heap_grows l (snd (next_locked l r c))"
  by (auto simp: next_locked_def Let_def heap_grows_def split: sum.split option.split)

lemma checkpoint_grows:
  "heap_grows l (snd (checkpoint_broker l r rec c))" "heap_grows l (snd (checkpoint_external_finish l r))"
  by (auto simp: checkpoint_broker_def checkpoint_external_finish_def complete_delivery_def Let_def heap_grows_def
      split: sum.split)

lemma initialize_broker_grows: "initialize_broker l clock r = (x, l') \<Longrightarrow> heap_grows l l'"
  by (auto simp: initialize_broker_def Let_def heap_grows_def split: sum.splits if_splits)

lemma call_advance_grows:
  assumes "call_advance l ev c = (l', c')"
  shows "heap_grows l l'"
  using assms cancel_acquire_grows next_locked_grows checkpoint_grows
  by (cases c)
     (auto simp: advance_initializing_def advance_loading_def load_cursor_external_def checkpoint_saved_def
        Let_def
        split: sum.splits prod.splits option.splits if_splits
        dest: acquire_take_grows initialize_broker_grows)

text \<open>The operations on records change nothing else.\<close>

lemma log_append_frame: "\<exists>S. snd (log_append l clock s rq) = l\<lparr>lg_streams := S\<rparr>"
proof -
  have same: "\<exists>S. l = l\<lparr>lg_streams := S\<rparr>" by (rule exI [of _ "lg_streams l"]) simp
  show ?thesis
    using same
    by (auto simp: log_append_def append_record_def set_partition_def Let_def
        split: sum.split option.split)
qed

lemma log_trim_frame: "\<exists>S. snd (log_trim l s part k) = l\<lparr>lg_streams := S\<rparr>"
proof -
  have same: "\<exists>S. l = l\<lparr>lg_streams := S\<rparr>" by (rule exI [of _ "lg_streams l"]) simp
  show ?thesis
    using same by (auto simp: log_trim_def set_partition_def split: sum.split prod.split)
qed

lemma declare_stream_frame: "\<exists>S. snd (declare_stream l sd) = l\<lparr>lg_streams := S\<rparr>"
proof -
  have same: "\<exists>S. l = l\<lparr>lg_streams := S\<rparr>" by (rule exI [of _ "lg_streams l"]) simp
  show ?thesis
    using same by (auto simp: declare_stream_def split: sum.split option.split)
qed

text \<open>A step is one of: a change outside the lease tables, a call that starts, or a call that moves.\<close>

lemma ps_step_lease_cases [consumes 1, case_names other close claim stop start advance cancel]:
  assumes "ps_step (A, l, M) (A', l', M')"
  obtains
    (other) S b q where "l' = l\<lparr>lg_streams := S, lg_started := b, lg_quiescing := q\<rparr>" "M' = M"
  | (close) "l' = log_close l" "M' = M"
  | (claim) sub part st tr x where "subscription_ok sub" "acquire_begin l sub part st tr = (x, l')"
      "M' = (case x of Inl e \<Rightarrow> M | Inr aq \<Rightarrow> add_mset (Acquiring aq) M)"
  | (stop) r where "r < lg_fresh l" "l' = lease_stop l r" "M' = M"
  | (start) r c where "r < lg_fresh l" "l' = l" "M' = add_mset c M" "call_lease c = Some r"
      "call_acquisition c = None" "c = Loading r \<or> (\<exists>rec. c = CkChecking r rec) \<or> c = Releasing r"
  | (advance) N c ev c' where "M = add_mset c N" "call_ready l c" "call_advance l ev c = (l', c')" "M' = add_call c' N"
  | (cancel) N c where "M = add_mset c N" "l' = l" "M' = add_call (call_cancel c) N"
  using assms
proof cases
  case start
  then show ?thesis
    by (intro other [of "if lg_closed l then lg_quiescing l else False"
          "if lg_closed l then lg_started l else True" "lg_streams l"])
       (auto simp: log_start_def require_open_def)
next
  case quiesce
  then show ?thesis
    by (intro other [of True "lg_started l" "lg_streams l"]) (auto simp: log_quiesce_def)
next
  case (declare_s sd)
  then obtain S where "l' = l\<lparr>lg_streams := S\<rparr>" using declare_stream_frame by blast
  then show ?thesis using declare_s by (intro other [of "lg_quiescing l" "lg_started l" S]) auto
next
  case (append_s rq clock st)
  then obtain S where "l' = l\<lparr>lg_streams := S\<rparr>" using log_append_frame by blast
  then show ?thesis using append_s by (intro other [of "lg_quiescing l" "lg_started l" S]) auto
next
  case (trim st part k)
  then obtain S where "l' = l\<lparr>lg_streams := S\<rparr>" using log_trim_frame by blast
  then show ?thesis using trim by (intro other [of "lg_quiescing l" "lg_started l" S]) auto
qed (auto intro: that)

section \<open>The tables of owners and leases\<close>

lemmas owner_inv_defs = owners_ok_def lease_ok_def generation_of_def

lemma owners_ok_cong:
  assumes "owners_ok l" "lg_owners l' = lg_owners l" "lg_leases l' = lg_leases l" "lg_heap l' = lg_heap l"
    "lg_fresh l' = lg_fresh l" "lg_generations l' = lg_generations l"
  shows "owners_ok l'"
  using assms by (simp add: owner_inv_defs)

lemma owners_ok_frame [simp]:
  "owners_ok (l\<lparr>lg_transfers := T\<rparr>) = owners_ok l"
  "owners_ok (l\<lparr>lg_fresh_marker := m, lg_transfers := T\<rparr>) = owners_ok l"
  "owners_ok (l\<lparr>lg_broker_cursors := C\<rparr>) = owners_ok l"
  "owners_ok (l\<lparr>lg_group_strategies := G\<rparr>) = owners_ok l"
  "owners_ok (l\<lparr>lg_streams := S, lg_started := a, lg_quiescing := b\<rparr>) = owners_ok l"
  by (simp_all add: owner_inv_defs)

lemma owners_okD:
  assumes "owners_ok l" "fmlookup (lg_leases l) k = Some r"
  shows "r < lg_fresh l" "ls_key (lg_heap l r) = k"
    "fmlookup (lg_owners l) k = Some (ls_owner (lg_heap l r))" "\<not> ls_released (lg_heap l r)"
  using assms by (simp_all add: owners_ok_def)

lemma owners_ok_lease: "owners_ok l \<Longrightarrow> r < lg_fresh l \<Longrightarrow> lease_ok l r"
  by (simp add: owners_ok_def)

lemma owners_ok_unique:
  "owners_ok l \<Longrightarrow> r < lg_fresh l \<Longrightarrow> r' < lg_fresh l \<Longrightarrow> ls_key (lg_heap l r) = ls_key (lg_heap l r') \<Longrightarrow>
   generation_of l r = generation_of l r' \<Longrightarrow> r = r'"
  by (simp add: owners_ok_def)

lemma owner_lease:
  assumes ok: "owners_ok l" and r: "r < lg_fresh l"
    and own: "fmlookup (lg_owners l) (ls_key (lg_heap l r)) = Some (ls_owner (lg_heap l r))"
  shows "fmlookup (lg_leases l) (ls_key (lg_heap l r)) = Some r"
proof -
  obtain r' where r': "fmlookup (lg_leases l) (ls_key (lg_heap l r)) = Some r'"
    using ok own by (metis fmdom_notD fmdom_notI not_None_eq owners_ok_def)
  then have *: "r' < lg_fresh l" "ls_key (lg_heap l r') = ls_key (lg_heap l r)"
    "ls_owner (lg_heap l r') = ls_owner (lg_heap l r)"
    using owners_okD [OF ok r'] own by auto
  then have "r' = r" using owners_ok_unique [OF ok _ r] by (simp add: generation_of_def)
  with r' show ?thesis by simp
qed

lemma owner_check_iff:
  "require_owner_locked l k w = Inr u \<longleftrightarrow> \<not> lg_closed l \<and> fmlookup (lg_owners l) k = Some w"
  by (auto simp: require_owner_locked_def require_open_def)

lemma owner_not_released:
  assumes "owners_ok l" "r < lg_fresh l"
    "fmlookup (lg_owners l) (ls_key (lg_heap l r)) = Some (ls_owner (lg_heap l r))"
  shows "\<not> ls_released (lg_heap l r)"
  using owners_okD(4) [OF assms(1) owner_lease [OF assms]] .

lemma owners_ok_flags:
  assumes "owners_ok l"
    and "ls_key (f (lg_heap l r)) = ls_key (lg_heap l r)" "ls_owner (f (lg_heap l r)) = ls_owner (lg_heap l r)"
    and rel: "\<And>k. fmlookup (lg_leases l) k = Some r \<Longrightarrow> \<not> ls_released (f (lg_heap l r))"
    and "r < lg_fresh l \<Longrightarrow> (ls_in_flight (f (lg_heap l r)) = None) = ls_delivery_completed (f (lg_heap l r))"
    "r < lg_fresh l \<Longrightarrow> ls_released (f (lg_heap l r)) \<Longrightarrow> ls_in_flight (f (lg_heap l r)) = None"
  shows "owners_ok (update_lease l r f)"
  unfolding owners_ok_def
proof (intro conjI allI impI)
  show "fmdom (lg_owners (update_lease l r f)) = fmdom (lg_leases (update_lease l r f))"
    using assms(1) by (simp add: owners_ok_def)
next
  fix k r'
  assume *: "fmlookup (lg_leases (update_lease l r f)) k = Some r'"
  then have "r' < lg_fresh l \<and> ls_key (lg_heap l r') = k \<and>
      fmlookup (lg_owners l) k = Some (ls_owner (lg_heap l r')) \<and> \<not> ls_released (lg_heap l r')"
    using assms(1) by (simp add: owners_ok_def)
  then show "r' < lg_fresh (update_lease l r f)" "ls_key (lg_heap (update_lease l r f) r') = k"
    "fmlookup (lg_owners (update_lease l r f)) k = Some (ls_owner (lg_heap (update_lease l r f) r'))"
    "\<not> ls_released (lg_heap (update_lease l r f) r')"
    using assms(2,3) rel [of k] * by auto
next
  fix r'
  assume "r' < lg_fresh (update_lease l r f)"
  then have "lease_ok l r'" "r' < lg_fresh l" using assms(1) by (simp_all add: owners_ok_def)
  then show "lease_ok (update_lease l r f) r'"
    using assms(2,3,5,6) by (auto simp: lease_ok_def generation_of_def)
next
  fix k g
  assume "lg_generations (update_lease l r f) k = Some g"
  then show "0 < g" using assms(1) by (simp add: owners_ok_def)
next
  fix a b
  assume "a < lg_fresh (update_lease l r f)" "b < lg_fresh (update_lease l r f)"
    "ls_key (lg_heap (update_lease l r f) a) = ls_key (lg_heap (update_lease l r f) b) \<and>
     generation_of (update_lease l r f) a = generation_of (update_lease l r f) b"
  then have "a < lg_fresh l" "b < lg_fresh l"
    "ls_key (lg_heap l a) = ls_key (lg_heap l b)" "generation_of l a = generation_of l b"
    using assms(2,3) by (auto simp: generation_of_def split: if_splits)
  then show "a = b" using assms(1) by (auto simp: owners_ok_def)
qed

lemma owners_ok_drop:
  assumes "owners_ok l" shows "owners_ok (drop_owner l k)"
  using assms unfolding owner_inv_defs by (simp split del: if_split) auto

lemma owners_ok_reservation [simp]: "owners_ok l \<Longrightarrow> owners_ok (release_strategy_reservation l sc b)"
  by (rule owners_ok_cong) simp_all

lemma owners_ok_stop: "owners_ok l \<Longrightarrow> owners_ok (lease_stop l r)"
  unfolding lease_stop_def by (rule owners_ok_flags) (simp_all add: complete_delivery_def owners_okD)

lemma owners_ok_release:
  assumes "owners_ok l" "r < lg_fresh l"
  shows "owners_ok (log_release l r)"
proof -
  let ?k = "ls_key (lg_heap l r)"
  let ?f = "\<lambda>ls. complete_delivery (ls\<lparr>ls_released := True\<rparr>)"
  let ?l = "if fmlookup (lg_leases l) ?k = Some r then drop_owner l ?k else l"
  have gone: "fmlookup (lg_leases ?l) k \<noteq> Some r" for k
    using owners_okD(2) [OF assms(1), of k r] by auto
  have "owners_ok ?l" using assms owners_ok_drop by simp
  then have "owners_ok (update_lease ?l r ?f)"
    by (rule owners_ok_flags) (use gone in \<open>simp_all add: complete_delivery_def\<close>)
  moreover have "log_release l r = update_lease ?l r ?f"
    by (simp add: log_release_def Let_def update_lease_def drop_owner_def)
  ultimately show ?thesis by simp
qed

lemma owners_ok_close:
  assumes "owners_ok l"
  shows "owners_ok (log_close l)"
proof -
  have heap: "ls_key (lg_heap (log_close l) r) = ls_key (lg_heap l r)"
    "ls_owner (lg_heap (log_close l) r) = ls_owner (lg_heap l r)" for r
    by (simp_all add: log_close_def complete_delivery_def)
  have "lease_ok (log_close l) r" if "r < lg_fresh l" for r
    using owners_ok_lease [OF assms that]
    by (auto simp: lease_ok_def generation_of_def log_close_def complete_delivery_def)
  moreover have "r = r'" if "r < lg_fresh l" "r' < lg_fresh l" "ls_key (lg_heap l r) = ls_key (lg_heap l r')"
    "generation_of (log_close l) r = generation_of (log_close l) r'" for r r'
    using owners_ok_unique [OF assms that(1,2,3)] that(4) by (simp add: generation_of_def heap)
  moreover have "0 < g" if "lg_generations l k = Some g" for k g
    using assms that unfolding owners_ok_def by blast
  ultimately show ?thesis
    unfolding owners_ok_def heap by (simp add: log_close_def)
qed

lemma acquire_begin_cases:
  assumes "acquire_begin l sub part st tr = (x, l')" and "subscription_ok sub"
  obtains
    (refused) e where "x = Inl e" "l' = l"
  | (claimed) store b l1 p where "strategy_binding_of st = Inr (store, b)"
      "reserve_strategy l (su_stream sub, su_group sub) b = (Inr (), l1)" "0 \<le> p" "\<not> lg_closed l"
      "acquire_claim l1 sub \<lparr>ck_stream = su_stream sub, ck_group = su_group sub, ck_partition = p\<rparr>
         (su_stream sub, su_group sub) b store tr = (x, l')"
proof -
  have key: "\<exists>p. part = Inst p \<and> 0 \<le> p \<and> mk_checkpoint_key (Inst (su_stream sub)) (Inst (su_group sub)) part =
      Inr \<lparr>ck_stream = su_stream sub, ck_group = su_group sub, ck_partition = p\<rparr>"
    if "partition_of ss part = Inr pt" for ss pt
    using that assms(2)
    by (cases part) (auto simp: mk_checkpoint_key_def subscription_ok_def split: if_splits)
  have res: "l1 = l" if "reserve_strategy l sc b = (Inl e, l1)" for sc b e l1
    using that by (auto simp: reserve_strategy_def split: option.splits if_splits)
  show ?thesis
  proof (cases "(\<exists>e. x = Inl e) \<and> l' = l")
    case True
    then show ?thesis using refused by blast
  next
    case False
    then obtain store b ss pt l1 where *: "strategy_binding_of st = Inr (store, b)" "\<not> lg_closed l"
      "partition_of ss part = Inr pt"
      "reserve_strategy l (su_stream sub, su_group sub) b = (Inr (), l1)"
      "(case mk_checkpoint_key (Inst (su_stream sub)) (Inst (su_group sub)) part of
              Inl e \<Rightarrow> (Inl e, l1)
            | Inr key \<Rightarrow> acquire_claim l1 sub key (su_stream sub, su_group sub) b store tr) = (x, l')"
      using assms(1) res
      by (auto simp: acquire_begin_def require_open_def Let_def split: sum.splits prod.splits if_splits)
    from key [OF *(3)] * show ?thesis using claimed by auto
  qed
qed

lemma owners_ok_claim:
  assumes "owners_ok l" "acquire_claim l sub key sc b store tr = (x, l')"
  shows "owners_ok l'"
proof (cases "fmlookup (lg_leases l) key")
  case None
  then show ?thesis using assms by (auto simp: acquire_claim_def split: if_splits)
next
  case (Some cur)
  let ?l = "l\<lparr>lg_fresh_marker := Suc (lg_fresh_marker l),
    lg_transfers := (lg_transfers l)(key \<mapsto> lg_fresh_marker l)\<rparr>"
  have "owners_ok ?l" by (rule owners_ok_cong [OF assms(1)]) simp_all
  then have "owners_ok (update_lease ?l cur (\<lambda>ls. ls\<lparr>ls_revocation_requested := True\<rparr>))"
    by (rule owners_ok_flags)
       (use owners_okD [OF assms(1)] owners_ok_lease [OF assms(1)] in \<open>auto simp: lease_ok_def\<close>)
  with Some show ?thesis
    using assms by (auto simp: acquire_claim_def Let_def split: if_splits)
qed

lemma owners_ok_begin:
  assumes ok: "owners_ok l" and x: "acquire_begin l sub part st tr = (x, l')" and sub: "subscription_ok sub"
  shows "owners_ok l'"
  using x sub
proof (cases rule: acquire_begin_cases)
  case refused
  then show ?thesis using ok by simp
next
  case (claimed store b l1 p)
  have "owners_ok l1" by (rule owners_ok_cong [OF ok]) (use reserve_strategy_simps [OF claimed(2)] in simp_all)
  then show ?thesis using owners_ok_claim claimed(5) by blast
qed

definition next_generation :: "log \<Rightarrow> checkpoint_key \<Rightarrow> int" where
  "next_generation l k = (case lg_generations l k of None \<Rightarrow> 0 | Some g \<Rightarrow> g) + 1"

definition next_token :: "log \<Rightarrow> acquisition \<Rightarrow> ownership_token" where
  "next_token l aq = \<lparr>ot_owner_id = su_owner_id (aq_subscription aq), ot_generation = next_generation l (aq_key aq)\<rparr>"

lemma acquire_install_Inr:
  assumes "acquire_install l aq = (Inr r, l')"
  shows "r = lg_fresh l" and "l' = l\<lparr>lg_fresh := Suc r,
      lg_heap := (lg_heap l)(r := mk_lease (aq_subscription aq) (aq_key aq) (next_token l aq) (aq_store aq)),
      lg_generations := (lg_generations l)(aq_key aq \<mapsto> next_generation l (aq_key aq)),
      lg_owners := fmupd (aq_key aq) (next_token l aq) (lg_owners l),
      lg_leases := fmupd (aq_key aq) r (lg_leases l)\<rparr>"
proof -
  have "mk_ownership_token (Inst (su_owner_id (aq_subscription aq))) (Inst (next_generation l (aq_key aq))) =
      Inr (next_token l aq)"
    using assms
    by (auto simp: acquire_install_def mk_ownership_token_def next_generation_def next_token_def Let_def
        split: sum.splits if_splits)
  with assms show "r = lg_fresh l" and "l' = l\<lparr>lg_fresh := Suc r,
      lg_heap := (lg_heap l)(r := mk_lease (aq_subscription aq) (aq_key aq) (next_token l aq) (aq_store aq)),
      lg_generations := (lg_generations l)(aq_key aq \<mapsto> next_generation l (aq_key aq)),
      lg_owners := fmupd (aq_key aq) (next_token l aq) (lg_owners l),
      lg_leases := fmupd (aq_key aq) r (lg_leases l)\<rparr>"
    unfolding acquire_install_def Let_def next_generation_def [symmetric] by auto
qed

lemma acquire_install_Inl: "acquire_install l aq = (Inl e, l') \<Longrightarrow> l' = l"
  by (auto simp: acquire_install_def Let_def split: sum.splits)

lemma owners_ok_install:
  assumes ok: "owners_ok l" and inst: "acquire_install l aq = (x, l')"
  shows "owners_ok l'"
proof (cases x)
  case (Inl e)
  then show ?thesis using assms acquire_install_Inl by blast
next
  case (Inr r)
  let ?k = "aq_key aq" and ?g = "next_generation l (aq_key aq)" and ?token = "next_token l aq"
  note r = acquire_install_Inr(1) [OF inst [unfolded Inr]]
  note l' = acquire_install_Inr(2) [OF inst [unfolded Inr]]
  have token: "ot_generation ?token = ?g" by (simp add: next_token_def)
  have older: "generation_of l r' < ?g" if "r' < lg_fresh l" "ls_key (lg_heap l r') = ?k" for r'
    using owners_ok_lease [OF ok that(1)] that(2) by (auto simp: lease_ok_def next_generation_def)
  have gpos: "0 < g" if "lg_generations l k = Some g" for k g
    using ok that unfolding owners_ok_def by blast
  have pos: "0 < ?g"
    using gpos [of ?k] by (cases "lg_generations l ?k") (fastforce simp: next_generation_def)+
  have new: "ls_key (mk_lease sub k w st) = k" "ls_owner (mk_lease sub k w st) = w"
    "ls_in_flight (mk_lease sub k w st) = None" "ls_delivery_completed (mk_lease sub k w st)"
    "\<not> ls_released (mk_lease sub k w st)" for sub k w st
    by (simp_all add: mk_lease_def)
  have leases: "r' < lg_fresh l' \<and> ls_key (lg_heap l' r') = k \<and>
      fmlookup (lg_owners l') k = Some (ls_owner (lg_heap l' r')) \<and> \<not> ls_released (lg_heap l' r')"
    if "fmlookup (lg_leases l') k = Some r'" for k r'
  proof (cases "k = ?k")
    case True
    then show ?thesis using that by (simp add: l' new)
  next
    case False
    then have "fmlookup (lg_leases l) k = Some r'" using that by (simp add: l')
    from owners_okD [OF ok this] False r show ?thesis by (simp add: l')
  qed
  have each: "lease_ok l' r'" if "r' < lg_fresh l'" for r'
  proof (cases "r' = r")
    case True
    then show ?thesis using pos by (simp add: l' lease_ok_def generation_of_def new token)
  next
    case False
    then have "r' < lg_fresh l" using that by (simp add: l' r)
    from owners_ok_lease [OF ok this] older [OF this] False show ?thesis
      by (auto simp: l' lease_ok_def generation_of_def)
  qed
  have unique: "a = b" if ab: "a < lg_fresh l'" "b < lg_fresh l'" "ls_key (lg_heap l' a) = ls_key (lg_heap l' b)"
    "generation_of l' a = generation_of l' b" for a b
  proof -
    consider "a = r" "b = r" | "a = r" "b < lg_fresh l" | "a < lg_fresh l" "b = r" | "a < lg_fresh l" "b < lg_fresh l"
      using ab(1,2) by (auto simp: l' r less_Suc_eq)
    then show ?thesis
    proof cases
      case 2
      then show ?thesis using older [of b] ab r by (simp add: l' generation_of_def new token)
    next
      case 3
      then show ?thesis using older [of a] ab r by (simp add: l' generation_of_def new token)
    next
      case 4
      then show ?thesis using owners_ok_unique [OF ok, of a b] ab r by (simp add: l' generation_of_def)
    qed simp
  qed
  have gens: "0 < g" if "lg_generations l' k = Some g" for k g
    using that gpos pos by (auto simp: l' split: if_splits)
  have doms: "fmdom (lg_owners l') = fmdom (lg_leases l')"
    using ok by (simp add: l' owners_ok_def)
  show ?thesis
    unfolding owners_ok_def using doms leases each gens unique by blast
qed

lemma owners_ok_supersede:
  assumes "owners_ok l" "acquire_supersede l aq = (x, l')"
  shows "owners_ok l'"
  using assms owners_ok_drop [OF assms(1)]
  by (auto simp: acquire_supersede_def Let_def split: option.splits if_splits)

lemma owners_ok_take:
  assumes "owners_ok l" "acquire_take l aq = (x, l')"
  shows "owners_ok l'"
  using assms
  by (auto simp: acquire_take_def split: sum.splits prod.splits
      dest: owners_ok_supersede owners_ok_install)

lemma owners_ok_cancel:
  assumes "owners_ok l"
  shows "owners_ok (snd (cancel_acquire l aq))"
proof -
  let ?l = "l\<lparr>lg_transfers := (lg_transfers l)(aq_key aq := None)\<rparr>"
  have l1: "owners_ok ?l" using assms by simp
  have rev: "owners_ok (update_lease ?l cur (\<lambda>ls. ls\<lparr>ls_revocation_requested := False\<rparr>))" for cur
    by (rule owners_ok_flags [OF l1])
       (use owners_okD [OF assms] owners_ok_lease [OF assms] in \<open>auto simp: lease_ok_def\<close>)
  show ?thesis
    unfolding cancel_acquire_def Let_def
    by (simp add: l1 rev assms del: owners_ok_frame split: option.split)
qed

lemma owners_ok_initialize:
  assumes "owners_ok l" "initialize_broker l clock r = (x, l')"
  shows "owners_ok l'"
  using assms by (auto simp: initialize_broker_def Let_def split: sum.splits if_splits)

lemma owners_ok_next:
  assumes ok: "owners_ok l" and r: "r < lg_fresh l"
  shows "owners_ok (snd (next_locked l r c))"
proof -
  have "owners_ok (update_lease l r (\<lambda>ls. ls\<lparr>ls_in_flight := Some rec, ls_delivery_completed := False\<rparr>))"
    if "require_owner_locked l (ls_key (lg_heap l r)) (ls_owner (lg_heap l r)) = Inr u" for rec u
    using ok
    by (rule owners_ok_flags) (use owner_not_released [OF ok r] that in \<open>auto simp: owner_check_iff\<close>)
  with ok show ?thesis
    by (auto simp: next_locked_def Let_def split: sum.split option.split)
qed

lemma owners_ok_complete: "owners_ok l \<Longrightarrow> owners_ok (update_lease l r complete_delivery)"
  by (rule owners_ok_flags) (simp_all add: complete_delivery_def owners_okD)

lemma owners_ok_checkpoint:
  assumes "owners_ok l"
  shows "owners_ok (snd (checkpoint_broker l r rec c))" "owners_ok (snd (checkpoint_external_finish l r))"
proof -
  show "owners_ok (snd (checkpoint_broker l r rec c))"
    using assms by (simp add: checkpoint_broker_def owners_ok_complete Let_def split: sum.split)
  show "owners_ok (snd (checkpoint_external_finish l r))"
    using assms by (simp add: checkpoint_external_finish_def owners_ok_complete Let_def split: sum.split)
qed

section \<open>Every step keeps the invariants\<close>

lemma load_cursor_external_cases:
  "load_cursor_external l r load = (x, l') \<Longrightarrow> l' = l \<or> l' = lease_stop l r"
  using stop_on_persistence_error_cases [of l r]
  by (auto simp: load_cursor_external_def Let_def split: sum.splits option.splits)

lemma checkpoint_saved_cases:
  "checkpoint_saved l r c save = (x, l') \<Longrightarrow> l' = l \<or> l' = lease_stop l r"
  using stop_on_persistence_error_cases [of l r]
  by (auto simp: checkpoint_saved_def split: sum.splits)

lemma advance_loading_cases:
  assumes "advance_loading l ev r f g = (l', c')"
  shows "(l' = l \<or> l' = lease_stop l r) \<and> (c' = None \<or> (\<exists>c. c' = Some (f c)) \<or> (\<exists>c. c' = Some (g c)))"
  using assms
  by (auto simp: advance_loading_def split: if_splits sum.splits prod.splits dest: load_cursor_external_cases)

lemma advance_initializing_cases:
  assumes "advance_initializing l ev aq r = (l', c')"
  shows "(l' = l \<or> (\<exists>x. initialize_broker l (ev_clock ev) r = (x, l'))) \<and>
    (\<exists>d. c' = Some d \<and> call_acquisition d = Some aq \<and> call_lease d = Some r)"
  using assms
  by (auto simp: advance_initializing_def split: if_splits sum.splits prod.splits option.splits)

lemma owners_ok_drop_reservation [simp]: "owners_ok l \<Longrightarrow> owners_ok (drop_reservation l aq)"
  by (simp add: drop_reservation_def)

lemma owners_ok_confirm [simp]: "owners_ok l \<Longrightarrow> owners_ok (acquire_confirm l aq)"
  by (simp add: acquire_confirm_def)

lemma owners_ok_lease_release: "owners_ok l \<Longrightarrow> r < lg_fresh l \<Longrightarrow> owners_ok (lease_release l r)"
  by (simp add: lease_release_def owners_ok_release)

lemma call_advance_owners:
  assumes ok: "owners_ok l" and c: "call_ok l c" and adv: "call_advance l ev c = (l', c')"
  shows "owners_ok l'"
proof -
  have load: "owners_ok l'" if "advance_loading l ev r f g = (l', c')" for r f g
    using advance_loading_cases [OF that] ok owners_ok_stop by auto
  have init: "owners_ok l'" if "advance_initializing l ev aq r = (l', c')" for aq r
    using advance_initializing_cases [OF that] ok owners_ok_initialize [OF ok] by auto
  have save: "owners_ok l1" if "checkpoint_saved l r k sv = (x, l1)" for r k sv x l1
    using checkpoint_saved_cases [OF that] ok owners_ok_stop by auto
  show ?thesis
    using adv c ok
    by (cases c)
       (auto simp: call_ok_def split: sum.splits prod.splits option.splits if_splits
          intro: load init owners_ok_cancel owners_ok_lease_release owners_ok_next owners_ok_checkpoint
            owners_ok_release
          dest: owners_ok_take save)
qed

lemma acquire_take_Inr:
  assumes "acquire_take l aq = (Inr r, l')"
  obtains l1 where "acquire_supersede l aq = (Inr (), l1)" "acquire_install l1 aq = (Inr r, l')" "\<not> lg_closed l"
  using assms by (auto simp: acquire_take_def require_open_def split: sum.splits prod.splits if_splits)

lemma acquire_supersede_heap:
  assumes "acquire_supersede l aq = (x, l1)"
  shows "lg_heap l1 = lg_heap l" "lg_fresh l1 = lg_fresh l" "lg_generations l1 = lg_generations l"
    "lg_fresh_marker l1 = lg_fresh_marker l"
  using assms by (auto simp: acquire_supersede_def Let_def split: option.splits if_splits)

lemma acquire_take_new:
  assumes "acquire_take l aq = (Inr r, l')"
  shows "r = lg_fresh l" "lg_fresh l' = Suc r" "ls_key (lg_heap l' r) = aq_key aq" "ls_store (lg_heap l' r) = aq_store aq"
    "fmlookup (lg_leases l') (aq_key aq) = Some r" "ls_in_flight (lg_heap l' r) = None"
proof -
  obtain l1 where l1: "acquire_supersede l aq = (Inr (), l1)" "acquire_install l1 aq = (Inr r, l')"
    using assms by (rule acquire_take_Inr)
  show "r = lg_fresh l" "lg_fresh l' = Suc r" "ls_key (lg_heap l' r) = aq_key aq" "ls_store (lg_heap l' r) = aq_store aq"
    "fmlookup (lg_leases l') (aq_key aq) = Some r" "ls_in_flight (lg_heap l' r) = None"
    using acquire_install_Inr [OF l1(2)] acquire_supersede_heap [OF l1(1)] by (simp_all add: mk_lease_def)
qed

lemma call_advance_call_ok:
  assumes c: "call_ok l c" and adv: "call_advance l ev c = (l', Some c')"
  shows "call_ok l' c'"
proof (cases "\<exists>aq. c = Acquiring aq")
  case True
  then obtain aq where aq: "c = Acquiring aq" ..
  have grows: "heap_grows l l'" using call_advance_grows [OF adv] .
  have ok: "acquisition_ok l' aq"
    using c aq acquisition_ok_grows [OF _ grows] by (simp add: call_ok_def)
  show ?thesis
  proof (cases "acquire_take l aq")
    case (Pair x l2)
    then show ?thesis
      using adv aq ok acquire_take_new [of l aq]
      by (cases x) (auto simp: call_ok_def)
  qed
next
  case False
  have "(\<exists>aq. call_acquisition c = Some aq \<and> call_acquisition c' = Some aq) \<or>
        call_acquisition c = None \<and> call_acquisition c' = None"
    and "call_lease c' = None \<or> call_lease c' = call_lease c"
    using adv False
    by (cases c; auto split: sum.splits prod.splits option.splits if_splits
        dest: advance_initializing_cases advance_loading_cases)+
  then have "call_ok l c'" using c by (auto simp: call_ok_def)
  then show ?thesis using call_ok_grows call_advance_grows [OF adv] by blast
qed

lemma call_cancel_ok:
  assumes "call_ok l c" "call_cancel c = Some c'"
  shows "call_ok l c'" "call_acquisition c' = call_acquisition c"
  using assms by (cases c; auto simp: call_ok_def)+

definition leases_inv :: "psys \<Rightarrow> bool" where
  [inv_defs]: "leases_inv s \<longleftrightarrow> (case s of (A, l, M) \<Rightarrow> owners_ok l \<and> (\<forall>c \<in># M. call_ok l c))"

lemma acquire_claim_Inr:
  assumes "acquire_claim l sub key sc b store tr = (Inr aq, l')"
  shows "aq_subscription aq = sub" "aq_key aq = key" "aq_scope aq = sc" "aq_binding aq = b" "aq_store aq = store"
    "aq_current aq = fmlookup (lg_leases l) key"
    "aq_marker aq = (if fmlookup (lg_leases l) key = None then None else Some (lg_fresh_marker l))"
    "lg_fresh_marker l' = (if fmlookup (lg_leases l) key = None then lg_fresh_marker l else Suc (lg_fresh_marker l))"
    "lg_transfers l' = (if fmlookup (lg_leases l) key = None then lg_transfers l
       else (lg_transfers l)(key \<mapsto> lg_fresh_marker l))"
    "fmlookup (lg_leases l) key \<noteq> None \<longrightarrow> lg_transfers l key = None"
  using assms by (auto simp: acquire_claim_def Let_def split: option.splits if_splits)

lemma acquire_begin_call_ok:
  assumes ok: "owners_ok l" and x: "acquire_begin l sub part st tr = (Inr aq, l')" and sub: "subscription_ok sub"
  shows "call_ok l' (Acquiring aq)"
  using x sub
proof (cases rule: acquire_begin_cases)
  case (claimed store b l1 p)
  let ?k = "\<lparr>ck_stream = su_stream sub, ck_group = su_group sub, ck_partition = p\<rparr>"
  note l1 = reserve_strategy_simps [OF claimed(2)]
  note aq = acquire_claim_Inr [OF claimed(5)]
  have grows: "heap_grows l l'" using acquire_begin_grows [OF x] .
  have store: "sb_store b = store"
    using claimed(1) by (cases st rule: strategy_binding_of.cases) auto
  have cur: "cur < lg_fresh l' \<and> ls_key (lg_heap l' cur) = ?k" if "fmlookup (lg_leases l) ?k = Some cur" for cur
    using owners_okD [OF ok that] grows by (auto simp: heap_grows_def)
  show ?thesis
    using sub store cur by (auto simp: call_ok_def acquisition_ok_def aq l1)
qed simp

lemma leases_inv_step:
  assumes inv: "leases_inv (A, l, M)" and step: "ps_step (A, l, M) (A', l', M')"
  shows "leases_inv (A', l', M')"
proof -
  have ok: "owners_ok l" and calls: "\<And>c. c \<in># M \<Longrightarrow> call_ok l c"
    using inv by (auto simp: leases_inv_def)
  from step show ?thesis
  proof (cases rule: ps_step_lease_cases)
    case (other S b q)
    then have "heap_grows l l'" by (intro heap_grows_eq) simp_all
    then show ?thesis
      using other ok calls call_ok_grows [of l _ l'] by (auto simp: leases_inv_def)
  next
    case close
    then show ?thesis
      using owners_ok_close [OF ok] calls call_ok_grows [of l _ l'] by (auto simp: leases_inv_def)
  next
    case (claim sub part st tr x)
    then show ?thesis
      using owners_ok_begin [OF ok claim(2,1)] acquire_begin_call_ok [OF ok _ claim(1)] calls
        call_ok_grows [OF _ acquire_begin_grows [OF claim(2)]]
      by (auto simp: leases_inv_def split: sum.splits)
  next
    case (stop r)
    then show ?thesis
      using owners_ok_stop [OF ok] calls call_ok_grows [of l _ l'] by (auto simp: leases_inv_def)
  next
    case (start r c)
    then show ?thesis using ok calls by (auto simp: leases_inv_def call_ok_def)
  next
    case (advance N c ev c')
    have c: "call_ok l c" using calls advance(1) by simp
    have "owners_ok l'" using call_advance_owners [OF ok c advance(3)] .
    moreover have "call_ok l' d" if "d \<in># N" for d
      using calls that advance(1) call_ok_grows call_advance_grows [OF advance(3)] by fastforce
    ultimately show ?thesis
      using advance(3,4) call_advance_call_ok [OF c, of ev l'] by (cases c') (auto simp: leases_inv_def)
  next
    case (cancel N c)
    then show ?thesis
      using ok calls call_cancel_ok(1) [of l c] by (cases "call_cancel c") (auto simp: leases_inv_def)
  qed
qed

lemma leases_inv_init: "new_log n heap = Inr l \<Longrightarrow> leases_inv (Map.empty, l, {#})"
  by (auto simp: new_log_def leases_inv_def owner_inv_defs split: sum.splits)

lemma leases_inv_reachable: "ps_reachable s \<Longrightarrow> leases_inv s"
proof (induction rule: ps_reachable.induct)
  case (init n heap l)
  then show ?case by (rule leases_inv_init)
next
  case (step s s')
  obtain A l M A' l' M' where "s = (A, l, M)" "s' = (A', l', M')"
    by (cases s, cases s') auto
  then show ?case using leases_inv_step step by blast
qed

section \<open>Lost ownership\<close>

text \<open>What a step may do to the owner of a key.\<close>

lemma call_advance_owner_change:
  assumes adv: "call_advance l ev c = (l', c')" and w: "fmlookup (lg_owners l') k = Some w"
  shows "fmlookup (lg_owners l) k = Some w \<or> ot_generation w = next_generation l k"
proof (cases "\<exists>aq. c = Acquiring aq")
  case True
  then obtain aq where aq: "c = Acquiring aq" ..
  have sup: "fmlookup (lg_owners l1) k = Some w \<Longrightarrow> fmlookup (lg_owners l) k = Some w"
    if "acquire_supersede l aq = (x, l1)" for x l1
    using that by (auto simp: acquire_supersede_def Let_def split: option.splits if_splits)
  show ?thesis
  proof (cases "acquire_take l aq")
    case (Pair x l2)
    then have l2: "l2 = l'" using adv aq by (cases x) auto
    show ?thesis
    proof (cases x)
      case (Inl e)
      then show ?thesis
        using Pair l2 w sup
        by (auto simp: acquire_take_def split: sum.splits prod.splits dest!: acquire_install_Inl)
    next
      case (Inr r)
      obtain l1 where l1: "acquire_supersede l aq = (Inr (), l1)" "acquire_install l1 aq = (Inr r, l')"
        using acquire_take_Inr Pair Inr l2 by blast
      show ?thesis
        using acquire_install_Inr(2) [OF l1(2)] w sup [OF l1(1)] acquire_supersede_heap(3) [OF l1(1)]
        by (auto simp: next_token_def next_generation_def split: if_splits)
    qed
  qed
next
  case False
  have stop: "lg_owners (lease_stop l r) = lg_owners l" for r
    by (simp add: lease_stop_def)
  have rel: "fmlookup (lg_owners (log_release l r)) k = Some w \<Longrightarrow> fmlookup (lg_owners l) k = Some w" for r
    by (auto simp: log_release_def Let_def split: if_splits)
  have ini: "lg_owners l1 = lg_owners l" if "initialize_broker l clock r = (x, l1)" for clock r x l1
    using that by (auto simp: initialize_broker_def Let_def split: sum.splits if_splits)
  have nxt: "lg_owners (snd (next_locked l r cu)) = lg_owners l" for r cu
    by (auto simp: next_locked_def Let_def split: sum.split option.split)
  have ck: "lg_owners (snd (checkpoint_broker l r rec cu)) = lg_owners l"
    "lg_owners (snd (checkpoint_external_finish l r)) = lg_owners l" for r rec cu
    by (auto simp: checkpoint_broker_def checkpoint_external_finish_def Let_def split: sum.split)
  have can: "lg_owners (snd (cancel_acquire l aq)) = lg_owners l" for aq
    by (auto simp: cancel_acquire_def Let_def split: option.split)
  show ?thesis
    using adv False w rel
    by (cases c)
       (auto simp: can nxt ck acquire_confirm_def lease_release_def drop_reservation_def stop
          split: sum.splits prod.splits option.splits if_splits
          dest!: advance_initializing_cases advance_loading_cases checkpoint_saved_cases ini)
qed

lemma step_owner_change:
  assumes step: "ps_step (A, l, M) (A', l', M')" and w: "fmlookup (lg_owners l') k = Some w"
  shows "fmlookup (lg_owners l) k = Some w \<or> ot_generation w = next_generation l k"
  using step
proof (cases rule: ps_step_lease_cases)
  case (claim sub part st tr x)
  have "fmlookup (lg_owners l') k = fmlookup (lg_owners l) k"
    using claim(2,1)
  proof (cases rule: acquire_begin_cases)
    case (claimed store b l1 p)
    then show ?thesis
      using reserve_strategy_simps(2) [OF claimed(2)]
      by (auto simp: acquire_claim_def Let_def split: option.splits if_splits)
  qed simp
  then show ?thesis using w by simp
next
  case (advance N c ev c')
  then show ?thesis using call_advance_owner_change w by blast
qed (use w in \<open>auto simp: log_close_def lease_stop_def\<close>)

lemma step_grows:
  assumes "ps_step (A, l, M) (A', l', M')"
  shows "heap_grows l l'"
  using assms
proof (cases rule: ps_step_lease_cases)
  case (other S b q)
  then show ?thesis by (intro heap_grows_eq) simp_all
qed (auto intro: acquire_begin_grows call_advance_grows)

definition owns :: "log \<Rightarrow> nat \<Rightarrow> bool" where
  "owns l r \<longleftrightarrow> fmlookup (lg_owners l) (ls_key (lg_heap l r)) = Some (ls_owner (lg_heap l r))"

lemma lost_ownership_step:
  assumes inv: "leases_inv (A, l, M)" and step: "ps_step (A, l, M) (A', l', M')"
    and r: "r < lg_fresh l" and lost: "\<not> owns l r"
  shows "\<not> owns l' r"
proof
  assume own: "owns l' r"
  have same: "ls_key (lg_heap l' r) = ls_key (lg_heap l r)" "ls_owner (lg_heap l' r) = ls_owner (lg_heap l r)"
    using step_grows [OF step] r by (auto simp: heap_grows_def)
  then have "generation_of l r = next_generation l (ls_key (lg_heap l r))"
    using step_owner_change [OF step] own lost by (auto simp: owns_def generation_of_def)
  moreover have "lease_ok l r" using inv r owners_ok_lease by (auto simp: leases_inv_def)
  ultimately show False by (auto simp: lease_ok_def next_generation_def)
qed

lemma lost_ownership_forever:
  assumes "ps_step\<^sup>*\<^sup>* s s'" and "leases_inv s" "r < lg_fresh (fst (snd s))" "\<not> owns (fst (snd s)) r"
  shows "leases_inv s' \<and> r < lg_fresh (fst (snd s')) \<and> \<not> owns (fst (snd s')) r \<and>
    ls_key (lg_heap (fst (snd s')) r) = ls_key (lg_heap (fst (snd s)) r) \<and>
    ls_owner (lg_heap (fst (snd s')) r) = ls_owner (lg_heap (fst (snd s)) r)"
  using assms
proof (induction rule: rtranclp_induct)
  case base
  then show ?case by simp
next
  case (step y z)
  obtain A l M A' l' M' where yz: "y = (A, l, M)" "z = (A', l', M')"
    by (cases y, cases z) auto
  have y: "leases_inv (A, l, M)" "r < lg_fresh l" "\<not> owns l r" using step yz by auto
  have st: "ps_step (A, l, M) (A', l', M')" using step yz by simp
  have "heap_grows l l'" using step_grows [OF st] .
  then show ?case
    using step yz leases_inv_step [OF y(1) st] lost_ownership_step [OF y(1) st y(2,3)] y(2)
    by (auto simp: heap_grows_def)
qed

end
