(* ===== verification/Streams_Strategies.thy ===== *)
theory Streams_Strategies
  imports Streams_Ownership
begin

text \<open>
  Checkpoint strategies of consumer groups. A group is bound to one strategy by the first
  acquisition that completes; until then the acquisitions in progress hold a counted reservation.
  The count is exact in every reachable state, and the live leases of a group use one strategy.
\<close>

definition in_scope :: "group_scope \<Rightarrow> call \<Rightarrow> bool" where
  "in_scope sc c \<longleftrightarrow> (\<exists>aq. call_acquisition c = Some aq \<and> aq_scope aq = sc)"

definition scope_count :: "group_scope \<Rightarrow> call multiset \<Rightarrow> int" where
  "scope_count sc M = int (size (filter_mset (in_scope sc) M))"

definition scope_ok :: "group_scope \<Rightarrow> strategy_binding option \<Rightarrow> (strategy_binding \<times> int) option \<Rightarrow>
    call multiset \<Rightarrow> bool" where
  [inv_defs]: "scope_ok sc gr pending M \<longleftrightarrow>
     (case pending of
        None \<Rightarrow> scope_count sc M = 0
      | Some (b, n) \<Rightarrow> n = scope_count sc M \<and> 0 < n \<and>
          (\<forall>g. gr = Some g \<longrightarrow> g = b)) \<and>
     (\<forall>c \<in># M. \<forall>aq. call_acquisition c = Some aq \<and> aq_scope aq = sc \<longrightarrow>
        (\<exists>n. pending = Some (aq_binding aq, n)))"

definition strategies_ok :: "log \<Rightarrow> call multiset \<Rightarrow> bool" where
  [inv_defs]: "strategies_ok l M \<longleftrightarrow>
     (\<forall>sc. scope_ok sc (lg_group_strategies l sc) (lg_pending_group_strategies l sc) M)"

definition key_scope :: "checkpoint_key \<Rightarrow> group_scope" where
  "key_scope k = (ck_stream k, ck_group k)"

text \<open>A live lease is confirmed, or some acquisition still holds it.\<close>

definition lease_bound :: "log \<Rightarrow> call multiset \<Rightarrow> checkpoint_key \<Rightarrow> nat \<Rightarrow> bool" where
  [inv_defs]: "lease_bound l M k r \<longleftrightarrow>
     (\<exists>b. lg_group_strategies l (key_scope k) = Some b \<and> sb_store b = ls_store (lg_heap l r)) \<or>
     (\<exists>c \<in># M. call_acquisition c \<noteq> None \<and> call_lease c = Some r)"

definition leases_bound :: "log \<Rightarrow> call multiset \<Rightarrow> bool" where
  [inv_defs]: "leases_bound l M \<longleftrightarrow> (\<forall>k r. fmlookup (lg_leases l) k = Some r \<longrightarrow> lease_bound l M k r)"

section \<open>Reservations\<close>

lemma scope_count_simps [simp]:
  "scope_count sc {#} = 0"
  "scope_count sc (add_mset c M) = (if in_scope sc c then 1 else 0) + scope_count sc M"
  "0 \<le> scope_count sc M"
  by (simp_all add: scope_count_def)

lemma scope_count_pos: "c \<in># M \<Longrightarrow> in_scope sc c \<Longrightarrow> 0 < scope_count sc M"
  by (auto dest!: multi_member_split simp: add_pos_nonneg)

lemma scope_okD:
  assumes "scope_ok sc g p M"
  shows "p = None \<Longrightarrow> scope_count sc M = 0" "p = Some (b, n) \<Longrightarrow> n = scope_count sc M \<and> 0 < n"
    "p = Some (b, n) \<Longrightarrow> g = Some g' \<Longrightarrow> g' = b"
    "c \<in># M \<Longrightarrow> call_acquisition c = Some aq \<Longrightarrow> aq_scope aq = sc \<Longrightarrow> \<exists>n. p = Some (aq_binding aq, n)"
  using assms by (auto simp: scope_ok_def)

lemma scope_ok_other: "\<not> in_scope sc c \<Longrightarrow> scope_ok sc g p (add_mset c M) = scope_ok sc g p M"
  by (auto simp: scope_ok_def in_scope_def cong: option.case_cong)

lemma scope_ok_move:
  assumes "call_acquisition c' = call_acquisition c"
  shows "scope_ok sc g p (add_mset c' M) = scope_ok sc g p (add_mset c M)"
proof -
  have "in_scope sc c' = in_scope sc c" using assms by (simp add: in_scope_def)
  then have count: "scope_count sc (add_mset c' M) = scope_count sc (add_mset c M)" by simp
  show ?thesis unfolding scope_ok_def count using assms by simp
qed

lemma scope_ok_reserve:
  assumes ok: "scope_ok sc g p M" and c: "call_acquisition c = Some aq" "aq_scope aq = sc" "aq_binding aq = b"
    and g: "g = None \<or> g = Some b"
    and p: "p = None \<and> p' = Some (b, 1) \<or> (\<exists>n. p = Some (b, n) \<and> p' = Some (b, n + 1))"
  shows "scope_ok sc g p' (add_mset c M)"
proof -
  have c_sc: "in_scope sc c" using c by (simp add: in_scope_def)
  have old: "aq_binding aq' = b" if "d \<in># M" "call_acquisition d = Some aq'" "aq_scope aq' = sc" for d aq'
    using scope_okD(4) [OF ok that] p scope_okD(1) [OF ok] by auto
  from p show ?thesis
  proof
    assume "p = None \<and> p' = Some (b, 1)"
    then show ?thesis using c_sc c g old scope_okD(1) [OF ok] by (auto simp: scope_ok_def)
  next
    assume "\<exists>n. p = Some (b, n) \<and> p' = Some (b, n + 1)"
    then obtain n where "p = Some (b, n)" "p' = Some (b, n + 1)" by blast
    then show ?thesis using c_sc c g old scope_okD(2) [OF ok, of b n] by (auto simp: scope_ok_def)
  qed
qed

lemma scope_ok_release:
  assumes ok: "scope_ok sc g p (add_mset c M)"
    and c: "call_acquisition c = Some aq" "aq_scope aq = sc" and g: "g' = g \<or> g' = Some (aq_binding aq)"
  shows "\<exists>n. p = Some (aq_binding aq, n) \<and>
    scope_ok sc g' (if n = 1 then None else Some (aq_binding aq, n - 1)) M"
proof -
  have sc: "in_scope sc c" using c by (simp add: in_scope_def)
  obtain n where n: "p = Some (aq_binding aq, n)"
    using scope_okD(4) [OF ok _ c] by auto
  have size: "n = 1 + scope_count sc M" using scope_okD(2) [OF ok n] sc by simp
  have others: "\<exists>m. p = Some (aq_binding aq', m)"
    if "d \<in># M" "call_acquisition d = Some aq'" "aq_scope aq' = sc" for d aq'
    using scope_okD(4) [OF ok _ that(2,3)] that(1) by simp
  have "scope_ok sc g' (if n = 1 then None else Some (aq_binding aq, n - 1)) M"
  proof (cases "n = 1")
    case True
    then have "\<not> in_scope sc d" if "d \<in># M" for d
      using scope_count_pos [OF that, of sc] size by auto
    then show ?thesis using True size by (auto simp: scope_ok_def in_scope_def)
  next
    case False
    have "0 < scope_count sc M" using False size scope_count_simps(3) [of sc M] by linarith
    then show ?thesis
      using False n size g others scope_okD(3) [OF ok n] by (auto simp: scope_ok_def)
  qed
  with n show ?thesis by blast
qed

lemma release_reservation_pending:
  "lg_pending_group_strategies (release_strategy_reservation l sc b) sc' =
     (if sc' = sc then (case lg_pending_group_strategies l sc of
          Some (b', n) \<Rightarrow> if b' = b then (if n = 1 then None else Some (b, n - 1)) else Some (b', n)
        | None \<Rightarrow> None)
      else lg_pending_group_strategies l sc')"
  by (auto simp: release_strategy_reservation_def split: option.split)

text \<open>The end of an acquisition: the call leaves and its reservation with it.\<close>

lemma strategies_ok_release:
  assumes ok: "strategies_ok l (add_mset c M)" and c: "call_acquisition c = Some aq"
    and l': "lg_pending_group_strategies l' =
        lg_pending_group_strategies (release_strategy_reservation l (aq_scope aq) (aq_binding aq))"
      "lg_group_strategies l' = lg_group_strategies l \<or>
       lg_group_strategies l' = (lg_group_strategies l)(aq_scope aq \<mapsto> aq_binding aq)"
  shows "strategies_ok l' M"
  unfolding strategies_ok_def
proof
  fix sc
  have sc_ok: "scope_ok sc (lg_group_strategies l sc) (lg_pending_group_strategies l sc) (add_mset c M)"
    using ok unfolding strategies_ok_def by blast
  show "scope_ok sc (lg_group_strategies l' sc) (lg_pending_group_strategies l' sc) M"
  proof (cases "sc = aq_scope aq")
    case True
    have "lg_group_strategies l' sc = lg_group_strategies l sc \<or> lg_group_strategies l' sc = Some (aq_binding aq)"
      using l'(2) True by auto
    from scope_ok_release [OF sc_ok c True [symmetric] this] obtain n
      where n: "lg_pending_group_strategies l sc = Some (aq_binding aq, n)"
        "scope_ok sc (lg_group_strategies l' sc) (if n = 1 then None else Some (aq_binding aq, n - 1)) M"
      by blast
    then show ?thesis
      using True by (simp add: l'(1) release_reservation_pending)
  next
    case False
    then have "\<not> in_scope sc c" using c by (auto simp: in_scope_def)
    moreover have "lg_group_strategies l' sc = lg_group_strategies l sc" using l'(2) False by auto
    ultimately show ?thesis using sc_ok False by (simp add: l'(1) release_reservation_pending scope_ok_other)
  qed
qed

lemma strategies_ok_frame:
  assumes "strategies_ok l M" "lg_pending_group_strategies l' = lg_pending_group_strategies l"
    "lg_group_strategies l' = lg_group_strategies l"
  shows "strategies_ok l' M"
  using assms by (simp add: strategies_ok_def)

lemma strategies_ok_move:
  assumes "strategies_ok l (add_mset c M)" "call_acquisition c' = call_acquisition c"
  shows "strategies_ok l (add_mset c' M)"
  using assms(1) scope_ok_move [OF assms(2)] unfolding strategies_ok_def by blast

lemma strategies_ok_none:
  assumes "call_acquisition c = None"
  shows "strategies_ok l (add_mset c M) = strategies_ok l M"
proof -
  have "\<not> in_scope sc c" for sc using assms by (simp add: in_scope_def)
  from scope_ok_other [OF this] show ?thesis unfolding strategies_ok_def by blast
qed

lemma reserve_then_release:
  assumes "reserve_strategy l sc b = (Inr (), l1)" and "strategies_ok l M"
  shows "lg_pending_group_strategies (release_strategy_reservation l1 sc b) = lg_pending_group_strategies l"
proof
  fix sc'
  have "0 < n" if "lg_pending_group_strategies l sc = Some (b', n)" for b' n
    using assms(2) scope_okD(2) [OF _ that] unfolding strategies_ok_def by blast
  then show "lg_pending_group_strategies (release_strategy_reservation l1 sc b) sc' =
      lg_pending_group_strategies l sc'"
    using assms(1)
    by (auto simp: reserve_strategy_def release_reservation_pending split: option.splits if_splits)
qed

section \<open>Every step keeps them\<close>

lemma leases_bound_mono:
  assumes "leases_bound l M"
    and "\<And>k r. fmlookup (lg_leases l') k = Some r \<Longrightarrow> fmlookup (lg_leases l) k = Some r"
    and "\<And>k r. fmlookup (lg_leases l') k = Some r \<Longrightarrow> ls_store (lg_heap l' r) = ls_store (lg_heap l r)"
    and "\<And>sc b. lg_group_strategies l sc = Some b \<Longrightarrow> lg_group_strategies l' sc = Some b"
    and "\<And>k r c. fmlookup (lg_leases l') k = Some r \<Longrightarrow> c \<in># M \<Longrightarrow> call_acquisition c \<noteq> None \<Longrightarrow>
      call_lease c = Some r \<Longrightarrow> lease_bound l' M' k r"
  shows "leases_bound l' M'"
  unfolding leases_bound_def
proof (intro allI impI)
  fix k r
  assume r: "fmlookup (lg_leases l') k = Some r"
  have "lease_bound l M k r" using assms(1) assms(2) [OF r] unfolding leases_bound_def by blast
  then show "lease_bound l' M' k r"
    unfolding lease_bound_def [of l]
  proof
    assume "\<exists>b. lg_group_strategies l (key_scope k) = Some b \<and> sb_store b = ls_store (lg_heap l r)"
    then show ?thesis using assms(3) [OF r] assms(4) [of "key_scope k"] by (auto simp: lease_bound_def)
  next
    assume "\<exists>c\<in>#M. call_acquisition c \<noteq> None \<and> call_lease c = Some r"
    then show ?thesis using assms(5) [OF r] by blast
  qed
qed

lemma leases_bound_move:
  assumes "leases_bound l (add_mset c M)"
    and "\<And>k r. fmlookup (lg_leases l') k = Some r \<Longrightarrow> fmlookup (lg_leases l) k = Some r"
    and "\<And>k r. fmlookup (lg_leases l') k = Some r \<Longrightarrow> ls_store (lg_heap l' r) = ls_store (lg_heap l r)"
    and "lg_group_strategies l' = lg_group_strategies l"
    and "\<And>k r. fmlookup (lg_leases l') k = Some r \<Longrightarrow> call_acquisition c \<noteq> None \<Longrightarrow> call_lease c = Some r \<Longrightarrow>
      \<exists>d. c' = Some d \<and> call_acquisition d \<noteq> None \<and> call_lease d = Some r"
  shows "leases_bound l' (add_call c' M)"
proof (rule leases_bound_mono [OF assms(1,2,3)])
  fix k r d
  assume r: "fmlookup (lg_leases l') k = Some r" and d: "d \<in># add_mset c M" "call_acquisition d \<noteq> None" "call_lease d = Some r"
  show "lease_bound l' (add_call c' M) k r"
  proof (cases "d = c")
    case True
    with assms(5) [OF r] d obtain e where "c' = Some e" "call_acquisition e \<noteq> None" "call_lease e = Some r"
      by blast
    then show ?thesis by (auto simp: lease_bound_def)
  next
    case False
    then have "d \<in># M" using d by simp
    then show ?thesis using d by (cases c') (auto simp: lease_bound_def)
  qed
qed (use assms(4) in auto)

definition strategies_inv :: "psys \<Rightarrow> bool" where
  [inv_defs]: "strategies_inv s \<longleftrightarrow> (case s of (A, l, M) \<Rightarrow> strategies_ok l M \<and> leases_bound l M)"

lemma acquire_claim_frame:
  assumes "acquire_claim l sub k sc b store tr = (x, l')"
  shows "lg_leases l' = lg_leases l" "lg_group_strategies l' = lg_group_strategies l"
    "ls_store (lg_heap l' r) = ls_store (lg_heap l r)"
    "x = Inl e \<Longrightarrow> lg_pending_group_strategies l' =
       lg_pending_group_strategies (release_strategy_reservation l sc b)"
    "x = Inr aq \<Longrightarrow> lg_pending_group_strategies l' = lg_pending_group_strategies l"
  using assms by (auto simp: acquire_claim_def Let_def split: option.splits if_splits)

lemma strategies_inv_claim:
  assumes inv: "strategies_ok l M" "leases_bound l M" and sub: "subscription_ok sub"
    and x: "acquire_begin l sub part st tr = (x, l')"
  shows "strategies_inv (A, l', case x of Inl e \<Rightarrow> M | Inr aq \<Rightarrow> add_mset (Acquiring aq) M)"
  using x sub
proof (cases rule: acquire_begin_cases)
  case (refused e)
  then show ?thesis using inv by (simp add: strategies_inv_def)
next
  case (claimed store b l1 p)
  let ?sc = "(su_stream sub, su_group sub)"
  note l1 = reserve_strategy_simps [OF claimed(2)]
  note fr = acquire_claim_frame [OF claimed(5)]
  have bound: "leases_bound l' (add_call c' M)" if "\<And>d. c' = Some d \<Longrightarrow> call_lease d = None" for c'
    by (rule leases_bound_mono [OF inv(2)]) (use fr l1 in \<open>cases c'; auto simp: lease_bound_def\<close>)+
  show ?thesis
  proof (cases x)
    case (Inl e)
    have "lg_pending_group_strategies l' = lg_pending_group_strategies l"
      using fr(4) [OF Inl] reserve_then_release [OF claimed(2) inv(1)] by simp
    then show ?thesis
      using Inl strategies_ok_frame [OF inv(1), of l'] bound [of None] fr l1 by (simp add: strategies_inv_def)
  next
    case (Inr aq)
    note aq = acquire_claim_Inr [OF claimed(5) [unfolded Inr]]
    have pend: "lg_pending_group_strategies l' = lg_pending_group_strategies l1" using fr(5) [OF Inr] .
    have "strategies_ok l' (add_mset (Acquiring aq) M)"
      unfolding strategies_ok_def
    proof
      fix sc
      have ok: "scope_ok sc (lg_group_strategies l sc) (lg_pending_group_strategies l sc) M"
        using inv(1) unfolding strategies_ok_def by blast
      show "scope_ok sc (lg_group_strategies l' sc) (lg_pending_group_strategies l' sc) (add_mset (Acquiring aq) M)"
      proof (cases "sc = ?sc")
        case True
        have "lg_group_strategies l sc = None \<or> lg_group_strategies l sc = Some b"
          "lg_pending_group_strategies l sc = None \<and> lg_pending_group_strategies l1 sc = Some (b, 1) \<or>
           (\<exists>n. lg_pending_group_strategies l sc = Some (b, n) \<and> lg_pending_group_strategies l1 sc = Some (b, n + 1))"
          using claimed(2) True by (auto simp: reserve_strategy_def split: option.splits if_splits)
        from scope_ok_reserve [OF ok _ _ _ this, of "Acquiring aq" aq] show ?thesis
          using True by (simp add: aq fr l1 pend)
      next
        case False
        then have "\<not> in_scope sc (Acquiring aq)" by (simp add: in_scope_def aq)
        moreover have "lg_pending_group_strategies l1 sc = lg_pending_group_strategies l sc"
          using claimed(2) False by (auto simp: reserve_strategy_def split: option.splits if_splits)
        ultimately show ?thesis using ok by (simp add: scope_ok_other fr l1 pend)
      qed
    qed
    then show ?thesis using Inr bound [of "Some (Acquiring aq)"] by (simp add: strategies_inv_def)
  qed
qed

lemma call_advance_strategy_cases:
  assumes adv: "call_advance l ev c = (l', c')" and c: "call_ok l c"
  shows "(lg_pending_group_strategies l' = lg_pending_group_strategies l \<and>
      lg_group_strategies l' = lg_group_strategies l \<and>
      (case c' of Some d \<Rightarrow> call_acquisition d = call_acquisition c | None \<Rightarrow> call_acquisition c = None)) \<or>
    (\<exists>aq. call_acquisition c = Some aq \<and> c' = None \<and>
      lg_pending_group_strategies l' =
        lg_pending_group_strategies (release_strategy_reservation l (aq_scope aq) (aq_binding aq)) \<and>
      (lg_group_strategies l' = lg_group_strategies l \<or>
       lg_group_strategies l' = (lg_group_strategies l)(aq_scope aq \<mapsto> aq_binding aq) \<and>
       (\<exists>r. c = Initialized aq r)))"
proof -
  let ?same = "\<lambda>l'. lg_pending_group_strategies l' = lg_pending_group_strategies l \<and>
      lg_group_strategies l' = lg_group_strategies l"
  have take: "?same l1" if "acquire_take l aq = (x, l1)" for aq x l1
    using that by (auto simp: acquire_take_def acquire_supersede_def acquire_install_def Let_def
        split: sum.splits option.splits if_splits)
  have init: "?same l1" if "initialize_broker l clock r = (x, l1)" for clock r x l1
    using that by (auto simp: initialize_broker_def Let_def split: sum.splits if_splits)
  have nxt: "?same (snd (next_locked l r cu))" for r cu
    by (auto simp: next_locked_def Let_def split: sum.split option.split)
  have ck: "?same (snd (checkpoint_broker l r rec cu))" "?same (snd (checkpoint_external_finish l r))" for r rec cu
    by (auto simp: checkpoint_broker_def checkpoint_external_finish_def Let_def split: sum.split)
  have stop: "?same (lease_stop l r)" "?same (lease_release l r)" "?same (log_release l r)" for r
    by (simp_all add: lease_op_defs Let_def)
  have fr: "lg_pending_group_strategies (release_strategy_reservation (l\<lparr>lg_transfers := T\<rparr>) sc b) =
        lg_pending_group_strategies (release_strategy_reservation l sc b)"
    "lg_pending_group_strategies (release_strategy_reservation (update_lease (l\<lparr>lg_transfers := T\<rparr>) q f) sc b) =
        lg_pending_group_strategies (release_strategy_reservation l sc b)"
    "lg_pending_group_strategies (release_strategy_reservation (l\<lparr>lg_group_strategies := G\<rparr>) sc b) =
        lg_pending_group_strategies (release_strategy_reservation l sc b)" for T sc b q f G
    by (auto simp: fun_eq_iff release_reservation_pending)
  have cancel: "lg_pending_group_strategies (snd (cancel_acquire l aq)) =
        lg_pending_group_strategies (release_strategy_reservation l (aq_scope aq) (aq_binding aq)) \<and>
      lg_group_strategies (snd (cancel_acquire l aq)) = lg_group_strategies l"
    if "acquisition_ok l aq" for aq
    using that by (auto simp: cancel_acquire_def Let_def fr acquisition_ok_def split: option.split)
  show ?thesis
  proof (cases c)
    case (Acquiring aq)
    then show ?thesis using adv by (auto split: sum.splits prod.splits dest: take)
  next
    case (AcquireFailed aq)
    then show ?thesis using adv c cancel [of aq] by (auto simp: call_ok_def)
  next
    case (Initializing aq r)
    then show ?thesis using adv by (auto dest!: advance_initializing_cases dest: init)
  next
    case (Initialized aq r)
    then show ?thesis using adv by (auto simp: acquire_confirm_def fr)
  next
    case (InitFailed aq r)
    then show ?thesis using adv stop by auto
  next
    case (InitReleased aq)
    then show ?thesis using adv by (auto simp: drop_reservation_def)
  next
    case (Loading r)
    then show ?thesis using adv stop by (auto dest!: advance_loading_cases)
  next
    case (CkLoading r rec)
    then show ?thesis using adv stop by (auto dest!: advance_loading_cases)
  next
    case (CkSaving r rec k)
    then show ?thesis using adv stop by (auto split: sum.splits prod.splits dest!: checkpoint_saved_cases)
  qed (use adv nxt ck stop in \<open>auto split: sum.splits option.splits if_splits\<close>)
qed

lemma group_strategy_stable_advance:
  assumes "strategies_ok l (add_mset c M)" "call_advance l ev c = (l', c')" "call_ok l c"
    and g: "lg_group_strategies l sc = Some b"
  shows "lg_group_strategies l' sc = Some b"
proof -
  from call_advance_strategy_cases [OF assms(2,3)]
  consider "lg_group_strategies l' = lg_group_strategies l"
    | aq where "call_acquisition c = Some aq" "lg_group_strategies l' = (lg_group_strategies l)(aq_scope aq \<mapsto> aq_binding aq)"
    by blast
  then show ?thesis
  proof cases
    case (2 aq)
    have "b = aq_binding aq" if sc: "sc = aq_scope aq"
    proof -
      have ok: "scope_ok sc (lg_group_strategies l sc) (lg_pending_group_strategies l sc) (add_mset c M)"
        using assms(1) unfolding strategies_ok_def by blast
      obtain n where "lg_pending_group_strategies l sc = Some (aq_binding aq, n)"
        using scope_okD(4) [OF ok _ 2(1) sc [symmetric]] by auto
      with scope_okD(3) [OF ok _ g] show ?thesis by blast
    qed
    then show ?thesis using 2 g by auto
  qed (use g in simp)
qed

text \<open>Which leases a call may add or leave.\<close>

lemma call_advance_leases:
  assumes ok: "owners_ok l" and c: "call_ok l c" and adv: "call_advance l ev c = (l', c')"
    and r: "fmlookup (lg_leases l') k = Some r"
  shows "fmlookup (lg_leases l) k = Some r \<or> (\<exists>aq. c = Acquiring aq \<and> c' = Some (Initializing aq r))"
    and "c = InitFailed aq r \<Longrightarrow> False"
proof -
  have take: "fmlookup (lg_leases l) k = Some r \<or> x = Inr r"
    if tk: "acquire_take l aq = (x, l1)" "fmlookup (lg_leases l1) k = Some r" for aq x l1
  proof (cases x)
    case (Inl e)
    then show ?thesis
      using tk by (auto simp: acquire_take_def acquire_supersede_def Let_def
          split: sum.splits option.splits if_splits prod.splits dest!: acquire_install_Inl)
  next
    case (Inr r')
    obtain l2 where l2: "acquire_supersede l aq = (Inr (), l2)" "acquire_install l2 aq = (Inr r', l1)"
      using acquire_take_Inr tk Inr by blast
    have "fmlookup (lg_leases l2) k = Some r \<Longrightarrow> fmlookup (lg_leases l) k = Some r"
      using l2(1) by (auto simp: acquire_supersede_def Let_def split: option.splits if_splits)
    then show ?thesis
      using acquire_install_Inr(2) [OF l2(2)] tk Inr by (auto split: if_splits)
  qed
  have rel: "fmlookup (lg_leases (log_release l q)) k = Some r \<Longrightarrow> fmlookup (lg_leases l) k = Some r \<and> q \<noteq> r" for q
    using owners_okD [OF ok, of k r] by (auto simp: log_release_def Let_def split: if_splits)
  have lrel: "fmlookup (lg_leases (lease_release l q)) k = Some r \<Longrightarrow> fmlookup (lg_leases l) k = Some r \<and> q \<noteq> r" for q
    using rel [of q] owners_okD [OF ok, of k r] by (auto simp: lease_release_def split: if_splits)
  have same: "lg_leases (snd (cancel_acquire l aq)) = lg_leases l" "lg_leases (acquire_confirm l aq) = lg_leases l"
    "lg_leases (drop_reservation l aq) = lg_leases l" "lg_leases (lease_stop l q) = lg_leases l"
    "lg_leases (snd (next_locked l q cu)) = lg_leases l" "lg_leases (snd (checkpoint_broker l q rec cu)) = lg_leases l"
    "lg_leases (snd (checkpoint_external_finish l q)) = lg_leases l" for aq q cu rec
    by (auto simp: cancel_acquire_def acquire_confirm_def drop_reservation_def lease_stop_def next_locked_def
        checkpoint_broker_def checkpoint_external_finish_def Let_def split: option.split sum.split)
  have init: "lg_leases l1 = lg_leases l" if "initialize_broker l clock q = (x, l1)" for clock q x l1
    using that by (auto simp: initialize_broker_def Let_def split: sum.splits if_splits)
  show "fmlookup (lg_leases l) k = Some r \<or> (\<exists>aq. c = Acquiring aq \<and> c' = Some (Initializing aq r))"
  proof (cases c)
    case (Acquiring aq)
    then show ?thesis using adv r by (auto split: sum.splits prod.splits dest: take)
  next
    case (Initializing aq q)
    then show ?thesis using adv r by (auto dest!: advance_initializing_cases dest: init)
  next
    case (Loading q)
    then show ?thesis using adv r same by (auto dest!: advance_loading_cases)
  next
    case (CkLoading q rec)
    then show ?thesis using adv r same by (auto dest!: advance_loading_cases)
  next
    case (CkSaving q rec cu)
    then show ?thesis using adv r same by (auto split: sum.splits prod.splits dest!: checkpoint_saved_cases)
  next
    case (InitFailed aq q)
    then show ?thesis using adv r lrel by auto
  next
    case (Releasing q)
    then show ?thesis using adv r rel by auto
  qed (use adv r same in \<open>auto split: sum.splits option.splits if_splits\<close>)
  show False if "c = InitFailed aq r" using adv r lrel [of r] that by auto
qed

text \<open>Except when it ends, an acquisition keeps the lease it holds.\<close>

lemma call_advance_keeps_lease:
  assumes "call_advance l ev c = (l', c')" "call_acquisition c = Some aq" "call_lease c = Some r"
    and "\<And>aq. c \<noteq> Initialized aq r" "\<And>aq. c \<noteq> InitFailed aq r"
  shows "\<exists>d. c' = Some d \<and> call_acquisition d \<noteq> None \<and> call_lease d = Some r"
  using assms
  by (cases c) (auto split: sum.splits dest!: advance_initializing_cases)

lemma strategies_inv_advance:
  assumes lv: "owners_ok l" "call_ok l c" and inv: "strategies_ok l (add_mset c N)" "leases_bound l (add_mset c N)"
    and adv: "call_advance l ev c = (l', c')"
  shows "strategies_inv (A, l', add_call c' N)"
proof -
  have "strategies_ok l' (add_call c' N)"
    using call_advance_strategy_cases [OF adv lv(2)]
  proof (elim disjE exE conjE)
    assume same: "lg_pending_group_strategies l' = lg_pending_group_strategies l"
      "lg_group_strategies l' = lg_group_strategies l"
      and c': "case c' of Some d \<Rightarrow> call_acquisition d = call_acquisition c | None \<Rightarrow> call_acquisition c = None"
    have "strategies_ok l (add_call c' N)"
      using inv(1) c' strategies_ok_move strategies_ok_none by (cases c') auto
    then show ?thesis using strategies_ok_frame same by blast
  next
    fix aq
    assume "call_acquisition c = Some aq" "c' = None" "lg_pending_group_strategies l' =
        lg_pending_group_strategies (release_strategy_reservation l (aq_scope aq) (aq_binding aq))"
      "lg_group_strategies l' = lg_group_strategies l"
    then show ?thesis using strategies_ok_release [OF inv(1), of aq l'] by simp
  next
    fix aq q
    assume "call_acquisition c = Some aq" "c' = None" "lg_pending_group_strategies l' =
        lg_pending_group_strategies (release_strategy_reservation l (aq_scope aq) (aq_binding aq))"
      "lg_group_strategies l' = (lg_group_strategies l)(aq_scope aq \<mapsto> aq_binding aq)"
    then show ?thesis using strategies_ok_release [OF inv(1), of aq l'] by simp
  qed
  moreover have "leases_bound l' (add_call c' N)"
    unfolding leases_bound_def
  proof (intro allI impI)
    fix k r
    assume r: "fmlookup (lg_leases l') k = Some r"
    have ok': "owners_ok l'" using call_advance_owners [OF lv adv] .
    have key: "ls_key (lg_heap l' r) = k" using owners_okD(2) [OF ok' r] .
    from call_advance_leases(1) [OF lv adv r] show "lease_bound l' (add_call c' N) k r"
    proof
      assume "\<exists>aq. c = Acquiring aq \<and> c' = Some (Initializing aq r)"
      then show ?thesis by (auto simp: lease_bound_def)
    next
      assume old: "fmlookup (lg_leases l) k = Some r"
      have store: "ls_store (lg_heap l' r) = ls_store (lg_heap l r)"
        using call_advance_grows [OF adv] owners_okD(1) [OF lv(1) old] by (auto simp: heap_grows_def)
      have "lease_bound l (add_mset c N) k r" using inv(2) old unfolding leases_bound_def by blast
      then consider
          (conf) b where "lg_group_strategies l (key_scope k) = Some b" "sb_store b = ls_store (lg_heap l r)"
        | (other) d where "d \<in># N" "call_acquisition d \<noteq> None" "call_lease d = Some r"
        | (own) aq where "call_acquisition c = Some aq" "call_lease c = Some r"
        unfolding lease_bound_def by auto
      then show ?thesis
      proof cases
        case (conf b)
        then show ?thesis
          using group_strategy_stable_advance [OF inv(1) adv lv(2) conf(1)] store by (auto simp: lease_bound_def)
      next
        case (other d)
        then show ?thesis by (cases c') (auto simp: lease_bound_def)
      next
        case (own aq)
        have aq_ok: "acquisition_ok l aq" "ls_key (lg_heap l r) = aq_key aq" "ls_store (lg_heap l r) = aq_store aq"
          using lv(2) own by (auto simp: call_ok_def)
        show ?thesis
        proof (cases "\<exists>aq. c = Initialized aq r")
          case True
          then have "c = Initialized aq r" using own by auto
          then have "lg_group_strategies l' (aq_scope aq) = Some (aq_binding aq)"
            using adv by (auto simp: acquire_confirm_def)
          then show ?thesis
            using aq_ok store key owners_okD(2) [OF lv(1) old]
            by (auto simp: lease_bound_def acquisition_ok_def key_scope_def)
        next
          case False
          have nf: "c \<noteq> InitFailed aq' r" for aq' using call_advance_leases(2) [OF lv adv r] by blast
          from call_advance_keeps_lease [OF adv own _ nf] False obtain d
            where "c' = Some d" "call_acquisition d \<noteq> None" "call_lease d = Some r" by blast
          then show ?thesis by (auto simp: lease_bound_def)
        qed
      qed
    qed
  qed
  ultimately show ?thesis by (simp add: strategies_inv_def)
qed

lemma strategies_inv_step:
  assumes lv: "leases_inv (A, l, M)" and inv: "strategies_inv (A, l, M)"
    and step: "ps_step (A, l, M) (A', l', M')"
  shows "strategies_inv (A', l', M')"
proof -
  have ok: "owners_ok l" and calls: "\<And>c. c \<in># M \<Longrightarrow> call_ok l c"
    using lv by (auto simp: leases_inv_def)
  have st: "strategies_ok l M" and bd: "leases_bound l M"
    using inv by (auto simp: strategies_inv_def)
  have frame: "strategies_inv (A', l1, M)"
    if "lg_pending_group_strategies l1 = lg_pending_group_strategies l"
      "lg_group_strategies l1 = lg_group_strategies l"
      "\<And>k r. fmlookup (lg_leases l1) k = Some r \<Longrightarrow> fmlookup (lg_leases l) k = Some r"
      "\<And>r. ls_store (lg_heap l1 r) = ls_store (lg_heap l r)" for l1
  proof -
    have "leases_bound l1 M"
      by (rule leases_bound_mono [OF bd]) (use that in \<open>auto simp: lease_bound_def\<close>)
    with strategies_ok_frame [OF st that(1,2)] show ?thesis by (simp add: strategies_inv_def)
  qed
  from step show ?thesis
  proof (cases rule: ps_step_lease_cases)
    case (other S b q)
    then show ?thesis using frame [of l'] by simp
  next
    case close
    then show ?thesis using frame [of l'] by (simp add: log_close_def complete_delivery_def)
  next
    case (claim sub part strat tr x)
    then show ?thesis using strategies_inv_claim [OF st bd claim(1,2), of A'] by simp
  next
    case (stop r)
    then show ?thesis using frame [of l'] by (simp add: lease_stop_def complete_delivery_def)
  next
    case (start r c)
    have "leases_bound l (add_call (Some c) M)"
      by (rule leases_bound_mono [OF bd]) (auto simp: lease_bound_def)
    then show ?thesis
      using start st strategies_ok_none [OF start(5), of l M] by (simp add: strategies_inv_def)
  next
    case (advance N c ev c')
    then show ?thesis
      using strategies_inv_advance [OF ok _ _ _ advance(3), of N A'] calls st bd by simp
  next
    case (cancel N c)
    show ?thesis
    proof (cases "call_cancel c")
      case None
      then have "call_acquisition c = None" by (cases c) auto
      then have "strategies_ok l N" "leases_bound l (add_call None N)"
        using st bd cancel strategies_ok_none leases_bound_move [of l c N l None] by auto
      then show ?thesis using cancel None by (simp add: strategies_inv_def)
    next
      case (Some d)
      have "call_acquisition d = call_acquisition c" "call_acquisition c \<noteq> None \<longrightarrow> call_lease d = call_lease c"
        using Some by (cases c; auto)+
      then have "strategies_ok l (add_mset d N)" "leases_bound l (add_call (Some d) N)"
        using st bd cancel strategies_ok_move leases_bound_move [of l c N l "Some d"] by auto
      then show ?thesis using cancel Some by (simp add: strategies_inv_def)
    qed
  qed
qed

lemma strategies_inv_reachable: "ps_reachable s \<Longrightarrow> strategies_inv s"
proof (induction rule: ps_reachable.induct)
  case (init n heap l)
  then show ?case
    by (auto simp: new_log_def strategies_inv_def strategies_ok_def scope_ok_def leases_bound_def split: sum.splits)
next
  case (step s s')
  obtain A l M A' l' M' where "s = (A, l, M)" "s' = (A', l', M')"
    by (cases s, cases s') auto
  then show ?case using strategies_inv_step leases_inv_reachable step by blast
qed

text \<open>The strategy of a live lease, as the group or the reservation records it.\<close>

lemma live_lease_binding:
  assumes reach: "ps_reachable (A, l, M)" and k: "fmlookup (lg_leases l) k = Some r"
  shows "\<exists>b. sb_store b = ls_store (lg_heap l r) \<and>
    (lg_group_strategies l (key_scope k) = Some b \<or> (\<exists>n. lg_pending_group_strategies l (key_scope k) = Some (b, n)))"
proof -
  have inv: "strategies_ok l M" "leases_bound l M" and calls: "\<And>c. c \<in># M \<Longrightarrow> call_ok l c" and ok: "owners_ok l"
    using strategies_inv_reachable [OF reach] leases_inv_reachable [OF reach]
    by (auto simp: strategies_inv_def leases_inv_def)
  have "lease_bound l M k r" using inv(2) k unfolding leases_bound_def by blast
  then show ?thesis
    unfolding lease_bound_def
  proof
    assume "\<exists>c\<in>#M. call_acquisition c \<noteq> None \<and> call_lease c = Some r"
    then obtain c aq where c: "c \<in># M" "call_acquisition c = Some aq" "call_lease c = Some r" by auto
    have aq: "acquisition_ok l aq" "ls_key (lg_heap l r) = aq_key aq" "ls_store (lg_heap l r) = aq_store aq"
      using calls [OF c(1)] c by (auto simp: call_ok_def)
    then have sc: "aq_scope aq = key_scope k" "sb_store (aq_binding aq) = ls_store (lg_heap l r)"
      using owners_okD(2) [OF ok k] by (auto simp: acquisition_ok_def key_scope_def)
    have "scope_ok (key_scope k) (lg_group_strategies l (key_scope k)) (lg_pending_group_strategies l (key_scope k)) M"
      using inv(1) unfolding strategies_ok_def by blast
    from scope_okD(4) [OF this c(1,2) sc(1)] sc(2) show ?thesis by blast
  qed blast
qed

lemma live_leases_agree:
  assumes reach: "ps_reachable (A, l, M)"
    and k: "fmlookup (lg_leases l) k = Some r" "fmlookup (lg_leases l) k' = Some r'"
    and sc: "key_scope k = key_scope k'"
  shows "ls_store (lg_heap l r) = ls_store (lg_heap l r')"
proof -
  have ok: "scope_ok (key_scope k) (lg_group_strategies l (key_scope k)) (lg_pending_group_strategies l (key_scope k)) M"
    using strategies_inv_reachable [OF reach] unfolding strategies_inv_def strategies_ok_def
    by (simp add: key_scope_def)
  obtain b where b: "sb_store b = ls_store (lg_heap l r)"
    "lg_group_strategies l (key_scope k) = Some b \<or> (\<exists>n. lg_pending_group_strategies l (key_scope k) = Some (b, n))"
    using live_lease_binding [OF reach k(1)] by blast
  obtain b' where b': "sb_store b' = ls_store (lg_heap l r')"
    "lg_group_strategies l (key_scope k) = Some b' \<or> (\<exists>n. lg_pending_group_strategies l (key_scope k) = Some (b', n))"
    using live_lease_binding [OF reach k(2)] sc by auto
  have "b = b'" using b(2) b'(2) scope_okD(3) [OF ok] by auto
  with b b' show ?thesis by simp
qed

lemma group_strategy_stable:
  assumes lv: "leases_inv (A, l, M)" and inv: "strategies_inv (A, l, M)"
    and step: "ps_step (A, l, M) (A', l', M')" and g: "lg_group_strategies l sc = Some b"
  shows "lg_group_strategies l' sc = Some b"
  using step
proof (cases rule: ps_step_lease_cases)
  case (claim sub part st tr x)
  have "lg_group_strategies l' = lg_group_strategies l"
    using claim(2,1)
  proof (cases rule: acquire_begin_cases)
    case (claimed store c l1 p)
    then show ?thesis
      using acquire_claim_frame(2) [OF claimed(5)] reserve_strategy_simps(7) [OF claimed(2)] by simp
  qed simp
  then show ?thesis using g by simp
next
  case (advance N c ev c')
  then show ?thesis
    using group_strategy_stable_advance [OF _ advance(3) _ g, of N] lv inv
    by (simp add: leases_inv_def strategies_inv_def)
qed (use g in \<open>auto simp: log_close_def lease_stop_def\<close>)

end
