(* ===== verification/Streams_Transfers.thy ===== *)
theory Streams_Transfers
  imports Streams_Ownership
begin

text \<open>
  Forced transfer of a partition. A transfer marks the key, asks the current lease to stop taking
  records, and waits for its delivery. When it takes the partition, the lease it waited for has no
  delivery in flight.
\<close>

text \<open>The marker an acquisition has placed and may still redeem.\<close>

fun call_marker :: "call \<Rightarrow> nat option" where
  "call_marker (Acquiring aq) = aq_marker aq"
| "call_marker _ = None"

definition marked :: "nat \<Rightarrow> call \<Rightarrow> bool" where
  "marked m c \<longleftrightarrow> call_marker c = Some m"

definition marker_count :: "nat \<Rightarrow> call multiset \<Rightarrow> nat" where
  "marker_count m M = size (filter_mset (marked m) M)"

lemma marker_count_simps [simp]:
  "marker_count m {#} = 0"
  "marker_count m (add_mset c M) = (if marked m c then 1 else 0) + marker_count m M"
  by (simp_all add: marker_count_def)

lemma marker_count_pos: "c \<in># M \<Longrightarrow> marked m c \<Longrightarrow> 0 < marker_count m M"
  by (auto dest!: multi_member_split)

definition transfer_ok :: "log \<Rightarrow> acquisition \<Rightarrow> bool" where
  [inv_defs]: "transfer_ok l aq \<longleftrightarrow>
     (\<forall>m cur. aq_marker aq = Some m \<and> aq_current aq = Some cur \<and> lg_transfers l (aq_key aq) = Some m \<longrightarrow>
        fmlookup (lg_leases l) (aq_key aq) = Some cur \<or> ls_released (lg_heap l cur))"

definition transfers_ok :: "log \<Rightarrow> call multiset \<Rightarrow> bool" where
  [inv_defs]: "transfers_ok l M \<longleftrightarrow>
     (\<forall>m. marker_count m M \<le> 1) \<and> (\<forall>m k. lg_transfers l k = Some m \<longrightarrow> m < lg_fresh_marker l) \<and>
     (\<forall>aq. Acquiring aq \<in># M \<longrightarrow> transfer_ok l aq)"

lemma transfers_okD:
  assumes "transfers_ok l M"
  shows "marker_count m M \<le> 1" "lg_transfers l k = Some m \<Longrightarrow> m < lg_fresh_marker l"
    "Acquiring aq \<in># M \<Longrightarrow> transfer_ok l aq"
  using assms unfolding transfers_ok_def by blast+

lemma transfers_okI:
  assumes "\<And>m. marker_count m M \<le> 1" "\<And>m k. lg_transfers l k = Some m \<Longrightarrow> m < lg_fresh_marker l"
    "\<And>aq. Acquiring aq \<in># M \<Longrightarrow> transfer_ok l aq"
  shows "transfers_ok l M"
  using assms unfolding transfers_ok_def by blast

section \<open>Effects on the table of leases\<close>

text \<open>
  What every step but a transfer does: a lease leaves the table by being released, and a marker
  disappears or stays.
\<close>

definition tables_shrink :: "log \<Rightarrow> log \<Rightarrow> bool" where
  "tables_shrink l l' \<longleftrightarrow>
     (\<forall>k r. fmlookup (lg_leases l) k = Some r \<longrightarrow>
        fmlookup (lg_leases l') k = Some r \<or> ls_released (lg_heap l' r)) \<and>
     (\<forall>k m. lg_transfers l' k = Some m \<longrightarrow> lg_transfers l k = Some m)"

lemma transfer_ok_shrink:
  assumes "transfer_ok l aq" "heap_grows l l'" "tables_shrink l l'" "acquisition_ok l aq"
  shows "transfer_ok l' aq"
  unfolding transfer_ok_def
proof (intro allI impI, elim conjE)
  fix m cur
  assume m: "aq_marker aq = Some m" "aq_current aq = Some cur" "lg_transfers l' (aq_key aq) = Some m"
  then have "lg_transfers l (aq_key aq) = Some m" using assms(3) by (simp add: tables_shrink_def)
  then have cur: "fmlookup (lg_leases l) (aq_key aq) = Some cur \<or> ls_released (lg_heap l cur)"
    using assms(1) m by (simp add: transfer_ok_def)
  have "cur < lg_fresh l" using assms(4) m by (simp add: acquisition_ok_def)
  then have "ls_released (lg_heap l cur) \<Longrightarrow> ls_released (lg_heap l' cur)"
    using assms(2) by (simp add: heap_grows_def)
  then show "fmlookup (lg_leases l') (aq_key aq) = Some cur \<or> ls_released (lg_heap l' cur)"
    using cur assms(3) by (auto simp: tables_shrink_def)
qed

lemma tables_shrink_same:
  "lg_leases l' = lg_leases l \<Longrightarrow> lg_transfers l' = lg_transfers l \<Longrightarrow> tables_shrink l l'"
  by (simp add: tables_shrink_def)

lemma tables_shrink_release:
  assumes "owners_ok l"
  shows "tables_shrink l (log_release l r)" "tables_shrink l (lease_release l r)"
proof -
  have "fmlookup (lg_leases (log_release l r)) k = Some r' \<or> ls_released (lg_heap (log_release l r) r')"
    if "fmlookup (lg_leases l) k = Some r'" for k r'
    using owners_okD(2) [OF assms that] that
    by (auto simp: log_release_def complete_delivery_def Let_def)
  then show 1: "tables_shrink l (log_release l r)"
    by (auto simp: tables_shrink_def log_release_def Let_def)
  then show "tables_shrink l (lease_release l r)"
    by (auto simp: lease_release_def tables_shrink_same)
qed

lemma tables_shrink_close: "tables_shrink l (log_close l)"
  by (auto simp: tables_shrink_def log_close_def complete_delivery_def fmranI)

lemma call_advance_shrinks:
  assumes ok: "owners_ok l" and c: "\<And>aq. c \<noteq> Acquiring aq" and adv: "call_advance l ev c = (l', c')"
  shows "tables_shrink l l'"
proof -
  have cancel: "tables_shrink l (snd (cancel_acquire l aq))" for aq
    by (auto simp: cancel_acquire_def tables_shrink_def Let_def split: option.split)
  have init: "tables_shrink l l1" if "initialize_broker l clock q = (x, l1)" for clock q x l1
    using that by (intro tables_shrink_same) (auto simp: initialize_broker_def Let_def split: sum.splits if_splits)
  have refl: "tables_shrink l l" by (simp add: tables_shrink_def)
  have same: "tables_shrink l (acquire_confirm l aq)" "tables_shrink l (drop_reservation l aq)"
    "tables_shrink l (lease_stop l q)" "tables_shrink l (snd (next_locked l q cu))"
    "tables_shrink l (snd (checkpoint_broker l q rec cu))" "tables_shrink l (snd (checkpoint_external_finish l q))"
    for aq q cu rec
    by (auto intro!: tables_shrink_same simp: acquire_confirm_def drop_reservation_def lease_stop_def
        next_locked_def checkpoint_broker_def checkpoint_external_finish_def Let_def
        split: sum.split option.split)
  show ?thesis
  proof (cases c)
    case (Initializing aq q)
    then show ?thesis using adv refl init by (auto dest!: advance_initializing_cases)
  next
    case (Loading q)
    then show ?thesis using adv refl same by (auto dest!: advance_loading_cases)
  next
    case (CkLoading q rec)
    then show ?thesis using adv refl same by (auto dest!: advance_loading_cases)
  next
    case (CkSaving q rec cu)
    then show ?thesis using adv refl same by (auto split: sum.splits prod.splits dest!: checkpoint_saved_cases)
  qed (use adv c cancel refl same tables_shrink_release [OF ok] in \<open>auto split: sum.splits option.splits if_splits\<close>)
qed

section \<open>The invariant\<close>

lemma acquire_supersede_Inr:
  assumes "acquire_supersede l aq = (Inr (), l1)"
  shows "aq_marker aq = None \<Longrightarrow> l1 = l \<and> fmlookup (lg_leases l) (aq_key aq) = None"
    and "aq_marker aq = Some m \<Longrightarrow> lg_transfers l (aq_key aq) = Some m \<and>
      lg_transfers l1 = (lg_transfers l)(aq_key aq := None) \<and>
      (fmlookup (lg_leases l) (aq_key aq) = aq_current aq \<longrightarrow>
        (\<exists>cur. aq_current aq = Some cur \<and> ls_in_flight (lg_heap l cur) = None))"
    and "k \<noteq> aq_key aq \<Longrightarrow> fmlookup (lg_leases l1) k = fmlookup (lg_leases l) k"
  using assms by (auto simp: acquire_supersede_def Let_def split: option.splits if_splits)

text \<open>Taking a partition does not disturb the other transfers.\<close>

lemma transfer_ok_take:
  assumes tk: "acquire_take l aq = (Inr r, l')" and ok: "transfer_ok l aq'" "acquisition_ok l aq'"
    and other: "\<And>m. aq_marker aq' = Some m \<Longrightarrow> aq_marker aq \<noteq> Some m"
  shows "transfer_ok l' aq'"
proof -
  obtain l1 where l1: "acquire_supersede l aq = (Inr (), l1)" "acquire_install l1 aq = (Inr r, l')"
    using acquire_take_Inr [OF tk] by blast
  note sup = acquire_supersede_Inr [OF l1(1)] and heap = acquire_supersede_heap [OF l1(1)]
  note l' = acquire_install_Inr [OF l1(2)]
  have grows: "heap_grows l l'" using acquire_take_grows [OF tk] .
  show ?thesis
    unfolding transfer_ok_def
  proof (intro allI impI, elim conjE)
    fix m cur
    assume m: "aq_marker aq' = Some m" "aq_current aq' = Some cur" "lg_transfers l' (aq_key aq') = Some m"
    have tr: "lg_transfers l (aq_key aq') = Some m" and ne: "aq_marker aq \<noteq> None \<Longrightarrow> aq_key aq' \<noteq> aq_key aq"
      using m l'(2) sup(1,2) by (cases "aq_marker aq"; auto split: if_splits)+
    have cur: "fmlookup (lg_leases l) (aq_key aq') = Some cur \<or> ls_released (lg_heap l cur)"
      using ok(1) m(1,2) tr unfolding transfer_ok_def by blast
    then show "fmlookup (lg_leases l') (aq_key aq') = Some cur \<or> ls_released (lg_heap l' cur)"
    proof
      assume "ls_released (lg_heap l cur)"
      moreover have "cur < lg_fresh l" using ok(2) m by (auto simp: acquisition_ok_def)
      ultimately show ?thesis using grows by (auto simp: heap_grows_def)
    next
      assume cur: "fmlookup (lg_leases l) (aq_key aq') = Some cur"
      have "aq_key aq' \<noteq> aq_key aq" using ne sup(1) cur by (cases "aq_marker aq") auto
      then show ?thesis using cur l'(2) sup(3) by simp
    qed
  qed
qed

lemma acquire_take_Inl_shrinks:
  assumes "acquire_take l aq = (Inl e, l')" and ok: "owners_ok l" "acquisition_ok l aq"
  shows "l' = l"
proof -
  have "mk_ownership_token (Inst (su_owner_id (aq_subscription aq))) (Inst (next_generation l1 k)) =
      Inr \<lparr>ot_owner_id = su_owner_id (aq_subscription aq), ot_generation = next_generation l1 k\<rparr>"
    if "lg_generations l1 = lg_generations l" for l1 k
  proof -
    have "0 < g" if "lg_generations l k = Some g" for g
      using ok(1) that unfolding owners_ok_def by blast
    then have "0 < next_generation l1 k"
      using that by (cases "lg_generations l k") (auto simp: next_generation_def add_pos_pos)
    then show ?thesis
      using ok(2) by (simp add: mk_ownership_token_def acquisition_ok_def subscription_ok_def)
  qed
  then have no: "acquire_install l1 aq \<noteq> (Inl e, l')" if "acquire_supersede l aq = (Inr (), l1)" for l1
    using acquire_supersede_heap(3) [OF that]
    by (simp add: acquire_install_def next_generation_def Let_def)
  show ?thesis
  proof (cases "acquire_supersede l aq")
    case (Pair x l1)
    then show ?thesis
      using assms(1) no
      by (cases x) (auto simp: acquire_take_def acquire_supersede_def Let_def
          split: sum.splits option.splits if_splits)
  qed
qed

lemma marker_count_fresh:
  assumes "\<And>c. c \<in># M \<Longrightarrow> call_ok l c" and "lg_fresh_marker l \<le> m"
  shows "marker_count m M = 0"
proof -
  have "\<not> marked m c" if "c \<in># M" for c
    using assms(1) [OF that] assms(2) by (cases c) (auto simp: marked_def call_ok_def acquisition_ok_def)
  then show ?thesis by (simp add: marker_count_def filter_mset_False)
qed

lemma call_advance_not_acquiring:
  assumes "call_advance l ev c = (l', Some c')"
  shows "c' \<noteq> Acquiring aq"
  using assms
  by (cases c) (auto split: sum.splits prod.splits option.splits if_splits
      dest!: advance_initializing_cases advance_loading_cases)

lemma transfers_ok_shrink:
  assumes calls: "\<And>c. c \<in># M \<Longrightarrow> call_ok l c" and inv: "transfers_ok l M"
    and l': "heap_grows l l'" "tables_shrink l l'"
  shows "transfers_ok l' M"
proof -
  have "transfer_ok l' aq" if "Acquiring aq \<in># M" for aq
    using transfer_ok_shrink [OF transfers_okD(3) [OF inv that] l'] calls [OF that] by (simp add: call_ok_def)
  moreover have "m < lg_fresh_marker l'" if "lg_transfers l' k = Some m" for k m
  proof -
    have "m < lg_fresh_marker l"
      using transfers_okD(2) [OF inv, of k m] l'(2) that by (simp add: tables_shrink_def)
    then show ?thesis using l'(1) by (simp add: heap_grows_def)
  qed
  ultimately show ?thesis using transfers_okD(1) [OF inv] by (intro transfers_okI) blast+
qed

lemma transfers_ok_sub:
  assumes "transfers_ok l (add_mset c M)" "\<And>aq. c' \<noteq> Some (Acquiring aq)"
  shows "transfers_ok l (add_call c' M)"
proof -
  have "\<not> marked m d" if "c' = Some d" for m d
    using assms(2) that by (cases d) (auto simp: marked_def)
  then have "marker_count m (add_call c' M) \<le> marker_count m (add_mset c M)" for m
    by (cases c') auto
  moreover have "Acquiring aq \<in># M" if "Acquiring aq \<in># add_call c' M" for aq
    using assms(2) that by (cases c') auto
  ultimately show ?thesis
    using transfers_okD [OF assms(1)] by (intro transfers_okI) (auto intro: order_trans)
qed

lemma transfers_ok_claim:
  assumes calls: "\<And>c. c \<in># M \<Longrightarrow> call_ok l c" and inv: "transfers_ok l M" and sub: "subscription_ok sub"
    and x: "acquire_begin l sub part st tr = (Inr aq, l')"
  shows "transfers_ok l' (add_mset (Acquiring aq) M)"
  using x sub
proof (cases rule: acquire_begin_cases)
  case (claimed store b l1 p)
  let ?k = "\<lparr>ck_stream = su_stream sub, ck_group = su_group sub, ck_partition = p\<rparr>"
  note l1 = reserve_strategy_simps [OF claimed(2)]
  note aq = acquire_claim_Inr [OF claimed(5)]
  have leases: "lg_leases l' = lg_leases l"
    using claimed(5) l1 by (auto simp: acquire_claim_def Let_def split: option.splits if_splits)
  have grows: "heap_grows l l'" using acquire_begin_grows [OF x] .
  have markers: "m < lg_fresh_marker l" if "lg_transfers l k = Some m" for k m
    using transfers_okD(2) [OF inv that] .
  have old: "transfer_ok l' aq'" if "Acquiring aq' \<in># M" for aq'
    unfolding transfer_ok_def
  proof (intro allI impI, elim conjE)
    fix m cur
    assume m: "aq_marker aq' = Some m" "aq_current aq' = Some cur" "lg_transfers l' (aq_key aq') = Some m"
    have ok: "acquisition_ok l aq'" using calls [OF that] by (simp add: call_ok_def)
    then have "m < lg_fresh_marker l" "cur < lg_fresh l" using m by (auto simp: acquisition_ok_def)
    then have "lg_transfers l (aq_key aq') = Some m"
      using m(3) aq(9) l1 by (auto split: if_splits)
    then have "fmlookup (lg_leases l) (aq_key aq') = Some cur \<or> ls_released (lg_heap l cur)"
      using transfers_okD(3) [OF inv that] m by (simp add: transfer_ok_def)
    then show "fmlookup (lg_leases l') (aq_key aq') = Some cur \<or> ls_released (lg_heap l' cur)"
      using leases grows \<open>cur < lg_fresh l\<close> by (auto simp: heap_grows_def)
  qed
  have new: "transfer_ok l' aq" by (simp add: transfer_ok_def leases aq l1)
  have count: "marker_count m (add_mset (Acquiring aq) M) \<le> 1" for m
  proof (cases "marked m (Acquiring aq)")
    case True
    then have "m = lg_fresh_marker l" using aq(7) l1 by (auto simp: marked_def split: if_splits)
    then show ?thesis using marker_count_fresh [OF calls] by simp
  next
    case False
    then show ?thesis using transfers_okD(1) [OF inv] by simp
  qed
  have "m < lg_fresh_marker l'" if "lg_transfers l' k = Some m" for k m
    using that markers [of k m] aq(8,9) l1 by (auto split: if_splits)
  with old new count show ?thesis by (intro transfers_okI) auto
qed simp

lemma transfers_ok_take:
  assumes ok: "owners_ok l" and calls: "\<And>c. c \<in># add_mset (Acquiring aq) N \<Longrightarrow> call_ok l c"
    and inv: "transfers_ok l (add_mset (Acquiring aq) N)"
    and adv: "call_advance l ev (Acquiring aq) = (l', c')"
  shows "transfers_ok l' (add_call c' N)"
proof -
  have aq_ok: "acquisition_ok l aq" using calls [of "Acquiring aq"] by (simp add: call_ok_def)
  have c': "\<And>aq'. c' \<noteq> Some (Acquiring aq')" using call_advance_not_acquiring adv by blast
  obtain x where x: "acquire_take l aq = (x, l')"
    using adv by (auto split: sum.splits prod.splits)
  show ?thesis
  proof (cases x)
    case (Inl e)
    then have "l' = l" using acquire_take_Inl_shrinks ok aq_ok x by blast
    then show ?thesis using transfers_ok_sub [OF inv c'] by simp
  next
    case (Inr r)
    note tk = x [unfolded Inr]
    obtain l1 where l1: "acquire_supersede l aq = (Inr (), l1)" "acquire_install l1 aq = (Inr r, l')"
      using acquire_take_Inr [OF tk] by blast
    have "transfer_ok l' aq'" if "Acquiring aq' \<in># N" for aq'
    proof (rule transfer_ok_take [OF tk])
      show "transfer_ok l aq'" using transfers_okD(3) [OF inv] that by simp
      show "acquisition_ok l aq'" using calls [of "Acquiring aq'"] that by (simp add: call_ok_def)
      fix m
      assume m: "aq_marker aq' = Some m"
      show "aq_marker aq \<noteq> Some m"
      proof
        assume "aq_marker aq = Some m"
        then have "2 \<le> marker_count m (add_mset (Acquiring aq) N)"
          using marker_count_pos [OF that, of m] m by (simp add: marked_def)
        moreover have "marker_count m (add_mset (Acquiring aq) N) \<le> 1"
          using transfers_okD(1) [OF inv] .
        ultimately show False by simp
      qed
    qed
    moreover have "lg_transfers l k = Some m" if "lg_transfers l' k = Some m" for k m
      using that acquire_install_Inr(2) [OF l1(2)] acquire_supersede_Inr(1,2) [OF l1(1)]
      by (cases "aq_marker aq") (auto split: if_splits)
    moreover have "lg_fresh_marker l \<le> lg_fresh_marker l'"
      using acquire_take_grows [OF tk] by (simp add: heap_grows_def)
    moreover have "Acquiring aq' \<in># N" if "Acquiring aq' \<in># add_call c' N" for aq'
      using c' that by (cases c') auto
    moreover have "m < lg_fresh_marker l" if "lg_transfers l k = Some m" for k m
      using transfers_okD(2) [OF inv that] .
    ultimately show ?thesis
      using transfers_okD(1) [OF transfers_ok_sub [OF inv c']]
      by (intro transfers_okI) (blast intro: order.strict_trans2)+
  qed
qed

lemma transfers_ok_step:
  assumes lv: "leases_inv (A, l, M)" and inv: "transfers_ok l M"
    and step: "ps_step (A, l, M) (A', l', M')"
  shows "transfers_ok l' M'"
proof -
  have ok: "owners_ok l" and calls: "\<And>c. c \<in># M \<Longrightarrow> call_ok l c"
    using lv by (auto simp: leases_inv_def)
  note shrink = transfers_ok_shrink [OF calls inv step_grows [OF step]]
  from step show ?thesis
  proof (cases rule: ps_step_lease_cases)
    case (claim sub part st tr x)
    show ?thesis
    proof (cases x)
      case (Inl e)
      have "tables_shrink l l'"
        using claim(2,1)
      proof (cases rule: acquire_begin_cases)
        case (claimed store b l1 p)
        then show ?thesis
          using reserve_strategy_simps [OF claimed(2)] Inl
          by (intro tables_shrink_same) (auto simp: acquire_claim_def Let_def split: option.splits if_splits)
      qed (simp add: tables_shrink_same)
      then show ?thesis using claim Inl shrink by simp
    next
      case (Inr aq)
      then show ?thesis using transfers_ok_claim [OF calls inv claim(1)] claim by simp
    qed
  next
    case (start r c)
    have "\<not> marked m c" for m using start(6) by (auto simp: marked_def)
    then show ?thesis using transfers_okD [OF inv] start by (intro transfers_okI) auto
  next
    case (advance N c ev c')
    show ?thesis
    proof (cases "\<exists>aq. c = Acquiring aq")
      case True
      then obtain aq where aq: "c = Acquiring aq" ..
      have "transfers_ok l' (add_call c' N)"
        by (rule transfers_ok_take [OF ok, of aq N ev]) (use advance aq calls inv in auto)
      then show ?thesis using advance by simp
    next
      case False
      then have "tables_shrink l l'" using call_advance_shrinks [OF ok _ advance(3)] by blast
      then have "transfers_ok l' (add_mset c N)" using shrink advance by simp
      then show ?thesis
        using transfers_ok_sub [of l' c N c'] call_advance_not_acquiring [of l ev c l'] advance by auto
    qed
  next
    case (cancel N c)
    have "call_cancel c \<noteq> Some (Acquiring aq)" for aq by (cases c) auto
    then show ?thesis
      using transfers_ok_sub [of l c N "call_cancel c"] inv cancel by auto
  next
    case (other S b q)
    then show ?thesis using shrink tables_shrink_same [of l' l] by simp
  next
    case close
    then show ?thesis using shrink tables_shrink_close by simp
  next
    case (stop r)
    then show ?thesis using shrink tables_shrink_same [of l' l] by (simp add: lease_stop_def)
  qed
qed

lemma transfers_ok_reachable: "ps_reachable s \<Longrightarrow> case s of (A, l, M) \<Rightarrow> transfers_ok l M"
proof (induction rule: ps_reachable.induct)
  case (init n heap l)
  then show ?case by (auto simp: new_log_def transfers_ok_def split: sum.splits)
next
  case (step s s')
  obtain A l M A' l' M' where "s = (A, l, M)" "s' = (A', l', M')"
    by (cases s, cases s') auto
  then show ?case using transfers_ok_step [of A l M A' l' M'] leases_inv_reachable [of s] step by simp
qed

lemma transfer_waits_for_delivery:
  assumes reach: "ps_reachable (A, l, add_mset (Acquiring aq) M)"
    and cur: "aq_current aq = Some cur" and take: "acquire_take l aq = (Inr r, l')"
  shows "ls_in_flight (lg_heap l' cur) = None"
proof -
  have lv: "leases_inv (A, l, add_mset (Acquiring aq) M)" using leases_inv_reachable [OF reach] .
  have ok: "owners_ok l" and aq: "acquisition_ok l aq" using lv by (auto simp: leases_inv_def call_ok_def)
  obtain m where m: "aq_marker aq = Some m" using aq cur by (cases "aq_marker aq") (auto simp: acquisition_ok_def)
  obtain l1 where l1: "acquire_supersede l aq = (Inr (), l1)" "acquire_install l1 aq = (Inr r, l')"
    using acquire_take_Inr [OF take] by blast
  note sup = acquire_supersede_Inr(2) [OF l1(1) m]
  have "transfer_ok l aq" using transfers_ok_reachable [OF reach] transfers_okD(3) by auto
  then have "fmlookup (lg_leases l) (aq_key aq) = Some cur \<or> ls_released (lg_heap l cur)"
    using sup m cur unfolding transfer_ok_def by blast
  moreover have fresh: "cur < lg_fresh l" using aq cur by (simp add: acquisition_ok_def)
  moreover have "lease_ok l cur" using owners_ok_lease [OF ok fresh] .
  ultimately have "ls_in_flight (lg_heap l cur) = None"
    using sup cur by (auto simp: lease_ok_def)
  then show ?thesis
    using acquire_install_Inr [OF l1(2)] acquire_supersede_heap [OF l1(1)] fresh by simp
qed

end
