(* ===== verification/Streams_Progress.thy ===== *)
theory Streams_Progress
  imports Streams_Ownership
begin

text \<open>
  Progress of broker-managed consumer groups. The cursor of a group on a partition only moves
  forward, one record at a time: a checkpoint moves it from a cursor to the first record of the
  partition's whole history that the cursor admits, whatever calls run concurrently.
\<close>

section \<open>Cursors and records\<close>

definition cursor_pos :: "resume_cursor \<Rightarrow> int" where
  "cursor_pos c = (case rc_kind c of INITIALIZED \<Rightarrow> rc_offset c | LAST_SUCCESSFUL \<Rightarrow> rc_offset c + 1)"

lemma cursor_admits_pos: "cursor_admits c r \<longleftrightarrow> cursor_pos c \<le> sr_offset r"
  by (cases "rc_kind c") (auto simp: cursor_admits_def cursor_pos_def)

definition key_records :: "history_log \<Rightarrow> checkpoint_key \<Rightarrow> stored_record list" where
  "key_records A k = (case A (ck_stream k) of None \<Rightarrow> []
     | Some x \<Rightarrow> history_records (ck_stream k) (ck_partition k) (hs_history x (ck_partition k)))"

text \<open>A record of the key that precedes, or is, the first record a cursor admits.\<close>

definition at_or_before :: "history_log \<Rightarrow> checkpoint_key \<Rightarrow> resume_cursor \<Rightarrow> stored_record \<Rightarrow> bool" where
  "at_or_before A k c rec \<longleftrightarrow> rec \<in> set (key_records A k) \<and>
     (\<forall>r \<in> set (key_records A k). cursor_pos c \<le> sr_offset r \<longrightarrow> sr_offset rec \<le> sr_offset r)"

lemma key_records_increasing: "sorted_wrt (\<lambda>a b. sr_offset a < sr_offset b) (key_records A k)"
  by (simp add: key_records_def history_records_increasing split: option.split)

lemma key_records_nonneg: "r \<in> set (key_records A k) \<Longrightarrow> 0 \<le> sr_offset r"
  by (auto simp: key_records_def dest: history_record_offsets split: option.splits)

lemma find_first:
  assumes "sorted_wrt (\<lambda>a b. sr_offset a < sr_offset b) rs" "rec \<in> set rs" "p \<le> sr_offset rec"
    and "\<And>r. r \<in> set rs \<Longrightarrow> p \<le> sr_offset r \<Longrightarrow> sr_offset rec \<le> sr_offset r"
  shows "find (\<lambda>r. p \<le> sr_offset r) rs = Some rec"
  using assms by (induction rs) fastforce+

lemma find_least:
  assumes "sorted_wrt (\<lambda>a b. sr_offset a < sr_offset b) rs" "find (\<lambda>r. p \<le> sr_offset r) rs = Some rec"
    and "r \<in> set rs" "p \<le> sr_offset r"
  shows "sr_offset rec \<le> sr_offset r"
  using assms by (induction rs) (fastforce split: if_splits)+

lemma find_filter: "(\<And>x. P x \<Longrightarrow> Q x) \<Longrightarrow> find P (filter Q xs) = find P xs"
  by (induction xs) auto

lemma at_or_before_mono:
  assumes "at_or_before A k c rec" "cursor_pos c \<le> cursor_pos c'"
  shows "at_or_before A k c' rec"
  using assms by (auto simp: at_or_before_def)

text \<open>A history only grows at its end.\<close>

definition records_extend :: "history_log \<Rightarrow> history_log \<Rightarrow> bool" where
  "records_extend A A' \<longleftrightarrow> (\<forall>k. \<exists>new. key_records A' k = key_records A k @ new)"

lemma at_or_before_extend:
  assumes "at_or_before A k c rec" "records_extend A A'"
  shows "at_or_before A' k c rec"
proof -
  obtain new where new: "key_records A' k = key_records A k @ new" using assms(2) by (auto simp: records_extend_def)
  have "sr_offset rec \<le> sr_offset r" if "r \<in> set new" for r
    using key_records_increasing [of A' k] assms(1) that
    by (fastforce simp: new sorted_wrt_append at_or_before_def)
  then show ?thesis using assms(1) by (auto simp: at_or_before_def new)
qed

lemma records_extend_refl [simp]: "records_extend A A"
  by (simp add: records_extend_def)

lemma records_extend_upd:
  assumes "\<And>p. \<exists>new. history_records s p (hs_history x' p) =
      (case A s of None \<Rightarrow> [] | Some x \<Rightarrow> history_records s p (hs_history x p)) @ new"
  shows "records_extend A (A(s \<mapsto> x'))"
  unfolding records_extend_def
proof
  fix k
  show "\<exists>new. key_records (A(s \<mapsto> x')) k = key_records A k @ new"
    using assms [of "ck_partition k"] by (cases "ck_stream k = s") (auto simp: key_records_def)
qed

lemma records_extend_append: "records_extend A (snd (history_append A clock s rq))"
proof -
  have "records_extend A (A(s \<mapsto> x\<lparr>hs_history := (hs_history x)(p := hs_history x p @ [e])\<rparr>))"
    if "A s = Some x" for x p e
    by (rule records_extend_upd) (auto simp: that)
  then show ?thesis
    by (auto simp: history_append_def split: option.split sum.split publication.split)
qed

lemma records_extend_trim: "records_extend A (snd (history_trim A s part k))"
proof -
  have "records_extend A (A(s \<mapsto> x\<lparr>hs_low := f\<rparr>))" if "A s = Some x" for x f
    by (rule records_extend_upd) (auto simp: that)
  then show ?thesis by (auto simp: history_trim_def split: option.split sum.split arg.split)
qed

lemma records_extend_declare: "records_extend A (snd (history_declare A sd))"
proof -
  have "records_extend A (A(s \<mapsto> \<lparr>hs_definition = d, hs_history = \<lambda>_. [], hs_low = \<lambda>_. 0\<rparr>))"
    if "A s = None" for s d
    by (rule records_extend_upd) (auto simp: that)
  then show ?thesis by (auto simp: history_declare_def split: option.split sum.split)
qed

lemma step_records_extend:
  assumes "ps_step (A, l, M) (A', l', M')"
  shows "records_extend A A'"
  using assms
  by cases (auto simp: records_extend_append records_extend_trim records_extend_declare)

section \<open>The invariant\<close>

definition cursor_covers :: "history_log \<Rightarrow> log \<Rightarrow> nat \<Rightarrow> stored_record \<Rightarrow> bool" where
  "cursor_covers A l r rec \<longleftrightarrow>
     (\<exists>c. lg_broker_cursors l (ls_key (lg_heap l r)) = Some c \<and> at_or_before A (ls_key (lg_heap l r)) c rec)"

definition cursor_reached :: "log \<Rightarrow> nat \<Rightarrow> resume_cursor \<Rightarrow> bool" where
  "cursor_reached l r cur \<longleftrightarrow>
     (\<exists>c. lg_broker_cursors l (ls_key (lg_heap l r)) = Some c \<and> cursor_pos cur \<le> cursor_pos c)"

fun call_progress :: "history_log \<Rightarrow> log \<Rightarrow> call \<Rightarrow> bool" where
  "call_progress A l (Loaded r cur) \<longleftrightarrow> ls_store (lg_heap l r) \<noteq> None"
| "call_progress A l (Delivering r cur) \<longleftrightarrow> (ls_store (lg_heap l r) = None \<longrightarrow> cursor_reached l r cur)"
| "call_progress A l (CkLoading r rec) \<longleftrightarrow> (ls_store (lg_heap l r) = None \<longrightarrow> cursor_covers A l r rec)"
| "call_progress A l (CkLoaded r rec e) \<longleftrightarrow> ls_store (lg_heap l r) \<noteq> None"
| "call_progress A l (CkReady r rec e) \<longleftrightarrow> (ls_store (lg_heap l r) = None \<longrightarrow> cursor_covers A l r rec)"
| "call_progress A l _ \<longleftrightarrow> True"

definition progress_ok :: "history_log \<Rightarrow> log \<Rightarrow> call multiset \<Rightarrow> bool" where
  [inv_defs]: "progress_ok A l M \<longleftrightarrow>
     (\<forall>r rec. r < lg_fresh l \<and> ls_store (lg_heap l r) = None \<and> ls_in_flight (lg_heap l r) = Some rec \<longrightarrow>
        cursor_covers A l r rec) \<and>
     (\<forall>c \<in># M. call_progress A l c)"

definition cursors_grow :: "log \<Rightarrow> log \<Rightarrow> bool" where
  "cursors_grow l l' \<longleftrightarrow> (\<forall>k c. lg_broker_cursors l k = Some c \<longrightarrow>
     (\<exists>c'. lg_broker_cursors l' k = Some c' \<and> cursor_pos c \<le> cursor_pos c'))"

lemma cursors_grow_same: "lg_broker_cursors l' = lg_broker_cursors l \<Longrightarrow> cursors_grow l l'"
  by (simp add: cursors_grow_def)

lemma cursor_covers_grow:
  assumes "cursor_covers A l r rec" "records_extend A A'" "heap_grows l l'" "cursors_grow l l'" "r < lg_fresh l"
  shows "cursor_covers A' l' r rec"
proof -
  have key: "ls_key (lg_heap l' r) = ls_key (lg_heap l r)" using assms(3,5) by (simp add: heap_grows_def)
  obtain c where c: "lg_broker_cursors l (ls_key (lg_heap l r)) = Some c" "at_or_before A (ls_key (lg_heap l r)) c rec"
    using assms(1) by (auto simp: cursor_covers_def)
  obtain c' where c': "lg_broker_cursors l' (ls_key (lg_heap l r)) = Some c'" "cursor_pos c \<le> cursor_pos c'"
    using assms(4) c(1) by (auto simp: cursors_grow_def)
  then show ?thesis
    using at_or_before_extend [OF at_or_before_mono [OF c(2) c'(2)] assms(2)] key by (auto simp: cursor_covers_def)
qed

lemma cursor_reached_grow:
  assumes "cursor_reached l r cur" "heap_grows l l'" "cursors_grow l l'" "r < lg_fresh l"
  shows "cursor_reached l' r cur"
proof -
  have key: "ls_key (lg_heap l' r) = ls_key (lg_heap l r)" using assms(2,4) by (simp add: heap_grows_def)
  obtain c where c: "lg_broker_cursors l (ls_key (lg_heap l r)) = Some c" "cursor_pos cur \<le> cursor_pos c"
    using assms(1) by (auto simp: cursor_reached_def)
  then obtain c' where "lg_broker_cursors l' (ls_key (lg_heap l r)) = Some c'" "cursor_pos c \<le> cursor_pos c'"
    using assms(3) by (auto simp: cursors_grow_def)
  then show ?thesis using c key by (auto simp: cursor_reached_def)
qed

lemma call_progress_grow:
  assumes "call_progress A l c" "call_ok l c" "records_extend A A'" "heap_grows l l'" "cursors_grow l l'"
  shows "call_progress A' l' c"
proof -
  have store: "ls_store (lg_heap l' r) = ls_store (lg_heap l r)" if "call_lease c = Some r" for r
    using assms(2,4) that by (simp add: call_ok_def heap_grows_def)
  have fresh: "r < lg_fresh l" if "call_lease c = Some r" for r using assms(2) that by (simp add: call_ok_def)
  show ?thesis
    using assms(1) store fresh cursor_covers_grow [OF _ assms(3,4,5)] cursor_reached_grow [OF _ assms(4,5)]
    by (cases c) auto
qed

section \<open>Effects of the calls\<close>

abbreviation last_successful :: "stored_record \<Rightarrow> resume_cursor" where
  "last_successful rec \<equiv> \<lparr>rc_kind = LAST_SUCCESSFUL, rc_offset = sr_offset rec\<rparr>"

lemma validate_advance_iff:
  "validate_advance e (last_successful rec) = Inr u \<longleftrightarrow> cursor_pos e \<le> sr_offset rec"
  by (cases "rc_kind e") (auto simp: validate_advance_def cursor_pos_def)

lemma checkpoint_broker_cases:
  assumes "checkpoint_broker l r rec e = (x, l')"
  obtains (fails) err where "x = Inl err" "l' = l"
  | (saves) "x = Inr ()" "owns l r" "\<not> lg_closed l" "lg_broker_cursors l (ls_key (lg_heap l r)) = Some e"
      "cursor_pos e \<le> sr_offset rec" "0 \<le> sr_offset rec"
      "l' = update_lease (l\<lparr>lg_broker_cursors := (lg_broker_cursors l)
              (ls_key (lg_heap l r) \<mapsto> last_successful rec)\<rparr>) r complete_delivery"
proof -
  let ?k = "ls_key (lg_heap l r)"
  let ?own = "require_owner_locked l ?k (ls_owner (lg_heap l r))"
  show ?thesis
  proof (cases "sr_offset rec < 0")
    case True
    then show ?thesis
      using assms fails by (auto simp: checkpoint_broker_def cursor_last_successful_def mk_resume_cursor_def Let_def)
  next
    case False
    then have cu: "cursor_last_successful (sr_offset rec) = Inr (last_successful rec)"
      by (simp add: cursor_last_successful_def mk_resume_cursor_def)
    show ?thesis
    proof (cases ?own)
      case (Inl err)
      then have "x = Inl err \<and> l' = l" using assms by (auto simp: checkpoint_broker_def cu)
      then show ?thesis using fails by blast
    next
      case own: (Inr u)
      show ?thesis
      proof (cases "lg_broker_cursors l ?k = Some e")
        case eq: True
        show ?thesis
        proof (cases "validate_advance e (last_successful rec)")
          case (Inl err)
          then have "x = Inl err \<and> l' = l" using assms eq own by (auto simp: checkpoint_broker_def cu)
          then show ?thesis using fails by blast
        next
          case (Inr v)
          show ?thesis
          proof (rule saves)
            show "owns l r" "\<not> lg_closed l" using own by (simp_all add: owner_check_iff owns_def)
            show "cursor_pos e \<le> sr_offset rec" using Inr by (simp add: validate_advance_iff)
          qed (use assms eq own Inr False in \<open>simp_all add: checkpoint_broker_def cu\<close>)
        qed
      qed (use assms fails own in \<open>auto simp: checkpoint_broker_def cu\<close>)
    qed
  qed
qed

lemma initialize_broker_cases:
  assumes "initialize_broker l clock r = (x, l')"
  shows "l' = l \<or> (\<exists>c. lg_broker_cursors l (ls_key (lg_heap l r)) = None \<and> rc_kind c = INITIALIZED \<and>
    l' = l\<lparr>lg_broker_cursors := (lg_broker_cursors l)(ls_key (lg_heap l r) \<mapsto> c)\<rparr>)"
proof -
  have "rc_kind c = INITIALIZED" if "resolved_cursor l clock r = Inr c" for c
    using that by (auto simp: resolved_cursor_def cursor_initialized_def mk_resume_cursor_def Let_def
        split: sum.splits if_splits)
  then show ?thesis
    using assms by (auto simp: initialize_broker_def Let_def split: sum.splits if_splits)
qed

text \<open>Which calls touch a broker cursor.\<close>

lemma call_advance_cursors:
  assumes "call_advance l ev c = (l', c')" and "\<And>aq r. c \<noteq> Initializing aq r" "\<And>r rec e. c \<noteq> CkReady r rec e"
  shows "lg_broker_cursors l' = lg_broker_cursors l"
proof -
  have take: "lg_broker_cursors l1 = lg_broker_cursors l" if "acquire_take l aq = (x, l1)" for aq x l1
    using that by (auto simp: acquire_take_def acquire_supersede_def acquire_install_def Let_def
        split: sum.splits option.splits if_splits)
  have same: "lg_broker_cursors (snd (cancel_acquire l aq)) = lg_broker_cursors l"
    "lg_broker_cursors (acquire_confirm l aq) = lg_broker_cursors l"
    "lg_broker_cursors (drop_reservation l aq) = lg_broker_cursors l"
    "lg_broker_cursors (lease_stop l q) = lg_broker_cursors l"
    "lg_broker_cursors (log_release l q) = lg_broker_cursors l"
    "lg_broker_cursors (lease_release l q) = lg_broker_cursors l"
    "lg_broker_cursors (snd (next_locked l q cu)) = lg_broker_cursors l"
    "lg_broker_cursors (snd (checkpoint_external_finish l q)) = lg_broker_cursors l" for aq q cu
    by (auto simp: cancel_acquire_def lease_op_defs next_locked_def checkpoint_external_finish_def Let_def
        split: option.split sum.split)
  show ?thesis
    using assms
    by (cases c) (auto simp: same split: sum.splits prod.splits option.splits if_splits
        dest!: advance_loading_cases checkpoint_saved_cases dest: take)
qed

lemma call_advance_cursors_grow:
  assumes "call_advance l ev c = (l', c')"
  shows "cursors_grow l l'"
proof (cases "(\<exists>aq r. c = Initializing aq r) \<or> (\<exists>r rec e. c = CkReady r rec e)")
  case True
  then show ?thesis
  proof
    assume "\<exists>aq r. c = Initializing aq r"
    then obtain aq r where "c = Initializing aq r" by blast
    then have "l' = l \<or> (\<exists>x. initialize_broker l (ev_clock ev) r = (x, l'))"
      using assms advance_initializing_cases by auto
    then show ?thesis
      using initialize_broker_cases [of l "ev_clock ev" r] by (fastforce simp: cursors_grow_def)
  next
    assume "\<exists>r rec e. c = CkReady r rec e"
    then obtain r rec e where c: "c = CkReady r rec e" by blast
    show ?thesis
    proof (cases "ls_store (lg_heap l r) = None")
      case False
      then show ?thesis using assms c by (auto intro: cursors_grow_same)
    next
      case True
      then obtain x where "checkpoint_broker l r rec e = (x, l')" using assms c by (auto simp: prod_eq_iff)
      then show ?thesis
        by (cases rule: checkpoint_broker_cases) (auto simp: cursors_grow_def cursor_pos_def)
    qed
  qed
next
  case False
  then show ?thesis using call_advance_cursors [OF assms] by (auto intro: cursors_grow_same)
qed

lemma step_cursors_grow:
  assumes "ps_step (A, l, M) (A', l', M')"
  shows "cursors_grow l l'"
  using assms
proof (cases rule: ps_step_lease_cases)
  case (claim sub part st tr x)
  have "lg_broker_cursors l' = lg_broker_cursors l"
    using claim(2,1)
  proof (cases rule: acquire_begin_cases)
    case (claimed store b l1 p)
    then show ?thesis
      using reserve_strategy_simps(6) [OF claimed(2)]
      by (auto simp: acquire_claim_def Let_def split: option.splits if_splits)
  qed simp
  then show ?thesis by (rule cursors_grow_same)
next
  case (advance N c ev c')
  then show ?thesis using call_advance_cursors_grow by blast
qed (auto intro!: cursors_grow_same simp: log_close_def lease_stop_def)

section \<open>Delivery\<close>

text \<open>A delivered record is the first one of the whole history that the cursor admits.\<close>

lemma next_locked_cases:
  assumes stored: "stored_ok (A, l, M)" and nl: "next_locked l r cur = (x, l')"
  obtains (idle) "l' = l"
  | (delivers) rec where "owns l r" "find (\<lambda>q. cursor_pos cur \<le> sr_offset q) (key_records A (ls_key (lg_heap l r))) = Some rec"
      "l' = update_lease l r (\<lambda>ls. ls\<lparr>ls_in_flight := Some rec, ls_delivery_completed := False\<rparr>)" "x = Inr (Some rec)"
proof (cases "l' = l")
  case True
  then show ?thesis using idle by blast
next
  case False
  let ?k = "ls_key (lg_heap l r)"
  from nl False obtain ss pt rec where *: "require_owner_locked l ?k (ls_owner (lg_heap l r)) = Inr ()"
    "stream_of l (ck_stream ?k) = Inr ss" "partition_of ss (Inst (ck_partition ?k)) = Inr pt"
    "require_retained (ck_stream ?k) (ck_partition ?k) (rc_offset cur) pt (Some (ck_group ?k)) = Inr ()"
    "find (cursor_admits cur) (pt_records pt) = Some rec"
    "l' = update_lease l r (\<lambda>ls. ls\<lparr>ls_in_flight := Some rec, ls_delivery_completed := False\<rparr>)" "x = Inr (Some rec)"
    by (auto simp: next_locked_def Let_def split: sum.splits option.splits if_splits)
  obtain h where h: "A (ck_stream ?k) = Some h" "ss = stream_view (ck_stream ?k) h"
    using stored *(2) by (auto simp: stored_ok_def stream_of_def streams_view_def split: option.splits)
  have count: "0 < sd_partition_count (hs_definition h)"
    using stored h(1) by (auto simp: stored_ok_def history_log_ok_def history_stream_ok_def)
  have pt: "pt = partition_view (ck_stream ?k) (ck_partition ?k) (hs_history h (ck_partition ?k)) (hs_low h (ck_partition ?k))"
    using *(3) partition_of_view [OF count, of "ck_stream ?k" "Inst (ck_partition ?k)"] h(2) by (auto split: if_splits)
  have low: "hs_low h (ck_partition ?k) \<le> rc_offset cur"
    using *(4) by (auto simp: require_retained_def pt partition_view_def split: if_splits)
  have admits: "cursor_admits cur = (\<lambda>q. cursor_pos cur \<le> sr_offset q)" by (simp add: fun_eq_iff cursor_admits_pos)
  have "rc_offset cur \<le> cursor_pos cur" by (simp add: cursor_pos_def split: cursor_kind.split)
  then have "find (\<lambda>q. cursor_pos cur \<le> sr_offset q) (pt_records pt) =
      find (\<lambda>q. cursor_pos cur \<le> sr_offset q) (key_records A ?k)"
    using low by (auto simp: pt partition_view_def key_records_def h(1) intro!: find_filter)
  then show ?thesis
    using *(1,5,6,7) by (intro delivers) (auto simp: owner_check_iff owns_def admits)
qed

lemma delivery_covered:
  assumes "find (\<lambda>q. cursor_pos cur \<le> sr_offset q) (key_records A (ls_key (lg_heap l r))) = Some rec"
    and "cursor_reached l r cur"
  shows "cursor_covers A l r rec"
proof -
  let ?k = "ls_key (lg_heap l r)"
  obtain c where c: "lg_broker_cursors l ?k = Some c" "cursor_pos cur \<le> cursor_pos c"
    using assms(2) by (auto simp: cursor_reached_def)
  have "rec \<in> set (key_records A ?k)" using find_SomeD [OF assms(1)] by blast
  moreover have "sr_offset rec \<le> sr_offset q" if "q \<in> set (key_records A ?k)" "cursor_pos c \<le> sr_offset q" for q
    using find_least [OF key_records_increasing assms(1) that(1)] that(2) c(2) by simp
  ultimately show ?thesis using c by (auto simp: cursor_covers_def at_or_before_def)
qed

section \<open>Every step keeps the invariant\<close>

lemma progress_okD:
  assumes "progress_ok A l M"
  shows "r < lg_fresh l \<Longrightarrow> ls_store (lg_heap l r) = None \<Longrightarrow> ls_in_flight (lg_heap l r) = Some rec \<Longrightarrow> cursor_covers A l r rec"
    and "c \<in># M \<Longrightarrow> call_progress A l c"
  using assms unfolding progress_ok_def by blast+

text \<open>A step that leaves the deliveries in flight alone.\<close>

lemma progress_ok_quiet:
  assumes inv: "progress_ok A l M" and calls: "\<And>c. c \<in># M \<Longrightarrow> call_ok l c"
    and g: "records_extend A A'" "heap_grows l l'" "cursors_grow l l'"
    and quiet: "\<And>r rec. r < lg_fresh l' \<Longrightarrow> ls_in_flight (lg_heap l' r) = Some rec \<Longrightarrow>
      r < lg_fresh l \<and> ls_in_flight (lg_heap l r) = Some rec"
  shows "progress_ok A' l' M"
  unfolding progress_ok_def
proof (intro conjI allI impI ballI)
  fix r rec
  assume "r < lg_fresh l' \<and> ls_store (lg_heap l' r) = None \<and> ls_in_flight (lg_heap l' r) = Some rec"
  then have r: "r < lg_fresh l" "ls_in_flight (lg_heap l r) = Some rec" and "ls_store (lg_heap l' r) = None"
    using quiet by auto
  moreover have "ls_store (lg_heap l' r) = ls_store (lg_heap l r)" using g(2) r(1) by (simp add: heap_grows_def)
  ultimately have "cursor_covers A l r rec" using progress_okD(1) [OF inv] by simp
  then show "cursor_covers A' l' r rec" using cursor_covers_grow g r(1) by blast
next
  fix c
  assume "c \<in># M"
  then show "call_progress A' l' c"
    using call_progress_grow [OF progress_okD(2) [OF inv] calls g] by blast
qed

lemma progress_ok_add:
  assumes "progress_ok A l M" "\<And>c. c' = Some c \<Longrightarrow> call_progress A l c"
  shows "progress_ok A l (add_call c' M)"
  using assms by (cases c') (auto simp: progress_ok_def)

lemma call_advance_quiet:
  assumes adv: "call_advance l ev c = (l', c')" and c: "\<And>r cu. c \<noteq> Delivering r cu" and ok: "call_ok l c"
    and r: "r < lg_fresh l'" "ls_in_flight (lg_heap l' r) = Some rec"
  shows "r < lg_fresh l \<and> ls_in_flight (lg_heap l r) = Some rec"
proof -
  let ?quiet = "\<lambda>l'. r < lg_fresh l' \<longrightarrow> ls_in_flight (lg_heap l' r) = Some rec \<longrightarrow>
      r < lg_fresh l \<and> ls_in_flight (lg_heap l r) = Some rec"
  have take: "?quiet l1" if tk: "acquire_take l aq = (x, l1)" for aq x l1
  proof (cases x)
    case (Inl e)
    then show ?thesis
      using tk
      by (auto simp: acquire_take_def split: sum.splits prod.splits
          dest!: acquire_install_Inl dest: acquire_supersede_heap)
  next
    case (Inr q)
    then obtain l2 where l2: "acquire_supersede l aq = (Inr (), l2)" "acquire_install l2 aq = (Inr q, l1)"
      using acquire_take_Inr tk by blast
    show ?thesis
      using acquire_install_Inr [OF l2(2)] acquire_supersede_heap [OF l2(1)] by (auto simp: mk_lease_def less_Suc_eq)
  qed
  have same: "?quiet (snd (cancel_acquire l aq))" "?quiet (acquire_confirm l aq)" "?quiet (drop_reservation l aq)"
    "?quiet (lease_stop l q)" "?quiet (log_release l q)" "?quiet (lease_release l q)"
    "?quiet (snd (checkpoint_external_finish l q))" for aq q
    by (auto simp: cancel_acquire_def lease_op_defs complete_delivery_def checkpoint_external_finish_def Let_def
        split: option.split sum.split)
  have init: "?quiet l1" if "initialize_broker l clock q = (x, l1)" for clock q x l1
    using initialize_broker_cases [OF that] by auto
  have ck: "?quiet (snd (checkpoint_broker l q rc e))" for q rc e
  proof -
    obtain x l1 where x: "checkpoint_broker l q rc e = (x, l1)" by (cases "checkpoint_broker l q rc e")
    from x show ?thesis
      by (cases rule: checkpoint_broker_cases) (simp_all add: x complete_delivery_def)
  qed
  show ?thesis
  proof (cases c)
    case (Acquiring aq)
    then show ?thesis using adv r by (auto split: sum.splits prod.splits dest: take)
  next
    case (Initializing aq q)
    then show ?thesis using adv r by (auto dest!: advance_initializing_cases dest: init)
  next
    case (Loading q)
    then show ?thesis using adv r same by (auto dest!: advance_loading_cases)
  next
    case (CkLoading q rec)
    then show ?thesis using adv r same by (auto dest!: advance_loading_cases)
  next
    case (CkSaving q rec cu)
    then show ?thesis using adv r same by (auto split: sum.splits prod.splits dest!: checkpoint_saved_cases)
  next
    case (CkReady q rc e)
    then show ?thesis using adv r ck by (auto split: if_splits sum.splits)
  qed (use adv r same c in \<open>auto split: sum.splits option.splits if_splits\<close>)
qed

lemma call_progress_acquisition: "call_acquisition c = Some aq \<Longrightarrow> call_progress A l c"
  by (cases c) auto

lemma call_advance_progress:
  assumes ok: "owners_ok l" and c: "call_ok l c" and p: "call_progress A l c" and inv: "progress_ok A l M"
    and adv: "call_advance l ev c = (l', Some d)"
  shows "call_progress A l' d"
proof -
  have covers: "cursor_covers A (lease_stop l q) r rec = cursor_covers A l r rec" for q r rec
    by (auto simp: cursor_covers_def lease_stop_def complete_delivery_def)
  have store: "ls_store (lg_heap (lease_stop l q) r) = ls_store (lg_heap l r)" for q r
    by (simp add: lease_stop_def complete_delivery_def)
  show ?thesis
  proof (cases c)
    case (Loading r)
    then show ?thesis
      using adv by (auto simp: advance_loading_def load_cursor_broker_def load_cursor_external_def cursor_reached_def
          Let_def split: if_splits sum.splits option.splits)
  next
    case (Loaded r cu)
    then show ?thesis using adv p by (auto split: sum.splits)
  next
    case (CkChecking r rec)
    then have "ls_in_flight (lg_heap l r) = Some rec" "d = CkLoading r rec" "l' = l"
      using adv by (auto simp: checkpoint_guard_def Let_def split: sum.splits if_splits)
    then show ?thesis using progress_okD(1) [OF inv, of r rec] c CkChecking by (simp add: call_ok_def)
  next
    case (CkLoading r rec)
    then show ?thesis
      using adv p by (auto simp: advance_loading_def load_cursor_external_def Let_def
          split: if_splits sum.splits option.splits)
  next
    case (CkLoaded r rec e)
    then show ?thesis using adv p by (auto split: sum.splits)
  next
    case (CkReady r rec e)
    then show ?thesis using adv by (auto split: if_splits sum.splits)
  qed (use adv in \<open>auto split: sum.splits prod.splits option.splits
        dest!: advance_initializing_cases dest: call_progress_acquisition\<close>)
qed

lemma progress_ok_step:
  assumes stored: "stored_ok (A, l, M)" and lv: "leases_inv (A, l, M)" and inv: "progress_ok A l M"
    and step: "ps_step (A, l, M) (A', l', M')"
  shows "progress_ok A' l' M'"
proof -
  have ok: "owners_ok l" and calls: "\<And>c. c \<in># M \<Longrightarrow> call_ok l c"
    using lv by (auto simp: leases_inv_def)
  note grow = step_records_extend [OF step] step_grows [OF step] step_cursors_grow [OF step]
  note quiet = progress_ok_quiet [OF inv calls grow]
  from step show ?thesis
  proof (cases rule: ps_step_lease_cases)
    case (other S b q)
    then show ?thesis using quiet by simp
  next
    case close
    then have "progress_ok A' l' M"
      by (intro quiet) (auto simp: log_close_def complete_delivery_def split: if_splits)
    then show ?thesis using close by simp
  next
    case (claim sub part st tr x)
    have "progress_ok A' l' M"
    proof (rule quiet)
      fix r rec
      assume "r < lg_fresh l'" "ls_in_flight (lg_heap l' r) = Some rec"
      then show "r < lg_fresh l \<and> ls_in_flight (lg_heap l r) = Some rec"
        using claim(2,1)
        by (cases rule: acquire_begin_cases [OF claim(2,1)])
           (auto simp: acquire_claim_def Let_def split: option.splits if_splits dest: reserve_strategy_simps)
    qed
    then show ?thesis
      using claim progress_ok_add [of A' l' M "Some (Acquiring _)"] by (cases x) (auto simp: progress_ok_def)
  next
    case (stop r)
    then have "progress_ok A' l' M"
      by (intro quiet) (auto simp: lease_stop_def complete_delivery_def split: if_splits)
    then show ?thesis using stop by simp
  next
    case (start r c)
    have "progress_ok A' l' M" using quiet start by simp
    then show ?thesis using start progress_ok_add [of A' l' M "Some c"] by auto
  next
    case (cancel N c)
    have "progress_ok A' l' M" using quiet cancel by simp
    then have "progress_ok A' l' N" using cancel by (simp add: progress_ok_def)
    moreover have "call_progress A' l' d" if "call_cancel c = Some d" for d
      using that by (cases c) auto
    ultimately show ?thesis using cancel progress_ok_add by blast
  next
    case (advance N c ev c')
    have c: "call_ok l c" "call_progress A l c" using calls progress_okD(2) [OF inv] advance(1) by simp_all
    have main: "progress_ok A' l' N"
    proof (cases "\<exists>r cu. c = Delivering r cu")
      case False
      have "progress_ok A' l' M"
      proof (rule quiet)
        have nd: "c \<noteq> Delivering r cu" for r cu using False by blast
        show "r < lg_fresh l \<and> ls_in_flight (lg_heap l r) = Some rec"
          if "r < lg_fresh l'" "ls_in_flight (lg_heap l' r) = Some rec" for r rec
          using call_advance_quiet [OF advance(3) nd c(1) that] .
      qed
      then show ?thesis using advance(1) by (simp add: progress_ok_def)
    next
      case True
      then obtain r cu where d: "c = Delivering r cu" by blast
      then have r: "r < lg_fresh l" using c(1) by (simp add: call_ok_def)
      obtain x where nl: "next_locked l r cu = (x, l')" using advance(3) d by (auto simp: prod_eq_iff)
      from stored nl show ?thesis
      proof (cases rule: next_locked_cases)
        case idle
        then have "progress_ok A' l' M" using quiet by simp
        then show ?thesis using advance(1) by (simp add: progress_ok_def)
      next
        case (delivers rec)
        have new: "cursor_covers A l r rec" if "ls_store (lg_heap l r) = None"
          using delivery_covered [OF delivers(2)] c(2) d that by simp
        have l': "ls_store (lg_heap l' q) = ls_store (lg_heap l q)" "lg_fresh l' = lg_fresh l"
          "q \<noteq> r \<Longrightarrow> ls_in_flight (lg_heap l' q) = ls_in_flight (lg_heap l q)"
          "ls_in_flight (lg_heap l' r) = Some rec" for q
          by (simp_all add: delivers(3))
        show ?thesis
          unfolding progress_ok_def
        proof (intro conjI allI impI ballI, elim conjE)
          fix q rc
          assume q: "q < lg_fresh l'" "ls_store (lg_heap l' q) = None" "ls_in_flight (lg_heap l' q) = Some rc"
          have "cursor_covers A l q rc"
            using q l' new progress_okD(1) [OF inv, of q rc] by (cases "q = r") auto
          then show "cursor_covers A' l' q rc" using cursor_covers_grow grow q l' by simp
        next
          fix d
          assume "d \<in># N"
          then show "call_progress A' l' d"
            using call_progress_grow [OF progress_okD(2) [OF inv] calls grow] advance(1) by simp
        qed
      qed
    qed
    show ?thesis
      unfolding advance(4)
    proof (rule progress_ok_add [OF main])
      fix d
      assume d: "c' = Some d"
      have "call_progress A l' d"
        using call_advance_progress [OF ok c inv] advance(3) d by simp
      then show "call_progress A' l' d"
        using call_progress_grow [of A l' d A' l'] call_advance_call_ok [OF c(1)] advance(3) d grow(1)
        by (simp add: cursors_grow_same)
    qed
  qed
qed

lemma progress_ok_reachable: "ps_reachable s \<Longrightarrow> case s of (A, l, M) \<Rightarrow> progress_ok A l M"
proof (induction rule: ps_reachable.induct)
  case (init n heap l)
  then show ?case by (auto simp: new_log_def progress_ok_def split: sum.splits)
next
  case (step s s')
  obtain A l M A' l' M' where "s = (A, l, M)" "s' = (A', l', M')"
    by (cases s, cases s') auto
  then show ?case
    using progress_ok_step [of A l M A' l' M'] leases_inv_reachable [of s] stored_ok_reachable [of s] step by simp
qed

section \<open>One record at a time\<close>

lemma checkpoint_moves_to_first:
  assumes inv: "progress_ok A l (add_mset (CkReady r rec e) M)" and store: "ls_store (lg_heap l r) = None"
    and ck: "checkpoint_broker l r rec e = (Inr (), l')"
  shows "lg_broker_cursors l (ls_key (lg_heap l r)) = Some e"
    and "find (cursor_admits e) (key_records A (ls_key (lg_heap l r))) = Some rec"
    and "lg_broker_cursors l' = (lg_broker_cursors l)(ls_key (lg_heap l r) \<mapsto> last_successful rec)"
  using ck
proof (atomize (full), cases rule: checkpoint_broker_cases)
  case saves
  let ?k = "ls_key (lg_heap l r)"
  have "cursor_covers A l r rec" using progress_okD(2) [OF inv] store by fastforce
  then have ab: "at_or_before A ?k e rec" using saves by (simp add: cursor_covers_def)
  have "find (\<lambda>q. cursor_pos e \<le> sr_offset q) (key_records A ?k) = Some rec"
    by (rule find_first [OF key_records_increasing]) (use ab saves in \<open>auto simp: at_or_before_def\<close>)
  moreover have "cursor_admits e = (\<lambda>q. cursor_pos e \<le> sr_offset q)" by (simp add: fun_eq_iff cursor_admits_pos)
  ultimately show "lg_broker_cursors l ?k = Some e \<and> find (cursor_admits e) (key_records A ?k) = Some rec \<and>
      lg_broker_cursors l' = (lg_broker_cursors l)(?k \<mapsto> last_successful rec)"
    using saves by simp
qed simp

lemma broker_cursor_moves:
  assumes reach: "ps_reachable (A, l, M)" and step: "ps_step (A, l, M) (A', l', M')"
    and c: "lg_broker_cursors l k = Some c" "lg_broker_cursors l' k \<noteq> Some c"
  shows "\<exists>rec. find (cursor_admits c) (key_records A k) = Some rec \<and> lg_broker_cursors l' k = Some (last_successful rec)"
  using step
proof (cases rule: ps_step_lease_cases)
  case (claim sub part st tr x)
  have "lg_broker_cursors l' = lg_broker_cursors l"
    using claim(2,1)
  proof (cases rule: acquire_begin_cases)
    case (claimed store b l1 p)
    then show ?thesis
      using reserve_strategy_simps(6) [OF claimed(2)]
      by (auto simp: acquire_claim_def Let_def split: option.splits if_splits)
  qed simp
  then show ?thesis using c by simp
next
  case (advance N d ev c')
  show ?thesis
  proof (cases "\<exists>aq r. d = Initializing aq r")
    case True
    then obtain aq r where "d = Initializing aq r" by blast
    then have "l' = l \<or> (\<exists>x. initialize_broker l (ev_clock ev) r = (x, l'))"
      using advance(3) advance_initializing_cases by auto
    then show ?thesis using c initialize_broker_cases [of l "ev_clock ev" r] by (fastforce split: if_splits)
  next
    case False
    then obtain r rec e where d: "d = CkReady r rec e"
      using call_advance_cursors [OF advance(3)] c by fastforce
    show ?thesis
    proof (cases "ls_store (lg_heap l r) = None")
      case False
      then show ?thesis using advance(3) c d by auto
    next
      case True
      then obtain x where x: "checkpoint_broker l r rec e = (x, l')" using advance(3) d by (auto simp: prod_eq_iff)
      have inv: "progress_ok A l (add_mset (CkReady r rec e) N)"
        using progress_ok_reachable [OF reach] advance(1) d by simp
      have "x = Inr ()" using x c by (cases rule: checkpoint_broker_cases) auto
      from checkpoint_moves_to_first [OF inv True x [unfolded this]] c show ?thesis
        by (auto split: if_splits)
    qed
  qed
qed (use c in \<open>auto simp: log_close_def lease_stop_def\<close>)

end
