(* ===== verification/Streams_Consumer.thy ===== *)
theory Streams_Consumer
  imports Streams_Progress
begin

text \<open>
  The consumer loop (\<open>consumers.py\<close>). The loop uses a partition lease through its protocol; the
  locale \<open>partition_lease\<close> states what the loop relies on and the guarantees of the loop are proved
  in it. The broker-managed lease of the in-memory log is an instance.
\<close>

section \<open>The loop\<close>

text \<open>
  The methods of a lease and the handler act on a common state. Swallowing the failure of \<open>stop\<close> or
  \<open>release\<close> keeps the state the call left behind.
\<close>

record 's lease_protocol =
  pl_key :: checkpoint_key
  pl_next_record :: "'s \<Rightarrow> (ps_error + stored_record option) \<times> 's"
  pl_checkpoint :: "stored_record \<Rightarrow> 's \<Rightarrow> (ps_error + unit) \<times> 's"
  pl_stop :: "'s \<Rightarrow> (ps_error + unit) \<times> 's"
  pl_release :: "'s \<Rightarrow> (ps_error + unit) \<times> 's"

definition stop_ignoring_errors :: "'s lease_protocol \<Rightarrow> 's \<Rightarrow> 's" where
  "stop_ignoring_errors ops s = snd (pl_stop ops s)"

definition release_preserving_cancellation :: "'s lease_protocol \<Rightarrow> 's \<Rightarrow> 's" where
  "release_preserving_cancellation ops s = snd (pl_release ops s)"

definition poison_record_error :: "checkpoint_key \<Rightarrow> stored_record \<Rightarrow> ps_error \<Rightarrow> ps_error" where
  "poison_record_error k rec e =
     PoisonRecordError (ck_stream k) (ck_group k) (ck_partition k) (sr_offset rec) (sr_record_id rec) e"

definition checkpoint_failure :: "stored_record \<Rightarrow> ps_error \<Rightarrow> ps_error" where
  "checkpoint_failure rec e =
     (case e of
        CheckpointPersistenceError _ _ \<Rightarrow> e
      | OwnershipError \<Rightarrow> e
      | _ \<Rightarrow> (case cursor_last_successful (sr_offset rec) of
               Inl e' \<Rightarrow> e' | Inr c \<Rightarrow> CheckpointPersistenceError (Some c) e))"

fun run_loop ::
  "'s lease_protocol \<Rightarrow> (stored_record \<Rightarrow> 's \<Rightarrow> (ps_error + unit) \<times> 's) \<Rightarrow> nat \<Rightarrow> int \<Rightarrow> 's \<Rightarrow>
   (ps_error + int) \<times> 's" where
  "run_loop ops handler 0 processed s = (Inr processed, s)"
| "run_loop ops handler (Suc n) processed s =
     (case pl_next_record ops s of
        (Inl e, s1) \<Rightarrow> (Inl e, s1)
      | (Inr None, s1) \<Rightarrow> (Inr processed, s1)
      | (Inr (Some rec), s1) \<Rightarrow>
          (case handler rec s1 of
             (Inl e, s2) \<Rightarrow>
               if is_exception e
               then (Inl (poison_record_error (pl_key ops) rec e), stop_ignoring_errors ops s2)
               else (Inl e, s2)
           | (Inr _, s2) \<Rightarrow>
               (case pl_checkpoint ops rec s2 of
                  (Inl e, s3) \<Rightarrow>
                    if is_exception e
                    then (Inl (checkpoint_failure rec e), stop_ignoring_errors ops s3)
                    else (Inl e, s3)
                | (Inr _, s3) \<Rightarrow> run_loop ops handler n (processed + 1) s3)))"

definition run_once ::
  "'s lease_protocol \<Rightarrow> (stored_record \<Rightarrow> 's \<Rightarrow> (ps_error + unit) \<times> 's) \<Rightarrow> int arg \<Rightarrow> 's \<Rightarrow>
   (ps_error + int) \<times> 's" where
  "run_once ops handler limit s =
     (case limit of Foreign \<Rightarrow> (Inl ValueError, s)
      | Inst n \<Rightarrow>
          if n \<le> 0 then (Inl ValueError, s)
          else (case run_loop ops handler (nat n) 0 s of
             (Inl CancelledError, s') \<Rightarrow> (Inl CancelledError, release_preserving_cancellation ops s')
           | (Inl ControlExit, s') \<Rightarrow> (Inl ControlExit, snd (pl_release ops s'))
           | r \<Rightarrow> r))"

section \<open>What the loop guarantees\<close>

text \<open>
  The promise of the loop, on the list of records still to process and the state of the handler
  alone: what it returns, the records left, and the state of the handler.
\<close>

fun process ::
  "checkpoint_key \<Rightarrow> (stored_record \<Rightarrow> 'h \<Rightarrow> (ps_error + unit) \<times> 'h) \<Rightarrow> nat \<Rightarrow> stored_record list \<Rightarrow> 'h \<Rightarrow>
   (ps_error + int) \<times> stored_record list \<times> 'h" where
  "process k hs 0 ps h = (Inr 0, ps, h)"
| "process k hs (Suc n) [] h = (Inr 0, [], h)"
| "process k hs (Suc n) (rec # ps) h =
     (case hs rec h of
        (Inl e, h') \<Rightarrow> (Inl (if is_exception e then poison_record_error k rec e else e), rec # ps, h')
      | (Inr _, h') \<Rightarrow>
          (case process k hs n ps h' of
             (Inl e, ps', h'') \<Rightarrow> (Inl e, ps', h'')
           | (Inr m, ps', h'') \<Rightarrow> (Inr (m + 1), ps', h'')))"

text \<open>
  \<open>live s d ps\<close>: the lease can be used in state \<open>s\<close>, \<open>d\<close> is its delivery in flight, and \<open>ps\<close> are the
  records it has not checkpointed, in the order it delivers them. \<open>ended s ps\<close>: the lease is
  stopped and \<open>ps\<close> is what a later owner will be given. \<open>mine s\<close> is the part of the state that
  belongs to the handler.
\<close>

locale partition_lease =
  fixes ops :: "'s lease_protocol"
    and live :: "'s \<Rightarrow> stored_record option \<Rightarrow> stored_record list \<Rightarrow> bool"
    and ended :: "'s \<Rightarrow> stored_record list \<Rightarrow> bool"
    and mine :: "'s \<Rightarrow> 'h"
  assumes next_empty: "live s None [] \<Longrightarrow> pl_next_record ops s = (Inr None, s)"
    and next_some: "live s None (rec # ps) \<Longrightarrow>
      \<exists>s1. pl_next_record ops s = (Inr (Some rec), s1) \<and> live s1 (Some rec) (rec # ps) \<and> mine s1 = mine s"
    and checkpoint_ok: "live s (Some rec) (rec # ps) \<Longrightarrow>
      \<exists>s1. pl_checkpoint ops rec s = (Inr (), s1) \<and> live s1 None ps \<and> mine s1 = mine s"
    and stop_ok: "live s d ps \<Longrightarrow> ended (snd (pl_stop ops s)) ps \<and> mine (snd (pl_stop ops s)) = mine s"
begin

text \<open>A handler that leaves the lease alone and acts on its own state as \<open>hs\<close>.\<close>

definition acts_as ::
  "(stored_record \<Rightarrow> 's \<Rightarrow> (ps_error + unit) \<times> 's) \<Rightarrow> (stored_record \<Rightarrow> 'h \<Rightarrow> (ps_error + unit) \<times> 'h) \<Rightarrow> bool" where
  "acts_as handler hs \<longleftrightarrow>
     (\<forall>rec s d ps. live s d ps \<longrightarrow> live (snd (handler rec s)) d ps \<and>
        fst (handler rec s) = fst (hs rec (mine s)) \<and> mine (snd (handler rec s)) = snd (hs rec (mine s)))"

lemma run_loop_process:
  assumes "acts_as handler hs" and "live s None ps"
    and "\<And>rec h e. fst (hs rec h) = Inl e \<Longrightarrow> is_exception e"
  shows "case process (pl_key ops) hs n ps (mine s) of (x, ps', h') \<Rightarrow>
    \<exists>s'. run_loop ops handler n k s = (case x of Inl e \<Rightarrow> Inl e | Inr m \<Rightarrow> Inr (k + m), s') \<and> mine s' = h' \<and>
      (case x of Inl e \<Rightarrow> ended s' ps' | Inr m \<Rightarrow> live s' None ps')"
  using assms(2)
proof (induction n arbitrary: k s ps)
  case 0
  then show ?case by simp
next
  case (Suc n)
  show ?case
  proof (cases ps)
    case Nil
    then show ?thesis using Suc.prems next_empty by simp
  next
    case (Cons rec rs)
    obtain s1 where s1: "pl_next_record ops s = (Inr (Some rec), s1)" "live s1 (Some rec) (rec # rs)" "mine s1 = mine s"
      using next_some Suc.prems Cons by blast
    have h: "live (snd (handler rec s1)) (Some rec) (rec # rs)" "fst (handler rec s1) = fst (hs rec (mine s))"
      "mine (snd (handler rec s1)) = snd (hs rec (mine s))"
      using assms(1) s1(2,3) unfolding acts_as_def by fastforce+
    obtain y h' where hs: "hs rec (mine s) = (y, h')" by (cases "hs rec (mine s)")
    obtain s2 where s2: "handler rec s1 = (y, s2)" using h(2) hs by (cases "handler rec s1") auto
    show ?thesis
    proof (cases y)
      case (Inl e)
      then have "is_exception e" using assms(3) [of rec "mine s" e] hs by simp
      then show ?thesis
        using stop_ok [OF h(1)] h s1 s2 hs Inl Cons by (auto simp: stop_ignoring_errors_def)
    next
      case (Inr u)
      obtain s3 where s3: "pl_checkpoint ops rec s2 = (Inr (), s3)" "live s3 None rs" "mine s3 = mine s2"
        using checkpoint_ok [of s2 rec rs] h(1) s2 by auto
      have "mine s3 = h'" using s3(3) h(3) s2 hs by simp
      then show ?thesis
        using Suc.IH [OF s3(2), of "k + 1"] s1 s2 s3 hs Inr Cons
        by (auto split: prod.splits sum.splits)
    qed
  qed
qed

end

section \<open>The broker-managed lease of the in-memory log\<close>

text \<open>
  The methods of \<open>InMemoryPartitionLease\<close>, with no other task between their sections. The state of
  the handler is carried along.
\<close>

definition lease_next_record :: "nat \<Rightarrow> log \<Rightarrow> (ps_error + stored_record option) \<times> log" where
  "lease_next_record r l =
     (case require_active (lg_heap l r) of Inl e \<Rightarrow> (Inl e, l)
      | Inr _ \<Rightarrow> (case load_cursor_broker l r of Inl e \<Rightarrow> (Inl e, l) | Inr c \<Rightarrow> next_locked l r c))"

definition lease_checkpoint :: "nat \<Rightarrow> stored_record \<Rightarrow> log \<Rightarrow> (ps_error + unit) \<times> log" where
  "lease_checkpoint r rec l =
     (case require_active (lg_heap l r) of Inl e \<Rightarrow> (Inl e, l)
      | Inr _ \<Rightarrow> (case checkpoint_guard l r rec of Inl e \<Rightarrow> (Inl e, l)
      | Inr _ \<Rightarrow> (case load_cursor_broker l r of Inl e \<Rightarrow> (Inl e, l)
      | Inr c \<Rightarrow> checkpoint_broker l r rec c)))"

definition memory_lease :: "checkpoint_key \<Rightarrow> nat \<Rightarrow> (log \<times> 'h) lease_protocol" where
  "memory_lease k r =
     \<lparr>pl_key = k,
      pl_next_record = (\<lambda>(l, h). case lease_next_record r l of (x, l') \<Rightarrow> (x, l', h)),
      pl_checkpoint = (\<lambda>rec (l, h). case lease_checkpoint r rec l of (x, l') \<Rightarrow> (x, l', h)),
      pl_stop = (\<lambda>(l, h). (Inr (), lease_stop l r, h)),
      pl_release = (\<lambda>(l, h). (Inr (), lease_release l r, h))\<rparr>"

definition lift_handler ::
  "(stored_record \<Rightarrow> 'h \<Rightarrow> (ps_error + unit) \<times> 'h) \<Rightarrow> stored_record \<Rightarrow> 'l \<times> 'h \<Rightarrow> (ps_error + unit) \<times> 'l \<times> 'h" where
  "lift_handler hs rec = (\<lambda>(l, h). case hs rec h of (x, h') \<Rightarrow> (x, l, h'))"

text \<open>The records of a partition a cursor still admits.\<close>

definition admitted :: "log \<Rightarrow> checkpoint_key \<Rightarrow> resume_cursor \<Rightarrow> stored_record list \<Rightarrow> bool" where
  "admitted l k c ps \<longleftrightarrow>
     (\<exists>ss pt. lg_streams l (ck_stream k) = Some ss \<and> partition_of ss (Inst (ck_partition k)) = Inr pt \<and>
        sorted_wrt (\<lambda>a b. sr_offset a < sr_offset b) (pt_records pt) \<and>
        (\<forall>q \<in> set (pt_records pt). pt_earliest_offset pt \<le> sr_offset q \<and> 0 \<le> sr_offset q) \<and>
        pt_earliest_offset pt \<le> rc_offset c \<and> ps = filter (cursor_admits c) (pt_records pt))"

definition lease_live :: "checkpoint_key \<Rightarrow> nat \<Rightarrow> log \<Rightarrow> stored_record option \<Rightarrow> stored_record list \<Rightarrow> bool" where
  "lease_live k r l d ps \<longleftrightarrow>
     ls_key (lg_heap l r) = k \<and> owns l r \<and> \<not> lg_closed l \<and> require_active (lg_heap l r) = Inr () \<and>
     \<not> ls_revocation_requested (lg_heap l r) \<and> ls_in_flight (lg_heap l r) = d \<and>
     (\<exists>c. lg_broker_cursors l k = Some c \<and> admitted l k c ps)"

definition lease_ended :: "checkpoint_key \<Rightarrow> nat \<Rightarrow> log \<Rightarrow> stored_record list \<Rightarrow> bool" where
  "lease_ended k r l ps \<longleftrightarrow> ls_stopped (lg_heap l r) \<and> ls_in_flight (lg_heap l r) = None \<and>
     (\<exists>c. lg_broker_cursors l k = Some c \<and> admitted l k c ps)"

lemma require_active_iff: "require_active ls = Inr u \<longleftrightarrow> \<not> ls_released ls \<and> \<not> ls_stopped ls"
  by (simp add: require_active_def)

lemma find_hd_filter: "find P xs = (case filter P xs of [] \<Rightarrow> None | x # _ \<Rightarrow> Some x)"
  by (induction xs) auto

lemma admitted_after:
  assumes "admitted l k c (rec # ps)"
  shows "admitted l k (last_successful rec) ps" "cursor_pos c \<le> sr_offset rec" "0 \<le> sr_offset rec"
proof -
  obtain ss pt where pt: "lg_streams l (ck_stream k) = Some ss" "partition_of ss (Inst (ck_partition k)) = Inr pt"
    "sorted_wrt (\<lambda>a b. sr_offset a < sr_offset b) (pt_records pt)"
    "\<forall>q \<in> set (pt_records pt). pt_earliest_offset pt \<le> sr_offset q \<and> 0 \<le> sr_offset q"
    and ps: "rec # ps = filter (cursor_admits c) (pt_records pt)"
    using assms by (auto simp: admitted_def)
  have rec: "rec \<in> set (pt_records pt)" "cursor_admits c rec"
    using arg_cong [OF ps, of set] by auto
  then show "cursor_pos c \<le> sr_offset rec" "0 \<le> sr_offset rec" using pt(4) by (auto simp: cursor_admits_pos)
  have "sorted_wrt (\<lambda>a b. sr_offset a < sr_offset b) (rec # ps)"
    unfolding ps by (rule sorted_wrt_filter [OF pt(3)])
  then have later: "\<forall>q \<in> set ps. sr_offset rec < sr_offset q" by simp
  have "filter (cursor_admits (last_successful rec)) (pt_records pt) =
      filter (cursor_admits (last_successful rec)) (filter (cursor_admits c) (pt_records pt))"
    using rec(2) by (auto simp: cursor_admits_pos cursor_pos_def intro!: filter_cong)
  also have "\<dots> = filter (cursor_admits (last_successful rec)) (rec # ps)" by (simp add: ps)
  also have "\<dots> = ps" using later by (auto simp: cursor_admits_def filter_id_conv)
  finally show "admitted l k (last_successful rec) ps"
    unfolding admitted_def using pt rec(1) by auto
qed

lemma admitted_frame:
  "lg_streams l' = lg_streams l \<Longrightarrow> admitted l' k c ps = admitted l k c ps"
  by (simp add: admitted_def)

lemma lease_next_live:
  assumes "lease_live k r l None ps"
  shows "lease_next_record r l = (case ps of [] \<Rightarrow> (Inr None, l)
    | rec # _ \<Rightarrow> (Inr (Some rec), update_lease l r
        (\<lambda>ls. ls\<lparr>ls_in_flight := Some rec, ls_delivery_completed := False\<rparr>)))"
proof -
  obtain c ss pt where c: "lg_broker_cursors l k = Some c" "lg_streams l (ck_stream k) = Some ss"
    "partition_of ss (Inst (ck_partition k)) = Inr pt" "pt_earliest_offset pt \<le> rc_offset c"
    "ps = filter (cursor_admits c) (pt_records pt)"
    using assms by (auto simp: lease_live_def admitted_def)
  have own: "require_owner_locked l k (ls_owner (lg_heap l r)) = Inr ()"
    using assms by (auto simp: lease_live_def owns_def owner_check_iff)
  have "load_cursor_broker l r = Inr c"
    using assms own c(1) by (simp add: load_cursor_broker_def lease_live_def)
  moreover have "next_locked l r c = (case ps of [] \<Rightarrow> (Inr None, l)
    | rec # _ \<Rightarrow> (Inr (Some rec), update_lease l r
        (\<lambda>ls. ls\<lparr>ls_in_flight := Some rec, ls_delivery_completed := False\<rparr>)))"
    using assms own c(2,3,4)
    by (simp add: next_locked_def lease_live_def stream_of_def require_retained_def find_hd_filter c(5) split: list.split)
  ultimately show ?thesis using assms by (simp add: lease_next_record_def lease_live_def)
qed

lemma lease_checkpoint_live:
  assumes live: "lease_live k r l (Some rec) (rec # ps)"
  shows "\<exists>l'. lease_checkpoint r rec l = (Inr (), l') \<and> lease_live k r l' None ps"
proof -
  obtain c where c: "lg_broker_cursors l k = Some c" "admitted l k c (rec # ps)"
    using live by (auto simp: lease_live_def)
  note after = admitted_after [OF c(2)]
  have own: "require_owner_locked l k (ls_owner (lg_heap l r)) = Inr ()"
    using live by (auto simp: lease_live_def owns_def owner_check_iff)
  have cu: "cursor_last_successful (sr_offset rec) = Inr (last_successful rec)"
    using after(3) by (simp add: cursor_last_successful_def mk_resume_cursor_def)
  have adv: "validate_advance c (last_successful rec) = Inr ()" using after(2) validate_advance_iff by blast
  let ?l = "update_lease (l\<lparr>lg_broker_cursors := (lg_broker_cursors l)(k \<mapsto> last_successful rec)\<rparr>) r complete_delivery"
  have "lease_checkpoint r rec l = (Inr (), ?l)"
    using live own c(1)
    by (simp add: lease_checkpoint_def checkpoint_guard_def load_cursor_broker_def checkpoint_broker_def
        lease_live_def cu adv)
  moreover have "lease_live k r ?l None ps"
    using live after(1) admitted_frame [of ?l l k "last_successful rec" ps]
    by (auto simp: lease_live_def owns_def require_active_iff complete_delivery_def)
  ultimately show ?thesis by blast
qed

interpretation mem_lease: partition_lease "memory_lease k r" "\<lambda>(l, h). lease_live k r l"
  "\<lambda>(l, h). lease_ended k r l" snd for k r
proof
  fix s :: "log \<times> 'a"
  assume "(case s of (l, h) \<Rightarrow> lease_live k r l) None []"
  then show "pl_next_record (memory_lease k r) s = (Inr None, s)"
    by (auto simp: memory_lease_def lease_next_live split: prod.splits)
next
  fix s :: "log \<times> 'a" and rec ps
  assume "(case s of (l, h) \<Rightarrow> lease_live k r l) None (rec # ps)"
  then obtain l h where s: "s = (l, h)" and live: "lease_live k r l None (rec # ps)" by (cases s) auto
  let ?l = "update_lease l r (\<lambda>ls. ls\<lparr>ls_in_flight := Some rec, ls_delivery_completed := False\<rparr>)"
  have "lease_live k r ?l (Some rec) (rec # ps)"
    using live admitted_frame [of ?l l k _ "rec # ps"] by (auto simp: lease_live_def owns_def require_active_iff)
  then show "\<exists>s1. pl_next_record (memory_lease k r) s = (Inr (Some rec), s1) \<and>
      (case s1 of (l, h) \<Rightarrow> lease_live k r l) (Some rec) (rec # ps) \<and> snd s1 = snd s"
    using lease_next_live [OF live] s by (auto simp: memory_lease_def)
next
  fix s :: "log \<times> 'a" and rec ps
  assume "(case s of (l, h) \<Rightarrow> lease_live k r l) (Some rec) (rec # ps)"
  then show "\<exists>s1. pl_checkpoint (memory_lease k r) rec s = (Inr (), s1) \<and>
      (case s1 of (l, h) \<Rightarrow> lease_live k r l) None ps \<and> snd s1 = snd s"
    using lease_checkpoint_live [of k r _ rec ps] by (fastforce simp: memory_lease_def split: prod.splits)
next
  fix s :: "log \<times> 'a" and d ps
  assume "(case s of (l, h) \<Rightarrow> lease_live k r l) d ps"
  then show "(case snd (pl_stop (memory_lease k r) s) of (l, h) \<Rightarrow> lease_ended k r l) ps \<and>
      snd (snd (pl_stop (memory_lease k r) s)) = snd s"
    using admitted_frame [of "lease_stop (fst s) r" "fst s" k _ ps]
    by (auto simp: memory_lease_def lease_live_def lease_ended_def lease_stop_def complete_delivery_def
        split: prod.splits)
qed

end
