(* ===== verification/Streams_Scripts.thy ===== *)
theory Streams_Scripts
  imports Streams_Strategies Streams_Transfers Streams_Consumer
begin

text \<open>
  Executable runs of the concurrent log: a script lists which step is taken next, and every script
  that runs to its end describes a reachable state. Concrete runs are evaluated with it.
\<close>

datatype action =
    Declare stream_definition
  | Append int string append_request
  | Trim string int int
  | Acquire subscription int checkpoint_strategy bool
  | Next nat
  | Checkpoint nat stored_record
  | Release nat
  | Advance nat environment
  | Cancel nat

type_synonym script_state = "history_log \<times> log \<times> call list"

definition request_okb :: "append_request \<Rightarrow> bool" where
  "request_okb rq \<longleftrightarrow> rq_partition_key rq \<noteq> [] \<and> fmlookup (rq_headers rq) [] = None \<and>
     (rq_producer_name rq = None \<longleftrightarrow> rq_publishing_id rq = None)"

lemma request_okb [simp]: "request_okb rq = request_ok rq"
  by (auto simp: request_okb_def request_ok_def fmdom_notD fmdom_notI)

fun option_list :: "'a option \<Rightarrow> 'a list" where
  "option_list None = []"
| "option_list (Some x) = [x]"

definition remove_at :: "nat \<Rightarrow> 'a list \<Rightarrow> 'a list" where
  "remove_at i xs = take i xs @ drop (Suc i) xs"

fun act :: "action \<Rightarrow> script_state \<Rightarrow> script_state option" where
  "act (Declare sd) (A, l, cs) =
     (if lg_closed l then None else Some (snd (history_declare A sd), snd (declare_stream l sd), cs))"
| "act (Append now s rq) (A, l, cs) =
     (if lg_closed l \<or> \<not> request_okb rq then None
      else let clock = Inr (Inst (Aware now))
           in Some (snd (history_append A clock s rq), snd (log_append l clock s rq), cs))"
| "act (Trim s p k) (A, l, cs) =
     (if lg_closed l then None
      else Some (snd (history_trim A s (Inst p) (Inst k)), snd (log_trim l s (Inst p) (Inst k)), cs))"
| "act (Acquire sub p st tr) (A, l, cs) =
     (if \<not> subscription_ok sub then None
      else case acquire_begin l sub (Inst p) (Inst st) tr of
        (Inl e, l') \<Rightarrow> None | (Inr aq, l') \<Rightarrow> Some (A, l', Acquiring aq # cs))"
| "act (Next r) (A, l, cs) =
     (if r < lg_fresh l \<and> outcome_ok (require_active (lg_heap l r)) then Some (A, l, Loading r # cs) else None)"
| "act (Checkpoint r rec) (A, l, cs) =
     (if r < lg_fresh l \<and> outcome_ok (require_active (lg_heap l r)) then Some (A, l, CkChecking r rec # cs) else None)"
| "act (Release r) (A, l, cs) =
     (if r < lg_fresh l \<and> \<not> ls_released (lg_heap l r) then Some (A, l, Releasing r # cs) else None)"
| "act (Advance i ev) (A, l, cs) =
     (if i < length cs \<and> call_ready l (cs ! i)
      then case call_advance l ev (cs ! i) of (l', c') \<Rightarrow> Some (A, l', option_list c' @ remove_at i cs)
      else None)"
| "act (Cancel i) (A, l, cs) =
     (if i < length cs then Some (A, l, option_list (call_cancel (cs ! i)) @ remove_at i cs) else None)"

fun run_script :: "action list \<Rightarrow> script_state \<Rightarrow> script_state option" where
  "run_script [] s = Some s"
| "run_script (a # as) s = (case act a s of None \<Rightarrow> None | Some s' \<Rightarrow> run_script as s')"

lemma mset_remove_at: "i < length xs \<Longrightarrow> mset xs = add_mset (xs ! i) (mset (remove_at i xs))"
  by (metis remove_at_def id_take_nth_drop mset.simps(2) mset_append union_mset_add_mset_right)

lemma mset_option_list: "mset (option_list c) + M = add_call c M"
  by (cases c) auto

lemma act_step:
  assumes "act a (A, l, cs) = Some (A', l', cs')"
  shows "ps_step (A, l, mset cs) (A', l', mset cs')"
proof (cases a)
  case (Declare sd)
  then show ?thesis
    using assms ps_step.declare_s [of A l "mset cs" sd] by (auto split: if_splits)
next
  case (Append now s rq)
  then show ?thesis
    using assms ps_step.append_s [of rq A l "mset cs" "Inr (Inst (Aware now))" s] by (auto simp: Let_def split: if_splits)
next
  case (Trim s p k)
  then show ?thesis
    using assms ps_step.trim [of A l "mset cs" s "Inst p" "Inst k"] by (auto split: if_splits)
next
  case (Acquire sub p st tr)
  then show ?thesis
    using assms by (auto intro: ps_step.acquire split: if_splits prod.splits sum.splits)
next
  case (Next r)
  then show ?thesis
    using assms by (auto intro: ps_step.next_record simp: outcome_ok_iff split: if_splits)
next
  case (Checkpoint r rec)
  then show ?thesis
    using assms by (auto intro: ps_step.checkpoint simp: outcome_ok_iff split: if_splits)
next
  case (Release r)
  then show ?thesis
    using assms by (auto intro: ps_step.release split: if_splits)
next
  case (Advance i ev)
  then obtain c' where i: "i < length cs" "call_ready l (cs ! i)" "call_advance l ev (cs ! i) = (l', c')"
    and s': "A' = A" "cs' = option_list c' @ remove_at i cs"
    using assms by (auto split: if_splits prod.splits)
  show ?thesis
    using ps_step.advance [OF i(2,3), of A "mset (remove_at i cs)"] mset_remove_at [OF i(1)] s' mset_option_list
    by simp
next
  case (Cancel i)
  then have i: "i < length cs" and s': "A' = A" "l' = l" "cs' = option_list (call_cancel (cs ! i)) @ remove_at i cs"
    using assms by (auto split: if_splits)
  show ?thesis
    using ps_step.cancel [of A l "cs ! i" "mset (remove_at i cs)"] mset_remove_at [OF i] s' mset_option_list by simp
qed

lemma run_script_reachable:
  assumes "run_script as (A, l, cs) = Some (A', l', cs')" "ps_reachable (A, l, mset cs)"
  shows "ps_reachable (A', l', mset cs')"
  using assms
proof (induction as arbitrary: A l cs)
  case (Cons a as)
  then show ?case
    by (auto split: option.splits) (metis act_step ps_reachable.step)
qed simp

section \<open>A stream with one partition\<close>

definition demo_router :: router where
  "demo_router = \<lparr>rt_copy = Inr (), rt_identity = Inr (Inst ''one''), rt_compatibility_key = Inr 0,
     rt_route = (\<lambda>key count. Inr (Inst 0))\<rparr>"

definition demo_definition :: stream_definition where
  "demo_definition = \<lparr>sd_name = ''s'', sd_partition_count = 1, sd_limits = default_stream_limits,
     sd_router = demo_router, sd_router_identity = ''one'', sd_router_compatibility_key = 0\<rparr>"

definition demo_request :: "nat \<Rightarrow> append_request" where
  "demo_request n = \<lparr>rq_record_id = n, rq_partition_key = [1], rq_payload = [], rq_headers = fmempty,
     rq_producer_name = Some ''p'', rq_publishing_id = Some (int n)\<rparr>"

definition demo_subscription :: "string \<Rightarrow> subscription" where
  "demo_subscription w = \<lparr>su_stream = ''s'', su_group = ''g'', su_owner_id = w, su_start = Beginning\<rparr>"

definition demo_key :: checkpoint_key where
  "demo_key = \<lparr>ck_stream = ''s'', ck_group = ''g'', ck_partition = 0\<rparr>"

definition demo_lease :: lease where
  "demo_lease = mk_lease (demo_subscription ''none'') demo_key \<lparr>ot_owner_id = ''none'', ot_generation = 1\<rparr> None"

definition demo_env :: environment where
  "demo_env = \<lparr>ev_clock = Inr (Inst (Aware 0)), ev_fence = Inr RNone, ev_load = Inr RNone,
     ev_create = Inr RNone, ev_save = Inr RNone\<rparr>"

definition demo_start :: "int \<Rightarrow> script_state" where
  "demo_start n = (Map.empty, projr (new_log (Inst n) (\<lambda>_. demo_lease)), [])"

lemma demo_start_reachable:
  assumes "0 < n" "run_script as (demo_start n) = Some (A, l, cs)"
  shows "ps_reachable (A, l, mset cs)"
proof (rule run_script_reachable)
  show "run_script as (Map.empty, projr (new_log (Inst n) (\<lambda>_. demo_lease)), []) = Some (A, l, cs)"
    using assms(2) by (simp add: demo_start_def)
  show "ps_reachable (Map.empty, projr (new_log (Inst n) (\<lambda>_. demo_lease)), mset [])"
    using assms(1) ps_reachable.init [of "Inst n" "\<lambda>_. demo_lease"] by (simp add: new_log_def)
qed

text \<open>A stream with one record, and one owner of its partition.\<close>

definition step_calls :: "nat \<Rightarrow> action list" where
  "step_calls n = replicate n (Advance 0 demo_env)"

definition demo_owner :: "action list" where
  "demo_owner = [Declare demo_definition, Append 5 ''s'' (demo_request 1),
     Acquire (demo_subscription ''a'') 0 BROKER_MANAGED False] @ step_calls 3"

end
