(* ===== verification/Streams_Stores.thy ===== *)
theory Streams_Stores
  imports Streams_Progress
begin

text \<open>
  The contract of an external checkpoint store (\<open>CheckpointStore\<close> in \<open>checkpoints.py\<close>) as a locale:
  fencing replaces the owner of a key atomically, and only the exact current owner creates or saves
  a cursor. What a client may conclude is proved from the contract; the in-memory store implements it.
\<close>

datatype store_op =
    Fence checkpoint_key ownership_token
  | Load checkpoint_key
  | Create checkpoint_key "resume_cursor arg" ownership_token
  | Save checkpoint_key "resume_cursor arg" "resume_cursor arg" ownership_token

text \<open>A write on \<open>k\<close> under a token other than \<open>w\<close>.\<close>

fun stale_write :: "checkpoint_key \<Rightarrow> ownership_token \<Rightarrow> store_op \<Rightarrow> bool" where
  "stale_write k w (Create k' c w') \<longleftrightarrow> k' = k \<and> w' \<noteq> w"
| "stale_write k w (Save k' e c w') \<longleftrightarrow> k' = k \<and> w' \<noteq> w"
| "stale_write k w _ \<longleftrightarrow> False"

fun fences :: "checkpoint_key \<Rightarrow> store_op \<Rightarrow> bool" where
  "fences k (Fence k' w) \<longleftrightarrow> k' = k"
| "fences k _ \<longleftrightarrow> False"

text \<open>The methods of a store, and the effect of one call.\<close>

fun perform ::
  "('s \<Rightarrow> checkpoint_key \<Rightarrow> ownership_token \<Rightarrow> (ps_error + unit) \<times> 's) \<Rightarrow>
   ('s \<Rightarrow> checkpoint_key \<Rightarrow> (ps_error + resume_cursor option) \<times> 's) \<Rightarrow>
   ('s \<Rightarrow> checkpoint_key \<Rightarrow> resume_cursor arg \<Rightarrow> ownership_token \<Rightarrow> (ps_error + resume_cursor) \<times> 's) \<Rightarrow>
   ('s \<Rightarrow> checkpoint_key \<Rightarrow> resume_cursor arg \<Rightarrow> resume_cursor arg \<Rightarrow> ownership_token \<Rightarrow> (ps_error + unit) \<times> 's) \<Rightarrow>
   store_op \<Rightarrow> 's \<Rightarrow> 's" where
  "perform fence load create save (Fence k w) s = snd (fence s k w)"
| "perform fence load create save (Load k) s = snd (load s k)"
| "perform fence load create save (Create k c w) s = snd (create s k c w)"
| "perform fence load create save (Save k e c w) s = snd (save s k e c w)"

text \<open>
  The store calls of \<open>_initialize\<close> for a new owner: fence, load, and create when nothing is stored.
\<close>

definition store_initialize ::
  "('s \<Rightarrow> checkpoint_key \<Rightarrow> ownership_token \<Rightarrow> (ps_error + unit) \<times> 's) \<Rightarrow>
   ('s \<Rightarrow> checkpoint_key \<Rightarrow> (ps_error + resume_cursor option) \<times> 's) \<Rightarrow>
   ('s \<Rightarrow> checkpoint_key \<Rightarrow> resume_cursor arg \<Rightarrow> ownership_token \<Rightarrow> (ps_error + resume_cursor) \<times> 's) \<Rightarrow>
   checkpoint_key \<Rightarrow> ownership_token \<Rightarrow> resume_cursor \<Rightarrow> 's \<Rightarrow> (ps_error + unit) \<times> 's" where
  "store_initialize fence load create k w cursor s =
     (case fence s k w of (f, s1) \<Rightarrow> (case load s1 k of (ld, s2) \<Rightarrow>
        (case initialize_store_load (none_result f) (optional_cursor_result ld) of
           Inl e \<Rightarrow> (Inl e, s2)
         | Inr (Some _) \<Rightarrow> (Inr (), s2)
         | Inr None \<Rightarrow>
             (case create s2 k (Inst cursor) w of (cr, s3) \<Rightarrow>
                (case initialize_store_create (cursor_result cr) cursor of
                   Inl e \<Rightarrow> (Inl e, s3) | Inr _ \<Rightarrow> (Inr (), s3))))))"

locale checkpoint_store =
  fixes fence :: "'s \<Rightarrow> checkpoint_key \<Rightarrow> ownership_token \<Rightarrow> (ps_error + unit) \<times> 's"
    and load :: "'s \<Rightarrow> checkpoint_key \<Rightarrow> (ps_error + resume_cursor option) \<times> 's"
    and create :: "'s \<Rightarrow> checkpoint_key \<Rightarrow> resume_cursor arg \<Rightarrow> ownership_token \<Rightarrow> (ps_error + resume_cursor) \<times> 's"
    and save :: "'s \<Rightarrow> checkpoint_key \<Rightarrow> resume_cursor arg \<Rightarrow> resume_cursor arg \<Rightarrow> ownership_token \<Rightarrow> (ps_error + unit) \<times> 's"
    and owner_of :: "'s \<Rightarrow> checkpoint_key \<rightharpoonup> ownership_token"
    and cursor_of :: "'s \<Rightarrow> checkpoint_key \<rightharpoonup> resume_cursor"
  assumes fence_ok: "\<exists>s'. fence s k w = (Inr (), s') \<and> owner_of s' = (owner_of s)(k \<mapsto> w) \<and> cursor_of s' = cursor_of s"
    and load_ok: "load s k = (Inr (cursor_of s k), s)"
    and create_refused: "owner_of s k \<noteq> Some w \<Longrightarrow> \<exists>e. create s k a w = (Inl e, s)"
    and create_owner: "owner_of s k = Some w \<Longrightarrow> rc_kind c = INITIALIZED \<Longrightarrow>
      \<exists>s'. create s k (Inst c) w = (Inr (case cursor_of s k of None \<Rightarrow> c | Some old \<Rightarrow> old), s') \<and>
        owner_of s' = owner_of s \<and>
        cursor_of s' = (case cursor_of s k of None \<Rightarrow> (cursor_of s)(k \<mapsto> c) | Some _ \<Rightarrow> cursor_of s)"
    and create_frame: "create s k a w = (x, s') \<Longrightarrow> owner_of s' = owner_of s \<and>
      (cursor_of s' = cursor_of s \<or> cursor_of s k = None \<and> (\<exists>c. cursor_of s' = (cursor_of s)(k \<mapsto> c)))"
    and save_refused: "owner_of s k \<noteq> Some w \<Longrightarrow> \<exists>e. save s k a b w = (Inl e, s)"
    and save_error: "save s k a b w = (Inl e, s') \<Longrightarrow> s' = s"
    and save_ok: "save s k a b w = (Inr u, s') \<Longrightarrow> owner_of s' = owner_of s \<and>
      (\<exists>e c. a = Inst e \<and> b = Inst c \<and> cursor_of s k = Some e \<and> rc_kind c = LAST_SUCCESSFUL \<and>
         cursor_pos e \<le> rc_offset c \<and> cursor_of s' = (cursor_of s)(k \<mapsto> c))"
begin

abbreviation does :: "store_op \<Rightarrow> 's \<Rightarrow> 's" where
  "does \<equiv> perform fence load create save"

lemma perform_stale: "owner_of s k = Some w \<Longrightarrow> stale_write k w op \<Longrightarrow> does op s = s"
proof (cases op)
  case (Create k' a w')
  assume "owner_of s k = Some w" "stale_write k w op"
  then show ?thesis using Create create_refused [of s k w' a] by auto
next
  case (Save k' a b w')
  assume "owner_of s k = Some w" "stale_write k w op"
  then show ?thesis using Save save_refused [of s k w' a b] by auto
qed simp_all

lemma perform_owner: "owner_of s k = Some w \<Longrightarrow> \<not> fences k op \<Longrightarrow> owner_of (does op s) k = Some w"
proof (cases op)
  case (Fence k' w')
  assume "owner_of s k = Some w" "\<not> fences k op"
  then show ?thesis using fence_ok [of s k' w'] Fence by auto
next
  case (Load k')
  assume "owner_of s k = Some w"
  then show ?thesis using load_ok Load by simp
next
  case (Create k' a w')
  assume "owner_of s k = Some w"
  then show ?thesis using create_frame [of s k' a w'] Create by (cases "create s k' a w'") auto
next
  case (Save k' a b w')
  assume o: "owner_of s k = Some w"
  show ?thesis
  proof (cases "save s k' a b w'")
    case (Pair x s')
    then show ?thesis using o Save save_error [of s k' a b w'] save_ok [of s k' a b w'] by (cases x) auto
  qed
qed

text \<open>Erasing the writes of owners that have been fenced out changes nothing.\<close>

lemma stale_writes_erased:
  assumes "owner_of s k = Some w" "\<forall>op \<in> set ops. \<not> fences k op"
  shows "fold does ops s = fold does (filter (\<lambda>op. \<not> stale_write k w op) ops) s"
  using assms
proof (induction ops arbitrary: s)
  case (Cons op ops)
  show ?case
  proof (cases "stale_write k w op")
    case True
    then show ?thesis using Cons perform_stale by simp
  next
    case False
    then show ?thesis using Cons.IH [of "does op s"] Cons.prems perform_owner by simp
  qed
qed simp

lemma perform_cursor:
  assumes "cursor_of s k = Some c"
  shows "\<exists>c'. cursor_of (does op s) k = Some c' \<and> cursor_pos c \<le> cursor_pos c'"
proof (cases op)
  case (Fence k' w')
  then show ?thesis using assms fence_ok [of s k' w'] by auto
next
  case (Load k')
  then show ?thesis using assms load_ok by simp
next
  case (Create k' a w')
  obtain x s' where cr: "create s k' a w' = (x, s')" by (cases "create s k' a w'")
  have "cursor_of s' k = Some c"
    using create_frame [OF cr] assms by auto
  then show ?thesis using Create cr by simp
next
  case (Save k' a b w')
  show ?thesis
  proof (cases "save s k' a b w'")
    case (Pair x s')
    then show ?thesis
      using assms Save save_error [of s k' a b w'] save_ok [of s k' a b w']
      by (cases x) (auto simp: cursor_pos_def)
  qed
qed

lemma cursor_never_back:
  "cursor_of s k = Some c \<Longrightarrow> \<exists>c'. cursor_of (fold does ops s) k = Some c' \<and> cursor_pos c \<le> cursor_pos c'"
proof (induction ops arbitrary: s c)
  case (Cons op ops)
  obtain c1 where "cursor_of (does op s) k = Some c1" "cursor_pos c \<le> cursor_pos c1"
    using perform_cursor Cons.prems by blast
  with Cons.IH [of "does op s" c1] show ?case by fastforce
qed simp

lemma store_initialize_ok:
  assumes "rc_kind cursor = INITIALIZED"
  shows "\<exists>s'. store_initialize fence load create k w cursor s = (Inr (), s') \<and> owner_of s' k = Some w \<and>
    cursor_of s' k = Some (case cursor_of s k of None \<Rightarrow> cursor | Some old \<Rightarrow> old)"
proof -
  obtain s1 where s1: "fence s k w = (Inr (), s1)" "owner_of s1 = (owner_of s)(k \<mapsto> w)" "cursor_of s1 = cursor_of s"
    using fence_ok by blast
  have load: "load s1 k = (Inr (cursor_of s k), s1)" using load_ok s1(3) by simp
  show ?thesis
  proof (cases "cursor_of s k")
    case (Some old)
    then show ?thesis
      using s1 load by (simp add: store_initialize_def initialize_store_load_def validate_checkpoint_store_call_def
          store_result_check_def)
  next
    case None
    obtain s2 where "create s1 k (Inst cursor) w = (Inr cursor, s2)" "owner_of s2 = owner_of s1"
      "cursor_of s2 = (cursor_of s1)(k \<mapsto> cursor)"
      using create_owner [of s1 k w cursor] s1 None assms by auto
    then show ?thesis
      using s1 load None by (simp add: store_initialize_def initialize_store_load_def initialize_store_create_def
          validate_checkpoint_store_call_def store_result_check_def)
  qed
qed

end

section \<open>The in-memory store\<close>

interpretation mem_store: checkpoint_store cs_fence cs_load cs_compare_and_create cs_save cs_owners cs_cursors
proof
  fix s k a w x s'
  assume "cs_compare_and_create s k a w = (x, s')"
  then show "cs_owners s' = cs_owners s \<and>
      (cs_cursors s' = cs_cursors s \<or> cs_cursors s k = None \<and> (\<exists>c. cs_cursors s' = (cs_cursors s)(k \<mapsto> c)))"
    by (auto simp: cs_compare_and_create_def split: arg.splits if_splits sum.splits option.splits)
next
  fix s k a b w u s'
  assume "cs_save s k a b w = (Inr u, s')"
  then show "cs_owners s' = cs_owners s \<and> (\<exists>e c. a = Inst e \<and> b = Inst c \<and> cs_cursors s k = Some e \<and>
      rc_kind c = LAST_SUCCESSFUL \<and> cursor_pos e \<le> rc_offset c \<and> cs_cursors s' = (cs_cursors s)(k \<mapsto> c))"
    by (auto simp: cs_save_def cursor_pos_def split: arg.splits if_splits sum.splits cursor_kind.splits)
next
  fix s k a b w e s'
  assume "cs_save s k a b w = (Inl e, s')"
  then show "s' = s" by (auto simp: cs_save_def split: arg.splits if_splits sum.splits)
next
  fix s :: checkpoint_store_state and k w a b
  assume o: "cs_owners s k \<noteq> Some w"
  then have "cs_require_owner s k w = Inl OwnershipError" by (simp add: cs_require_owner_def)
  then show "\<exists>e. cs_compare_and_create s k a w = (Inl e, s)" "\<exists>e. cs_save s k a b w = (Inl e, s)"
    by (simp_all add: cs_compare_and_create_def cs_save_def split: arg.split)
next
  fix s :: checkpoint_store_state and k w and c :: resume_cursor
  assume "cs_owners s k = Some w" "rc_kind c = INITIALIZED"
  then show "\<exists>s'. cs_compare_and_create s k (Inst c) w =
        (Inr (case cs_cursors s k of None \<Rightarrow> c | Some old \<Rightarrow> old), s') \<and> cs_owners s' = cs_owners s \<and>
      cs_cursors s' = (case cs_cursors s k of None \<Rightarrow> (cs_cursors s)(k \<mapsto> c) | Some _ \<Rightarrow> cs_cursors s)"
    by (simp add: cs_compare_and_create_def cs_require_owner_def split: option.split)
qed (simp_all add: cs_fence_def cs_load_def)

end
