(* ===== verification/Streams_Properties.thy ===== *)
theory Streams_Properties
  imports Streams_Scripts Streams_Stores
begin

text \<open>
  The guarantees of the persistent streams core, over the reachable states of the concurrent log,
  and concrete runs on which they are evaluated.
\<close>

section \<open>Concrete runs\<close>

definition ends_in :: "action list \<Rightarrow> int \<Rightarrow> (history_log \<Rightarrow> log \<Rightarrow> call list \<Rightarrow> bool) \<Rightarrow> bool" where
  "ends_in as n P \<longleftrightarrow> (case run_script as (demo_start n) of None \<Rightarrow> False | Some (A, l, cs) \<Rightarrow> P A l cs)"

lemma ends_inE:
  assumes "ends_in as n P" "0 < n"
  obtains A l cs where "run_script as (demo_start n) = Some (A, l, cs)" "P A l cs" "ps_reachable (A, l, mset cs)"
  using assms demo_start_reachable [OF assms(2)]
  by (auto simp: ends_in_def split: option.splits)

lemma ends_in_reachable:
  assumes "ends_in as n P" "0 < n"
  shows "\<exists>A l M. ps_reachable (A, l, M) \<and> (\<exists>cs. M = mset cs \<and> P A l cs)"
  using ends_inE [OF assms] by metis

section \<open>Records\<close>

lemma stored_of:
  assumes "ps_reachable (A, l, M)"
  shows "lg_streams l = streams_view A" "history_log_ok A"
  using stored_ok_reachable [OF assms] by (auto simp: stored_ok_def)

text \<open>C8: In every reachable state of the log, appending a request that the request constructor accepts returns exactly what the abstract log returns, and the new state stores exactly the new abstract history: accepted requests go to the end of their partition, with the next offset and a timestamp that never runs backwards, repeated ones are answered from the producer's last publication, and refused ones change nothing.\<close>

theorem append_refines_history:
  assumes "ps_reachable (A, l, M)" "\<not> lg_closed l" "request_ok rq"
  shows "log_append l clock s rq =
    (fst (history_append A clock s rq), l\<lparr>lg_streams := streams_view (snd (history_append A clock s rq))\<rparr>)"
  using log_append_view [OF stored_of(1) [OF assms(1)] assms(2) stored_of(2) [OF assms(1)] assms(3)] .

theorem append_refines_history_witness:
  "\<exists>A l M. ps_reachable (A, l, M) \<and>
     log_append l (Inr (Inst (Aware 7))) ''s'' (demo_request 2) =
       (fst (history_append A (Inr (Inst (Aware 7))) ''s'' (demo_request 2)),
        l\<lparr>lg_streams := streams_view (snd (history_append A (Inr (Inst (Aware 7))) ''s'' (demo_request 2)))\<rparr>)"
proof -
  have "ends_in demo_owner 10 (\<lambda>A l cs. \<not> lg_closed l \<and> request_okb (demo_request 2))" by code_simp
  then obtain A l cs where r: "ps_reachable (A, l, mset cs)" "\<not> lg_closed l" "request_ok (demo_request 2)"
    by (rule ends_inE) auto
  then show ?thesis using append_refines_history [OF r] by blast
qed

text \<open>C16: Reading a page in any reachable state returns the page of the complete history of the partition from the requested offset on: records below the trimmed boundary are reported as a retention gap and never silently skipped, and an unknown stream, a bad partition or a bad range is an error.\<close>

theorem read_returns_history:
  assumes "ps_reachable (A, l, M)" "\<not> lg_closed l"
  shows "log_read l s part k n = history_read A s part k n"
  using log_read_view [OF stored_of(1) [OF assms(1)] assms(2) stored_of(2) [OF assms(1)]] .

theorem read_returns_history_witness:
  "\<exists>A l M. ps_reachable (A, l, M) \<and>
     log_read l ''s'' (Inst 0) (Inst 0) (Inst 5) = history_read A ''s'' (Inst 0) (Inst 0) (Inst 5) \<and>
     outcome_ok (log_read l ''s'' (Inst 0) (Inst 0) (Inst 5))"
proof -
  have "ends_in demo_owner 10 (\<lambda>A l cs. \<not> lg_closed l \<and> outcome_ok (log_read l ''s'' (Inst 0) (Inst 0) (Inst 5)))"
    by code_simp
  then obtain A l cs where r: "ps_reachable (A, l, mset cs)" "\<not> lg_closed l"
    and ok: "outcome_ok (log_read l ''s'' (Inst 0) (Inst 0) (Inst 5))"
    by (rule ends_inE) auto
  then show ?thesis using read_returns_history [OF r] by blast
qed

lemma same_id_same_request:
  assumes "ids_increase h" "e \<in> set h" "e' \<in> set h" "rq_producer_name (fst e) = Some nm"
    "rq_producer_name (fst e') = Some nm" "the (rq_publishing_id (fst e)) = the (rq_publishing_id (fst e'))"
  shows "fst e = fst e'"
proof -
  obtain i j where i: "i < length h" "h ! i = e" and j: "j < length h" "h ! j = e'"
    using assms(2,3) by (auto simp: in_set_conv_nth)
  have lt: "the (rq_publishing_id (fst (h ! a))) < the (rq_publishing_id (fst (h ! b)))"
    if "a < b" "b < length h" "rq_producer_name (fst (h ! a)) = Some nm" "rq_producer_name (fst (h ! b)) = Some nm" for a b
    using assms(1) that by (simp add: ids_increase_def sorted_wrt_iff_nth_less)
  have "i = j" using lt [of i j] lt [of j i] i j assms(4-6) by (metis less_irrefl linorder_neqE_nat)
  then show ?thesis using i j by simp
qed

text \<open>A request that is in the history is never accepted again.\<close>

lemma decide_accepted:
  assumes h: "history_ok h low" and e: "(rq, t) \<in> set h" and nm: "rq_producer_name rq = Some nm"
  shows "decide h rq = (if last_publication nm h = Some rq then Repeat rq else Refuse StalePublishingIdError)"
proof -
  obtain old where old: "last_publication nm h = Some old"
    using last_publication_None [of nm h] e nm by fastforce
  obtain e' where e': "e' \<in> set h" "fst e' = old" and onm: "rq_producer_name old = Some nm"
    using last_publication_Some [OF old] by auto
  have le: "the (rq_publishing_id rq) \<le> the (rq_publishing_id old)"
    using last_publication_max [OF _ old e] h nm by (simp add: history_ok_def)
  have ids: "rq_publishing_id rq \<noteq> None" "rq_publishing_id old \<noteq> None"
    using h e e' nm onm by (force simp: history_ok_def request_ok_def)+
  have same: "rq = old" if "rq_publishing_id rq = rq_publishing_id old"
    using same_id_same_request [of h "(rq, t)" e' nm] h e e' nm onm that by (simp add: history_ok_def)
  show ?thesis
  proof (cases "rq = old")
    case True
    then show ?thesis using nm old by (simp add: decide_def)
  next
    case False
    then have "rq_publishing_id rq \<noteq> rq_publishing_id old" using same by blast
    then have "the (rq_publishing_id rq) < the (rq_publishing_id old)" using le ids by fastforce
    then show ?thesis using False \<open>rq_publishing_id rq \<noteq> rq_publishing_id old\<close> nm old by (simp add: decide_def)
  qed
qed

text \<open>C9: A publication of a named producer is stored at most once: appending a request that its partition has already accepted never stores it again, however many records, trims and concurrent calls came in between. If it is still the producer's last publication the caller gets its original receipt, marked as deduplicated; otherwise the id is reported stale. The log does not change.\<close>

theorem publication_stored_once:
  assumes reach: "ps_reachable (A, l, M)" and op: "\<not> lg_closed l"
    and x: "A s = Some x" "(rq, t) \<in> set (hs_history x p)" "rq_producer_name rq = Some nm"
  shows "log_append l clock s rq =
    (if last_publication nm (hs_history x p) = Some rq then Inr (confirmed_receipt DEDUPLICATED p rq)
     else Inl StalePublishingIdError, l)"
proof -
  have st: "lg_streams l = streams_view A" and hl: "history_log_ok A"
    using stored_of [OF reach] by auto
  have ok: "history_stream_ok s x" using hl x(1) by (simp add: history_log_ok_def)
  then have h: "history_ok (hs_history x p) (hs_low x p)"
    and lim: "validate_append_request_limits (hs_definition x) rq = Inr ()"
    and rt: "route_partition (hs_definition x) (rq_partition_key rq) = Inr p"
    using x(2) by (fastforce simp: history_stream_ok_def)+
  have rok: "request_ok rq" using h x(2) by (force simp: history_ok_def)
  have "history_append A clock s rq =
    (if last_publication nm (hs_history x p) = Some rq then Inr (confirmed_receipt DEDUPLICATED p rq)
     else Inl StalePublishingIdError, A)"
    using x(1) lim rt decide_accepted [OF h x(2,3)] by (simp add: history_append_def)
  then show ?thesis using log_append_view [OF st op hl rok, of clock s] st by simp
qed

theorem publication_stored_once_witness:
  "\<exists>A l M x t. ps_reachable (A, l, M) \<and> A ''s'' = Some x \<and> (demo_request 1, t) \<in> set (hs_history x 0) \<and>
     log_append l (Inr (Inst (Aware 7))) ''s'' (demo_request 1) =
       (Inr (confirmed_receipt DEDUPLICATED 0 (demo_request 1)), l)"
proof -
  have "ends_in demo_owner 10 (\<lambda>A l cs. \<not> lg_closed l \<and> (case A ''s'' of None \<Rightarrow> False
      | Some x \<Rightarrow> (case hs_history x 0 of [(rq, t)] \<Rightarrow> rq = demo_request 1 | _ \<Rightarrow> False)))" by code_simp
  then obtain A l cs x t where r: "ps_reachable (A, l, mset cs)" "\<not> lg_closed l"
    and x: "A ''s'' = Some x" "hs_history x 0 = [(demo_request 1, t)]"
    by (rule ends_inE) (auto split: option.splits list.splits)
  have nm: "rq_producer_name (demo_request 1) = Some ''p''" by (simp add: demo_request_def)
  have "last_publication ''p'' (hs_history x 0) = Some (demo_request 1)"
    using x(2) nm by (simp add: last_publication_def)
  then show ?thesis
    using publication_stored_once [OF r x(1) _ nm, of t 0 "Inr (Inst (Aware 7))"] r x
    by (intro exI [of _ A] exI [of _ l] exI [of _ "mset cs"] exI [of _ x] exI [of _ t]) simp
qed

lemma reachable_partition:
  assumes reach: "ps_reachable (A, l, M)" and x: "A (ck_stream k) = Some x"
    and p: "0 \<le> ck_partition k" "ck_partition k < sd_partition_count (hs_definition x)"
  shows "lg_streams l (ck_stream k) = Some (stream_view (ck_stream k) x)"
    and "partition_of (stream_view (ck_stream k) x) (Inst (ck_partition k)) =
      Inr (partition_view (ck_stream k) (ck_partition k) (hs_history x (ck_partition k)) (hs_low x (ck_partition k)))"
    and "history_ok (hs_history x (ck_partition k)) (hs_low x (ck_partition k))"
proof -
  have st: "lg_streams l = streams_view A" and hl: "history_log_ok A" using stored_of [OF reach] by auto
  then show "lg_streams l (ck_stream k) = Some (stream_view (ck_stream k) x)"
    "history_ok (hs_history x (ck_partition k)) (hs_low x (ck_partition k))"
    using x by (auto simp: streams_view_def history_log_ok_def history_stream_ok_def)
  have "0 < sd_partition_count (hs_definition x)" using p by simp
  from partition_of_view [OF this, of "ck_stream k" "Inst (ck_partition k)"] p
  show "partition_of (stream_view (ck_stream k) x) (Inst (ck_partition k)) =
      Inr (partition_view (ck_stream k) (ck_partition k) (hs_history x (ck_partition k)) (hs_low x (ck_partition k)))"
    by (simp del: partition_of.simps)
qed

text \<open>C35: A page is well formed: it holds at most the requested number of records (which is at most the stream's read limit), all of the requested stream and partition, with strictly increasing offsets that lie at or above both the requested offset and the earliest available one and below the end offset the page reports.\<close>

theorem page_within_bounds:
  assumes "ps_reachable (A, l, M)" "\<not> lg_closed l"
    and pg: "log_read l s (Inst p) (Inst k) (Inst n) = Inr pg"
  shows "\<exists>x b. A s = Some x \<and> pg_bounds pg = Some b \<and>
    int (length (pg_records pg)) \<le> n \<and> n \<le> sl_max_read_records (sd_limits (hs_definition x)) \<and>
    0 \<le> ab_earliest_offset b \<and> ab_earliest_offset b \<le> k \<and>
    sorted_wrt (\<lambda>a b. sr_offset a < sr_offset b) (pg_records pg) \<and>
    list_all (\<lambda>r. sr_stream r = s \<and> sr_partition r = p \<and> k \<le> sr_offset r \<and> sr_offset r < ab_end_offset b) (pg_records pg)"
proof -
  have "history_read A s (Inst p) (Inst k) (Inst n) = Inr pg"
    using pg log_read_view [OF stored_of(1) [OF assms(1)] assms(2) stored_of(2) [OF assms(1)]] by simp
  then obtain x where x: "A s = Some x" "hs_low x p \<le> k" "0 < n" "n \<le> sl_max_read_records (sd_limits (hs_definition x))"
    and pg: "pg = history_page s p (hs_history x p) (hs_low x p) k (nat n)"
    by (auto simp: history_read_def split: option.splits if_splits sum.splits)
  have "0 \<le> hs_low x p"
    using stored_of(2) [OF assms(1)] x(1) by (auto simp: history_log_ok_def history_stream_ok_def history_ok_def)
  moreover have "sorted_wrt (\<lambda>a b. sr_offset a < sr_offset b) (pg_records pg)"
    unfolding pg history_page_def
    by (simp add: sorted_wrt_take sorted_wrt_filter history_records_increasing)
  moreover have "sr_stream r = s \<and> sr_partition r = p" if "r \<in> set (history_records s p h)" for r h
    using that by (auto simp: history_records_def record_at_def)
  ultimately show ?thesis
    using x unfolding pg
    by (auto simp: history_page_def list_all_iff dest!: in_set_takeD dest: history_record_offsets)
qed

theorem page_within_bounds_witness:
  "\<exists>A l M pg x b. ps_reachable (A, l, M) \<and> log_read l ''s'' (Inst 0) (Inst 0) (Inst 5) = Inr pg \<and>
     A ''s'' = Some x \<and> pg_bounds pg = Some b \<and> int (length (pg_records pg)) \<le> 5 \<and> length (pg_records pg) = 1 \<and>
     list_all (\<lambda>r. sr_stream r = ''s'' \<and> sr_offset r < ab_end_offset b) (pg_records pg)"
proof -
  have "ends_in demo_owner 10 (\<lambda>A l cs. \<not> lg_closed l \<and> (case log_read l ''s'' (Inst 0) (Inst 0) (Inst 5) of
      Inl e \<Rightarrow> False | Inr pg \<Rightarrow> length (pg_records pg) = 1))" by code_simp
  then obtain A l cs pg where r: "ps_reachable (A, l, mset cs)" "\<not> lg_closed l"
    and pg: "log_read l ''s'' (Inst 0) (Inst 0) (Inst 5) = Inr pg" "length (pg_records pg) = 1"
    by (rule ends_inE) (auto split: sum.splits)
  obtain x b where "A ''s'' = Some x" "pg_bounds pg = Some b" "int (length (pg_records pg)) \<le> 5"
    "list_all (\<lambda>r. sr_stream r = ''s'' \<and> sr_partition r = 0 \<and> 0 \<le> sr_offset r \<and> sr_offset r < ab_end_offset b) (pg_records pg)"
    using page_within_bounds [OF r pg(1)] by blast
  then show ?thesis using r pg by (intro exI) (auto simp: list_all_iff)
qed

text \<open>C33: A new consumer group that starts at a time gets a cursor at the first record of the partition's complete history whose timestamp is at or after that time; if that record has been trimmed the start is refused with a retention gap, and if there is none the cursor is at the end of the partition.\<close>

theorem start_at_time:
  assumes reach: "ps_reachable (A, l, M)" and op: "\<not> lg_closed l" and own: "owns l r"
    and k: "ls_key (lg_heap l r) = k" and x: "A (ck_stream k) = Some x"
    and p: "0 \<le> ck_partition k" "ck_partition k < sd_partition_count (hs_definition x)"
    and t: "start_target clock (su_start (ls_subscription (lg_heap l r))) = Inr t"
  shows "resolved_cursor l clock r =
    (case find (\<lambda>rec. t \<le> sr_appended_at rec) (key_records A k) of
       None \<Rightarrow> cursor_initialized (2 * int (length (hs_history x (ck_partition k))))
     | Some rec \<Rightarrow>
         if sr_offset rec < hs_low x (ck_partition k)
         then Inl (RetentionGapError (ck_stream k) (ck_partition k) None (Some t)
                (Some \<lparr>ab_earliest_offset = hs_low x (ck_partition k),
                       ab_end_offset = 2 * int (length (hs_history x (ck_partition k)))\<rparr>) None)
         else cursor_initialized (sr_offset rec))"
proof -
  note part = reachable_partition [OF reach x p]
  have "require_owner_locked l k (ls_owner (lg_heap l r)) = Inr ()"
    using own op k by (simp add: owner_check_iff owns_def)
  then show ?thesis
    using k x part(1,2)
    by (simp add: resolved_cursor_def stream_of_def resolve_start_view [OF part(3) t] key_records_def
        del: partition_of.simps split: option.split)
qed

definition timed_owner :: "action list" where
  "timed_owner = [Declare demo_definition, Append 5 ''s'' (demo_request 1), Append 8 ''s'' (demo_request 2),
     Acquire (demo_subscription ''a''\<lparr>su_start := Timestamp 6\<rparr>) 0 BROKER_MANAGED False] @ step_calls 1"

theorem start_at_time_witness:
  "\<exists>A l M. ps_reachable (A, l, M) \<and> owns l 0 \<and> su_start (ls_subscription (lg_heap l 0)) = Timestamp 6 \<and>
     resolved_cursor l (Inr Foreign) 0 = Inr \<lparr>rc_kind = INITIALIZED, rc_offset = 2\<rparr>"
proof -
  have "ends_in timed_owner 10 (\<lambda>A l cs. \<not> lg_closed l \<and> owns l 0 \<and> ls_key (lg_heap l 0) = demo_key \<and>
      su_start (ls_subscription (lg_heap l 0)) = Timestamp 6 \<and> (case A ''s'' of None \<Rightarrow> False
      | Some x \<Rightarrow> 0 < sd_partition_count (hs_definition x) \<and> hs_low x 0 = 0 \<and>
          map_option sr_offset (find (\<lambda>rec. 6 \<le> sr_appended_at rec) (key_records A demo_key)) = Some 2))" by code_simp
  then obtain A l cs x rec where r: "ps_reachable (A, l, mset cs)" "\<not> lg_closed l" "owns l 0" "ls_key (lg_heap l 0) = demo_key"
    and su: "su_start (ls_subscription (lg_heap l 0)) = Timestamp 6"
    and x: "A ''s'' = Some x" "0 < sd_partition_count (hs_definition x)" "hs_low x 0 = 0"
    and rec: "find (\<lambda>rec. 6 \<le> sr_appended_at rec) (key_records A demo_key) = Some rec" "sr_offset rec = 2"
    by (rule ends_inE) (auto split: option.splits)
  have "resolved_cursor l (Inr Foreign) 0 = cursor_initialized 2"
    using start_at_time [OF r, of x "Inr Foreign" 6] su x rec by (simp add: demo_key_def start_target_def)
  then show ?thesis using r su by (auto simp: cursor_initialized_def mk_resume_cursor_def)
qed

text \<open>The default router accepts exactly the non-empty keys with a positive partition count, and its partition then lies between zero and the count; the same key always goes to the same partition.\<close>

lemma sha256_route_bounds:
  "(case sha256_route key (Inst n) of
      Inl e \<Rightarrow> key = [] \<or> n \<le> 0
    | Inr p \<Rightarrow> key \<noteq> [] \<and> 0 < n \<and> 0 \<le> p \<and> p < n)"
  by (simp add: sha256_route_def positive_def split: arg.split sum.split)

end
