(* ===== verification/Streams_Lease_Properties.thy ===== *)
theory Streams_Lease_Properties
  imports Streams_Properties
begin

text \<open>
  The guarantees of the persistent streams core about ownership, group strategies, transfers and
  consumers, over the reachable states of the concurrent log.
\<close>

section \<open>Ownership\<close>

text \<open>C13: At most one lease of a partition and group passes the ownership check at a time, and it is the one with the latest generation the log has issued for that key.\<close>

theorem one_owner_per_key:
  assumes reach: "ps_reachable (A, l, M)" and r: "r < lg_fresh l" "r' < lg_fresh l"
    and k: "ls_key (lg_heap l r) = ls_key (lg_heap l r')"
    and own: "owner_check l r = Inr ()" "owner_check l r' = Inr ()"
  shows "r = r' \<and> fmlookup (lg_leases l) (ls_key (lg_heap l r)) = Some r \<and> \<not> ls_released (lg_heap l r)"
proof -
  have ok: "owners_ok l" using leases_inv_reachable [OF reach] by (simp add: leases_inv_def)
  have o: "fmlookup (lg_owners l) (ls_key (lg_heap l r)) = Some (ls_owner (lg_heap l r))"
    "fmlookup (lg_owners l) (ls_key (lg_heap l r')) = Some (ls_owner (lg_heap l r'))"
    using own by (auto simp: owner_check_def owner_check_iff)
  then have "generation_of l r = generation_of l r'" using k by (simp add: generation_of_def)
  then show ?thesis
    using owners_ok_unique [OF ok r k] owner_lease [OF ok r(1) o(1)] owner_not_released [OF ok r(1) o(1)] by blast
qed

theorem one_owner_per_key_witness:
  "\<exists>A l M. ps_reachable (A, l, M) \<and> owner_check l 0 = Inr () \<and> fmlookup (lg_leases l) (ls_key (lg_heap l 0)) = Some 0"
proof -
  have "ends_in demo_owner 10 (\<lambda>A l cs. 0 < lg_fresh l \<and> owner_check l 0 = Inr ())" by code_simp
  then obtain A l cs where r: "ps_reachable (A, l, mset cs)" "0 < lg_fresh l" "owner_check l 0 = Inr ()"
    by (rule ends_inE) auto
  show ?thesis using one_owner_per_key [OF r(1,2,2) refl r(3,3)] r by blast
qed

lemma owner_check_lost: "\<not> owns l r \<Longrightarrow> \<exists>e. require_owner_locked l (ls_key (lg_heap l r)) (ls_owner (lg_heap l r)) = Inl e"
  using owner_check_iff [of l "ls_key (lg_heap l r)" "ls_owner (lg_heap l r)" "()"]
  by (cases "require_owner_locked l (ls_key (lg_heap l r)) (ls_owner (lg_heap l r))") (auto simp: owns_def)

text \<open>C11: Once a lease has lost its ownership, no run of the log, with any calls and cancellations, gives it back: from then on the lease is refused every delivery and every checkpoint, and the refused calls leave the log as it was.\<close>

theorem lost_ownership_is_final:
  assumes reach: "ps_reachable (A, l, M)" and r: "r < lg_fresh l" and lost: "\<not> owns l r"
    and run: "ps_step\<^sup>*\<^sup>* (A, l, M) (A', l', M')"
  shows "\<exists>e e' e''. next_locked l' r c = (Inl e, l') \<and> checkpoint_broker l' r rec c = (Inl e', l') \<and>
    checkpoint_external_finish l' r = (Inl e'', l')"
proof -
  have "\<not> owns l' r"
    using lost_ownership_forever [OF run leases_inv_reachable [OF reach]] r lost by simp
  then obtain e where "require_owner_locked l' (ls_key (lg_heap l' r)) (ls_owner (lg_heap l' r)) = Inl e"
    using owner_check_lost by blast
  then show ?thesis
    by (auto simp: next_locked_def checkpoint_broker_def checkpoint_external_finish_def Let_def split: sum.split)
qed

definition released_owner :: "action list" where
  "released_owner = demo_owner @ [Release 0] @ step_calls 1"

theorem lost_ownership_is_final_witness:
  "\<exists>A l M. ps_reachable (A, l, M) \<and> 0 < lg_fresh l \<and> \<not> owns l 0 \<and>
     (\<exists>e. next_locked l 0 \<lparr>rc_kind = INITIALIZED, rc_offset = 0\<rparr> = (Inl e, l))"
proof -
  have "ends_in released_owner 10 (\<lambda>A l cs. 0 < lg_fresh l \<and> \<not> owns l 0)" by code_simp
  then obtain A l cs where r: "ps_reachable (A, l, mset cs)" "0 < lg_fresh l" "\<not> owns l 0"
    by (rule ends_inE) auto
  show ?thesis using lost_ownership_is_final [OF r rtranclp.rtrancl_refl] r by blast
qed

section \<open>Group strategies\<close>

lemma group_strategy_runs:
  assumes "ps_step\<^sup>*\<^sup>* s s'" "ps_reachable s" "lg_group_strategies (fst (snd s)) sc = Some b"
  shows "ps_reachable s' \<and> lg_group_strategies (fst (snd s')) sc = Some b"
  using assms
proof (induction rule: rtranclp_induct)
  case (step t u)
  then have t: "ps_reachable t" "lg_group_strategies (fst (snd t)) sc = Some b" by auto
  obtain A l M A' l' M' where tu: "t = (A, l, M)" "u = (A', l', M')" by (cases t, cases u) auto
  show ?case
    using group_strategy_stable [of A l M A' l' M' sc b] leases_inv_reachable strategies_inv_reachable
      ps_reachable.step [OF t(1) step(2)] t step(2) tu by auto
qed simp

text \<open>C14: A consumer group keeps its checkpoint strategy: once the log has bound a strategy to a stream and group, it stays bound in every later state, and any two owned partitions of the group checkpoint to the same place.\<close>

theorem group_strategy_is_fixed:
  assumes reach: "ps_reachable (A, l, M)" and b: "lg_group_strategies l sc = Some b"
    and run: "ps_step\<^sup>*\<^sup>* (A, l, M) (A', l', M')"
    and k: "fmlookup (lg_leases l') k = Some r" "fmlookup (lg_leases l') k' = Some r'"
      "key_scope k = sc" "key_scope k' = sc"
  shows "lg_group_strategies l' sc = Some b \<and> ls_store (lg_heap l' r) = ls_store (lg_heap l' r')"
  using group_strategy_runs [OF run reach, of sc b] b live_leases_agree [of A' l' M' k r k' r'] k by simp

theorem group_strategy_is_fixed_witness:
  "\<exists>A l M b. ps_reachable (A, l, M) \<and> fmlookup (lg_leases l) demo_key = Some 0 \<and>
     lg_group_strategies l (key_scope demo_key) = Some b"
proof -
  have "ends_in demo_owner 10 (\<lambda>A l cs. \<not> Option.is_none (lg_group_strategies l (''s'', ''g'')) \<and>
      fmlookup (lg_leases l) demo_key = Some 0)" by code_simp
  then obtain A l cs b where r: "ps_reachable (A, l, mset cs)" "lg_group_strategies l (''s'', ''g'') = Some b"
    and k: "fmlookup (lg_leases l) demo_key = Some 0"
    by (rule ends_inE) (auto simp: Option.is_none_def)
  have "key_scope demo_key = (''s'', ''g'')" by (simp add: key_scope_def demo_key_def)
  then show ?thesis
    using group_strategy_is_fixed [OF r rtranclp.rtrancl_refl k k] r k by auto
qed

section \<open>Transfers\<close>

text \<open>C15: When a transfer takes a partition over, the delivery the replaced lease had in flight has been completed: the lease the transfer was called against holds no record any more.\<close>

theorem transfer_after_delivery:
  assumes "ps_reachable (A, l, add_mset (Acquiring aq) M)" "aq_current aq = Some cur"
    "acquire_take l aq = (Inr r, l')"
  shows "ls_in_flight (lg_heap l' cur) = None"
  using transfer_waits_for_delivery [OF assms] .

definition transferring :: "action list" where
  "transferring = demo_owner @ [Next 0] @ step_calls 2 @
     [Acquire (demo_subscription ''b'') 0 BROKER_MANAGED True, Release 0] @ step_calls 1"

theorem transfer_after_delivery_witness:
  "\<exists>A l aq M r l'. ps_reachable (A, l, add_mset (Acquiring aq) M) \<and> aq_current aq = Some 0 \<and>
     acquire_take l aq = (Inr r, l') \<and> ls_in_flight (lg_heap l' 0) = None"
proof -
  have "ends_in transferring 10 (\<lambda>A l cs. length cs = 1 \<and> (case hd cs of Acquiring aq \<Rightarrow> aq_current aq = Some 0 \<and>
      (case acquire_take l aq of (Inr r, l') \<Rightarrow> True | _ \<Rightarrow> False) | _ \<Rightarrow> False))" by code_simp
  then obtain A l aq r l' where r: "ps_reachable (A, l, add_mset (Acquiring aq) {#})" "aq_current aq = Some 0"
    "acquire_take l aq = (Inr r, l')"
    by (rule ends_inE) (auto simp: length_Suc_conv split: call.splits prod.splits sum.splits)
  then show ?thesis using transfer_after_delivery [OF r] by blast
qed

section \<open>Checkpoints\<close>

text \<open>C12: The broker-managed cursor of a group never skips a record and never goes back: whenever a step of the log changes it, it moves from its position to the very next record of the partition's complete history.\<close>

theorem cursor_moves_record_by_record:
  assumes "ps_reachable (A, l, M)" "ps_step (A, l, M) (A', l', M')"
    and "lg_broker_cursors l k = Some c" "lg_broker_cursors l' k \<noteq> Some c"
  shows "\<exists>rec. find (cursor_admits c) (key_records A k) = Some rec \<and>
    lg_broker_cursors l' k = Some \<lparr>rc_kind = LAST_SUCCESSFUL, rc_offset = sr_offset rec\<rparr>"
  using broker_cursor_moves [OF assms] .

definition demo_record :: stored_record where
  "demo_record = record_at ''s'' 0 0 (demo_request 1, 5)"

definition checkpointing :: "action list" where
  "checkpointing = demo_owner @ [Next 0] @ step_calls 2 @ [Checkpoint 0 demo_record] @ step_calls 2"

theorem cursor_moves_record_by_record_witness:
  "\<exists>A l M A' l' M' rec. ps_reachable (A, l, M) \<and> ps_step (A, l, M) (A', l', M') \<and>
     find (cursor_admits \<lparr>rc_kind = INITIALIZED, rc_offset = 0\<rparr>) (key_records A demo_key) = Some rec \<and>
     lg_broker_cursors l' demo_key = Some \<lparr>rc_kind = LAST_SUCCESSFUL, rc_offset = sr_offset rec\<rparr>"
proof -
  let ?c = "\<lparr>rc_kind = INITIALIZED, rc_offset = 0\<rparr>"
  have "ends_in checkpointing 10 (\<lambda>A l cs. lg_broker_cursors l demo_key = Some ?c \<and>
      (case act (Advance 0 demo_env) (A, l, cs) of None \<Rightarrow> False
       | Some (A', l', cs') \<Rightarrow> lg_broker_cursors l' demo_key \<noteq> Some ?c))" by code_simp
  then obtain A l cs A' l' cs' where r: "ps_reachable (A, l, mset cs)" "act (Advance 0 demo_env) (A, l, cs) = Some (A', l', cs')"
    and c: "lg_broker_cursors l demo_key = Some ?c" "lg_broker_cursors l' demo_key \<noteq> Some ?c"
    by (rule ends_inE) (auto split: option.splits simp del: act.simps)
  show ?thesis using cursor_moves_record_by_record [OF r(1) act_step [OF r(2)] c] r(1) act_step [OF r(2)] by blast
qed

end
