(* ===== verification/Streams_Consumer_Properties.thy ===== *)
theory Streams_Consumer_Properties
  imports Streams_Lease_Properties
begin

text \<open>
  The guarantees of the consumer loop on the leases of the in-memory log, those of the external
  checkpoint store, and runs of the log that break the specification of the package.
\<close>

section \<open>Consumers\<close>

lemma lease_ops_keep_streams:
  "lg_streams (snd (lease_next_record r l)) = lg_streams l"
  "lg_streams (snd (lease_checkpoint r rec l)) = lg_streams l"
  by (simp_all add: lease_next_record_def lease_checkpoint_def next_locked_streams checkpoint_streams split: sum.split)

lemma memory_lease_simps [simp]:
  "pl_key (memory_lease k r) = k"
  "pl_next_record (memory_lease k r) (l, h) = (case lease_next_record r l of (x, l') \<Rightarrow> (x, l', h))"
  "pl_checkpoint (memory_lease k r) rec (l, h) = (case lease_checkpoint r rec l of (x, l') \<Rightarrow> (x, l', h))"
  "pl_stop (memory_lease k r) (l, h) = (Inr (), lease_stop l r, h)"
  by (simp_all add: memory_lease_def)

lemma run_loop_keeps_streams:
  "run_loop (memory_lease k r) (lift_handler hs) n m (l, h) = (x, l', h') \<Longrightarrow> lg_streams l' = lg_streams l"
proof (induction n arbitrary: m l h)
  case (Suc n)
  obtain y l1 where n: "lease_next_record r l = (y, l1)" by (cases "lease_next_record r l")
  then have l1: "lg_streams l1 = lg_streams l" using lease_ops_keep_streams(1) [of r l] by simp
  show ?case
  proof (cases "case y of Inr (Some rec) \<Rightarrow> True | _ \<Rightarrow> False")
    case False
    then show ?thesis using Suc.prems n l1 by (auto split: sum.splits option.splits)
  next
    case True
    then obtain rec where y: "y = Inr (Some rec)" by (auto split: sum.splits option.splits)
    obtain z h1 where z: "hs rec h = (z, h1)" by (cases "hs rec h")
    obtain w l2 where w: "lease_checkpoint r rec l1 = (w, l2)" by (cases "lease_checkpoint r rec l1")
    then have l2: "lg_streams l2 = lg_streams l" using lease_ops_keep_streams(2) [of r rec l1] l1 by simp
    show ?thesis
      using Suc.prems Suc.IH [of "m + 1" l2 h1] n y z w l1 l2
      by (auto simp: lift_handler_def stop_ignoring_errors_def split: sum.splits if_splits)
  qed
qed simp

lemma acts_as_lift:
  fixes hs :: "stored_record \<Rightarrow> 'h \<Rightarrow> (ps_error + unit) \<times> 'h"
  shows "partition_lease.acts_as (\<lambda>(l, h). lease_live k r l) snd (lift_handler hs) hs"
  by (auto simp: mem_lease.acts_as_def lift_handler_def split: prod.split)

text \<open>In a reachable state, what a lease has still to deliver is what its cursor admits of the whole history.\<close>

definition consumable :: "history_log \<Rightarrow> log \<Rightarrow> checkpoint_key \<Rightarrow> nat \<Rightarrow> resume_cursor \<Rightarrow> bool" where
  "consumable A l k r c \<longleftrightarrow>
     fmlookup (lg_leases l) k = Some r \<and> \<not> lg_closed l \<and> require_active (lg_heap l r) = Inr () \<and>
     \<not> ls_revocation_requested (lg_heap l r) \<and> ls_in_flight (lg_heap l r) = None \<and>
     lg_broker_cursors l k = Some c \<and>
     (case A (ck_stream k) of None \<Rightarrow> False
      | Some x \<Rightarrow> 0 \<le> ck_partition k \<and> ck_partition k < sd_partition_count (hs_definition x) \<and>
                  hs_low x (ck_partition k) \<le> rc_offset c)"

lemma admitted_reachable:
  assumes reach: "ps_reachable (A, l, M)" and x: "A (ck_stream k) = Some x"
    and p: "0 \<le> ck_partition k" "ck_partition k < sd_partition_count (hs_definition x)"
    and l': "lg_streams l' = lg_streams l"
  shows "admitted l' k c ps \<longleftrightarrow>
    hs_low x (ck_partition k) \<le> rc_offset c \<and> ps = filter (cursor_admits c) (key_records A k)"
proof -
  note part = reachable_partition [OF reach x p]
  let ?low = "hs_low x (ck_partition k)"
  have kr: "key_records A k = history_records (ck_stream k) (ck_partition k) (hs_history x (ck_partition k))"
    by (simp add: key_records_def x)
  have "filter (cursor_admits c) (filter (\<lambda>r. ?low \<le> sr_offset r) (key_records A k)) = filter (cursor_admits c) (key_records A k)"
    if "?low \<le> rc_offset c"
    using that by (auto simp: cursor_admits_def intro!: filter_cong split: cursor_kind.splits)
  then show ?thesis
    using part l' key_records_nonneg
    by (auto simp: admitted_def partition_view_def kr sorted_wrt_filter history_records_increasing
        dest: history_record_offsets simp del: partition_of.simps)
qed

lemma consumable_live:
  assumes reach: "ps_reachable (A, l, M)" and c: "consumable A l k r c"
  shows "lease_live k r l None (filter (cursor_admits c) (key_records A k))"
proof -
  have ok: "owners_ok l" using leases_inv_reachable [OF reach] by (simp add: leases_inv_def)
  obtain x where x: "A (ck_stream k) = Some x" "0 \<le> ck_partition k" "ck_partition k < sd_partition_count (hs_definition x)"
    "hs_low x (ck_partition k) \<le> rc_offset c"
    using c by (auto simp: consumable_def split: option.splits)
  have "admitted l k c (filter (cursor_admits c) (key_records A k))"
    using admitted_reachable [OF reach x(1-3) refl] x(4) by simp
  moreover have "owns l r" "ls_key (lg_heap l r) = k"
    using c ok by (auto simp: consumable_def owners_ok_def owns_def)
  ultimately show ?thesis using c by (auto simp: lease_live_def consumable_def)
qed

text \<open>An error of the loop over handlers that only fail with ordinary exceptions is a poison error.\<close>

lemma process_error:
  assumes "\<And>rec h e. fst (hs rec h) = Inl e \<Longrightarrow> is_exception e"
  shows "process k hs n ps h = (Inl e, ps', h') \<Longrightarrow> \<exists>rec e'. e = poison_record_error k rec e'"
proof (induction n arbitrary: ps h)
  case (Suc n)
  obtain rec rs where ps: "ps = rec # rs" using Suc.prems by (cases ps) auto
  obtain z h1 where z: "hs rec h = (z, h1)" by (cases "hs rec h")
  show ?case
    using Suc assms [of rec h] ps z by (auto split: sum.splits prod.splits)
qed simp

lemma run_loop_pull:
  assumes reach: "ps_reachable (A, l, M)" and c: "consumable A l k r c" and n: "0 < n"
    and hs: "\<forall>rec h e. fst (hs rec h) = Inl e \<longrightarrow> is_exception e"
    and pr: "process k hs (nat n) (filter (cursor_admits c) (key_records A k)) h = (res, rest, h')"
  shows "\<exists>l' c'. run_once (memory_lease k r) (lift_handler hs) (Inst n) (l, h) = (res, l', h') \<and>
    lg_broker_cursors l' k = Some c' \<and> filter (cursor_admits c') (key_records A k) = rest \<and>
    (ls_stopped (lg_heap l' r) \<longleftrightarrow> (\<exists>e. res = Inl e))"
proof -
  let ?ps = "filter (cursor_admits c) (key_records A k)"
  have "(case (l, h) of (l, h) \<Rightarrow> lease_live k r l) None ?ps" using consumable_live [OF reach c] by simp
  then have "case process k hs (nat n) ?ps (snd (l, h)) of (x, ps', h') \<Rightarrow>
      \<exists>s'. run_loop (memory_lease k r) (lift_handler hs) (nat n) 0 (l, h) =
        (case x of Inl e \<Rightarrow> Inl e | Inr m \<Rightarrow> Inr (0 + m), s') \<and> snd s' = h' \<and>
        (case x of Inl e \<Rightarrow> (case s' of (l, h) \<Rightarrow> lease_ended k r l) ps'
         | Inr m \<Rightarrow> (case s' of (l, h) \<Rightarrow> lease_live k r l) None ps')"
    by (rule mem_lease.run_loop_process [OF acts_as_lift, unfolded memory_lease_simps(1)]) (use hs in blast)
  with pr
  obtain s' where s': "run_loop (memory_lease k r) (lift_handler hs) (nat n) 0 (l, h) =
      (case res of Inl e \<Rightarrow> Inl e | Inr m \<Rightarrow> Inr (0 + m), s')" "snd s' = h'"
      "case res of Inl e \<Rightarrow> (case s' of (l, h) \<Rightarrow> lease_ended k r l) rest
       | Inr m \<Rightarrow> (case s' of (l, h) \<Rightarrow> lease_live k r l) None rest"
    by auto
  obtain l' where l': "s' = (l', h')" using s'(2) by (cases s') auto
  have run: "run_loop (memory_lease k r) (lift_handler hs) (nat n) 0 (l, h) = (res, l', h')"
    using s'(1) l' by (simp split: sum.splits)
  have fin: "case res of Inl e \<Rightarrow> lease_ended k r l' rest | Inr m \<Rightarrow> lease_live k r l' None rest"
    using s'(3) l' by (simp split: sum.splits)
  obtain x where x: "A (ck_stream k) = Some x" "0 \<le> ck_partition k" "ck_partition k < sd_partition_count (hs_definition x)"
    using c by (auto simp: consumable_def split: option.splits)
  have "\<exists>c'. lg_broker_cursors l' k = Some c' \<and> filter (cursor_admits c') (key_records A k) = rest"
    using fin admitted_reachable [OF reach x run_loop_keeps_streams [OF run]]
    by (auto simp: lease_ended_def lease_live_def split: sum.splits)
  moreover have "ls_stopped (lg_heap l' r) \<longleftrightarrow> (\<exists>e. res = Inl e)"
    using fin by (auto simp: lease_ended_def lease_live_def require_active_iff split: sum.splits)
  moreover have "run_once (memory_lease k r) (lift_handler hs) (Inst n) (l, h) = (res, l', h')"
  proof (cases res)
    case (Inl e)
    have "process k hs (nat n) ?ps h = (Inl e, rest, h')" using pr Inl by simp
    then obtain rec e' where "e = poison_record_error k rec e'" using process_error [of hs] hs by blast
    then show ?thesis using run n Inl by (simp add: run_once_def poison_record_error_def)
  next
    case (Inr m)
    then show ?thesis using run n by (simp add: run_once_def)
  qed
  ultimately show ?thesis by blast
qed

text \<open>C10: One pull of the consumer loop over a lease in any reachable state does exactly what processing the undelivered records of the complete history one after the other does: the handler sees them in order, each once; after every success the group's cursor stands behind that record; a failing handler stops the lease and the poison error names the record, which stays undelivered for the next owner. The loop returns the number of processed records.\<close>

theorem run_once_processes:
  assumes reach: "ps_reachable (A, l, M)" and c: "consumable A l k r c" and n: "0 < n"
    and hs: "\<forall>rec h e. fst (hs rec h) = Inl e \<longrightarrow> is_exception e"
    and pr: "process k hs (nat n) (filter (cursor_admits c) (key_records A k)) h = (res, rest, h')"
  shows "\<exists>l' c'. run_once (memory_lease k r) (lift_handler hs) (Inst n) (l, h) = (res, l', h') \<and>
    lg_broker_cursors l' k = Some c' \<and> filter (cursor_admits c') (key_records A k) = rest \<and>
    (ls_stopped (lg_heap l' r) \<longleftrightarrow> (\<exists>e. res = Inl e))"
  using run_loop_pull [OF reach c n hs pr] .

text \<open>A handler that keeps the list of the records it was given, and fails on one offset.\<close>

definition collect :: "int \<Rightarrow> stored_record \<Rightarrow> stored_record list \<Rightarrow> (ps_error + unit) \<times> stored_record list" where
  "collect bad rec h = (if sr_offset rec = bad then Inl ValueError else Inr (), h @ [rec])"

lemma collect_exception: "\<forall>rec h e. fst (collect bad rec h) = Inl e \<longrightarrow> is_exception e"
  by (auto simp: collect_def split: if_splits)

definition two_records :: "action list" where
  "two_records = demo_owner @ [Append 8 ''s'' (demo_request 2)]"

theorem run_once_processes_witness:
  "\<exists>A l M l' c' rec1 rec2. ps_reachable (A, l, M) \<and> key_records A demo_key = [rec1, rec2] \<and>
     run_once (memory_lease demo_key 0) (lift_handler (collect 2)) (Inst 5) (l, []) =
       (Inl (poison_record_error demo_key rec2 ValueError), l', [rec1, rec2]) \<and>
     lg_broker_cursors l' demo_key = Some c' \<and> filter (cursor_admits c') (key_records A demo_key) = [rec2]"
proof -
  let ?c = "\<lparr>rc_kind = INITIALIZED, rc_offset = 0\<rparr>"
  have "ends_in two_records 10 (\<lambda>A l cs. consumable A l demo_key 0 ?c \<and>
      (case key_records A demo_key of [rec1, rec2] \<Rightarrow> sr_offset rec1 = 0 \<and> sr_offset rec2 = 2 | _ \<Rightarrow> False))" by code_simp
  then obtain A l cs rec1 rec2 where r: "ps_reachable (A, l, mset cs)" "consumable A l demo_key 0 ?c"
    and k: "key_records A demo_key = [rec1, rec2]" "sr_offset rec1 = 0" "sr_offset rec2 = 2"
    by (rule ends_inE) (auto split: list.splits)
  have five: "nat 5 = Suc (Suc (Suc (Suc (Suc 0))))" by simp
  have "filter (cursor_admits ?c) (key_records A demo_key) = [rec1, rec2]" by (simp add: k cursor_admits_def)
  then have pr: "process demo_key (collect 2) (nat 5) (filter (cursor_admits ?c) (key_records A demo_key)) [] =
      (Inl (poison_record_error demo_key rec2 ValueError), [rec2], [rec1, rec2])"
    using k unfolding five by (simp add: collect_def)
  have "(0::int) < 5" by simp
  from run_once_processes [OF r this collect_exception pr] obtain l' c' where
     "run_once (memory_lease demo_key 0) (lift_handler (collect 2)) (Inst 5) (l, []) =
       (Inl (poison_record_error demo_key rec2 ValueError), l', [rec1, rec2])"
     "lg_broker_cursors l' demo_key = Some c'" "filter (cursor_admits c') (key_records A demo_key) = [rec2]"
    by blast
  then show ?thesis using r(1) k(1) by metis
qed

lemma process_succeeds:
  fixes hs :: "stored_record \<Rightarrow> 'h \<Rightarrow> (ps_error + unit) \<times> 'h"
  assumes "\<And>rec h. fst (hs rec h) = Inr ()"
  shows "process k hs n ps h = (Inr (int (min n (length ps))), drop n ps, fold (\<lambda>rec h. snd (hs rec h)) (take n ps) h)"
proof (induction n arbitrary: ps h)
  case (Suc n)
  show ?case
  proof (cases ps)
    case (Cons rec rs)
    obtain h1 where "hs rec h = (Inr (), h1)" using assms [of rec h] by (cases "hs rec h") simp
    then show ?thesis using Suc Cons by simp
  qed simp
qed simp

text \<open>C17: A consumer whose handler never fails makes progress to the end: a pull whose limit covers the undelivered records of the partition hands every one of them to the handler in order, leaves the cursor behind the last one with nothing left to deliver, and returns their number.\<close>

theorem run_once_drains:
  assumes reach: "ps_reachable (A, l, M)" and c: "consumable A l k r c"
    and ok: "\<forall>rec h. fst (hs rec h) = Inr ()"
    and n: "0 < n" "int (length (filter (cursor_admits c) (key_records A k))) \<le> n"
  shows "\<exists>l' c'. run_once (memory_lease k r) (lift_handler hs) (Inst n) (l, h) =
      (Inr (int (length (filter (cursor_admits c) (key_records A k)))), l',
       fold (\<lambda>rec h. snd (hs rec h)) (filter (cursor_admits c) (key_records A k)) h) \<and>
    lg_broker_cursors l' k = Some c' \<and> filter (cursor_admits c') (key_records A k) = []"
proof -
  let ?ps = "filter (cursor_admits c) (key_records A k)"
  have "length ?ps \<le> nat n" using n by linarith
  then have "process k hs (nat n) ?ps h = (Inr (int (length ?ps)), [], fold (\<lambda>rec h. snd (hs rec h)) ?ps h)"
    using process_succeeds [of hs k "nat n" ?ps h] ok by (simp add: min_absorb2)
  moreover have "\<forall>rec h e. fst (hs rec h) = Inl e \<longrightarrow> is_exception e" using ok by simp
  ultimately show ?thesis
    using run_loop_pull [OF reach c n(1), of hs h] by blast
qed

theorem run_once_drains_witness:
  "\<exists>A l M l' c' rec1 rec2. ps_reachable (A, l, M) \<and> key_records A demo_key = [rec1, rec2] \<and>
     run_once (memory_lease demo_key 0) (lift_handler (\<lambda>rec h. (Inr (), h @ [rec]))) (Inst 5) (l, []) = (Inr 2, l', [rec1, rec2]) \<and>
     lg_broker_cursors l' demo_key = Some c' \<and> filter (cursor_admits c') (key_records A demo_key) = []"
proof -
  let ?c = "\<lparr>rc_kind = INITIALIZED, rc_offset = 0\<rparr>"
  let ?hs = "\<lambda>rec h. (Inr (), h @ [rec]) :: (ps_error + unit) \<times> stored_record list"
  have "ends_in two_records 10 (\<lambda>A l cs. consumable A l demo_key 0 ?c \<and>
      (case key_records A demo_key of [rec1, rec2] \<Rightarrow> sr_offset rec1 = 0 \<and> sr_offset rec2 = 2 | _ \<Rightarrow> False))" by code_simp
  then obtain A l cs rec1 rec2 where r: "ps_reachable (A, l, mset cs)" "consumable A l demo_key 0 ?c"
    and k: "key_records A demo_key = [rec1, rec2]" "sr_offset rec1 = 0" "sr_offset rec2 = 2"
    by (rule ends_inE) (auto split: list.splits)
  have ps: "filter (cursor_admits ?c) (key_records A demo_key) = [rec1, rec2]" by (simp add: k cursor_admits_def)
  have "\<forall>rec h. fst (?hs rec h) = Inr ()" "(0::int) < 5"
    "int (length (filter (cursor_admits ?c) (key_records A demo_key))) \<le> 5" unfolding ps by simp_all
  from run_once_drains [OF r this, of "[]"] obtain l' c' where
    "run_once (memory_lease demo_key 0) (lift_handler ?hs) (Inst 5) (l, []) = (Inr 2, l', [rec1, rec2])"
    "lg_broker_cursors l' demo_key = Some c'" "filter (cursor_admits c') (key_records A demo_key) = []"
    unfolding ps by auto
  then show ?thesis using r(1) k(1) by blast
qed

section \<open>The external checkpoint store\<close>

text \<open>C34: Fencing works: once an owner holds a key of the checkpoint store and nobody fences the key again, every write on that key under another token is without effect. Any sequence of calls leaves the store in the state it would have without those writes.\<close>

theorem stale_writes_have_no_effect:
  assumes "cs_owners s k = Some w" "\<forall>op \<in> set ops. \<not> fences k op"
  shows "fold (perform cs_fence cs_load cs_compare_and_create cs_save) ops s =
    fold (perform cs_fence cs_load cs_compare_and_create cs_save) (filter (\<lambda>op. \<not> stale_write k w op) ops) s"
  using mem_store.stale_writes_erased [OF assms] .

definition demo_token :: "string \<Rightarrow> int \<Rightarrow> ownership_token" where
  "demo_token w g = \<lparr>ot_owner_id = w, ot_generation = g\<rparr>"

theorem stale_writes_have_no_effect_witness:
  "fold (perform cs_fence cs_load cs_compare_and_create cs_save)
     [Create demo_key (Inst \<lparr>rc_kind = INITIALIZED, rc_offset = 0\<rparr>) (demo_token ''a'' 1),
      Create demo_key (Inst \<lparr>rc_kind = INITIALIZED, rc_offset = 6\<rparr>) (demo_token ''b'' 2)]
     (snd (cs_fence new_checkpoint_store demo_key (demo_token ''b'' 2))) =
   fold (perform cs_fence cs_load cs_compare_and_create cs_save)
     [Create demo_key (Inst \<lparr>rc_kind = INITIALIZED, rc_offset = 6\<rparr>) (demo_token ''b'' 2)]
     (snd (cs_fence new_checkpoint_store demo_key (demo_token ''b'' 2)))"
  using stale_writes_have_no_effect [of "snd (cs_fence new_checkpoint_store demo_key (demo_token ''b'' 2))" demo_key
      "demo_token ''b'' 2"
      "[Create demo_key (Inst \<lparr>rc_kind = INITIALIZED, rc_offset = 0\<rparr>) (demo_token ''a'' 1),
        Create demo_key (Inst \<lparr>rc_kind = INITIALIZED, rc_offset = 6\<rparr>) (demo_token ''b'' 2)]"]
  by (simp add: cs_fence_def demo_token_def)

section \<open>Runs that break the specification\<close>

text \<open>
  A transfer waits for the delivery of the lease it was called against. If that lease is released
  while the transfer waits, and a third task acquires the partition and takes a delivery, the
  transfer then installs its own lease without looking at the third one.
\<close>

definition overlapping :: "action list" where
  "overlapping = demo_owner @ [Next 0] @ step_calls 2 @
     [Acquire (demo_subscription ''b'') 0 BROKER_MANAGED True, Release 0, Advance 0 demo_env,
      Acquire (demo_subscription ''c'') 0 BROKER_MANAGED False] @ step_calls 3 @
     [Next 1] @ step_calls 2 @ step_calls 3 @ [Next 2] @ step_calls 2"

definition both_deliver :: "log \<Rightarrow> nat \<Rightarrow> nat \<Rightarrow> bool" where
  "both_deliver l r r' \<longleftrightarrow> r \<noteq> r' \<and> ls_key (lg_heap l r) = ls_key (lg_heap l r') \<and>
     \<not> Option.is_none (ls_in_flight (lg_heap l r)) \<and> \<not> Option.is_none (ls_in_flight (lg_heap l r')) \<and>
     outcome_ok (require_active (lg_heap l r)) \<and> outcome_ok (require_active (lg_heap l r'))"

text \<open>C39: Deliveries of two owners can overlap: there is a run of the log after which two leases of the same partition and group, neither stopped nor released, both hold a delivery in flight. The specification says that a transfer never overlaps a delivery with the new owner's handler.\<close>

theorem deliveries_can_overlap:
  "\<exists>A l M. ps_reachable (A, l, M) \<and> both_deliver l 1 2"
proof -
  have "ends_in overlapping 10 (\<lambda>A l cs. both_deliver l 1 2)" by code_simp
  then show ?thesis by (rule ends_inE) auto
qed

text \<open>
  The limit on active leases is only checked for an acquisition without transfer, before it waits.
  A transfer whose lease is released while it waits adds an owner without a check.
\<close>

definition over_limit :: "action list" where
  "over_limit = [Declare (demo_definition\<lparr>sd_partition_count := 2\<rparr>), Append 5 ''s'' (demo_request 1),
     Acquire (demo_subscription ''a'') 0 BROKER_MANAGED False] @ step_calls 3 @ [Next 0] @ step_calls 2 @
     [Acquire (demo_subscription ''b'') 0 BROKER_MANAGED True, Release 0, Advance 0 demo_env,
      Acquire (demo_subscription ''c'') 1 BROKER_MANAGED False] @ step_calls 3 @ step_calls 3"

text \<open>C40: The limit on active leases can be exceeded: there is a run of a log configured for one active lease after which every acquisition has returned and two partitions are owned.\<close>

theorem lease_limit_can_be_exceeded:
  "\<exists>A l. ps_reachable (A, l, {#}) \<and> lg_max_active_leases l = 1 \<and> 2 \<le> fcard (fmdom (lg_owners l))"
proof -
  let ?k = "demo_key\<lparr>ck_partition := 1\<rparr>"
  have "ends_in over_limit 1 (\<lambda>A l cs. cs = [] \<and> lg_max_active_leases l = 1 \<and>
      \<not> Option.is_none (fmlookup (lg_owners l) demo_key) \<and> \<not> Option.is_none (fmlookup (lg_owners l) ?k))" by code_simp
  then obtain A l where r: "ps_reachable (A, l, {#})" "lg_max_active_leases l = 1"
    and k: "fmlookup (lg_owners l) demo_key \<noteq> None" "fmlookup (lg_owners l) ?k \<noteq> None"
    by (rule ends_inE) (auto simp: Option.is_none_def)
  have "{|demo_key, ?k|} |\<subseteq>| fmdom (lg_owners l)" using k by (auto intro: fmdomI)
  then have "fcard {|demo_key, ?k|} \<le> fcard (fmdom (lg_owners l))" by (rule fcard_mono)
  moreover have "fcard {|demo_key, ?k|} = 2" by (simp add: fcard_finsert_if demo_key_def)
  ultimately show ?thesis using r by auto
qed

end
