(* ===== verification/CQRS_Registry.thy ===== *)
theory CQRS_Registry
  imports Tori_Prelude
begin

text \<open>
  Handler registration of the CQRS core: message classes and their categories (\<open>messages.py\<close>,
  \<open>identity.py\<close>), the decorators and registration values (\<open>registrations.py\<close>), the handler registry
  (\<open>registry.py\<close>) and the builder (\<open>builder.py\<close>).

  A Python class is a record of what the source asks of it. A handler target is an arbitrary object:
  the record holds its identity and the answers of the introspection functions the source calls.
\<close>

section \<open>Errors\<close>

text \<open>
  \<open>ApplicationError\<close> numbers the exceptions of handlers, hooks and factories; \<open>CancelledRaised\<close> is
  \<open>asyncio.CancelledError\<close>, which is not an \<open>Exception\<close>; \<open>BaseExceptionRaised\<close> is every other
  \<open>BaseException\<close> that is no \<open>Exception\<close>, such as \<open>SystemExit\<close> or one that an application derives.
\<close>

datatype cq_error =
    CqrsValidationError | NestedCommandDispatchError | EnvelopeValidationError
  | TransportNotStartedError | TransportStoppedError | QueueCapacityError
  | RequestTimeoutError uuid uuid | InvalidLifecycleTransitionError
  | DuplicateCommandHandlerError string | DuplicateQueryHandlerError string
  | MissingHandlerError string | InvalidHandlerRegistrationError
  | InvalidReplyCorrelationError uuid uuid | InvalidTransportReplyError
  | MessageTypeError | ApplicationError nat | CancelledRaised | BaseExceptionRaised

section \<open>Message classes\<close>

text \<open>\<open>mc_marker\<close>: the class is one of \<open>Message\<close>, \<open>Command\<close>, \<open>Query\<close> and \<open>Event\<close> themselves.\<close>

record message_class =
  mc_id :: nat
  mc_name :: string
  mc_marker :: bool
  mc_command :: bool
  mc_query :: bool
  mc_event :: bool

definition message_type_for :: "message_class arg \<Rightarrow> cq_error + string" where
  [op_defs]: "message_type_for mt =
     (case mt of Foreign \<Rightarrow> Inl MessageTypeError
      | Inst c \<Rightarrow> if mc_marker c then Inl MessageTypeError else Inr (mc_name c))"

datatype handler_kind = COMMAND | QUERY | EVENT

datatype handler_style = CLASS_STYLE | FUNCTION_STYLE

datatype target_mode = INSTANCE_TARGET | CLASS_TARGET | FUNCTION_TARGET | FACTORY_TARGET

fun kind_matches :: "handler_kind \<Rightarrow> message_class \<Rightarrow> bool" where
  "kind_matches COMMAND c = mc_command c"
| "kind_matches QUERY c = mc_query c"
| "kind_matches EVENT c = mc_event c"

definition validate_message_kind :: "handler_kind \<Rightarrow> message_class arg \<Rightarrow> cq_error + message_class" where
  [op_defs]: "validate_message_kind kind mt =
     (case mt of Foreign \<Rightarrow> Inl InvalidHandlerRegistrationError
      | Inst c \<Rightarrow>
          if mc_marker c then Inl InvalidHandlerRegistrationError
          else if \<not> kind_matches kind c then Inl InvalidHandlerRegistrationError
          else Inr c)"

section \<open>Handler targets and metadata\<close>

record handler_metadata =
  hm_kind :: handler_kind
  hm_message_type :: message_class

definition mk_handler_metadata ::
  "handler_kind arg \<Rightarrow> message_class arg \<Rightarrow> cq_error + handler_metadata" where
  [op_defs]: "mk_handler_metadata kind mt =
     (case kind of Foreign \<Rightarrow> Inl InvalidHandlerRegistrationError
      | Inst k \<Rightarrow> (case validate_message_kind k mt of Inl e \<Rightarrow> Inl e
          | Inr c \<Rightarrow> Inr \<lparr>hm_kind = k, hm_message_type = c\<rparr>))"

text \<open>A parameter of a callable: whether it is positional, and whether it has a default.\<close>

record call_parameter =
  cp_positional :: bool
  cp_default :: bool

text \<open>The attribute \<open>handle\<close> of an object: whether it is callable, and whether it is a coroutine function.\<close>

record handle_method =
  hd_callable :: bool
  hd_coroutine :: bool

record handler_target =
  tg_id :: nat
  tg_isclass :: bool
  tg_isfunction :: bool
  tg_callable :: bool
  tg_coroutine :: bool
  tg_parameters :: "call_parameter list"
  tg_handle :: "handle_method option"
  tg_metadata :: "handler_metadata arg option"
  tg_type_metadata :: "handler_metadata arg option"

definition target_mode_for :: "handler_target \<Rightarrow> target_mode" where
  [op_defs]: "target_mode_for t =
     (if tg_isfunction t then FUNCTION_TARGET else if tg_isclass t then CLASS_TARGET else INSTANCE_TARGET)"

definition style_for :: "handler_target \<Rightarrow> handler_style" where
  [op_defs]: "style_for t = (if target_mode_for t = FUNCTION_TARGET then FUNCTION_STYLE else CLASS_STYLE)"

definition get_handler_metadata :: "handler_target \<Rightarrow> handler_metadata option" where
  [op_defs]: "get_handler_metadata t =
     (case (if \<not> tg_isclass t \<and> \<not> tg_isfunction t then tg_type_metadata t else tg_metadata t) of
        Some (Inst m) \<Rightarrow> Some m | _ \<Rightarrow> None)"

definition decorate ::
  "handler_kind \<Rightarrow> message_class arg \<Rightarrow> handler_target \<Rightarrow> handler_style \<Rightarrow> cq_error + handler_target" where
  [op_defs]: "decorate kind mt t style =
     (case validate_message_kind kind mt of Inl e \<Rightarrow> Inl e
      | Inr c \<Rightarrow>
          if style = CLASS_STYLE \<and> \<not> tg_isclass t then Inl InvalidHandlerRegistrationError
          else if style = FUNCTION_STYLE \<and> \<not> tg_isfunction t then Inl InvalidHandlerRegistrationError
          else if tg_metadata t \<noteq> None then Inl InvalidHandlerRegistrationError
          else (case mk_handler_metadata (Inst kind) mt of Inl e \<Rightarrow> Inl e
                | Inr m \<Rightarrow> Inr (t\<lparr>tg_metadata := Some (Inst m)\<rparr>)))"

definition handles_kind :: "message_class arg \<Rightarrow> cq_error + handler_kind" where
  [op_defs]: "handles_kind mt =
     (case mt of Foreign \<Rightarrow> Inl InvalidHandlerRegistrationError
      | Inst c \<Rightarrow>
          if mc_command c then Inr COMMAND
          else if mc_query c then Inr QUERY
          else if mc_event c then Inr EVENT
          else Inl InvalidHandlerRegistrationError)"

definition handles :: "message_class arg \<Rightarrow> handler_target \<Rightarrow> cq_error + handler_target" where
  [op_defs]: "handles mt t =
     (case handles_kind mt of Inl e \<Rightarrow> Inl e | Inr k \<Rightarrow> decorate k mt t FUNCTION_STYLE)"

section \<open>Registrations\<close>

record registered_handler =
  rh_kind :: handler_kind
  rh_message_type :: message_class
  rh_target :: handler_target
  rh_style :: handler_style
  rh_target_mode :: target_mode

definition mk_registered_handler ::
  "handler_kind arg \<Rightarrow> message_class arg \<Rightarrow> handler_target \<Rightarrow> handler_style arg \<Rightarrow> target_mode arg \<Rightarrow>
   cq_error + registered_handler" where
  [op_defs]: "mk_registered_handler kind mt t style mode =
     (case kind of Foreign \<Rightarrow> Inl InvalidHandlerRegistrationError | Inst k \<Rightarrow>
     (case style of Foreign \<Rightarrow> Inl InvalidHandlerRegistrationError | Inst s \<Rightarrow>
     (case mode of Foreign \<Rightarrow> Inl InvalidHandlerRegistrationError | Inst m \<Rightarrow>
     (case validate_message_kind k mt of Inl e \<Rightarrow> Inl e | Inr c \<Rightarrow>
        if m = FUNCTION_TARGET \<and> s \<noteq> FUNCTION_STYLE then Inl InvalidHandlerRegistrationError
        else if m \<noteq> FUNCTION_TARGET \<and> s \<noteq> CLASS_STYLE then Inl InvalidHandlerRegistrationError
        else Inr \<lparr>rh_kind = k, rh_message_type = c, rh_target = t, rh_style = s, rh_target_mode = m\<rparr>))))"

definition validate_target :: "registered_handler \<Rightarrow> cq_error + unit" where
  [op_defs]: "validate_target r =
     (let t = rh_target r in
      case rh_target_mode r of
        FUNCTION_TARGET \<Rightarrow>
          if \<not> tg_callable t \<or> \<not> tg_coroutine t then Inl InvalidHandlerRegistrationError
          else if length (tg_parameters t) \<noteq> 2 \<or>
                  list_ex (\<lambda>p. \<not> cp_positional p \<or> cp_default p) (tg_parameters t)
          then Inl InvalidHandlerRegistrationError
          else Inr ()
      | FACTORY_TARGET \<Rightarrow> if \<not> tg_callable t then Inl InvalidHandlerRegistrationError else Inr ()
      | mode \<Rightarrow>
          if mode = CLASS_TARGET \<and> \<not> tg_isclass t then Inl InvalidHandlerRegistrationError
          else (case tg_handle t of None \<Rightarrow> Inl InvalidHandlerRegistrationError
                | Some h \<Rightarrow> if \<not> hd_callable h \<or> \<not> hd_coroutine h then Inl InvalidHandlerRegistrationError
                           else Inr ()))"

section \<open>The registry\<close>

record handler_registry =
  rg_commands :: "message_class \<rightharpoonup> registered_handler"
  rg_queries :: "message_class \<rightharpoonup> registered_handler"
  rg_events :: "message_class \<rightharpoonup> registered_handler list"

definition empty_registry :: handler_registry where
  "empty_registry = \<lparr>rg_commands = Map.empty, rg_queries = Map.empty, rg_events = Map.empty\<rparr>"

definition registry_add :: "registered_handler \<Rightarrow> handler_registry \<Rightarrow> cq_error + handler_registry" where
  [op_defs]: "registry_add r g =
     (let c = rh_message_type r in
      case validate_target r of Inl e \<Rightarrow> Inl e | Inr _ \<Rightarrow>
     (case rh_kind r of
        COMMAND \<Rightarrow>
          if rg_commands g c \<noteq> None
          then (case message_type_for (Inst c) of Inl e \<Rightarrow> Inl e | Inr n \<Rightarrow> Inl (DuplicateCommandHandlerError n))
          else Inr (g\<lparr>rg_commands := (rg_commands g)(c \<mapsto> r)\<rparr>)
      | QUERY \<Rightarrow>
          if rg_queries g c \<noteq> None
          then (case message_type_for (Inst c) of Inl e \<Rightarrow> Inl e | Inr n \<Rightarrow> Inl (DuplicateQueryHandlerError n))
          else Inr (g\<lparr>rg_queries := (rg_queries g)(c \<mapsto> r)\<rparr>)
      | EVENT \<Rightarrow>
          let hs = (case rg_events g c of None \<Rightarrow> [] | Some hs \<Rightarrow> hs) in
          if list_ex (\<lambda>h. tg_id (rh_target h) = tg_id (rh_target r)) hs
          then Inl InvalidHandlerRegistrationError
          else Inr (g\<lparr>rg_events := (rg_events g)(c \<mapsto> hs @ [r])\<rparr>)))"

fun registry_fold :: "registered_handler list \<Rightarrow> handler_registry \<Rightarrow> cq_error + handler_registry" where
  "registry_fold [] g = Inr g"
| "registry_fold (r # rs) g =
     (case registry_add r g of Inl e \<Rightarrow> Inl e | Inr g' \<Rightarrow> registry_fold rs g')"

definition registry_build :: "registered_handler list \<Rightarrow> cq_error + handler_registry" where
  [op_defs]: "registry_build rs = registry_fold rs empty_registry"

definition request_handler ::
  "handler_registry \<Rightarrow> handler_kind \<Rightarrow> message_class \<Rightarrow> cq_error + registered_handler" where
  [op_defs]: "request_handler g kind c =
     (case kind of EVENT \<Rightarrow> Inl InvalidHandlerRegistrationError
      | _ \<Rightarrow>
          (case (if kind = COMMAND then rg_commands g else rg_queries g) c of
             None \<Rightarrow> (case message_type_for (Inst c) of Inl e \<Rightarrow> Inl e | Inr n \<Rightarrow> Inl (MissingHandlerError n))
           | Some r \<Rightarrow> Inr r))"

definition event_handlers :: "handler_registry \<Rightarrow> message_class \<Rightarrow> registered_handler list" where
  [op_defs]: "event_handlers g c = (case rg_events g c of None \<Rightarrow> [] | Some hs \<Rightarrow> hs)"

section \<open>What the registry holds\<close>

definition of_kind :: "handler_kind \<Rightarrow> registered_handler list \<Rightarrow> message_class \<Rightarrow> registered_handler list" where
  "of_kind k rs c = filter (\<lambda>r. rh_kind r = k \<and> rh_message_type r = c) rs"

definition first_of :: "'a list \<Rightarrow> 'a option" where
  "first_of xs = (case xs of [] \<Rightarrow> None | x # _ \<Rightarrow> Some x)"

definition some_list :: "'a list \<Rightarrow> 'a list option" where
  "some_list xs = (if xs = [] then None else Some xs)"

definition registry_of :: "registered_handler list \<Rightarrow> handler_registry" where
  "registry_of rs = \<lparr>rg_commands = (\<lambda>c. first_of (of_kind COMMAND rs c)),
     rg_queries = (\<lambda>c. first_of (of_kind QUERY rs c)),
     rg_events = (\<lambda>c. some_list (of_kind EVENT rs c))\<rparr>"

text \<open>Every target is usable, a command or query has one handler, and no event names a target twice.\<close>

definition registrations_ok :: "registered_handler list \<Rightarrow> bool" where
  "registrations_ok rs \<longleftrightarrow>
     list_all (\<lambda>r. validate_target r = Inr ()) rs \<and>
     distinct (map rh_message_type (filter (\<lambda>r. rh_kind r = COMMAND) rs)) \<and>
     distinct (map rh_message_type (filter (\<lambda>r. rh_kind r = QUERY) rs)) \<and>
     distinct (map (\<lambda>r. (rh_message_type r, tg_id (rh_target r))) (filter (\<lambda>r. rh_kind r = EVENT) rs))"

lemma first_of_append: "first_of (xs @ ys) = (if xs = [] then first_of ys else first_of xs)"
  by (cases xs) (auto simp: first_of_def)

lemma first_of_None [simp]: "first_of xs = None \<longleftrightarrow> xs = []"
  by (cases xs) (auto simp: first_of_def)

lemma first_of_single [simp]: "first_of [] = None" "first_of [x] = Some x"
  by (simp_all add: first_of_def)

lemma some_list_simps [simp]: "some_list [] = None" "some_list (xs @ [x]) = Some (xs @ [x])"
  "(case some_list xs of None \<Rightarrow> [] | Some hs \<Rightarrow> hs) = xs"
  by (simp_all add: some_list_def)

lemma of_kind_append: "of_kind k (rs @ [r]) c =
    of_kind k rs c @ (if rh_kind r = k \<and> rh_message_type r = c then [r] else [])"
  by (simp add: of_kind_def)

lemma of_kind_Nil_iff: "of_kind k rs c = [] \<longleftrightarrow> c \<notin> rh_message_type ` set (filter (\<lambda>r. rh_kind r = k) rs)"
  by (auto simp: of_kind_def filter_empty_conv)

lemma registry_of_simps:
  "rg_commands (registry_of rs) = (\<lambda>c. first_of (of_kind COMMAND rs c))"
  "rg_queries (registry_of rs) = (\<lambda>c. first_of (of_kind QUERY rs c))"
  "rg_events (registry_of rs) = (\<lambda>c. some_list (of_kind EVENT rs c))"
  by (simp_all add: registry_of_def)

lemma registry_of_snoc:
  "registry_of (rs @ [r]) =
    (case rh_kind r of
       COMMAND \<Rightarrow> (registry_of rs)\<lparr>rg_commands := (\<lambda>c. first_of (of_kind COMMAND (rs @ [r]) c))\<rparr>
     | QUERY \<Rightarrow> (registry_of rs)\<lparr>rg_queries := (\<lambda>c. first_of (of_kind QUERY (rs @ [r]) c))\<rparr>
     | EVENT \<Rightarrow> (registry_of rs)\<lparr>rg_events := (\<lambda>c. some_list (of_kind EVENT (rs @ [r]) c))\<rparr>)"
  by (cases "rh_kind r") (simp_all add: registry_of_def of_kind_append)

lemma first_of_update:
  assumes "rh_kind r = k" "of_kind k rs (rh_message_type r) = []"
  shows "(\<lambda>c. first_of (of_kind k (rs @ [r]) c)) = (\<lambda>c. first_of (of_kind k rs c))(rh_message_type r \<mapsto> r)"
  using assms by (auto simp: of_kind_append first_of_append)

lemma some_list_update:
  assumes "rh_kind r = k"
  shows "(\<lambda>c. some_list (of_kind k (rs @ [r]) c)) =
    (\<lambda>c. some_list (of_kind k rs c))(rh_message_type r \<mapsto> of_kind k rs (rh_message_type r) @ [r])"
  using assms by (auto simp: of_kind_append)

lemma message_type_for_raises:
  "(case message_type_for mt of Inl e \<Rightarrow> Inl e | Inr n \<Rightarrow> Inl (f n)) \<noteq> Inr g"
  by (simp split: sum.split)

lemma registry_add_of:
  assumes ok: "registrations_ok rs"
  shows "registry_add r (registry_of rs) = Inr g \<longleftrightarrow> registrations_ok (rs @ [r]) \<and> g = registry_of (rs @ [r])"
proof (cases "validate_target r")
  case (Inl e)
  then show ?thesis by (simp add: registry_add_def registrations_ok_def)
next
  case (Inr u)
  show ?thesis
  proof (cases "rh_kind r")
    case COMMAND
    have "registrations_ok (rs @ [r]) \<longleftrightarrow> of_kind COMMAND rs (rh_message_type r) = []"
      using ok Inr COMMAND by (auto simp: registrations_ok_def of_kind_Nil_iff)
    then show ?thesis
      using Inr COMMAND first_of_update [OF COMMAND, of rs]
      by (auto simp: registry_add_def registry_of_snoc registry_of_simps message_type_for_raises)
  next
    case QUERY
    have "registrations_ok (rs @ [r]) \<longleftrightarrow> of_kind QUERY rs (rh_message_type r) = []"
      using ok Inr QUERY by (auto simp: registrations_ok_def of_kind_Nil_iff)
    then show ?thesis
      using Inr QUERY first_of_update [OF QUERY, of rs]
      by (auto simp: registry_add_def registry_of_snoc registry_of_simps message_type_for_raises)
  next
    case EVENT
    have "registrations_ok (rs @ [r]) \<longleftrightarrow>
        \<not> list_ex (\<lambda>h. tg_id (rh_target h) = tg_id (rh_target r)) (of_kind EVENT rs (rh_message_type r))"
      using ok Inr EVENT by (auto simp: registrations_ok_def of_kind_def list_ex_iff image_iff, metis)
    then show ?thesis
      using Inr EVENT some_list_update [OF EVENT, of rs]
      by (auto simp: registry_add_def registry_of_snoc registry_of_simps Let_def)
  qed
qed

lemma registrations_ok_prefix: "registrations_ok (rs @ rs') \<Longrightarrow> registrations_ok rs"
  by (auto simp: registrations_ok_def)

lemma registry_fold_of:
  "registrations_ok ds \<Longrightarrow>
   registry_fold rs (registry_of ds) = Inr g \<longleftrightarrow> registrations_ok (ds @ rs) \<and> g = registry_of (ds @ rs)"
proof (induction rs arbitrary: ds)
  case (Cons r rs)
  show ?case
  proof (cases "registry_add r (registry_of ds)")
    case (Inl e)
    then have "\<not> registrations_ok (ds @ [r])" using registry_add_of [OF Cons.prems, of r] by auto
    then show ?thesis using Inl registrations_ok_prefix [of "ds @ [r]" rs] by auto
  next
    case (Inr g')
    then have "registrations_ok (ds @ [r])" "g' = registry_of (ds @ [r])"
      using registry_add_of [OF Cons.prems, of r] by auto
    then show ?thesis using Inr Cons.IH [of "ds @ [r]"] by simp
  qed
qed auto

lemma registry_build_of:
  "registry_build rs = Inr g \<longleftrightarrow> registrations_ok rs \<and> g = registry_of rs"
proof -
  have "empty_registry = registry_of []" by (simp add: empty_registry_def registry_of_def of_kind_def)
  then show ?thesis
    using registry_fold_of [of "[]" rs g] by (simp add: registry_build_def registrations_ok_def)
qed

end
