(* ===== verification/CQRS_Dispatch.thy ===== *)
theory CQRS_Dispatch
  imports CQRS_Registry
begin

text \<open>
  Envelopes (\<open>envelope.py\<close>, \<open>context.py\<close>), the builder (\<open>builder.py\<close>), the default handler provider
  (\<open>provider.py\<close>), the dispatcher (\<open>dispatch.py\<close>) and the request side of the buses (\<open>buses.py\<close>).

  Handlers, factories and pluggable providers are application code: they are arguments that say what
  a call returns or raises. Fresh UUIDs and the clock are arguments too.
\<close>

section \<open>Envelopes\<close>

record message =
  ms_class :: message_class
  ms_body :: nat

record delivery_metadata =
  dm_delivery_id :: uuid
  dm_enqueued_at :: int
  dm_attempt :: int

record envelope =
  en_message :: message
  en_message_type :: string
  en_message_id :: uuid
  en_correlation_id :: "uuid option"
  en_causation_id :: "uuid option"
  en_headers :: "(string \<times> string) list"
  en_delivery :: delivery_metadata

text \<open>The result of a handler is an object, or \<open>None\<close>.\<close>

type_synonym handler_result = "nat option"

record reply_envelope =
  rp_reply_id :: uuid
  rp_correlation_id :: uuid
  rp_result :: handler_result
  rp_error :: "cq_error option"

record delivery_receipt =
  dr_message_id :: uuid
  dr_delivery_id :: uuid
  dr_enqueued_at :: int

definition validate_uuid :: "uuid arg \<Rightarrow> cq_error + uuid" where
  [op_defs]: "validate_uuid v = (case v of Foreign \<Rightarrow> Inl EnvelopeValidationError | Inst u \<Rightarrow> Inr u)"

definition validate_timestamp :: "datetime arg \<Rightarrow> cq_error + int" where
  [op_defs]: "validate_timestamp v = (case v of Inst (Aware t) \<Rightarrow> Inr t | _ \<Rightarrow> Inl EnvelopeValidationError)"

definition mk_delivery_metadata :: "uuid arg \<Rightarrow> datetime arg \<Rightarrow> int arg \<Rightarrow> cq_error + delivery_metadata" where
  [op_defs]: "mk_delivery_metadata d enqueued attempt =
     (case validate_uuid d of Inl e \<Rightarrow> Inl e | Inr d' \<Rightarrow>
     (case validate_timestamp enqueued of Inl e \<Rightarrow> Inl e | Inr t \<Rightarrow>
     (case attempt of Foreign \<Rightarrow> Inl EnvelopeValidationError
      | Inst n \<Rightarrow> if n < 1 then Inl EnvelopeValidationError
                 else Inr \<lparr>dm_delivery_id = d', dm_enqueued_at = t, dm_attempt = n\<rparr>)))"

definition validate_optional_uuid :: "uuid arg option \<Rightarrow> cq_error + uuid option" where
  [op_defs]: "validate_optional_uuid v =
     (case v of None \<Rightarrow> Inr None
      | Some a \<Rightarrow> (case validate_uuid a of Inl e \<Rightarrow> Inl e | Inr u \<Rightarrow> Inr (Some u)))"

fun envelope_header_items :: "(string arg \<times> string arg) list \<Rightarrow> cq_error + (string \<times> string) list" where
  "envelope_header_items [] = Inr []"
| "envelope_header_items ((Inst k, Inst v) # xs) = (case envelope_header_items xs of Inl e \<Rightarrow> Inl e | Inr ys \<Rightarrow> Inr ((k, v) # ys))"
| "envelope_header_items (_ # xs) = Inl EnvelopeValidationError"

definition mk_envelope ::
  "message arg \<Rightarrow> string \<Rightarrow> uuid arg \<Rightarrow> uuid arg option \<Rightarrow> uuid arg option \<Rightarrow>
   (string arg \<times> string arg) list arg \<Rightarrow> delivery_metadata \<Rightarrow> cq_error + envelope" where
  [op_defs]: "mk_envelope msg mtype mid cor caus hs delivery =
     (case msg of Foreign \<Rightarrow> Inl EnvelopeValidationError | Inst m \<Rightarrow>
     (case message_type_for (Inst (ms_class m)) of Inl e \<Rightarrow> Inl EnvelopeValidationError | Inr expected \<Rightarrow>
      if mtype \<noteq> expected then Inl EnvelopeValidationError
      else (case validate_uuid mid of Inl e \<Rightarrow> Inl e | Inr mid' \<Rightarrow>
     (case validate_optional_uuid cor of Inl e \<Rightarrow> Inl e | Inr cor' \<Rightarrow>
     (case validate_optional_uuid caus of Inl e \<Rightarrow> Inl e | Inr caus' \<Rightarrow>
     (case hs of Foreign \<Rightarrow> Inl EnvelopeValidationError | Inst items \<Rightarrow>
     (case envelope_header_items items of Inl e \<Rightarrow> Inl e | Inr hs' \<Rightarrow>
        Inr \<lparr>en_message = m, en_message_type = mtype, en_message_id = mid', en_correlation_id = cor',
             en_causation_id = caus', en_headers = hs', en_delivery = delivery\<rparr>)))))))"

definition mk_reply_envelope ::
  "uuid arg \<Rightarrow> uuid arg \<Rightarrow> handler_result \<Rightarrow> cq_error arg option \<Rightarrow> cq_error + reply_envelope" where
  [op_defs]: "mk_reply_envelope rid cor result err =
     (case validate_uuid rid of Inl e \<Rightarrow> Inl e | Inr rid' \<Rightarrow>
     (case validate_uuid cor of Inl e \<Rightarrow> Inl e | Inr cor' \<Rightarrow>
     (case err of
        Some Foreign \<Rightarrow> Inl EnvelopeValidationError
      | Some (Inst x) \<Rightarrow>
          if result \<noteq> None then Inl EnvelopeValidationError
          else Inr \<lparr>rp_reply_id = rid', rp_correlation_id = cor', rp_result = None, rp_error = Some x\<rparr>
      | None \<Rightarrow> Inr \<lparr>rp_reply_id = rid', rp_correlation_id = cor', rp_result = result, rp_error = None\<rparr>)))"

definition mk_delivery_receipt :: "uuid arg \<Rightarrow> uuid arg \<Rightarrow> datetime arg \<Rightarrow> cq_error + delivery_receipt" where
  [op_defs]: "mk_delivery_receipt mid d t =
     (case validate_uuid mid of Inl e \<Rightarrow> Inl e | Inr mid' \<Rightarrow>
     (case validate_uuid d of Inl e \<Rightarrow> Inl e | Inr d' \<Rightarrow>
     (case validate_timestamp t of Inl e \<Rightarrow> Inl e | Inr t' \<Rightarrow>
        Inr \<lparr>dr_message_id = mid', dr_delivery_id = d', dr_enqueued_at = t'\<rparr>)))"

section \<open>The default provider\<close>

text \<open>What a call of application code returns: nothing (it raises), a plain object, or an awaitable and its outcome.\<close>

datatype call_result = Raises cq_error | NotAwaitable | Awaitable "cq_error + handler_result"

text \<open>
  \<open>ap_make\<close>: calling a class or factory without arguments (awaited if it returns an awaitable).
  \<open>ap_call\<close>: calling a function handler, or the \<open>handle\<close> method of a handler object.
\<close>

record application =
  ap_make :: "nat \<Rightarrow> cq_error + handler_target"
  ap_call :: "nat \<Rightarrow> message \<Rightarrow> call_result"

definition cq_is_exception :: "cq_error \<Rightarrow> bool" where
  [simp]: "cq_is_exception e \<longleftrightarrow> e \<noteq> CancelledRaised \<and> e \<noteq> BaseExceptionRaised"

definition default_resolve :: "application \<Rightarrow> registered_handler \<Rightarrow> cq_error + handler_target" where
  [op_defs]: "default_resolve app r =
     (if rh_target_mode r \<in> {INSTANCE_TARGET, FUNCTION_TARGET} then Inr (rh_target r)
      else if \<not> tg_callable (rh_target r) then Inl InvalidHandlerRegistrationError
      else (case ap_make app (tg_id (rh_target r)) of
              Inl e \<Rightarrow> Inl (if cq_is_exception e then InvalidHandlerRegistrationError else e)
            | Inr h \<Rightarrow> Inr h))"

text \<open>A provider: entering its context manager gives the handler, leaving it turns the outcome of the body into the outcome of the block.\<close>

record handler_provider =
  pv_enter :: "registered_handler \<Rightarrow> envelope \<Rightarrow> cq_error + handler_target"
  pv_exit :: "registered_handler \<Rightarrow> envelope \<Rightarrow> cq_error + handler_result \<Rightarrow> cq_error + handler_result"

definition default_provider :: "application \<Rightarrow> handler_provider" where
  [op_defs]: "default_provider app = \<lparr>pv_enter = (\<lambda>r en. default_resolve app r), pv_exit = (\<lambda>r en x. x)\<rparr>"

section \<open>The dispatcher\<close>

text \<open>Buses are numbered; a handle is unbound until the builder has assembled the graph.\<close>

record bus_handles =
  bh_command :: "nat option"
  bh_query :: "nat option"
  bh_event :: "nat option"

definition handler_context :: "bus_handles \<Rightarrow> cq_error + unit" where
  [op_defs]: "handler_context b =
     (if bh_command b = None \<or> bh_query b = None \<or> bh_event b = None
      then Inl InvalidLifecycleTransitionError else Inr ())"

record dispatcher =
  dp_registry :: handler_registry
  dp_provider :: handler_provider
  dp_handles :: bus_handles
  dp_application :: application

definition call_handler ::
  "application \<Rightarrow> registered_handler \<Rightarrow> handler_target \<Rightarrow> message \<Rightarrow> cq_error + handler_result" where
  [op_defs]: "call_handler app r h m =
     (if rh_style r = CLASS_STYLE \<and> (case tg_handle h of None \<Rightarrow> True | Some x \<Rightarrow> \<not> hd_callable x)
      then Inl InvalidHandlerRegistrationError
      else (case ap_call app (tg_id h) m of
              Raises e \<Rightarrow> Inl e
            | NotAwaitable \<Rightarrow> Inl InvalidHandlerRegistrationError
            | Awaitable x \<Rightarrow> x))"

definition invoke :: "dispatcher \<Rightarrow> registered_handler \<Rightarrow> envelope \<Rightarrow> cq_error + handler_result" where
  [op_defs]: "invoke dp r en =
     (case handler_context (dp_handles dp) of Inl e \<Rightarrow> Inl e | Inr _ \<Rightarrow>
     (case pv_enter (dp_provider dp) r en of Inl e \<Rightarrow> Inl e | Inr h \<Rightarrow>
        pv_exit (dp_provider dp) r en (call_handler (dp_application dp) r h (en_message en))))"

definition validate_request_category :: "envelope \<Rightarrow> handler_kind \<Rightarrow> cq_error + unit" where
  [op_defs]: "validate_request_category en kind =
     (if kind = COMMAND \<and> \<not> mc_command (ms_class (en_message en)) then Inl EnvelopeValidationError
      else if kind = QUERY \<and> \<not> mc_query (ms_class (en_message en)) then Inl EnvelopeValidationError
      else if kind = EVENT then Inl EnvelopeValidationError
      else Inr ())"

definition dispatch_request ::
  "dispatcher \<Rightarrow> envelope \<Rightarrow> handler_kind \<Rightarrow> uuid \<Rightarrow> cq_error + reply_envelope" where
  [op_defs]: "dispatch_request dp en kind reply_id =
     (case en_correlation_id en of None \<Rightarrow> Inl EnvelopeValidationError | Some cor \<Rightarrow>
     (case validate_request_category en kind of Inl e \<Rightarrow> Inl e | Inr _ \<Rightarrow>
     (case (case request_handler (dp_registry dp) kind (ms_class (en_message en)) of
              Inl e \<Rightarrow> Inl e | Inr r \<Rightarrow> invoke dp r en) of
        Inl e \<Rightarrow>
          if cq_is_exception e then mk_reply_envelope (Inst reply_id) (Inst cor) None (Some (Inst e)) else Inl e
      | Inr x \<Rightarrow> mk_reply_envelope (Inst reply_id) (Inst cor) x None)))"

fun dispatch_all :: "dispatcher \<Rightarrow> registered_handler list \<Rightarrow> envelope \<Rightarrow> cq_error + unit" where
  "dispatch_all dp [] en = Inr ()"
| "dispatch_all dp (r # rs) en =
     (case invoke dp r en of Inl e \<Rightarrow> Inl e | Inr _ \<Rightarrow> dispatch_all dp rs en)"

definition dispatch_event :: "dispatcher \<Rightarrow> envelope \<Rightarrow> cq_error + unit" where
  [op_defs]: "dispatch_event dp en =
     (if \<not> mc_event (ms_class (en_message en)) then Inl EnvelopeValidationError
      else dispatch_all dp (event_handlers (dp_registry dp) (ms_class (en_message en))) en)"

definition event_invocations ::
  "dispatcher \<Rightarrow> envelope \<Rightarrow> cq_error + (registered_handler \<times> (cq_error + handler_result)) list" where
  [op_defs]: "event_invocations dp en =
     (if \<not> mc_event (ms_class (en_message en)) then Inl EnvelopeValidationError
      else Inr (map (\<lambda>r. (r, invoke dp r en)) (event_handlers (dp_registry dp) (ms_class (en_message en)))))"

section \<open>Nested commands\<close>

text \<open>
  The context variable holds the frames of the commands the current task is handling, directly or in
  a parent task whose context it copied. Frames are shared objects: a task only holds references.
\<close>

record command_frame =
  cf_bus :: nat
  cf_active :: bool

type_synonym frame_heap = "command_frame list"
type_synonym frame_context = "nat list"

definition is_command_bus_active :: "frame_heap \<Rightarrow> frame_context \<Rightarrow> nat \<Rightarrow> bool" where
  [op_defs]: "is_command_bus_active hp ctx bus \<longleftrightarrow>
     list_ex (\<lambda>f. cf_active (hp ! f) \<and> cf_bus (hp ! f) = bus) ctx"

definition enter_command :: "frame_heap \<Rightarrow> frame_context \<Rightarrow> nat \<Rightarrow> frame_heap \<times> frame_context" where
  [op_defs]: "enter_command hp ctx bus = (hp @ [\<lparr>cf_bus = bus, cf_active = True\<rparr>], ctx @ [length hp])"

definition exit_command :: "frame_heap \<Rightarrow> nat \<Rightarrow> frame_heap" where
  [op_defs]: "exit_command hp f = hp[f := (hp ! f)\<lparr>cf_active := False\<rparr>]"

section \<open>Executing requests\<close>

datatype bus_state = BUS_NEW | BUS_STARTING | BUS_RUNNING | BUS_STOPPING | BUS_STOPPED

definition require_running :: "bus_state \<Rightarrow> cq_error + unit" where
  [op_defs]: "require_running st =
     (case st of BUS_NEW \<Rightarrow> Inl TransportNotStartedError
      | BUS_STOPPED \<Rightarrow> Inl TransportStoppedError
      | BUS_RUNNING \<Rightarrow> Inr ()
      | _ \<Rightarrow> Inl InvalidLifecycleTransitionError)"

definition envelope_for :: "message \<Rightarrow> bool \<Rightarrow> uuid \<Rightarrow> uuid \<Rightarrow> uuid \<Rightarrow> int \<Rightarrow> cq_error + envelope" where
  [op_defs]: "envelope_for m request cor mid did now =
     (case message_type_for (Inst (ms_class m)) of Inl e \<Rightarrow> Inl e | Inr name \<Rightarrow>
     (case mk_delivery_metadata (Inst did) (Inst (Aware now)) (Inst 1) of Inl e \<Rightarrow> Inl e | Inr d \<Rightarrow>
        mk_envelope (Inst m) name (Inst mid) (if request then Some (Inst cor) else None) None (Inst []) d))"

definition reply_outcome :: "uuid \<Rightarrow> reply_envelope \<Rightarrow> cq_error + handler_result" where
  [op_defs]: "reply_outcome cor rp =
     (if rp_correlation_id rp \<noteq> cor then Inl (InvalidReplyCorrelationError cor (rp_correlation_id rp))
      else case rp_error rp of Some e \<Rightarrow> Inl e | None \<Rightarrow> Inr (rp_result rp))"

text \<open>\<open>request\<close> is the outcome of the transport for an envelope.\<close>

definition execute_request ::
  "bus_state \<Rightarrow> (envelope \<Rightarrow> cq_error + reply_envelope) \<Rightarrow> message \<Rightarrow> uuid \<Rightarrow> uuid \<Rightarrow> uuid \<Rightarrow> int \<Rightarrow>
   cq_error + handler_result" where
  [op_defs]: "execute_request st request m cor mid did now =
     (case require_running st of Inl e \<Rightarrow> Inl e | Inr _ \<Rightarrow>
     (case envelope_for m True cor mid did now of Inl e \<Rightarrow> Inl e | Inr en \<Rightarrow>
     (case request en of Inl e \<Rightarrow> Inl e | Inr rp \<Rightarrow> reply_outcome cor rp)))"

definition command_execute ::
  "frame_heap \<Rightarrow> frame_context \<Rightarrow> nat \<Rightarrow> bus_state \<Rightarrow> (envelope \<Rightarrow> cq_error + reply_envelope) \<Rightarrow>
   message arg \<Rightarrow> uuid \<Rightarrow> uuid \<Rightarrow> uuid \<Rightarrow> int \<Rightarrow> cq_error + handler_result" where
  [op_defs]: "command_execute hp ctx bus st request command cor mid did now =
     (case command of Foreign \<Rightarrow> Inl EnvelopeValidationError
      | Inst m \<Rightarrow>
          if \<not> mc_command (ms_class m) then Inl EnvelopeValidationError
          else if is_command_bus_active hp ctx bus then Inl NestedCommandDispatchError
          else execute_request st request m cor mid did now)"

definition query_execute ::
  "bus_state \<Rightarrow> (envelope \<Rightarrow> cq_error + reply_envelope) \<Rightarrow>
   message arg \<Rightarrow> uuid \<Rightarrow> uuid \<Rightarrow> uuid \<Rightarrow> int \<Rightarrow> cq_error + handler_result" where
  [op_defs]: "query_execute st request q cor mid did now =
     (case q of Foreign \<Rightarrow> Inl EnvelopeValidationError
      | Inst m \<Rightarrow>
          if \<not> mc_query (ms_class m) then Inl EnvelopeValidationError
          else execute_request st request m cor mid did now)"

section \<open>The builder\<close>

record cqrs_builder =
  cb_registrations :: "registered_handler list"
  cb_command_transport :: "nat option"
  cb_query_transport :: "nat option"
  cb_event_transport :: "nat option"
  cb_provider :: "handler_provider option"
  cb_event_error_handler :: "nat option"

definition new_builder :: cqrs_builder where
  "new_builder = \<lparr>cb_registrations = [], cb_command_transport = None, cb_query_transport = None,
     cb_event_transport = None, cb_provider = None, cb_event_error_handler = None\<rparr>"

text \<open>\<open>add_..._handler(target)\<close> with a decorated target, or \<open>add_..._handler(message_type, target)\<close>.\<close>

datatype handler_arg = Decorated handler_target | Explicit "message_class arg" handler_target

definition validate_message_type :: "handler_kind \<Rightarrow> message_class arg \<Rightarrow> cq_error + message_class" where
  [op_defs]: "validate_message_type kind mt =
     (case mt of Foreign \<Rightarrow> Inl InvalidHandlerRegistrationError
      | Inst c \<Rightarrow> if kind_matches kind c then Inr c else Inl InvalidHandlerRegistrationError)"

definition handler_arg_target :: "handler_kind \<Rightarrow> handler_arg \<Rightarrow> cq_error + message_class arg \<times> handler_target" where
  [op_defs]: "handler_arg_target kind a =
     (case a of
        Decorated t \<Rightarrow>
          (case get_handler_metadata t of None \<Rightarrow> Inl InvalidHandlerRegistrationError
           | Some m \<Rightarrow> if hm_kind m \<noteq> kind then Inl InvalidHandlerRegistrationError
                      else Inr (Inst (hm_message_type m), t))
      | Explicit mt t \<Rightarrow> Inr (mt, t))"

definition add_handler :: "cqrs_builder \<Rightarrow> handler_kind \<Rightarrow> handler_arg \<Rightarrow> cq_error + cqrs_builder" where
  [op_defs]: "add_handler b kind a =
     (case handler_arg_target kind a of Inl e \<Rightarrow> Inl e | Inr (mt, t) \<Rightarrow>
     (case validate_message_type kind mt of Inl e \<Rightarrow> Inl e | Inr c \<Rightarrow>
     (case mk_registered_handler (Inst kind) (Inst c) t (Inst (style_for t)) (Inst (target_mode_for t)) of
        Inl e \<Rightarrow> Inl e
      | Inr r \<Rightarrow> Inr (b\<lparr>cb_registrations := cb_registrations b @ [r]\<rparr>))))"

definition add_factory ::
  "cqrs_builder \<Rightarrow> handler_kind \<Rightarrow> message_class arg \<Rightarrow> handler_target \<Rightarrow> cq_error + cqrs_builder" where
  [op_defs]: "add_factory b kind mt t =
     (case validate_message_type kind mt of Inl e \<Rightarrow> Inl e | Inr c \<Rightarrow>
      if \<not> tg_callable t then Inl InvalidHandlerRegistrationError
      else (case mk_registered_handler (Inst kind) (Inst c) t (Inst CLASS_STYLE) (Inst FACTORY_TARGET) of
              Inl e \<Rightarrow> Inl e
            | Inr r \<Rightarrow> Inr (b\<lparr>cb_registrations := cb_registrations b @ [r]\<rparr>)))"

definition with_command_transport :: "cqrs_builder \<Rightarrow> nat \<Rightarrow> cqrs_builder" where
  [op_defs]: "with_command_transport b t = b\<lparr>cb_command_transport := Some t\<rparr>"

definition with_query_transport :: "cqrs_builder \<Rightarrow> nat \<Rightarrow> cqrs_builder" where
  [op_defs]: "with_query_transport b t = b\<lparr>cb_query_transport := Some t\<rparr>"

definition with_event_transport :: "cqrs_builder \<Rightarrow> nat \<Rightarrow> cqrs_builder" where
  [op_defs]: "with_event_transport b t = b\<lparr>cb_event_transport := Some t\<rparr>"

definition with_handler_provider :: "cqrs_builder \<Rightarrow> handler_provider \<Rightarrow> cqrs_builder" where
  [op_defs]: "with_handler_provider b p = b\<lparr>cb_provider := Some p\<rparr>"

definition with_event_error_handler :: "cqrs_builder \<Rightarrow> nat \<Rightarrow> cqrs_builder" where
  [op_defs]: "with_event_error_handler b h = b\<lparr>cb_event_error_handler := Some h\<rparr>"

record cqrs_buses =
  bs_dispatcher :: dispatcher
  bs_command_transport :: nat
  bs_query_transport :: nat
  bs_event_transport :: nat

text \<open>The three buses are numbered 0, 1 and 2; \<open>build\<close> binds the handles to them.\<close>

definition builder_build :: "application \<Rightarrow> cqrs_builder \<Rightarrow> cq_error + cqrs_buses" where
  [op_defs]: "builder_build app b =
     (case cb_command_transport b of None \<Rightarrow> Inl CqrsValidationError | Some ct \<Rightarrow>
     (case cb_query_transport b of None \<Rightarrow> Inl CqrsValidationError | Some qt \<Rightarrow>
     (case cb_event_transport b of None \<Rightarrow> Inl CqrsValidationError | Some et \<Rightarrow>
      if \<not> distinct [ct, qt, et] then Inl CqrsValidationError
      else (case registry_build (cb_registrations b) of Inl e \<Rightarrow> Inl e | Inr g \<Rightarrow>
        Inr \<lparr>bs_dispatcher = \<lparr>dp_registry = g,
               dp_provider = (case cb_provider b of None \<Rightarrow> default_provider app | Some p \<Rightarrow> p),
               dp_handles = \<lparr>bh_command = Some 0, bh_query = Some 1, bh_event = Some 2\<rparr>,
               dp_application = app\<rparr>,
             bs_command_transport = ct, bs_query_transport = qt, bs_event_transport = et\<rparr>))))"

end
