(* ===== verification/CQRS_Transport.thy ===== *)
theory CQRS_Transport
  imports CQRS_Dispatch "HOL-Library.Multiset"
begin

text \<open>
  The in-memory transport (\<open>inmemory.py\<close>): a bounded queue with one worker, request futures, and a
  lifecycle with a draining shutdown. Every function is the code between two points where a task can
  be suspended. Waits with a timeout may end at any moment, so deadlines are only recorded as given
  or not given. Logging is left out.

  The worker's handler for an \<open>Exception\<close> out of message processing is not modelled: both processing
  methods catch every \<open>Exception\<close> of the consumer and of the error hook. A \<open>BaseException\<close> that is neither
  an \<open>Exception\<close> nor a cancellation passes all handlers and ends the worker task with it.
\<close>

section \<open>State\<close>

datatype transport_state = TS_NEW | TS_STARTING | TS_RUNNING | TS_STOPPING | TS_STOPPED

text \<open>A request carries the reference of its reply future.\<close>

datatype queue_item = RequestItem envelope nat | PublishItem envelope

datatype settled = Result reply_envelope | Failed cq_error

text \<open>
  Where the worker task is: not created, created but not yet run, waiting for an item, awaiting the
  consumer, awaiting the error hook, done, or ended by an exception that escaped while it held an item,
  out of the error hook (\<open>True\<close>) or out of the consumer (\<open>False\<close>).
\<close>

datatype worker_phase =
  NoWorker | Created | Waiting | Processing queue_item | Reporting queue_item cq_error | WorkerDone
  | WorkerFailed queue_item bool

record transport =
  tr_max_queue_size :: nat
  tr_default_timeout :: "int option"
  tr_queue :: "queue_item list"
  tr_unfinished :: nat
  tr_capacity :: nat
  tr_consumer :: bool
  tr_worker :: worker_phase
  tr_cancelling :: bool
  tr_active_request :: "queue_item option"
  tr_worker_ready :: bool
  tr_stop_event :: bool
  tr_force_shutdown :: bool
  tr_shutdown_complete :: bool
  tr_locked :: bool
  tr_state :: transport_state
  tr_replies :: "nat \<rightharpoonup> settled"
  tr_fresh :: nat

definition new_transport :: "int \<Rightarrow> int option \<Rightarrow> cq_error + transport" where
  [op_defs]: "new_transport limit timeout =
     (if limit < 1 then Inl CqrsValidationError
      else if (case timeout of None \<Rightarrow> False | Some t \<Rightarrow> t < 0) then Inl CqrsValidationError
      else Inr \<lparr>tr_max_queue_size = nat limit, tr_default_timeout = timeout, tr_queue = [], tr_unfinished = 0,
             tr_capacity = nat limit, tr_consumer = False, tr_worker = NoWorker, tr_cancelling = False,
             tr_active_request = None, tr_worker_ready = False, tr_stop_event = False,
             tr_force_shutdown = False, tr_shutdown_complete = False, tr_locked = False, tr_state = TS_NEW,
             tr_replies = Map.empty, tr_fresh = 0\<rparr>)"

section \<open>Futures and the queue\<close>

text \<open>A future is settled once; \<open>_set_future_error\<close> and the guarded \<open>set_result\<close> keep an earlier outcome.\<close>

definition settle_future :: "transport \<Rightarrow> nat \<Rightarrow> settled \<Rightarrow> transport" where
  [op_defs]: "settle_future tr f v =
     (if tr_replies tr f = None then tr\<lparr>tr_replies := (tr_replies tr)(f \<mapsto> v)\<rparr> else tr)"

definition fail_item :: "transport \<Rightarrow> queue_item \<Rightarrow> cq_error \<Rightarrow> transport" where
  [op_defs]: "fail_item tr item e =
     (case item of RequestItem en f \<Rightarrow> settle_future tr f (Failed e) | PublishItem en \<Rightarrow> tr)"

definition fail_active :: "transport \<Rightarrow> transport" where
  [op_defs]: "fail_active tr =
     (case tr_active_request tr of None \<Rightarrow> tr | Some item \<Rightarrow> fail_item tr item TransportStoppedError)"

fun drain_items :: "queue_item list \<Rightarrow> transport \<Rightarrow> transport" where
  "drain_items [] tr = tr"
| "drain_items (item # items) tr =
     drain_items items
       (let tr1 = fail_item (tr\<lparr>tr_queue := items, tr_capacity := tr_capacity tr + 1\<rparr>) item TransportStoppedError
        in tr1\<lparr>tr_unfinished := tr_unfinished tr1 - 1\<rparr>)"

definition drain_pending :: "transport \<Rightarrow> transport" where
  [op_defs]: "drain_pending tr = drain_items (tr_queue tr) tr"

text \<open>\<open>worker is None or worker.done()\<close>.\<close>

definition worker_ended :: "transport \<Rightarrow> bool" where
  "worker_ended tr \<longleftrightarrow>
     (case tr_worker tr of NoWorker \<Rightarrow> True | WorkerDone \<Rightarrow> True | WorkerFailed item hook \<Rightarrow> True | _ \<Rightarrow> False)"

definition cancel_worker :: "transport \<Rightarrow> transport" where
  [op_defs]: "cancel_worker tr =
     (if worker_ended tr then tr else tr\<lparr>tr_cancelling := True\<rparr>)"

section \<open>Starting\<close>

definition transport_start :: "transport \<Rightarrow> (cq_error + unit) \<times> transport" where
  [op_defs]: "transport_start tr =
     (if tr_state tr \<noteq> TS_NEW then (Inl InvalidLifecycleTransitionError, tr)
      else (Inr (), tr\<lparr>tr_consumer := True, tr_state := TS_STARTING, tr_worker := Created, tr_locked := True\<rparr>))"

definition start_ready :: "transport \<Rightarrow> (cq_error + unit) \<times> transport" where
  [op_defs]: "start_ready tr =
     (if tr_state tr \<noteq> TS_STARTING then (Inl TransportStoppedError, tr\<lparr>tr_locked := False\<rparr>)
      else (Inr (), tr\<lparr>tr_state := TS_RUNNING, tr_locked := False\<rparr>))"

text \<open>A start that is cancelled while it waits for the worker cancels the worker and stops the transport.\<close>

definition start_abort :: "transport \<Rightarrow> transport" where
  [op_defs]: "start_abort tr = cancel_worker (tr\<lparr>tr_stop_event := True\<rparr>)"

definition stop_finish :: "transport \<Rightarrow> transport" where
  [op_defs]: "stop_finish tr = (drain_pending tr)\<lparr>tr_state := TS_STOPPED, tr_shutdown_complete := True\<rparr>"

definition start_abort_finish :: "transport \<Rightarrow> transport" where
  [op_defs]: "start_abort_finish tr = (stop_finish tr)\<lparr>tr_locked := False\<rparr>"

section \<open>Submitting\<close>

definition transport_require_running :: "transport \<Rightarrow> cq_error + unit" where
  [op_defs]: "transport_require_running tr =
     (case tr_state tr of TS_NEW \<Rightarrow> Inl TransportNotStartedError
      | TS_STOPPED \<Rightarrow> Inl TransportStoppedError
      | TS_RUNNING \<Rightarrow> Inr ()
      | _ \<Rightarrow> Inl InvalidLifecycleTransitionError)"

definition effective_timeout :: "transport \<Rightarrow> int option \<Rightarrow> int option" where
  [op_defs]: "effective_timeout tr timeout =
     (case timeout of None \<Rightarrow> tr_default_timeout tr | Some t \<Rightarrow> Some t)"

definition submission_error :: "transport \<Rightarrow> cq_error" where
  [op_defs]: "submission_error tr =
     (if tr_state tr = TS_STOPPED then TransportStoppedError else InvalidLifecycleTransitionError)"

definition request_begin :: "transport \<Rightarrow> envelope \<Rightarrow> (cq_error + queue_item) \<times> transport" where
  [op_defs]: "request_begin tr en =
     (case transport_require_running tr of Inl e \<Rightarrow> (Inl e, tr) | Inr _ \<Rightarrow>
      if en_correlation_id en = None then (Inl EnvelopeValidationError, tr)
      else (Inr (RequestItem en (tr_fresh tr)), tr\<lparr>tr_fresh := tr_fresh tr + 1\<rparr>))"

definition publish_begin :: "transport \<Rightarrow> envelope \<Rightarrow> cq_error + queue_item" where
  [op_defs]: "publish_begin tr en =
     (case transport_require_running tr of Inl e \<Rightarrow> Inl e | Inr _ \<Rightarrow> Inr (PublishItem en))"

definition publish_receipt_for :: "envelope \<Rightarrow> cq_error + delivery_receipt" where
  [op_defs]: "publish_receipt_for en = mk_delivery_receipt (Inst (en_message_id en))
     (Inst (dm_delivery_id (en_delivery en))) (Inst (Aware (dm_enqueued_at (en_delivery en))))"

definition acquire_capacity :: "transport \<Rightarrow> transport" where
  [op_defs]: "acquire_capacity tr = tr\<lparr>tr_capacity := tr_capacity tr - 1\<rparr>"

definition release_capacity :: "transport \<Rightarrow> transport" where
  [op_defs]: "release_capacity tr = tr\<lparr>tr_capacity := tr_capacity tr + 1\<rparr>"

text \<open>The section of \<open>_enqueue\<close> under the lifecycle lock, after the capacity was acquired.\<close>

definition enqueue_locked :: "transport \<Rightarrow> queue_item \<Rightarrow> (cq_error + unit) \<times> transport" where
  [op_defs]: "enqueue_locked tr item =
     (if tr_state tr \<noteq> TS_RUNNING then (Inl (submission_error tr), release_capacity tr)
      else if length (tr_queue tr) \<ge> tr_max_queue_size tr then (Inl QueueCapacityError, release_capacity tr)
      else (Inr (), tr\<lparr>tr_queue := tr_queue tr @ [item], tr_unfinished := tr_unfinished tr + 1\<rparr>))"

text \<open>What a request returns when its wait ends: the settled future, or a timeout.\<close>

definition request_result :: "transport \<Rightarrow> envelope \<Rightarrow> nat \<Rightarrow> cq_error + reply_envelope" where
  [op_defs]: "request_result tr en f =
     (case tr_replies tr f of
        None \<Rightarrow> Inl (RequestTimeoutError (en_message_id en) (the (en_correlation_id en)))
      | Some (Result rp) \<Rightarrow> Inr rp
      | Some (Failed e) \<Rightarrow> Inl e)"

section \<open>The worker\<close>

definition worker_take :: "transport \<Rightarrow> queue_item \<Rightarrow> queue_item list \<Rightarrow> transport" where
  [op_defs]: "worker_take tr item items =
     tr\<lparr>tr_queue := items, tr_capacity := tr_capacity tr + 1,
        tr_active_request := (case item of RequestItem en f \<Rightarrow> Some item | PublishItem en \<Rightarrow> tr_active_request tr),
        tr_worker := Processing item\<rparr>"

text \<open>The head of the loop: end when stopping with nothing queued, otherwise take the next item or wait for one.\<close>

definition worker_loop :: "transport \<Rightarrow> transport" where
  [op_defs]: "worker_loop tr =
     (case tr_queue tr of
        [] \<Rightarrow> tr\<lparr>tr_worker := (if tr_state tr \<in> {TS_STOPPING, TS_STOPPED} then WorkerDone else Waiting)\<rparr>
      | item # items \<Rightarrow> worker_take tr item items)"

definition worker_first_run :: "transport \<Rightarrow> transport" where
  [op_defs]: "worker_first_run tr =
     (if tr_cancelling tr then tr\<lparr>tr_worker := WorkerDone\<rparr> else worker_loop (tr\<lparr>tr_worker_ready := True\<rparr>))"

text \<open>The \<open>finally\<close> of one iteration.\<close>

definition item_done :: "transport \<Rightarrow> transport" where
  [op_defs]: "item_done tr = tr\<lparr>tr_active_request := None, tr_unfinished := tr_unfinished tr - 1\<rparr>"

text \<open>What the consumer did: it returned a reply or nothing, or raised.\<close>

datatype consumer_outcome = Returned "reply_envelope option" | Raised cq_error

text \<open>The error \<open>_process_request\<close> handles, if the outcome is one.\<close>

definition request_error :: "uuid \<Rightarrow> consumer_outcome \<Rightarrow> cq_error option" where
  [op_defs]: "request_error cor out =
     (case out of
        Returned None \<Rightarrow> Some InvalidTransportReplyError
      | Returned (Some rp) \<Rightarrow>
          if rp_correlation_id rp \<noteq> cor then Some (InvalidReplyCorrelationError cor (rp_correlation_id rp)) else None
      | Raised e \<Rightarrow> Some e)"

definition worker_cancelled :: "transport \<Rightarrow> transport" where
  [op_defs]: "worker_cancelled tr = (item_done tr)\<lparr>tr_worker := WorkerDone\<rparr>"

text \<open>An exception that nothing catches: the \<open>finally\<close> runs, and no reply is set.\<close>

definition worker_failed :: "transport \<Rightarrow> queue_item \<Rightarrow> bool \<Rightarrow> transport" where
  [op_defs]: "worker_failed tr item hook = (item_done tr)\<lparr>tr_worker := WorkerFailed item hook\<rparr>"

definition process_request :: "transport \<Rightarrow> envelope \<Rightarrow> nat \<Rightarrow> consumer_outcome \<Rightarrow> transport" where
  [op_defs]: "process_request tr en f out =
     (if \<not> tr_consumer tr then worker_loop (item_done (settle_future tr f (Failed TransportStoppedError)))
      else (case en_correlation_id en of
        None \<Rightarrow> worker_loop (item_done (settle_future tr f (Failed EnvelopeValidationError)))
      | Some cor \<Rightarrow>
          (case request_error cor out of
             Some e \<Rightarrow>
               if e = CancelledRaised \<and> tr_cancelling tr
               then worker_cancelled (settle_future tr f (Failed TransportStoppedError))
               else if e = BaseExceptionRaised then worker_failed tr (RequestItem en f) False
               else tr\<lparr>tr_worker := Reporting (RequestItem en f) e\<rparr>
           | None \<Rightarrow>
               (case out of Returned (Some rp) \<Rightarrow> worker_loop (item_done (settle_future tr f (Result rp)))
                | _ \<Rightarrow> tr))))"

definition process_publish :: "transport \<Rightarrow> envelope \<Rightarrow> consumer_outcome \<Rightarrow> transport" where
  [op_defs]: "process_publish tr en out =
     (if \<not> tr_consumer tr then worker_loop (item_done tr)
      else (case out of
        Returned _ \<Rightarrow> worker_loop (item_done tr)
      | Raised e \<Rightarrow>
          if e = CancelledRaised \<and> tr_cancelling tr then worker_cancelled tr
          else if e = BaseExceptionRaised then worker_failed tr (PublishItem en) False
          else tr\<lparr>tr_worker := Reporting (PublishItem en) e\<rparr>))"

text \<open>
  The error hook ends. An \<open>Exception\<close> of the hook is only logged, as is a cancellation that is not one
  of the worker; a cancellation of the worker inside the hook ends the worker, and any other
  \<open>BaseException\<close> of the hook escapes.
\<close>

datatype hook_outcome = HookEnded | HookCancelled | HookEscaped

definition error_reply :: "uuid \<Rightarrow> uuid \<Rightarrow> cq_error \<Rightarrow> reply_envelope" where
  [op_defs]: "error_reply rid cor e =
     \<lparr>rp_reply_id = rid, rp_correlation_id = cor, rp_result = None, rp_error = Some e\<rparr>"

definition report_done :: "transport \<Rightarrow> queue_item \<Rightarrow> cq_error \<Rightarrow> uuid \<Rightarrow> hook_outcome \<Rightarrow> transport" where
  [op_defs]: "report_done tr item e rid hook =
     (case item of
        RequestItem en f \<Rightarrow>
          if hook = HookEscaped then worker_failed tr item True
          else if hook = HookCancelled \<and> tr_cancelling tr then worker_cancelled (settle_future tr f (Failed TransportStoppedError))
          else worker_loop (item_done (settle_future tr f (Result (error_reply rid (the (en_correlation_id en)) e))))
      | PublishItem en \<Rightarrow>
          if hook = HookEscaped then worker_failed tr item True
          else if hook = HookCancelled \<and> tr_cancelling tr then worker_cancelled tr
          else worker_loop (item_done tr))"

section \<open>Shutting down\<close>

datatype shutdown_path = ShutdownReturns | ShutdownWaits | ShutdownDrains

definition shutdown_begin :: "transport \<Rightarrow> shutdown_path \<times> transport" where
  [op_defs]: "shutdown_begin tr =
     (case tr_state tr of
        TS_STOPPED \<Rightarrow> (ShutdownReturns, tr)
      | TS_STOPPING \<Rightarrow> (ShutdownWaits, tr)
      | TS_NEW \<Rightarrow> (ShutdownReturns, tr\<lparr>tr_stop_event := True, tr_state := TS_STOPPED, tr_shutdown_complete := True\<rparr>)
      | _ \<Rightarrow> (ShutdownDrains, tr\<lparr>tr_state := TS_STOPPING, tr_stop_event := True\<rparr>))"

definition force_shutdown :: "transport \<Rightarrow> transport" where
  [op_defs]: "force_shutdown tr =
     drain_pending (cancel_worker (fail_active (tr\<lparr>tr_force_shutdown := True\<rparr>)))"

text \<open>The \<open>finally\<close> of the draining shutdown up to the wait for the worker.\<close>

definition shutdown_cancel :: "transport \<Rightarrow> transport" where
  [op_defs]: "shutdown_cancel tr = cancel_worker (fail_active tr)"

end
