(* ===== verification/CQRS_Transport_Runs.thy ===== *)
theory CQRS_Transport_Runs
  imports CQRS_Transport
begin

text \<open>
  Concurrent use of the in-memory transport: tasks start it, submit requests and publications, shut
  it down and are cancelled at any wait, while the worker takes items and the consumer answers. The
  transport keeps its capacity, hands accepted items to the consumer in order, settles every future
  at most once and with the reply of its own request, and settles all of them before it is stopped,
  except the one the worker held when an exception that nothing catches ended it.
\<close>

section \<open>Steps\<close>

text \<open>
  Calls that wait. \<open>Submitting\<close> waits for capacity, \<open>Granted\<close> for the lifecycle lock; the flag of a
  call says whether it has a deadline.
\<close>

datatype tcall =
    Starting
  | StartAborting
  | Submitting queue_item bool
  | Granted queue_item
  | Awaiting envelope nat bool
  | ShutWaiting bool
  | Draining bool
  | Stopping

text \<open>
  What has happened so far: the request of each future, and the items accepted, taken by the worker,
  and dropped by a shutdown, in order.
\<close>

record transport_history =
  th_owner :: "nat \<rightharpoonup> envelope"
  th_accepted :: "queue_item list"
  th_taken :: "queue_item list"
  th_dropped :: "queue_item list"

definition no_history :: transport_history where
  "no_history = \<lparr>th_owner = Map.empty, th_accepted = [], th_taken = [], th_dropped = []\<rparr>"

type_synonym tsys = "transport \<times> transport_history \<times> tcall multiset"

text \<open>A worker step that ends with an item in hand has just taken it.\<close>

definition note_taken :: "transport \<Rightarrow> transport_history \<Rightarrow> transport_history" where
  "note_taken tr h = (case tr_worker tr of Processing item \<Rightarrow> h\<lparr>th_taken := th_taken h @ [item]\<rparr> | _ \<Rightarrow> h)"

definition note_dropped :: "transport \<Rightarrow> transport_history \<Rightarrow> transport_history" where
  "note_dropped tr h = h\<lparr>th_dropped := th_dropped h @ tr_queue tr\<rparr>"

definition awaiting :: "queue_item \<Rightarrow> bool \<Rightarrow> tcall multiset" where
  "awaiting item d = (case item of RequestItem en f \<Rightarrow> {#Awaiting en f d#} | PublishItem en \<Rightarrow> {#})"

text \<open>
  The steps of the worker task. \<open>consumer en out\<close>: the consumer may answer the envelope with the
  outcome; a cancelled worker may be interrupted at any wait.
\<close>

inductive worker_step :: "(envelope \<Rightarrow> consumer_outcome \<Rightarrow> bool) \<Rightarrow> transport \<Rightarrow> transport \<Rightarrow> bool" for consumer where
  starts: "tr_worker tr = Created \<Longrightarrow> worker_step consumer tr (worker_first_run tr)"
| wakes: "tr_worker tr = Waiting \<Longrightarrow> tr_queue tr = item # items \<Longrightarrow> worker_step consumer tr (worker_take tr item items)"
| cancelled: "tr_worker tr = Waiting \<Longrightarrow> tr_cancelling tr \<Longrightarrow> worker_step consumer tr (tr\<lparr>tr_worker := WorkerDone\<rparr>)"
| answered: "tr_worker tr = Processing (RequestItem en f) \<Longrightarrow> consumer en out \<Longrightarrow>
    worker_step consumer tr (process_request tr en f out)"
| interrupted: "tr_worker tr = Processing (RequestItem en f) \<Longrightarrow> tr_cancelling tr \<Longrightarrow>
    worker_step consumer tr (process_request tr en f (Raised CancelledRaised))"
| handled: "tr_worker tr = Processing (PublishItem en) \<Longrightarrow> worker_step consumer tr (process_publish tr en out)"
| reported: "tr_worker tr = Reporting item e \<Longrightarrow> worker_step consumer tr (report_done tr item e rid hook)"

inductive tr_step :: "(envelope \<Rightarrow> consumer_outcome \<Rightarrow> bool) \<Rightarrow> tsys \<Rightarrow> tsys \<Rightarrow> bool" for consumer where
  start: "\<not> tr_locked tr \<Longrightarrow> transport_start tr = (Inr (), tr') \<Longrightarrow>
    tr_step consumer (tr, h, M) (tr', h, add_mset Starting M)"
| started: "tr_worker_ready tr \<Longrightarrow>
    tr_step consumer (tr, h, add_mset Starting M) (snd (start_ready tr), h, M)"
| start_cancelled: "tr_step consumer (tr, h, add_mset Starting M) (start_abort tr, h, add_mset StartAborting M)"
| start_aborted: "tr_step consumer (tr, h, add_mset StartAborting M) (start_abort_finish tr, note_dropped tr h, M)"
| request: "request_begin tr en = (Inr (RequestItem en f), tr') \<Longrightarrow>
    tr_step consumer (tr, h, M) (tr', h\<lparr>th_owner := (th_owner h)(f \<mapsto> en)\<rparr>, add_mset (Submitting (RequestItem en f) d) M)"
| publish: "publish_begin tr en = Inr item \<Longrightarrow>
    tr_step consumer (tr, h, M) (tr, h, add_mset (Submitting item d) M)"
| grant: "0 < tr_capacity tr \<Longrightarrow>
    tr_step consumer (tr, h, add_mset (Submitting item d) M) (acquire_capacity tr, h, add_mset (Granted item) M)"
| give_up: "tr_step consumer (tr, h, add_mset (Submitting item d) M) (tr, h, M)"
| granted_cancelled: "tr_step consumer (tr, h, add_mset (Granted item) M) (release_capacity tr, h, M)"
| enqueued: "\<not> tr_locked tr \<Longrightarrow> enqueue_locked tr item = (Inr (), tr') \<Longrightarrow>
    tr_step consumer (tr, h, add_mset (Granted item) M)
      (tr', h\<lparr>th_accepted := th_accepted h @ [item]\<rparr>, awaiting item d + M)"
| refused: "\<not> tr_locked tr \<Longrightarrow> enqueue_locked tr item = (Inl e, tr') \<Longrightarrow>
    tr_step consumer (tr, h, add_mset (Granted item) M) (tr', h, M)"
| reply_read: "tr_step consumer (tr, h, add_mset (Awaiting en f d) M) (tr, h, M)"
| worker: "worker_step consumer tr tr' \<Longrightarrow> tr_step consumer (tr, h, M) (tr', note_taken tr' h, M)"
| shutdown_returns: "\<not> tr_locked tr \<Longrightarrow> shutdown_begin tr = (ShutdownReturns, tr') \<Longrightarrow>
    tr_step consumer (tr, h, M) (tr', h, M)"
| shutdown_waits: "\<not> tr_locked tr \<Longrightarrow> shutdown_begin tr = (ShutdownWaits, tr') \<Longrightarrow>
    tr_step consumer (tr, h, M) (tr', h, add_mset (ShutWaiting d) M)"
| shutdown_drains: "\<not> tr_locked tr \<Longrightarrow> shutdown_begin tr = (ShutdownDrains, tr') \<Longrightarrow>
    tr_step consumer (tr, h, M) (tr', h, add_mset (Draining d) M)"
| wait_over: "tr_shutdown_complete tr \<Longrightarrow>
    tr_step consumer (tr, h, add_mset (ShutWaiting d) M) (tr, h, M)"
| wait_cancelled: "tr_step consumer (tr, h, add_mset (ShutWaiting d) M) (tr, h, M)"
| forced: "tr_step consumer (tr, h, add_mset (ShutWaiting True) M)
    (force_shutdown tr, note_dropped tr h, add_mset (ShutWaiting False) M)"
| drain_over: "d \<or> tr_unfinished tr = 0 \<or> tr_force_shutdown tr \<or> cancelled \<Longrightarrow>
    tr_step consumer (tr, h, add_mset (Draining d) M) (shutdown_cancel tr, h, add_mset Stopping M)"
| stopped: "tr_step consumer (tr, h, add_mset Stopping M) (stop_finish tr, note_dropped tr h, M)"

inductive tr_reachable :: "(envelope \<Rightarrow> consumer_outcome \<Rightarrow> bool) \<Rightarrow> tsys \<Rightarrow> bool" for consumer where
  init: "new_transport limit timeout = Inr tr \<Longrightarrow> tr_reachable consumer (tr, no_history, {#})"
| step: "tr_reachable consumer s \<Longrightarrow> tr_step consumer s s' \<Longrightarrow> tr_reachable consumer s'"

section \<open>Frames\<close>

lemma settle_simps [simp]:
  "tr_max_queue_size (settle_future tr f v) = tr_max_queue_size tr"
  "tr_consumer (settle_future tr f v) = tr_consumer tr"
  "tr_worker (settle_future tr f v) = tr_worker tr"
  "tr_cancelling (settle_future tr f v) = tr_cancelling tr"
  "tr_active_request (settle_future tr f v) = tr_active_request tr"
  "tr_worker_ready (settle_future tr f v) = tr_worker_ready tr"
  "tr_stop_event (settle_future tr f v) = tr_stop_event tr"
  "tr_force_shutdown (settle_future tr f v) = tr_force_shutdown tr"
  "tr_shutdown_complete (settle_future tr f v) = tr_shutdown_complete tr"
  "tr_locked (settle_future tr f v) = tr_locked tr"
  "tr_state (settle_future tr f v) = tr_state tr"
  "tr_fresh (settle_future tr f v) = tr_fresh tr"
  "tr_queue (settle_future tr f v) = tr_queue tr"
  "tr_capacity (settle_future tr f v) = tr_capacity tr"
  "tr_unfinished (settle_future tr f v) = tr_unfinished tr"
  by (simp_all add: settle_future_def)

lemma fail_item_simps [simp]:
  "tr_max_queue_size (fail_item tr item e) = tr_max_queue_size tr"
  "tr_consumer (fail_item tr item e) = tr_consumer tr"
  "tr_worker (fail_item tr item e) = tr_worker tr"
  "tr_cancelling (fail_item tr item e) = tr_cancelling tr"
  "tr_active_request (fail_item tr item e) = tr_active_request tr"
  "tr_worker_ready (fail_item tr item e) = tr_worker_ready tr"
  "tr_stop_event (fail_item tr item e) = tr_stop_event tr"
  "tr_force_shutdown (fail_item tr item e) = tr_force_shutdown tr"
  "tr_shutdown_complete (fail_item tr item e) = tr_shutdown_complete tr"
  "tr_locked (fail_item tr item e) = tr_locked tr"
  "tr_state (fail_item tr item e) = tr_state tr"
  "tr_fresh (fail_item tr item e) = tr_fresh tr"
  "tr_queue (fail_item tr item e) = tr_queue tr"
  "tr_capacity (fail_item tr item e) = tr_capacity tr"
  "tr_unfinished (fail_item tr item e) = tr_unfinished tr"
  by (simp_all add: fail_item_def split: queue_item.split)

lemma fail_active_simps [simp]:
  "tr_max_queue_size (fail_active tr) = tr_max_queue_size tr"
  "tr_consumer (fail_active tr) = tr_consumer tr"
  "tr_worker (fail_active tr) = tr_worker tr"
  "tr_cancelling (fail_active tr) = tr_cancelling tr"
  "tr_active_request (fail_active tr) = tr_active_request tr"
  "tr_worker_ready (fail_active tr) = tr_worker_ready tr"
  "tr_stop_event (fail_active tr) = tr_stop_event tr"
  "tr_force_shutdown (fail_active tr) = tr_force_shutdown tr"
  "tr_shutdown_complete (fail_active tr) = tr_shutdown_complete tr"
  "tr_locked (fail_active tr) = tr_locked tr"
  "tr_state (fail_active tr) = tr_state tr"
  "tr_fresh (fail_active tr) = tr_fresh tr"
  "tr_queue (fail_active tr) = tr_queue tr"
  "tr_capacity (fail_active tr) = tr_capacity tr"
  "tr_unfinished (fail_active tr) = tr_unfinished tr"
  by (simp_all add: fail_active_def split: option.split)

lemma cancel_worker_simps [simp]:
  "tr_max_queue_size (cancel_worker tr) = tr_max_queue_size tr"
  "tr_consumer (cancel_worker tr) = tr_consumer tr"
  "tr_worker (cancel_worker tr) = tr_worker tr"
  "tr_active_request (cancel_worker tr) = tr_active_request tr"
  "tr_worker_ready (cancel_worker tr) = tr_worker_ready tr"
  "tr_stop_event (cancel_worker tr) = tr_stop_event tr"
  "tr_force_shutdown (cancel_worker tr) = tr_force_shutdown tr"
  "tr_shutdown_complete (cancel_worker tr) = tr_shutdown_complete tr"
  "tr_locked (cancel_worker tr) = tr_locked tr"
  "tr_state (cancel_worker tr) = tr_state tr"
  "tr_fresh (cancel_worker tr) = tr_fresh tr"
  "tr_queue (cancel_worker tr) = tr_queue tr"
  "tr_capacity (cancel_worker tr) = tr_capacity tr"
  "tr_unfinished (cancel_worker tr) = tr_unfinished tr"
  "tr_replies (cancel_worker tr) = tr_replies tr"
  by (simp_all add: cancel_worker_def)

lemma drain_items_simps [simp]:
  "tr_max_queue_size (drain_items items tr) = tr_max_queue_size tr"
  "tr_consumer (drain_items items tr) = tr_consumer tr"
  "tr_worker (drain_items items tr) = tr_worker tr"
  "tr_cancelling (drain_items items tr) = tr_cancelling tr"
  "tr_active_request (drain_items items tr) = tr_active_request tr"
  "tr_worker_ready (drain_items items tr) = tr_worker_ready tr"
  "tr_stop_event (drain_items items tr) = tr_stop_event tr"
  "tr_force_shutdown (drain_items items tr) = tr_force_shutdown tr"
  "tr_shutdown_complete (drain_items items tr) = tr_shutdown_complete tr"
  "tr_locked (drain_items items tr) = tr_locked tr"
  "tr_state (drain_items items tr) = tr_state tr"
  "tr_fresh (drain_items items tr) = tr_fresh tr"
  by (induction items arbitrary: tr) (simp_all add: Let_def)

lemma drain_items_queue:
  "tr_queue tr = items \<Longrightarrow> tr_queue (drain_items items tr) = []"
  "tr_capacity (drain_items items tr) = tr_capacity tr + length items"
  by (induction items arbitrary: tr) (simp_all add: Let_def)

lemma settle_replies:
  "tr_replies (settle_future tr f v) g = (if g = f \<and> tr_replies tr f = None then Some v else tr_replies tr g)"
  by (simp add: settle_future_def)

lemma fail_item_replies:
  "tr_replies (fail_item tr item e) g =
    (if tr_replies tr g = None \<and> (\<exists>en. item = RequestItem en g) then Some (Failed e) else tr_replies tr g)"
  by (auto simp: fail_item_def settle_replies split: queue_item.split)

lemma fail_active_replies:
  "tr_replies (fail_active tr) g = tr_replies tr g \<or>
   tr_replies tr g = None \<and> tr_replies (fail_active tr) g = Some (Failed TransportStoppedError)"
  by (auto simp: fail_active_def fail_item_replies split: option.split)

lemma drain_items_replies:
  "tr_replies (drain_items items tr) g =
    (if tr_replies tr g = None \<and> (\<exists>en. RequestItem en g \<in> set items) then Some (Failed TransportStoppedError)
     else tr_replies tr g)"
proof (induction items arbitrary: tr)
  case (Cons item items)
  show ?case by (auto simp: Cons.IH Let_def fail_item_replies)
qed simp

lemma drain_pending_simps [simp]:
  "tr_max_queue_size (drain_pending tr) = tr_max_queue_size tr"
  "tr_consumer (drain_pending tr) = tr_consumer tr"
  "tr_worker (drain_pending tr) = tr_worker tr"
  "tr_cancelling (drain_pending tr) = tr_cancelling tr"
  "tr_active_request (drain_pending tr) = tr_active_request tr"
  "tr_worker_ready (drain_pending tr) = tr_worker_ready tr"
  "tr_stop_event (drain_pending tr) = tr_stop_event tr"
  "tr_force_shutdown (drain_pending tr) = tr_force_shutdown tr"
  "tr_shutdown_complete (drain_pending tr) = tr_shutdown_complete tr"
  "tr_locked (drain_pending tr) = tr_locked tr"
  "tr_state (drain_pending tr) = tr_state tr"
  "tr_fresh (drain_pending tr) = tr_fresh tr"
  "tr_queue (drain_pending tr) = []"
  "tr_capacity (drain_pending tr) = tr_capacity tr + length (tr_queue tr)"
  by (simp_all add: drain_pending_def drain_items_queue)

lemma drain_pending_replies:
  "tr_replies (drain_pending tr) g =
    (if tr_replies tr g = None \<and> (\<exists>en. RequestItem en g \<in> set (tr_queue tr)) then Some (Failed TransportStoppedError)
     else tr_replies tr g)"
  by (simp add: drain_pending_def drain_items_replies)

lemma item_done_simps [simp]:
  "tr_max_queue_size (item_done tr) = tr_max_queue_size tr"
  "tr_consumer (item_done tr) = tr_consumer tr"
  "tr_worker (item_done tr) = tr_worker tr"
  "tr_cancelling (item_done tr) = tr_cancelling tr"
  "tr_worker_ready (item_done tr) = tr_worker_ready tr"
  "tr_stop_event (item_done tr) = tr_stop_event tr"
  "tr_force_shutdown (item_done tr) = tr_force_shutdown tr"
  "tr_shutdown_complete (item_done tr) = tr_shutdown_complete tr"
  "tr_locked (item_done tr) = tr_locked tr"
  "tr_state (item_done tr) = tr_state tr"
  "tr_fresh (item_done tr) = tr_fresh tr"
  "tr_queue (item_done tr) = tr_queue tr" "tr_capacity (item_done tr) = tr_capacity tr"
  "tr_replies (item_done tr) = tr_replies tr"
  by (simp_all add: item_done_def)

lemma worker_loop_simps [simp]:
  "tr_max_queue_size (worker_loop tr) = tr_max_queue_size tr"
  "tr_consumer (worker_loop tr) = tr_consumer tr"
  "tr_cancelling (worker_loop tr) = tr_cancelling tr"
  "tr_worker_ready (worker_loop tr) = tr_worker_ready tr"
  "tr_stop_event (worker_loop tr) = tr_stop_event tr"
  "tr_force_shutdown (worker_loop tr) = tr_force_shutdown tr"
  "tr_shutdown_complete (worker_loop tr) = tr_shutdown_complete tr"
  "tr_locked (worker_loop tr) = tr_locked tr"
  "tr_state (worker_loop tr) = tr_state tr"
  "tr_fresh (worker_loop tr) = tr_fresh tr"
  "tr_replies (worker_loop tr) = tr_replies tr"
  "tr_unfinished (worker_loop tr) = tr_unfinished tr"
  by (simp_all add: worker_loop_def worker_take_def split: list.split)

section \<open>Moves of the worker\<close>

text \<open>
  A step of the worker either leaves the queue alone and ends without an item in hand, or takes the
  first item of the queue. It keeps the lifecycle of the transport.
\<close>

definition takes :: "transport \<Rightarrow> transport \<Rightarrow> bool" where
  "takes tr tr' \<longleftrightarrow> (\<exists>item items. tr_queue tr = item # items \<and> tr_queue tr' = items \<and>
     tr_capacity tr' = tr_capacity tr + 1 \<and> tr_worker tr' = Processing item)"

definition rests :: "transport \<Rightarrow> transport \<Rightarrow> bool" where
  "rests tr tr' \<longleftrightarrow> tr_queue tr' = tr_queue tr \<and> tr_capacity tr' = tr_capacity tr \<and> (\<forall>item. tr_worker tr' \<noteq> Processing item)"

definition worker_move :: "transport \<Rightarrow> transport \<Rightarrow> bool" where
  "worker_move tr tr' \<longleftrightarrow> (takes tr tr' \<or> rests tr tr') \<and> tr_max_queue_size tr' = tr_max_queue_size tr \<and>
     tr_state tr' = tr_state tr \<and> tr_fresh tr' = tr_fresh tr \<and> tr_locked tr' = tr_locked tr \<and>
     tr_consumer tr' = tr_consumer tr \<and> tr_worker tr' \<noteq> NoWorker \<and> tr_worker tr' \<noteq> Created"

lemma worker_loop_move: "worker_move tr (worker_loop tr)"
  by (auto simp: worker_move_def takes_def rests_def worker_loop_def worker_take_def split: list.split)

lemma worker_move_frame:
  assumes "worker_move tr tr'" "tr_queue tr = tr_queue t" "tr_capacity tr = tr_capacity t"
    "tr_max_queue_size tr = tr_max_queue_size t" "tr_state tr = tr_state t" "tr_fresh tr = tr_fresh t"
    "tr_locked tr = tr_locked t" "tr_consumer tr = tr_consumer t"
  shows "worker_move t tr'"
  using assms by (simp add: worker_move_def takes_def rests_def)

lemma request_error_None: "request_error cor out = None \<longleftrightarrow> (\<exists>rp. out = Returned (Some rp) \<and> rp_correlation_id rp = cor)"
  by (auto simp: request_error_def split: consumer_outcome.split option.split)

lemma loop_after_item: "worker_move tr (worker_loop (item_done (settle_future tr f v)))" "worker_move tr (worker_loop (item_done tr))"
  by (rule worker_move_frame [OF worker_loop_move]; simp)+

lemma stop_move: "worker_move tr (worker_cancelled (settle_future tr f v))" "worker_move tr (worker_cancelled tr)"
  "worker_move tr (tr\<lparr>tr_worker := WorkerDone\<rparr>)" "worker_move tr (tr\<lparr>tr_worker := Reporting item e\<rparr>)"
  "worker_move tr (worker_failed tr item hook)"
  by (simp_all add: worker_move_def rests_def worker_cancelled_def worker_failed_def)

lemmas moves = loop_after_item stop_move

lemma process_request_reply:
  assumes "tr_consumer tr" "en_correlation_id en = Some cor" "request_error cor out = None"
  obtains rp where "out = Returned (Some rp)" "rp_correlation_id rp = cor"
    "process_request tr en f out = worker_loop (item_done (settle_future tr f (Result rp)))"
proof -
  obtain rp where "out = Returned (Some rp)" "rp_correlation_id rp = cor" using assms(3) request_error_None by blast
  with assms that show ?thesis by (simp add: process_request_def)
qed

lemma process_request_error:
  assumes "tr_consumer tr" "en_correlation_id en = Some cor" "request_error cor out = Some e"
  shows "process_request tr en f out =
    (if e = CancelledRaised \<and> tr_cancelling tr then worker_cancelled (settle_future tr f (Failed TransportStoppedError))
     else if e = BaseExceptionRaised then worker_failed tr (RequestItem en f) False
     else tr\<lparr>tr_worker := Reporting (RequestItem en f) e\<rparr>)"
  using assms by (simp add: process_request_def)

lemma process_request_move: "worker_move tr (process_request tr en f out)"
proof (cases "tr_consumer tr")
  case True
  show ?thesis
  proof (cases "en_correlation_id en")
    case None
    then show ?thesis using True moves by (simp add: process_request_def)
  next
    case (Some cor)
    then show ?thesis
      using True moves process_request_reply [OF True Some] process_request_error [OF True Some]
      by (cases "request_error cor out") metis+
  qed
next
  case False
  then show ?thesis using moves by (simp add: process_request_def)
qed

lemma process_publish_move: "worker_move tr (process_publish tr en out)"
  using moves by (auto simp: process_publish_def split: consumer_outcome.split)

lemma report_done_move: "worker_move tr (report_done tr item e rid c)"
  using moves by (auto simp: report_done_def split: queue_item.split)

lemma worker_first_run_move: "worker_move tr (worker_first_run tr)"
proof (cases "tr_cancelling tr")
  case False
  then show ?thesis
    using worker_move_frame [OF worker_loop_move [of "tr\<lparr>tr_worker_ready := True\<rparr>"], of tr] by (simp add: worker_first_run_def)
qed (simp add: worker_first_run_def moves)

lemma worker_take_move: "tr_queue tr = item # items \<Longrightarrow> worker_move tr (worker_take tr item items)"
  by (simp add: worker_move_def takes_def worker_take_def)

lemma worker_step_move:
  assumes "worker_step consumer tr tr'"
  shows "worker_move tr tr'"
  using assms
  by cases (simp_all add: worker_first_run_move worker_take_move process_request_move process_publish_move
      report_done_move stop_move)

section \<open>Capacity\<close>

definition granted :: "tcall multiset \<Rightarrow> nat" where
  "granted M = size (filter_mset (\<lambda>c. case c of Granted item \<Rightarrow> True | _ \<Rightarrow> False) M)"

lemma granted_simps [simp]:
  "granted (add_mset c M) = (case c of Granted item \<Rightarrow> Suc (granted M) | _ \<Rightarrow> granted M)"
  "granted {#} = 0" "granted (awaiting item d + M) = granted M"
  by (auto simp: granted_def awaiting_def split: tcall.split queue_item.split)

definition capacity_ok :: "tsys \<Rightarrow> bool" where
  [inv_defs]: "capacity_ok s \<longleftrightarrow> (case s of (tr, h, M) \<Rightarrow>
     tr_capacity tr + length (tr_queue tr) + granted M = tr_max_queue_size tr)"

lemma capacity_ok_step:
  assumes "tr_step consumer s s'" "capacity_ok s"
  shows "capacity_ok s'"
  using assms
proof cases
  case (worker tr tr' h M)
  then show ?thesis
    using assms(2) worker_step_move [OF worker(3)] by (auto simp: capacity_ok_def worker_move_def takes_def rests_def)
next
  case (start tr tr' h M)
  then show ?thesis using assms(2) by (auto simp: capacity_ok_def transport_start_def split: if_splits)
next
  case (request tr en f tr' h M d)
  then show ?thesis using assms(2) by (auto simp: capacity_ok_def request_begin_def split: if_splits sum.splits)
next
  case (enqueued tr item tr' h M d)
  then show ?thesis using assms(2) by (auto simp: capacity_ok_def enqueue_locked_def split: if_splits)
next
  case (refused tr item e tr' h M)
  then show ?thesis using assms(2) by (auto simp: capacity_ok_def enqueue_locked_def release_capacity_def split: if_splits)
qed (auto simp: capacity_ok_def start_ready_def start_abort_def start_abort_finish_def stop_finish_def acquire_capacity_def
      release_capacity_def shutdown_begin_def force_shutdown_def shutdown_cancel_def split: transport_state.splits)

lemma capacity_ok_reachable: "tr_reachable consumer s \<Longrightarrow> capacity_ok s"
proof (induction rule: tr_reachable.induct)
  case (init limit timeout tr)
  then show ?case by (auto simp: capacity_ok_def new_transport_def split: if_splits)
qed (rule capacity_ok_step)

section \<open>Lifecycle\<close>

definition shutting_down :: "tcall \<Rightarrow> bool" where
  "shutting_down c \<longleftrightarrow> (case c of ShutWaiting d \<Rightarrow> True | Draining d \<Rightarrow> True | Stopping \<Rightarrow> True | _ \<Rightarrow> False)"

lemma shutting_down_simps [simp]:
  "\<not> shutting_down Starting" "\<not> shutting_down StartAborting" "\<not> shutting_down (Submitting item d)"
  "\<not> shutting_down (Granted item)" "\<not> shutting_down (Awaiting en f d)"
  "shutting_down (ShutWaiting d)" "shutting_down (Draining d)" "shutting_down Stopping"
  by (simp_all add: shutting_down_def)

lemma awaiting_not_shutting_down: "c \<in># awaiting item d \<Longrightarrow> \<not> shutting_down c"
  by (auto simp: awaiting_def split: queue_item.splits)

definition lifecycle_ok :: "tsys \<Rightarrow> bool" where
  [inv_defs]: "lifecycle_ok s \<longleftrightarrow> (case s of (tr, h, M) \<Rightarrow>
     (tr_state tr \<notin> {TS_RUNNING, TS_STOPPING} \<longrightarrow> tr_queue tr = []) \<and>
     (tr_worker tr \<noteq> NoWorker \<longrightarrow> tr_consumer tr) \<and> (tr_state tr = TS_NEW \<longrightarrow> tr_worker tr = NoWorker) \<and>
     (\<forall>c \<in># M. shutting_down c \<longrightarrow> tr_state tr \<in> {TS_STOPPING, TS_STOPPED}))"

lemma lifecycle_ok_step:
  assumes "tr_step consumer s s'" "lifecycle_ok s"
  shows "lifecycle_ok s'"
  using assms
proof cases
  case (worker tr tr' h M)
  have "tr_worker tr \<noteq> NoWorker" using worker(3) by cases auto
  then show ?thesis
    using assms(2) worker worker_step_move [OF worker(3)]
    by (fastforce simp: lifecycle_ok_def worker_move_def takes_def rests_def)
next
  case (start tr tr' h M)
  then show ?thesis using assms(2) by (auto simp: lifecycle_ok_def transport_start_def split: if_splits)
next
  case (request tr en f tr' h M d)
  then show ?thesis using assms(2) by (auto simp: lifecycle_ok_def request_begin_def split: if_splits sum.splits)
next
  case (enqueued tr item tr' h M d)
  then show ?thesis
    using assms(2) by (auto simp: lifecycle_ok_def enqueue_locked_def dest: awaiting_not_shutting_down split: if_splits)
next
  case (refused tr item e tr' h M)
  then show ?thesis using assms(2) by (auto simp: lifecycle_ok_def enqueue_locked_def release_capacity_def split: if_splits)
qed (auto simp: lifecycle_ok_def start_ready_def start_abort_def start_abort_finish_def stop_finish_def acquire_capacity_def
      release_capacity_def shutdown_begin_def force_shutdown_def shutdown_cancel_def split: transport_state.splits)

lemma lifecycle_ok_reachable: "tr_reachable consumer s \<Longrightarrow> lifecycle_ok s"
proof (induction rule: tr_reachable.induct)
  case (init limit timeout tr)
  then show ?case by (auto simp: lifecycle_ok_def new_transport_def split: if_splits)
qed (rule lifecycle_ok_step)

section \<open>Effects of the worker\<close>

text \<open>The item the worker holds, or held when it failed.\<close>

definition worker_item :: "transport \<Rightarrow> queue_item option" where
  "worker_item tr =
     (case tr_worker tr of Processing item \<Rightarrow> Some item | Reporting item e \<Rightarrow> Some item | WorkerFailed item hook \<Rightarrow> Some item | _ \<Rightarrow> None)"

definition reply_for :: "uuid \<Rightarrow> consumer_outcome \<Rightarrow> uuid \<Rightarrow> reply_envelope" where
  "reply_for cor out rid =
     (case request_error cor out of Some e \<Rightarrow> error_reply rid cor e
      | None \<Rightarrow> (case out of Returned (Some rp) \<Rightarrow> rp | _ \<Rightarrow> error_reply rid cor InvalidTransportReplyError))"

text \<open>How a request may end: stopped, or with the reply for an outcome of the consumer.\<close>

definition answer_ok :: "(envelope \<Rightarrow> consumer_outcome \<Rightarrow> bool) \<Rightarrow> envelope \<Rightarrow> settled \<Rightarrow> bool" where
  "answer_ok consumer en v \<longleftrightarrow> v = Failed TransportStoppedError \<or>
     (\<exists>cor out rid. en_correlation_id en = Some cor \<and> consumer en out \<and> v = Result (reply_for cor out rid))"

definition item_ok :: "(envelope \<Rightarrow> consumer_outcome \<Rightarrow> bool) \<Rightarrow> transport \<Rightarrow> bool" where
  "item_ok consumer tr \<longleftrightarrow>
     (case tr_worker tr of
        Processing (RequestItem en f) \<Rightarrow> en_correlation_id en \<noteq> None
      | Reporting (RequestItem en f) e \<Rightarrow>
          (\<exists>cor out. en_correlation_id en = Some cor \<and> consumer en out \<and> request_error cor out = Some e)
      | WorkerFailed (RequestItem en f) hook \<Rightarrow> hook \<or> consumer en (Raised BaseExceptionRaised)
      | _ \<Rightarrow> True)"

lemma worker_loop_item: "worker_item (worker_loop tr) = None \<or> takes tr (worker_loop tr)"
  by (auto simp: worker_item_def takes_def worker_loop_def worker_take_def split: list.split)

lemma takes_frame: "takes t tr' \<Longrightarrow> tr_queue t = tr_queue tr \<Longrightarrow> tr_capacity t = tr_capacity tr \<Longrightarrow> takes tr tr'"
  by (simp add: takes_def)

lemma loop_after_item_takes:
  "worker_item (worker_loop (item_done (settle_future tr f v))) = None \<or> takes tr (worker_loop (item_done (settle_future tr f v)))"
  "worker_item (worker_loop (item_done tr)) = None \<or> takes tr (worker_loop (item_done tr))"
  using worker_loop_item [of "item_done (settle_future tr f v)"] worker_loop_item [of "item_done tr"] takes_frame by fastforce+

lemma worker_done_item [simp]: "worker_item (worker_cancelled tr) = None" "worker_item (tr\<lparr>tr_worker := WorkerDone\<rparr>) = None"
  by (simp_all add: worker_item_def worker_cancelled_def)

lemma worker_cancelled_replies [simp]: "tr_replies (worker_cancelled tr) = tr_replies tr"
  by (simp add: worker_cancelled_def)

lemma worker_failed_simps [simp]:
  "tr_replies (worker_failed tr item hook) = tr_replies tr" "tr_queue (worker_failed tr item hook) = tr_queue tr"
  "tr_worker (worker_failed tr item hook) = WorkerFailed item hook"
  by (simp_all add: worker_failed_def)

lemma request_error_base: "request_error cor out = Some BaseExceptionRaised \<longleftrightarrow> out = Raised BaseExceptionRaised"
  by (auto simp: request_error_def split: consumer_outcome.split option.split)

lemma reply_for_ok:
  assumes "request_error cor out = None" "out = Returned (Some rp)"
  shows "reply_for cor out rid = rp"
  using assms by (simp add: reply_for_def)

lemma worker_step_effect:
  assumes step: "worker_step consumer tr tr'" and cons: "tr_consumer tr" and ok: "item_ok consumer tr"
  obtains (quiet) "tr_replies tr' = tr_replies tr" "\<And>en f. worker_item tr \<noteq> Some (RequestItem en f)"
      "worker_item tr' = None \<or> takes tr tr'"
  | (holding) item where "tr_replies tr' = tr_replies tr" "worker_item tr = Some item"
      "worker_item tr' = Some item" "tr_queue tr' = tr_queue tr" "item_ok consumer tr'"
  | (settling) en f v where "worker_item tr = Some (RequestItem en f)" "tr_replies tr' = tr_replies (settle_future tr f v)"
      "answer_ok consumer en v" "worker_item tr' = None \<or> takes tr tr'"
  using step
proof cases
  case starts
  then show ?thesis
    using quiet worker_loop_item [of "tr\<lparr>tr_worker_ready := True\<rparr>"] takes_frame
    by (fastforce simp: worker_first_run_def worker_item_def)
next
  case (wakes item items)
  then show ?thesis using quiet by (auto simp: worker_item_def takes_def worker_take_def)
next
  case cancelled
  then show ?thesis using quiet by (auto simp: worker_item_def)
next
  case (answered en f out)
  obtain cor where cor: "en_correlation_id en = Some cor" using ok answered by (auto simp: item_ok_def)
  have wi: "worker_item tr = Some (RequestItem en f)" using answered by (simp add: worker_item_def)
  show ?thesis
  proof (cases "request_error cor out")
    case None
    then obtain rp where rp: "out = Returned (Some rp)" "tr' = worker_loop (item_done (settle_future tr f (Result rp)))"
      using process_request_reply [OF cons cor, of out f] answered by metis
    then have "answer_ok consumer en (Result rp)"
      using answered cor reply_for_ok [OF None rp(1)] unfolding answer_ok_def by metis
    then show ?thesis using settling [OF wi] rp loop_after_item_takes(1) by simp
  next
    case (Some e)
    consider "e = CancelledRaised \<and> tr_cancelling tr" | "e = BaseExceptionRaised"
      | "\<not> (e = CancelledRaised \<and> tr_cancelling tr)" "e \<noteq> BaseExceptionRaised" by blast
    then show ?thesis
    proof cases
      case 1
      then show ?thesis
        using settling [OF wi, of "Failed TransportStoppedError"] answered process_request_error [OF cons cor Some]
        by (simp add: answer_ok_def)
    next
      case 2
      then have "tr' = worker_failed tr (RequestItem en f) False"
        using answered process_request_error [OF cons cor Some] by simp
      moreover have "out = Raised BaseExceptionRaised" using Some 2 by (simp add: request_error_base)
      then have "consumer en (Raised BaseExceptionRaised)" using answered by simp
      ultimately show ?thesis by (intro holding [OF _ wi]) (simp_all add: item_ok_def worker_item_def)
    next
      case 3
      then have tr': "tr' = tr\<lparr>tr_worker := Reporting (RequestItem en f) e\<rparr>"
        using answered process_request_error [OF cons cor Some] by (simp only: if_not_P if_False)
      have "\<exists>cor out. en_correlation_id en = Some cor \<and> consumer en out \<and> request_error cor out = Some e"
        using answered cor Some by blast
      then show ?thesis by (intro holding [OF _ wi]) (simp_all add: tr' item_ok_def worker_item_def)
    qed
  qed
next
  case (interrupted en f)
  obtain cor where cor: "en_correlation_id en = Some cor" using ok interrupted by (auto simp: item_ok_def)
  have "tr' = worker_cancelled (settle_future tr f (Failed TransportStoppedError))"
    using interrupted process_request_error [OF cons cor, of "Raised CancelledRaised" CancelledRaised f]
    by (simp add: request_error_def)
  moreover have "worker_item tr = Some (RequestItem en f)" using interrupted by (simp add: worker_item_def)
  ultimately show ?thesis
    using settling [of en f "Failed TransportStoppedError"] by (simp add: answer_ok_def)
next
  case (handled en out)
  show ?thesis
  proof (cases "\<exists>e. out = Raised e \<and> \<not> (e = CancelledRaised \<and> tr_cancelling tr)")
    case True
    then have "(\<exists>e. tr' = tr\<lparr>tr_worker := Reporting (PublishItem en) e\<rparr>) \<or> tr' = worker_failed tr (PublishItem en) False"
      using handled cons by (auto simp: process_publish_def)
    moreover have wi: "worker_item tr = Some (PublishItem en)" using handled by (simp add: worker_item_def)
    ultimately show ?thesis by (elim disjE exE) (rule holding [OF _ wi]; simp add: worker_item_def item_ok_def)+
  next
    case False
    then have "tr' = worker_loop (item_done tr) \<or> tr' = worker_cancelled tr"
      using handled cons by (auto simp: process_publish_def split: consumer_outcome.splits)
    moreover have "worker_item tr = Some (PublishItem en)" using handled by (simp add: worker_item_def)
    ultimately show ?thesis using quiet loop_after_item_takes(2) [of tr] by auto
  qed
next
  case (reported item e rid hook)
  have wi: "worker_item tr = Some item" using reported by (simp add: worker_item_def)
  show ?thesis
  proof (cases "hook = HookEscaped")
    case True
    then have "tr' = worker_failed tr item True" using reported by (simp add: report_done_def split: queue_item.split)
    then show ?thesis by (intro holding [OF _ wi]) (simp_all add: worker_item_def item_ok_def split: queue_item.split)
  next
    case normal: False
    show ?thesis
    proof (cases item)
      case (PublishItem en)
      then have "tr' = worker_loop (item_done tr) \<or> tr' = worker_cancelled tr"
        using reported normal by (auto simp: report_done_def)
      moreover have "worker_item tr = Some (PublishItem en)" using reported PublishItem by (simp add: worker_item_def)
      ultimately show ?thesis using quiet loop_after_item_takes(2) [of tr] by auto
    next
      case (RequestItem en f)
      obtain cor out where cor: "en_correlation_id en = Some cor" "consumer en out" "request_error cor out = Some e"
        using ok reported RequestItem by (auto simp: item_ok_def)
      have wi: "worker_item tr = Some (RequestItem en f)" using reported RequestItem by (simp add: worker_item_def)
      show ?thesis
      proof (cases "hook = HookCancelled \<and> tr_cancelling tr")
        case True
        then show ?thesis
          using settling [OF wi, of "Failed TransportStoppedError"] reported RequestItem
          by (simp add: report_done_def answer_ok_def)
      next
        case False
        let ?v = "Result (error_reply rid cor e)"
        have "reply_for cor out rid = error_reply rid cor e" using cor(3) by (simp add: reply_for_def)
        then have "answer_ok consumer en ?v" unfolding answer_ok_def using cor by metis
        moreover have "tr' = worker_loop (item_done (settle_future tr f ?v))"
          using False normal reported RequestItem cor(1) by (auto simp: report_done_def)
        ultimately show ?thesis using settling [OF wi, of ?v] loop_after_item_takes(1) [of tr f ?v] by simp
      qed
    qed
  qed
qed

section \<open>Order\<close>

definition order_ok :: "tsys \<Rightarrow> bool" where
  [inv_defs]: "order_ok s \<longleftrightarrow> (case s of (tr, h, M) \<Rightarrow>
     th_accepted h = th_taken h @ th_dropped h @ tr_queue tr \<and>
     (th_dropped h \<noteq> [] \<longrightarrow> tr_queue tr = [] \<and> tr_state tr \<in> {TS_STOPPING, TS_STOPPED}))"

lemma note_taken_simps [simp]:
  "th_accepted (note_taken tr h) = th_accepted h" "th_dropped (note_taken tr h) = th_dropped h"
  "th_owner (note_taken tr h) = th_owner h"
  "th_taken (note_taken tr h) = th_taken h @ (case tr_worker tr of Processing item \<Rightarrow> [item] | _ \<Rightarrow> [])"
  by (simp_all add: note_taken_def split: worker_phase.split)

lemma note_dropped_simps [simp]:
  "th_accepted (note_dropped tr h) = th_accepted h" "th_dropped (note_dropped tr h) = th_dropped h @ tr_queue tr"
  "th_owner (note_dropped tr h) = th_owner h" "th_taken (note_dropped tr h) = th_taken h"
  by (simp_all add: note_dropped_def)

lemma order_ok_step:
  assumes "tr_step consumer s s'" "order_ok s" "lifecycle_ok s"
  shows "order_ok s'"
  using assms(1)
proof cases
  case (worker tr tr' h M)
  have move: "worker_move tr tr'" using worker_step_move [OF worker(3)] .
  then have "takes tr tr' \<or> rests tr tr'" by (simp add: worker_move_def)
  then show ?thesis
  proof
    assume "takes tr tr'"
    then show ?thesis using assms(2) worker move by (auto simp: order_ok_def takes_def worker_move_def)
  next
    assume "rests tr tr'"
    then show ?thesis
      using assms(2) worker move by (auto simp: order_ok_def rests_def worker_move_def split: worker_phase.split)
  qed
next
  case (start tr tr' h M)
  then show ?thesis using assms(2) by (auto simp: order_ok_def transport_start_def split: if_splits)
next
  case (request tr en f tr' h M d)
  then show ?thesis using assms(2) by (auto simp: order_ok_def request_begin_def split: if_splits sum.splits)
next
  case (enqueued tr item tr' h M d)
  then show ?thesis using assms(2) by (auto simp: order_ok_def enqueue_locked_def split: if_splits)
next
  case (refused tr item e tr' h M)
  then show ?thesis using assms(2) by (auto simp: order_ok_def enqueue_locked_def release_capacity_def split: if_splits)
qed (use assms(2,3) in \<open>auto simp: order_ok_def lifecycle_ok_def start_ready_def start_abort_def start_abort_finish_def
      stop_finish_def acquire_capacity_def release_capacity_def shutdown_begin_def force_shutdown_def
      shutdown_cancel_def split: transport_state.splits\<close>)

lemma order_ok_reachable: "tr_reachable consumer s \<Longrightarrow> order_ok s"
proof (induction rule: tr_reachable.induct)
  case (init limit timeout tr)
  then show ?case by (auto simp: order_ok_def new_transport_def no_history_def split: if_splits)
next
  case (step s s')
  then show ?case using order_ok_step lifecycle_ok_reachable by blast
qed

section \<open>Answers\<close>

fun call_item :: "tcall \<Rightarrow> queue_item option" where
  "call_item (Submitting item d) = Some item"
| "call_item (Granted item) = Some item"
| "call_item _ = None"

text \<open>Every request known to the transport is the one its future was created for.\<close>

definition known :: "transport_history \<Rightarrow> queue_item \<Rightarrow> bool" where
  "known h item \<longleftrightarrow> (case item of RequestItem en f \<Rightarrow> th_owner h f = Some en \<and> en_correlation_id en \<noteq> None
     | PublishItem en \<Rightarrow> True)"

definition items_ok :: "tsys \<Rightarrow> bool" where
  [inv_defs]: "items_ok s \<longleftrightarrow> (case s of (tr, h, M) \<Rightarrow>
     (\<forall>item \<in> set (th_accepted h). known h item) \<and>
     (\<forall>c \<in># M. \<forall>item. call_item c = Some item \<longrightarrow> known h item) \<and>
     (\<forall>f en. th_owner h f = Some en \<longrightarrow> f < tr_fresh tr) \<and>
     (\<forall>item. worker_item tr = Some item \<longrightarrow> item \<in> set (th_accepted h)) \<and>
     (\<forall>item. tr_active_request tr = Some item \<longrightarrow> item \<in> set (th_accepted h)))"

definition active_move :: "transport \<Rightarrow> transport \<Rightarrow> bool" where
  "active_move tr tr' \<longleftrightarrow> tr_active_request tr' \<in> {tr_active_request tr, None} \<or>
     (\<exists>item items. tr_queue tr = item # items \<and> tr_active_request tr' = Some item)"

lemma worker_loop_active: "active_move tr (worker_loop tr)"
  by (auto simp: active_move_def worker_loop_def worker_take_def split: list.split queue_item.split)

lemma loop_after_item_active: "active_move tr (worker_loop (item_done (settle_future tr f v)))" "active_move tr (worker_loop (item_done tr))"
  using worker_loop_active [of "item_done (settle_future tr f v)"] worker_loop_active [of "item_done tr"]
  by (auto simp: active_move_def item_done_def)

lemma stop_active: "active_move tr (worker_cancelled (settle_future tr f v))" "active_move tr (worker_cancelled tr)"
  "active_move tr (tr\<lparr>tr_worker := p\<rparr>)" "active_move tr (worker_failed tr item hook)"
  by (simp_all add: active_move_def worker_cancelled_def worker_failed_def item_done_def)

lemma process_request_active: "tr_consumer tr \<Longrightarrow> en_correlation_id en = Some cor \<Longrightarrow> active_move tr (process_request tr en f out)"
  using loop_after_item_active stop_active process_request_reply [of tr en cor out f] process_request_error [of tr en cor out _ f]
  by (cases "request_error cor out") metis+

lemma worker_step_active:
  assumes "worker_step consumer tr tr'" "tr_consumer tr" "item_ok consumer tr"
  shows "active_move tr tr'"
  using assms(1)
proof cases
  case starts
  then show ?thesis
    using worker_loop_active [of "tr\<lparr>tr_worker_ready := True\<rparr>"] by (auto simp: worker_first_run_def active_move_def)
next
  case (wakes item items)
  then show ?thesis by (auto simp: active_move_def worker_take_def split: queue_item.split)
next
  case (answered en f out)
  then show ?thesis using assms(2,3) process_request_active by (auto simp: item_ok_def)
next
  case (interrupted en f)
  then show ?thesis using assms(2,3) process_request_active by (auto simp: item_ok_def)
qed (use loop_after_item_active stop_active assms(2) in
     \<open>auto simp: process_publish_def report_done_def split: consumer_outcome.split queue_item.split\<close>)

lemma worker_step_item:
  assumes "worker_step consumer tr tr'" "tr_consumer tr" "item_ok consumer tr" "worker_item tr' = Some item"
  shows "worker_item tr = Some item \<or> item \<in> set (tr_queue tr)"
  using assms(1-3)
proof (cases rule: worker_step_effect)
  case quiet
  then show ?thesis using assms(4) by (auto simp: takes_def worker_item_def)
next
  case (holding i)
  then show ?thesis using assms(4) by simp
next
  case (settling en f v)
  then show ?thesis using assms(4) by (auto simp: takes_def worker_item_def)
qed

lemma known_new_owner: "known h item \<Longrightarrow> th_owner h f = None \<Longrightarrow> known (h\<lparr>th_owner := (th_owner h)(f \<mapsto> en)\<rparr>) item"
  by (auto simp: known_def split: queue_item.splits)

lemma known_frame: "th_owner h' = th_owner h \<Longrightarrow> known h' item = known h item"
  by (simp add: known_def split: queue_item.split)

lemma awaiting_no_item: "c \<in># awaiting item d \<Longrightarrow> call_item c = None"
  by (auto simp: awaiting_def split: queue_item.splits)

lemma worker_item_frame: "tr_worker tr' = tr_worker tr \<Longrightarrow> worker_item tr' = worker_item tr"
  by (simp add: worker_item_def)

lemma items_ok_step:
  assumes "tr_step consumer s s'" "items_ok s" "order_ok s" "lifecycle_ok s" "item_ok consumer (fst s)"
  shows "items_ok s'"
  using assms(1)
proof cases
  case (worker tr tr' h M)
  have cons: "tr_consumer tr"
  proof -
    have "tr_worker tr \<noteq> NoWorker" using worker(3) by cases auto
    then show ?thesis using assms(4) worker by (auto simp: lifecycle_ok_def)
  qed
  have iok: "item_ok consumer tr" using assms(5) worker by simp
  have q: "set (tr_queue tr) \<subseteq> set (th_accepted h)" using assms(3) worker by (auto simp: order_ok_def)
  have fr: "tr_fresh tr' = tr_fresh tr" using worker_step_move [OF worker(3)] by (simp add: worker_move_def)
  have "item \<in> set (th_accepted h)" if "worker_item tr' = Some item" for item
    using worker_step_item [OF worker(3) cons iok that] q assms(2) worker by (auto simp: items_ok_def)
  moreover have "item \<in> set (th_accepted h)" if "tr_active_request tr' = Some item" for item
    using worker_step_active [OF worker(3) cons iok] q assms(2) worker that by (auto simp: items_ok_def active_move_def)
  ultimately show ?thesis
    using assms(2) worker fr known_frame [of "note_taken tr' h" h] by (auto simp: items_ok_def)
next
  case (request tr en f tr' h M d)
  then have f: "f = tr_fresh tr" "tr' = tr\<lparr>tr_fresh := tr_fresh tr + 1\<rparr>" "en_correlation_id en \<noteq> None"
    by (auto simp: request_begin_def split: sum.splits if_splits)
  have new: "th_owner h f = None"
    using assms(2) request f by (cases "th_owner h f") (auto simp: items_ok_def)
  let ?h = "h\<lparr>th_owner := (th_owner h)(f \<mapsto> en)\<rparr>"
  have "known ?h (RequestItem en f)" using f by (simp add: known_def)
  moreover have "known h item \<Longrightarrow> known ?h item" for item using known_new_owner [OF _ new] .
  ultimately show ?thesis
    using assms(2) request f
    by (auto simp: items_ok_def worker_item_def less_Suc_eq)
next
  case (enqueued tr item tr' h M d)
  then have tr': "tr' = tr\<lparr>tr_queue := tr_queue tr @ [item], tr_unfinished := tr_unfinished tr + 1\<rparr>"
    by (auto simp: enqueue_locked_def split: if_splits)
  have "known h item" using assms(2) enqueued by (auto simp: items_ok_def)
  then show ?thesis
    using assms(2) enqueued tr' known_frame [of "h\<lparr>th_accepted := th_accepted h @ [item]\<rparr>" h]
    by (auto simp: items_ok_def worker_item_def dest: awaiting_no_item)
next
  case (publish tr en item h M d)
  then have "known h item" by (auto simp: publish_begin_def known_def split: sum.splits)
  then show ?thesis using assms(2) publish by (auto simp: items_ok_def)
next
  case (start tr tr' h M)
  then show ?thesis
    using assms(2) by (auto simp: items_ok_def transport_start_def worker_item_def split: if_splits)
next
  case (refused tr item e tr' h M)
  then show ?thesis
    using assms(2) worker_item_frame [of tr' tr]
    by (auto simp: items_ok_def enqueue_locked_def release_capacity_def split: if_splits)
next
  case (start_aborted tr h M)
  then show ?thesis
    using assms(2) known_frame [of "note_dropped tr h" h] worker_item_frame [of "start_abort_finish tr" tr]
    by (auto simp: items_ok_def start_abort_finish_def stop_finish_def)
next
  case (forced tr h M)
  then show ?thesis
    using assms(2) known_frame [of "note_dropped tr h" h] worker_item_frame [of "force_shutdown tr" tr]
    by (auto simp: items_ok_def force_shutdown_def)
next
  case (stopped tr h M)
  then show ?thesis
    using assms(2) known_frame [of "note_dropped tr h" h] worker_item_frame [of "stop_finish tr" tr]
    by (auto simp: items_ok_def stop_finish_def)
qed (use assms(2) in \<open>auto simp: items_ok_def worker_item_def start_ready_def start_abort_def acquire_capacity_def
      release_capacity_def shutdown_begin_def shutdown_cancel_def split: transport_state.splits\<close>)

text \<open>
  An accepted request whose future is open is still queued or in the hands of the worker, and a
  settled future holds an answer for the request it was created for.
\<close>

definition answers_ok :: "(envelope \<Rightarrow> consumer_outcome \<Rightarrow> bool) \<Rightarrow> tsys \<Rightarrow> bool" where
  [inv_defs]: "answers_ok consumer s \<longleftrightarrow> (case s of (tr, h, M) \<Rightarrow>
     (\<forall>en f. RequestItem en f \<in> set (th_accepted h) \<and> tr_replies tr f = None \<longrightarrow>
        RequestItem en f \<in> set (tr_queue tr) \<or> worker_item tr = Some (RequestItem en f)) \<and>
     (\<forall>f v. tr_replies tr f = Some v \<longrightarrow> (\<exists>en. th_owner h f = Some en \<and> answer_ok consumer en v)) \<and>
     item_ok consumer tr)"

lemma answers_okD:
  assumes "answers_ok consumer (tr, h, M)"
  shows "RequestItem en f \<in> set (th_accepted h) \<Longrightarrow> tr_replies tr f = None \<Longrightarrow>
      RequestItem en f \<in> set (tr_queue tr) \<or> worker_item tr = Some (RequestItem en f)"
    and "tr_replies tr f = Some v \<Longrightarrow> \<exists>en. th_owner h f = Some en \<and> answer_ok consumer en v"
    and "item_ok consumer tr"
  using assms by (auto simp: answers_ok_def)

lemma item_ok_frame: "tr_worker tr' = tr_worker tr \<Longrightarrow> item_ok consumer tr' = item_ok consumer tr"
  by (simp add: item_ok_def)

text \<open>A change that leaves the worker alone and fails known requests that leave the queue.\<close>

lemma answers_ok_fail:
  assumes ok: "answers_ok consumer (tr, h, M)" and w: "tr_worker tr' = tr_worker tr"
    and h: "th_owner h' = th_owner h" "th_accepted h' = th_accepted h"
    and r: "\<And>f. tr_replies tr' f = tr_replies tr f \<or> tr_replies tr' f = Some (Failed TransportStoppedError) \<and> th_owner h f \<noteq> None \<and> tr_replies tr f = None"
    and q: "\<And>en f. RequestItem en f \<in> set (tr_queue tr) \<Longrightarrow> RequestItem en f \<in> set (tr_queue tr') \<or> tr_replies tr' f \<noteq> None"
  shows "answers_ok consumer (tr', h', M')"
proof -
  have "RequestItem en f \<in> set (tr_queue tr') \<or> worker_item tr' = Some (RequestItem en f)"
    if "RequestItem en f \<in> set (th_accepted h')" "tr_replies tr' f = None" for en f
    using answers_okD(1) [OF ok, of en f] that h r [of f] q [of en f] worker_item_frame [OF w] by auto
  moreover have "\<exists>en. th_owner h' f = Some en \<and> answer_ok consumer en v" if "tr_replies tr' f = Some v" for f v
    using answers_okD(2) [OF ok, of f v] r [of f] that h by (auto simp: answer_ok_def)
  ultimately show ?thesis
    using answers_okD(3) [OF ok] item_ok_frame [OF w, of consumer] by (auto simp: answers_ok_def)
qed

lemma answers_ok_same:
  assumes "answers_ok consumer (tr, h, M)" "tr_worker tr' = tr_worker tr" "tr_replies tr' = tr_replies tr" "tr_queue tr' = tr_queue tr"
  shows "answers_ok consumer (tr', h, M')"
  using answers_ok_fail [OF assms(1,2), of h] assms(3,4) by simp

lemma active_known:
  assumes "items_ok (tr, h, M)" "tr_replies (fail_active tr) f \<noteq> tr_replies tr f"
  shows "th_owner h f \<noteq> None"
proof -
  obtain en where "tr_active_request tr = Some (RequestItem en f)"
    using assms(2) by (auto simp: fail_active_def fail_item_replies split: option.splits if_splits)
  then show ?thesis using assms(1) by (auto simp: items_ok_def known_def)
qed

lemma known_request: "known h (RequestItem en f) \<longleftrightarrow> th_owner h f = Some en \<and> en_correlation_id en \<noteq> None"
  by (simp add: known_def)

lemma queue_known:
  assumes "items_ok (tr, h, M)" "order_ok (tr, h, M)" "item \<in> set (tr_queue tr)"
  shows "known h item"
proof -
  have "item \<in> set (th_accepted h)" using assms(2,3) by (simp add: order_ok_def)
  then show ?thesis using assms(1) by (simp add: items_ok_def)
qed

lemma queued_known:
  assumes "items_ok (tr, h, M)" "order_ok (tr, h, M)" "RequestItem en f \<in> set (tr_queue tr)"
  shows "th_owner h f \<noteq> None"
  using queue_known [OF assms] by (simp add: known_request)

lemma answers_ok_drain:
  assumes ok: "answers_ok consumer (tr, h, M)" and it: "items_ok (tr, h, M)" "order_ok (tr, h, M)"
    and tr': "tr_worker tr' = tr_worker tr" "tr_replies tr' = tr_replies (drain_pending tr)"
    and h: "th_owner h' = th_owner h" "th_accepted h' = th_accepted h"
  shows "answers_ok consumer (tr', h', M')"
proof (rule answers_ok_fail [OF ok tr'(1) h])
  show "tr_replies tr' f = tr_replies tr f \<or> tr_replies tr' f = Some (Failed TransportStoppedError) \<and> th_owner h f \<noteq> None \<and> tr_replies tr f = None" for f
    using queued_known [OF it, of _ f] by (auto simp: tr'(2) drain_pending_replies)
  show "RequestItem en f \<in> set (tr_queue tr') \<or> tr_replies tr' f \<noteq> None" if "RequestItem en f \<in> set (tr_queue tr)" for en f
    using that by (auto simp: tr'(2) drain_pending_replies)
qed

lemma answers_ok_fail_active:
  assumes ok: "answers_ok consumer (tr, h, M)" and it: "items_ok (tr, h, M)"
    and tr': "tr_worker tr' = tr_worker tr" "tr_replies tr' = tr_replies (fail_active tr)" "tr_queue tr' = tr_queue tr"
  shows "answers_ok consumer (tr', h, M')"
proof (rule answers_ok_fail [OF ok tr'(1) refl refl])
  show "tr_replies tr' f = tr_replies tr f \<or> tr_replies tr' f = Some (Failed TransportStoppedError) \<and> th_owner h f \<noteq> None \<and> tr_replies tr f = None" for f
    using fail_active_replies [of tr f] active_known [OF it, of f] by (auto simp: tr'(2))
qed (use tr'(3) in auto)

lemma answers_ok_worker:
  assumes ok: "answers_ok consumer (tr, h, M)" and it: "items_ok (tr, h, M)" "order_ok (tr, h, M)"
    and step: "worker_step consumer tr tr'" and cons: "tr_consumer tr"
  shows "answers_ok consumer (tr', note_taken tr' h, M)"
proof -
  note iok = answers_okD(3) [OF ok]
  have kept: "RequestItem en f \<in> set (tr_queue tr') \<or> worker_item tr' = Some (RequestItem en f)"
    if "takes tr tr' \<or> rests tr tr'" "RequestItem en f \<in> set (tr_queue tr)" for en f
    using that by (auto simp: takes_def rests_def worker_item_def)
  have move: "takes tr tr' \<or> rests tr tr'" using worker_step_move [OF step] by (simp add: worker_move_def)
  have taken: "item_ok consumer tr'" if "worker_item tr' = None \<or> takes tr tr'"
  proof (cases "takes tr tr'")
    case True
    then obtain item where item: "item \<in> set (tr_queue tr)" "tr_worker tr' = Processing item" by (auto simp: takes_def)
    then show ?thesis using queue_known [OF it item(1)] by (auto simp: item_ok_def known_request split: queue_item.split)
  next
    case False
    then have "worker_item tr' = None" using that by simp
    then show ?thesis by (auto simp: item_ok_def worker_item_def split: worker_phase.splits)
  qed
  from step cons iok show ?thesis
  proof (cases rule: worker_step_effect)
    case quiet
    then show ?thesis
      using ok kept [OF move] taken unfolding answers_ok_def by auto
  next
    case (holding item)
    then show ?thesis using ok unfolding answers_ok_def by auto
  next
    case (settling en f v)
    have acc: "RequestItem en f \<in> set (th_accepted h)" "th_owner h f = Some en"
      using it settling(1) by (auto simp: items_ok_def known_def)
    have open_req: "RequestItem en' g \<in> set (tr_queue tr') \<or> worker_item tr' = Some (RequestItem en' g)"
      if "RequestItem en' g \<in> set (th_accepted h)" "tr_replies tr' g = None" for en' g
    proof -
      have "tr_replies tr g = None" "g \<noteq> f" using that(2) settling(2) by (auto simp: settle_replies split: if_splits)
      then show ?thesis using answers_okD(1) [OF ok that(1)] settling(1) kept [OF move] by auto
    qed
    have "\<exists>en. th_owner h g = Some en \<and> answer_ok consumer en w" if "tr_replies tr' g = Some w" for g w
      using that settling(2,3) acc(2) answers_okD(2) [OF ok, of g w] by (auto simp: settle_replies split: if_splits)
    then show ?thesis using open_req taken [OF settling(4)] by (auto simp: answers_ok_def)
  qed
qed

lemma shutdown_begin_frame:
  assumes "shutdown_begin tr = (p, tr')"
  shows "tr_worker tr' = tr_worker tr" "tr_replies tr' = tr_replies tr" "tr_queue tr' = tr_queue tr"
  using assms by (auto simp: shutdown_begin_def split: transport_state.splits)

lemma answers_ok_step:
  assumes "tr_step consumer s s'" "answers_ok consumer s" "items_ok s" "order_ok s" "lifecycle_ok s"
  shows "answers_ok consumer s'"
  using assms(1)
proof cases
  case (worker tr tr' h M)
  have "tr_worker tr \<noteq> NoWorker" using worker(3) by cases auto
  then have "tr_consumer tr" using assms(5) worker by (auto simp: lifecycle_ok_def)
  then show ?thesis using answers_ok_worker [of consumer tr h M tr'] assms worker by simp
next
  case (start tr tr' h M)
  then show ?thesis
    using assms(2,5)
    by (auto simp: answers_ok_def transport_start_def lifecycle_ok_def worker_item_def item_ok_def split: if_splits) force
next
  case (started tr h M)
  then show ?thesis using assms(2) answers_ok_same [of consumer tr h "add_mset Starting M" "snd (start_ready tr)" M]
    by (auto simp: start_ready_def)
next
  case (start_cancelled tr h M)
  then show ?thesis using assms(2) answers_ok_same [of consumer tr h "add_mset Starting M" "start_abort tr"]
    by (simp add: start_abort_def)
next
  case (start_aborted tr h M)
  then show ?thesis
    using assms answers_ok_drain [of consumer tr h "add_mset StartAborting M" "start_abort_finish tr" "note_dropped tr h"]
    by (simp add: start_abort_finish_def stop_finish_def)
next
  case (request tr en f tr' h M d)
  then have f: "f = tr_fresh tr" "tr' = tr\<lparr>tr_fresh := tr_fresh tr + 1\<rparr>"
    by (auto simp: request_begin_def split: sum.splits if_splits)
  have new: "th_owner h f = None"
    using assms(3) request f by (cases "th_owner h f") (auto simp: items_ok_def)
  then have "tr_replies tr f = None"
    using assms(2) request answers_okD(2) [of consumer tr h M f] by (cases "tr_replies tr f") auto
  then show ?thesis using assms(2) request f by (auto simp: answers_ok_def worker_item_def item_ok_def)
next
  case (enqueued tr item tr' h M d)
  then have tr': "tr' = tr\<lparr>tr_queue := tr_queue tr @ [item], tr_unfinished := tr_unfinished tr + 1\<rparr>"
    by (auto simp: enqueue_locked_def split: if_splits)
  then show ?thesis using assms(2) enqueued by (auto simp: answers_ok_def worker_item_def item_ok_def)
next
  case (refused tr item e tr' h M)
  then show ?thesis
    using assms(2) answers_ok_same [of consumer tr h "add_mset (Granted item) M" tr']
    by (auto simp: enqueue_locked_def release_capacity_def split: if_splits)
next
  case (forced tr h M)
  let ?t = "fail_active (tr\<lparr>tr_force_shutdown := True\<rparr>)"
  have "tr_replies ?t = tr_replies (fail_active tr)"
    by (auto simp: fail_active_def fail_item_replies split: option.split)
  then have t: "answers_ok consumer (?t, h, M)"
    using assms(2,3) forced answers_ok_fail_active [of consumer tr h "add_mset (ShutWaiting True) M" ?t M] by simp
  have t': "items_ok (?t, h, M)" "order_ok (?t, h, M)"
    using assms(3,4) forced by (simp_all add: items_ok_def order_ok_def worker_item_def)
  show ?thesis
    using answers_ok_drain [OF t t', of "force_shutdown tr" "note_dropped tr h"] forced
    by (simp add: force_shutdown_def drain_pending_replies fun_eq_iff)
next
  case (drain_over d tr cancelled h M)
  then show ?thesis
    using assms answers_ok_fail_active [of consumer tr h "add_mset (Draining d) M" "shutdown_cancel tr"]
    by (simp add: shutdown_cancel_def)
next
  case (stopped tr h M)
  then show ?thesis
    using assms answers_ok_drain [of consumer tr h "add_mset Stopping M" "stop_finish tr" "note_dropped tr h"]
    by (simp add: stop_finish_def)
next
  case (shutdown_returns tr tr' h M)
  then show ?thesis using assms(2) answers_ok_same [OF _ shutdown_begin_frame] by blast
next
  case (shutdown_waits tr tr' h M d)
  then show ?thesis using assms(2) answers_ok_same [OF _ shutdown_begin_frame] by blast
next
  case (shutdown_drains tr tr' h M d)
  then show ?thesis using assms(2) answers_ok_same [OF _ shutdown_begin_frame] by blast
qed (use assms(2) in \<open>auto simp: answers_ok_def worker_item_def item_ok_def acquire_capacity_def
      release_capacity_def\<close>)

definition transport_ok :: "(envelope \<Rightarrow> consumer_outcome \<Rightarrow> bool) \<Rightarrow> tsys \<Rightarrow> bool" where
  [inv_defs]: "transport_ok consumer s \<longleftrightarrow> answers_ok consumer s \<and> items_ok s \<and> order_ok s \<and> lifecycle_ok s"

lemma transport_ok_reachable: "tr_reachable consumer s \<Longrightarrow> transport_ok consumer s"
proof (induction rule: tr_reachable.induct)
  case (init limit timeout tr)
  then have "tr_reachable consumer (tr, no_history, {#})" by (rule tr_reachable.init)
  then show ?case
    using init order_ok_reachable lifecycle_ok_reachable
    by (fastforce simp: transport_ok_def answers_ok_def items_ok_def item_ok_def worker_item_def new_transport_def
        no_history_def split: if_splits)
next
  case (step s s')
  obtain tr h M where s: "s = (tr, h, M)" by (cases s)
  have "item_ok consumer (fst s)" using step(3) s answers_okD(3) by (auto simp: transport_ok_def)
  then show ?case
    using step answers_ok_step items_ok_step order_ok_step lifecycle_ok_step by (auto simp: transport_ok_def)
qed

text \<open>A settled future never changes.\<close>

lemma reply_final:
  assumes "tr_step consumer (tr, h, M) (tr', h', M')" "transport_ok consumer (tr, h, M)" "tr_replies tr f = Some v"
  shows "tr_replies tr' f = Some v"
  using assms(1)
proof cases
  case worker
  have "tr_worker tr \<noteq> NoWorker" using worker(3) by cases auto
  then have cons: "tr_consumer tr" using assms(2) by (auto simp: transport_ok_def lifecycle_ok_def)
  have "item_ok consumer tr" using assms(2) by (simp add: transport_ok_def answers_ok_def)
  with worker(3) cons show ?thesis
    using assms(3) by (cases rule: worker_step_effect) (auto simp: settle_replies)
next
  case forced
  then show ?thesis
    using assms(3) fail_active_replies [of "tr\<lparr>tr_force_shutdown := True\<rparr>" f]
    by (auto simp: force_shutdown_def drain_pending_replies)
next
  case drain_over
  then show ?thesis using assms(3) fail_active_replies [of tr f] by (auto simp: shutdown_cancel_def)
qed (use assms(3) in \<open>auto simp: transport_start_def start_ready_def start_abort_def start_abort_finish_def stop_finish_def
      request_begin_def enqueue_locked_def acquire_capacity_def release_capacity_def shutdown_begin_def
      drain_pending_replies split: if_splits sum.splits transport_state.splits\<close>)

end
