(* ===== verification/CQRS_Properties.thy ===== *)
theory CQRS_Properties
  imports CQRS_Transport_Runs
begin

text \<open>
  The guarantees of the CQRS core: what the handler registry holds, and what the in-memory transport
  promises to the buses that use it, together with concrete runs on which they are evaluated.
\<close>

section \<open>Concrete runs\<close>

text \<open>A script lists the steps of a run; calls are addressed by their position.\<close>

datatype taction =
    TStart
  | TRequest envelope
  | TNext nat
  | TWorker consumer_outcome
  | TShutdown

type_synonym tscript_state = "transport \<times> transport_history \<times> tcall list"

definition drop_at :: "nat \<Rightarrow> 'a list \<Rightarrow> 'a list" where
  "drop_at i xs = take i xs @ drop (Suc i) xs"

text \<open>The next step of a waiting call.\<close>

fun next_of :: "tcall \<Rightarrow> transport \<Rightarrow> transport_history \<Rightarrow> (transport \<times> transport_history \<times> tcall list) option" where
  "next_of Starting tr h = (if tr_worker_ready tr then Some (snd (start_ready tr), h, []) else None)"
| "next_of (Submitting item d) tr h =
     (if 0 < tr_capacity tr then Some (acquire_capacity tr, h, [Granted item]) else None)"
| "next_of (Granted item) tr h =
     (if tr_locked tr then None
      else case enqueue_locked tr item of
        (Inl e, tr') \<Rightarrow> Some (tr', h, [])
      | (Inr _, tr') \<Rightarrow> Some (tr', h\<lparr>th_accepted := th_accepted h @ [item]\<rparr>,
          case item of RequestItem en f \<Rightarrow> [Awaiting en f False] | PublishItem en \<Rightarrow> []))"
| "next_of (Draining d) tr h =
     (if tr_unfinished tr = 0 then Some (shutdown_cancel tr, h, [Stopping]) else None)"
| "next_of Stopping tr h = Some (stop_finish tr, note_dropped tr h, [])"
| "next_of _ tr h = None"

definition worker_next ::
  "(envelope \<Rightarrow> consumer_outcome \<Rightarrow> bool) \<Rightarrow> transport \<Rightarrow> consumer_outcome \<Rightarrow> transport option" where
  "worker_next consumer tr out =
     (case tr_worker tr of
        Created \<Rightarrow> Some (worker_first_run tr)
      | Waiting \<Rightarrow>
          (case tr_queue tr of item # items \<Rightarrow> Some (worker_take tr item items)
           | [] \<Rightarrow> if tr_cancelling tr then Some (tr\<lparr>tr_worker := WorkerDone\<rparr>) else None)
      | Processing (RequestItem en f) \<Rightarrow>
          if consumer en out then Some (process_request tr en f out) else None
      | _ \<Rightarrow> None)"

fun tact :: "(envelope \<Rightarrow> consumer_outcome \<Rightarrow> bool) \<Rightarrow> taction \<Rightarrow> tscript_state \<Rightarrow> tscript_state option" where
  "tact consumer TStart (tr, h, cs) =
     (if tr_locked tr then None
      else case transport_start tr of (Inl e, tr') \<Rightarrow> None | (Inr _, tr') \<Rightarrow> Some (tr', h, Starting # cs))"
| "tact consumer (TRequest en) (tr, h, cs) =
     (case request_begin tr en of
        (Inr (RequestItem en' f), tr') \<Rightarrow>
          if en' = en then Some (tr', h\<lparr>th_owner := (th_owner h)(f \<mapsto> en)\<rparr>, Submitting (RequestItem en f) False # cs) else None
      | _ \<Rightarrow> None)"
| "tact consumer (TNext i) (tr, h, cs) =
     (if i < length cs
      then case next_of (cs ! i) tr h of None \<Rightarrow> None
        | Some (tr', h', new) \<Rightarrow> Some (tr', h', new @ drop_at i cs)
      else None)"
| "tact consumer (TWorker out) (tr, h, cs) =
     (case worker_next consumer tr out of None \<Rightarrow> None | Some tr' \<Rightarrow> Some (tr', note_taken tr' h, cs))"
| "tact consumer TShutdown (tr, h, cs) =
     (if tr_locked tr then None
      else case shutdown_begin tr of (ShutdownDrains, tr') \<Rightarrow> Some (tr', h, Draining False # cs) | _ \<Rightarrow> None)"

fun trun :: "(envelope \<Rightarrow> consumer_outcome \<Rightarrow> bool) \<Rightarrow> taction list \<Rightarrow> tscript_state \<Rightarrow> tscript_state option" where
  "trun consumer [] s = Some s"
| "trun consumer (a # as) s = (case tact consumer a s of None \<Rightarrow> None | Some s' \<Rightarrow> trun consumer as s')"

lemma mset_drop_at: "i < length xs \<Longrightarrow> mset xs = add_mset (xs ! i) (mset (drop_at i xs))"
  by (metis drop_at_def id_take_nth_drop mset.simps(2) mset_append union_mset_add_mset_right)

lemma next_of_step:
  assumes "next_of c tr h = Some (tr', h', new)"
  shows "tr_step consumer (tr, h, add_mset c M) (tr', h', mset new + M)"
proof (cases c)
  case Starting
  then show ?thesis using assms tr_step.started [of tr consumer h M] by (auto split: if_splits)
next
  case (Submitting item d)
  then show ?thesis using assms tr_step.grant [of tr consumer h item d M] by (auto split: if_splits)
next
  case (Granted item)
  show ?thesis
  proof (cases "enqueue_locked tr item")
    case (Pair x t)
    then show ?thesis
      using assms Granted tr_step.enqueued [of tr item t consumer h M False] tr_step.refused [of tr item _ t consumer h M]
      by (auto simp: awaiting_def split: if_splits sum.splits queue_item.splits)
  qed
next
  case (Draining d)
  then show ?thesis using assms tr_step.drain_over [of d tr False consumer h M] by (auto split: if_splits)
next
  case Stopping
  then show ?thesis using assms tr_step.stopped [of consumer tr h M] by auto
qed (use assms in auto)

lemma worker_next_step:
  assumes "worker_next consumer tr out = Some tr'"
  shows "worker_step consumer tr tr'"
  using assms by (auto simp: worker_next_def intro: worker_step.intros
      split: worker_phase.splits list.splits if_splits queue_item.splits)

lemma tact_step:
  assumes "tact consumer a (tr, h, cs) = Some (tr', h', cs')"
  shows "tr_step consumer (tr, h, mset cs) (tr', h', mset cs')"
proof (cases a)
  case TStart
  then show ?thesis
    using assms tr_step.start [of tr _ consumer h "mset cs"] by (auto split: if_splits prod.splits sum.splits)
next
  case (TRequest en)
  then show ?thesis
    using assms tr_step.request [of tr en _ _ consumer h "mset cs" False]
    by (auto split: if_splits prod.splits sum.splits queue_item.splits)
next
  case (TNext i)
  then obtain new where i: "i < length cs" "next_of (cs ! i) tr h = Some (tr', h', new)" "cs' = new @ drop_at i cs"
    using assms by (auto split: if_splits option.splits)
  show ?thesis using next_of_step [OF i(2), of consumer "mset (drop_at i cs)"] mset_drop_at [OF i(1)] i(3) by simp
next
  case (TWorker out)
  then show ?thesis
    using assms worker_next_step tr_step.worker by (fastforce split: option.splits)
next
  case TShutdown
  then show ?thesis
    using assms tr_step.shutdown_drains [of tr _ consumer h "mset cs" False]
    by (auto split: if_splits prod.splits shutdown_path.splits)
qed

lemma trun_reachable:
  assumes "trun consumer as (tr, h, cs) = Some (tr', h', cs')" "tr_reachable consumer (tr, h, mset cs)"
  shows "tr_reachable consumer (tr', h', mset cs')"
  using assms
proof (induction as arbitrary: tr h cs)
  case (Cons a as)
  then show ?case by (auto split: option.splits) (metis tact_step tr_reachable.step)
qed simp

definition tends_in ::
  "(envelope \<Rightarrow> consumer_outcome \<Rightarrow> bool) \<Rightarrow> taction list \<Rightarrow> (transport \<Rightarrow> transport_history \<Rightarrow> tcall list \<Rightarrow> bool) \<Rightarrow> bool" where
  "tends_in consumer as P \<longleftrightarrow>
     (case trun consumer as (projr (new_transport 2 None), no_history, []) of None \<Rightarrow> False | Some (tr, h, cs) \<Rightarrow> P tr h cs)"

lemma tends_inE:
  assumes "tends_in consumer as P"
  obtains tr h cs where "P tr h cs" "tr_reachable consumer (tr, h, mset cs)"
proof -
  have "tr_reachable consumer (projr (new_transport 2 None), no_history, mset [])"
    using tr_reachable.init [of 2 None _ consumer] by (simp add: new_transport_def)
  then show ?thesis using assms that trun_reachable by (fastforce simp: tends_in_def split: option.splits)
qed

section \<open>A command, its handler and a run\<close>

definition demo_class :: message_class where
  "demo_class = \<lparr>mc_id = 1, mc_name = ''app.Pay'', mc_marker = False, mc_command = True, mc_query = False, mc_event = False\<rparr>"

definition demo_target :: handler_target where
  "demo_target = \<lparr>tg_id = 3, tg_isclass = False, tg_isfunction = False, tg_callable = False, tg_coroutine = False,
     tg_parameters = [], tg_handle = Some \<lparr>hd_callable = True, hd_coroutine = True\<rparr>, tg_metadata = None,
     tg_type_metadata = None\<rparr>"

definition demo_handler :: registered_handler where
  "demo_handler = \<lparr>rh_kind = COMMAND, rh_message_type = demo_class, rh_target = demo_target,
     rh_style = CLASS_STYLE, rh_target_mode = INSTANCE_TARGET\<rparr>"

definition demo_application :: application where
  "demo_application = \<lparr>ap_make = (\<lambda>i. Inl (ApplicationError 0)), ap_call = (\<lambda>i m. Awaitable (Inr (Some (ms_body m + 1))))\<rparr>"

definition demo_dispatcher :: dispatcher where
  "demo_dispatcher = \<lparr>dp_registry = projr (registry_build [demo_handler]),
     dp_provider = default_provider demo_application,
     dp_handles = \<lparr>bh_command = Some 0, bh_query = Some 1, bh_event = Some 2\<rparr>, dp_application = demo_application\<rparr>"

definition demo_envelope :: envelope where
  "demo_envelope = projr (envelope_for \<lparr>ms_class = demo_class, ms_body = 41\<rparr> True 11 12 13 0)"

text \<open>The consumer of a request bus: it dispatches the envelope; reply ids are arbitrary.\<close>

definition bus_consume :: "dispatcher \<Rightarrow> handler_kind \<Rightarrow> envelope \<Rightarrow> uuid \<Rightarrow> consumer_outcome" where
  "bus_consume dp kind en rid =
     (case dispatch_request dp en kind rid of Inl e \<Rightarrow> Raised e | Inr rp \<Rightarrow> Returned (Some rp))"

definition bus_consumer :: "dispatcher \<Rightarrow> handler_kind \<Rightarrow> envelope \<Rightarrow> consumer_outcome \<Rightarrow> bool" where
  "bus_consumer dp kind en out \<longleftrightarrow> (\<exists>rid. out = bus_consume dp kind en rid)"

text \<open>An executable instance, with one reply id.\<close>

definition demo_consumer :: "envelope \<Rightarrow> consumer_outcome \<Rightarrow> bool" where
  "demo_consumer en out \<longleftrightarrow> out = bus_consume demo_dispatcher COMMAND en 5"

lemma worker_step_mono:
  assumes "worker_step consumer tr tr'" "\<And>en out. consumer en out \<Longrightarrow> consumer' en out"
  shows "worker_step consumer' tr tr'"
  using assms by (induction rule: worker_step.induct) (auto intro: worker_step.intros)

lemma tr_step_mono:
  assumes "tr_step consumer s s'" "\<And>en out. consumer en out \<Longrightarrow> consumer' en out"
  shows "tr_step consumer' s s'"
  using assms(1)
proof (cases rule: tr_step.cases)
  case (worker tr tr' h M)
  have "worker_step consumer' tr tr'" by (rule worker_step_mono [OF worker(3)]) (rule assms(2))
  then show ?thesis using tr_step.worker [of consumer' tr tr' h M] worker(1,2) by simp
next
  case (drain_over d tr cancelled h M)
  then show ?thesis using tr_step.drain_over [of d tr cancelled] by simp
qed (simp_all only: tr_step.intros simp_thms)

lemma tr_reachable_mono:
  assumes "tr_reachable consumer s" "\<And>en out. consumer en out \<Longrightarrow> consumer' en out"
  shows "tr_reachable consumer' s"
  using assms(1)
proof (induction rule: tr_reachable.induct)
  case (init limit timeout tr)
  then show ?case by (rule tr_reachable.init)
next
  case (step s s')
  have "tr_step consumer' s s'" by (rule tr_step_mono [OF step(2)]) (rule assms(2))
  then show ?case using tr_reachable.step [OF step(3)] by simp
qed

lemma demo_consumer_bus: "demo_consumer en out \<Longrightarrow> bus_consumer demo_dispatcher COMMAND en out"
  by (auto simp: demo_consumer_def bus_consumer_def)

definition demo_started :: "taction list" where
  "demo_started = [TStart, TWorker (Returned None), TNext 0, TRequest demo_envelope]"

definition demo_answered :: "taction list" where
  "demo_answered = demo_started @ [TNext 0, TNext 0, TWorker (Returned None),
     TWorker (bus_consume demo_dispatcher COMMAND demo_envelope 5)]"

definition demo_stopped :: "taction list" where
  "demo_stopped = demo_answered @ [TShutdown, TNext 0, TWorker (Returned None), TNext 0]"

section \<open>The registry\<close>

text \<open>C22: Building the handler registry succeeds exactly when every target is usable, no command and no query has two handlers and no event names the same target twice; the registry then maps each command and query to its only handler and each event to all its handlers in the order of registration.\<close>

theorem registry_build_correct:
  "registry_build rs = Inr g \<longleftrightarrow> registrations_ok rs \<and> g = registry_of rs"
  by (rule registry_build_of)

section \<open>The transport\<close>

text \<open>C21: The queue of the in-memory transport never holds more items than its configured size, and a submission that has been granted capacity always finds room: the code's branch for a full queue cannot be taken, whatever is submitted, cancelled, timed out or shut down concurrently.\<close>

theorem queue_never_overflows:
  assumes "tr_reachable consumer (tr, h, M)"
  shows "length (tr_queue tr) \<le> tr_max_queue_size tr \<and>
    (Granted item \<in># M \<longrightarrow> fst (enqueue_locked tr item) \<noteq> Inl QueueCapacityError)"
proof -
  have ok: "tr_capacity tr + length (tr_queue tr) + granted M = tr_max_queue_size tr"
    using capacity_ok_reachable [OF assms] by (simp add: capacity_ok_def)
  have "length (tr_queue tr) < tr_max_queue_size tr" if "Granted item \<in># M"
  proof -
    obtain M' where "M = add_mset (Granted item) M'" using multi_member_split [OF \<open>Granted item \<in># M\<close>] by blast
    then show ?thesis using ok by simp
  qed
  then show ?thesis using ok by (auto simp: enqueue_locked_def submission_error_def)
qed

theorem queue_never_overflows_witness:
  "\<exists>tr h M item. tr_reachable demo_consumer (tr, h, M) \<and> Granted item \<in># M \<and>
     fst (enqueue_locked tr item) \<noteq> Inl QueueCapacityError"
proof -
  have "tends_in demo_consumer (demo_started @ [TNext 0]) (\<lambda>tr h cs. cs = [Granted (RequestItem demo_envelope 0)])"
    by code_simp
  then obtain tr h where r: "tr_reachable demo_consumer (tr, h, mset [Granted (RequestItem demo_envelope 0)])"
    by (rule tends_inE) auto
  then show ?thesis using queue_never_overflows [OF r] by fastforce
qed

text \<open>C20: The transport is first in, first out: the items the worker has taken are, at every moment, the first items that were accepted, in the order of acceptance and each taken once; while the transport runs nothing is dropped, and what is not taken yet is the queue.\<close>

theorem delivery_in_order:
  assumes "tr_reachable consumer (tr, h, M)"
  shows "\<exists>rest. th_accepted h = th_taken h @ rest \<and> (tr_state tr = TS_RUNNING \<longrightarrow> rest = tr_queue tr)"
  using order_ok_reachable [OF assms] by (auto simp: order_ok_def)

theorem delivery_in_order_witness:
  "\<exists>tr h M rest. tr_reachable demo_consumer (tr, h, M) \<and> tr_state tr = TS_RUNNING \<and> th_taken h = [RequestItem demo_envelope 0] \<and>
     th_accepted h = th_taken h @ rest \<and> rest = tr_queue tr"
proof -
  have "tends_in demo_consumer demo_answered (\<lambda>tr h cs. tr_state tr = TS_RUNNING \<and> th_taken h = [RequestItem demo_envelope 0])"
    by code_simp
  then obtain tr h cs where r: "tr_reachable demo_consumer (tr, h, mset cs)"
    "tr_state tr = TS_RUNNING" "th_taken h = [RequestItem demo_envelope 0]"
    by (rule tends_inE) auto
  then show ?thesis using delivery_in_order [OF r(1)] by fastforce
qed

text \<open>C19: No caller is left waiting, with one exception: once the transport is stopped and its worker has ended, the future of every request that was ever accepted is settled, whether it was answered, interrupted or still queued, except the one request whose handler, or the error hook called for it, ended the worker by raising a \<open>BaseException\<close> that is neither an \<open>Exception\<close> nor a cancellation.\<close>

theorem every_request_settled:
  assumes reach: "tr_reachable consumer (tr, h, M)" and st: "tr_state tr = TS_STOPPED"
    and w: "worker_ended tr"
    and acc: "RequestItem en f \<in> set (th_accepted h)"
  shows "tr_replies tr f \<noteq> None \<or>
    (\<exists>hook. tr_worker tr = WorkerFailed (RequestItem en f) hook \<and> (hook \<or> consumer en (Raised BaseExceptionRaised)))"
proof (cases "tr_replies tr f = None")
  case none: True
  have ok: "answers_ok consumer (tr, h, M)" "lifecycle_ok (tr, h, M)"
    using transport_ok_reachable [OF reach] by (auto simp: transport_ok_def)
  have "tr_queue tr = []" using ok(2) st by (simp add: lifecycle_ok_def)
  then have "worker_item tr = Some (RequestItem en f)" using answers_okD(1) [OF ok(1) acc none] by simp
  then obtain hook where failed: "tr_worker tr = WorkerFailed (RequestItem en f) hook"
    using w by (auto simp: worker_item_def worker_ended_def split: worker_phase.splits)
  then show ?thesis using answers_okD(3) [OF ok(1)] by (auto simp: item_ok_def)
qed simp

theorem every_request_settled_witness:
  "\<exists>tr h M. tr_reachable demo_consumer (tr, h, M) \<and> tr_state tr = TS_STOPPED \<and>
     RequestItem demo_envelope 0 \<in> set (th_accepted h) \<and> tr_replies tr 0 \<noteq> None"
proof -
  have "tends_in demo_consumer demo_stopped (\<lambda>tr h cs. tr_state tr = TS_STOPPED \<and> tr_worker tr = WorkerDone \<and>
      th_accepted h = [RequestItem demo_envelope 0])" by code_simp
  then obtain tr h cs where r: "tr_reachable demo_consumer (tr, h, mset cs)" "tr_state tr = TS_STOPPED"
    "tr_worker tr = WorkerDone" "th_accepted h = [RequestItem demo_envelope 0]"
    by (rule tends_inE) auto
  have acc: "RequestItem demo_envelope 0 \<in> set (th_accepted h)" using r(4) by simp
  have "tr_replies tr 0 \<noteq> None" using every_request_settled [OF r(1,2) _ acc] r(3) by (simp add: worker_ended_def)
  then show ?thesis using r acc by blast
qed

text \<open>The exception is real: a handler that raises such an exception ends the worker, the shutdown completes, and the request stays open.\<close>

definition escaping_consumer :: "envelope \<Rightarrow> consumer_outcome \<Rightarrow> bool" where
  "escaping_consumer en out \<longleftrightarrow> out = Raised BaseExceptionRaised"

definition escaping_run :: "taction list" where
  "escaping_run = demo_started @ [TNext 0, TNext 0, TWorker (Returned None), TWorker (Raised BaseExceptionRaised),
     TShutdown, TNext 0, TNext 0]"

lemma request_left_open:
  "\<exists>tr h M. tr_reachable escaping_consumer (tr, h, M) \<and> tr_state tr = TS_STOPPED \<and> worker_ended tr \<and>
     RequestItem demo_envelope 0 \<in> set (th_accepted h) \<and> tr_replies tr 0 = None"
proof -
  have "tends_in escaping_consumer escaping_run (\<lambda>tr h cs. tr_state tr = TS_STOPPED \<and> worker_ended tr \<and>
      th_accepted h = [RequestItem demo_envelope 0] \<and> tr_replies tr 0 = None)" by code_simp
  then show ?thesis by (rule tends_inE) (metis list.set_intros(1))
qed

section \<open>Requests through a bus\<close>

definition handler_outcome :: "dispatcher \<Rightarrow> handler_kind \<Rightarrow> envelope \<Rightarrow> cq_error + handler_result" where
  "handler_outcome dp kind en =
     (case request_handler (dp_registry dp) kind (ms_class (en_message en)) of Inl e \<Rightarrow> Inl e | Inr r \<Rightarrow> invoke dp r en)"

lemma dispatch_reply:
  assumes "en_correlation_id en = Some cor" "validate_request_category en kind = Inr ()"
  shows "dispatch_request dp en kind rid =
    (case handler_outcome dp kind en of
       Inl e \<Rightarrow> if cq_is_exception e then Inr (error_reply rid cor e) else Inl e
     | Inr x \<Rightarrow> Inr \<lparr>rp_reply_id = rid, rp_correlation_id = cor, rp_result = x, rp_error = None\<rparr>)"
  using assms
  by (simp add: dispatch_request_def handler_outcome_def mk_reply_envelope_def validate_uuid_def error_reply_def
      split: sum.split option.split)

lemma bus_reply_outcome:
  assumes cor: "en_correlation_id en = Some cor" and cat: "validate_request_category en kind = Inr ()"
    and out: "bus_consumer dp kind en out"
  shows "reply_outcome cor (reply_for cor out rid) = handler_outcome dp kind en"
proof -
  obtain r where r: "out = bus_consume dp kind en r" using out by (auto simp: bus_consumer_def)
  show ?thesis
  proof (cases "handler_outcome dp kind en")
    case (Inl e)
    then show ?thesis
      using dispatch_reply [OF cor cat, of dp r]
      by (simp add: r bus_consume_def reply_for_def request_error_def reply_outcome_def error_reply_def)
  next
    case (Inr x)
    then show ?thesis
      using dispatch_reply [OF cor cat, of dp r]
      by (simp add: r bus_consume_def reply_for_def request_error_def reply_outcome_def)
  qed
qed

lemma settled_answer:
  assumes reach: "tr_reachable consumer (tr, h, M)" and acc: "RequestItem en f \<in> set (th_accepted h)"
    and v: "tr_replies tr f = Some v"
  shows "answer_ok consumer en v"
proof -
  have ok: "answers_ok consumer (tr, h, M)" "items_ok (tr, h, M)"
    using transport_ok_reachable [OF reach] by (auto simp: transport_ok_def)
  have "th_owner h f = Some en" using ok(2) acc by (auto simp: items_ok_def known_def)
  then show ?thesis using answers_okD(2) [OF ok(1) v] by auto
qed

lemma reply_final_run:
  assumes "(tr_step consumer)\<^sup>*\<^sup>* s s'" "tr_reachable consumer s" "tr_replies (fst s) f = Some v"
  shows "tr_replies (fst s') f = Some v"
  using assms
proof (induction rule: rtranclp_induct)
  case (step t u)
  have "tr_reachable consumer t" using step(1,4) by (induction rule: rtranclp_induct) (auto intro: tr_reachable.step)
  moreover obtain tr h M tr' h' M' where "t = (tr, h, M)" "u = (tr', h', M')" by (cases t, cases u) auto
  ultimately show ?case using reply_final [of consumer tr h M tr' h' M' f v] transport_ok_reachable step by auto
qed simp

text \<open>C18: A request submitted through a bus over the in-memory transport gets the outcome of its own handler: once its future is settled, and in every later state, the request either fails because the transport stopped or yields a reply that carries its correlation id and unwraps to exactly what the registered handler returned or raised, or to the missing-handler error. Replies are never lost, mixed up or overwritten.\<close>

theorem request_gets_handler_outcome:
  assumes reach: "tr_reachable (bus_consumer dp kind) (tr, h, M)"
    and acc: "RequestItem en f \<in> set (th_accepted h)" and settled: "tr_replies tr f \<noteq> None"
    and en: "en_correlation_id en = Some cor" "validate_request_category en kind = Inr ()"
    and run: "(tr_step (bus_consumer dp kind))\<^sup>*\<^sup>* (tr, h, M) (tr', h', M')"
  shows "request_result tr' en f = Inl TransportStoppedError \<or>
    (\<exists>rp. request_result tr' en f = Inr rp \<and> reply_outcome cor rp = handler_outcome dp kind en)"
proof -
  obtain v where v: "tr_replies tr f = Some v" using settled by blast
  have ans: "answer_ok (bus_consumer dp kind) en v" using settled_answer [OF reach acc v] .
  have "tr_replies tr' f = Some v" using reply_final_run [OF run reach] v by simp
  moreover have "v = Failed TransportStoppedError \<or>
      (\<exists>rp. v = Result rp \<and> reply_outcome cor rp = handler_outcome dp kind en)"
    using ans [unfolded answer_ok_def]
  proof
    assume "\<exists>cor out rid. en_correlation_id en = Some cor \<and> bus_consumer dp kind en out \<and> v = Result (reply_for cor out rid)"
    then obtain out rid where "bus_consumer dp kind en out" "v = Result (reply_for cor out rid)" using en(1) by auto
    then show ?thesis using bus_reply_outcome [OF en] by blast
  qed simp
  ultimately show ?thesis by (auto simp: request_result_def)
qed

theorem request_gets_handler_outcome_witness:
  "\<exists>tr h M rp. tr_reachable (bus_consumer demo_dispatcher COMMAND) (tr, h, M) \<and>
     request_result tr demo_envelope 0 = Inr rp \<and> reply_outcome 11 rp = handler_outcome demo_dispatcher COMMAND demo_envelope \<and>
     reply_outcome 11 rp = Inr (Some 42)"
proof -
  have "tends_in demo_consumer demo_answered (\<lambda>tr h cs. th_accepted h = [RequestItem demo_envelope 0] \<and>
      (case tr_replies tr 0 of Some (Result rp) \<Rightarrow> reply_outcome 11 rp = Inr (Some 42) | _ \<Rightarrow> False))" by code_simp
  then obtain tr h cs rp where r: "tr_reachable demo_consumer (tr, h, mset cs)" "th_accepted h = [RequestItem demo_envelope 0]"
    and rp: "tr_replies tr 0 = Some (Result rp)" "reply_outcome 11 rp = Inr (Some 42)"
    by (rule tends_inE) (auto split: option.splits settled.splits)
  have reach: "tr_reachable (bus_consumer demo_dispatcher COMMAND) (tr, h, mset cs)"
    using tr_reachable_mono [OF r(1) demo_consumer_bus] .
  have en: "en_correlation_id demo_envelope = Some 11" "validate_request_category demo_envelope COMMAND = Inr ()"
    by code_simp+
  have "RequestItem demo_envelope 0 \<in> set (th_accepted h)" using r(2) by simp
  moreover have "tr_replies tr 0 \<noteq> None" and res: "request_result tr demo_envelope 0 = Inr rp"
    using rp(1) by (simp_all add: request_result_def)
  ultimately have "reply_outcome 11 rp = handler_outcome demo_dispatcher COMMAND demo_envelope"
    using request_gets_handler_outcome [OF reach _ _ en rtranclp.rtrancl_refl, of 0] by auto
  then show ?thesis using reach res rp(2) by blast
qed

end
