(* ===== verification/DI_Model.thy ===== *)
theory DI_Model
  imports Tori_Prelude
begin

text \<open>
  Dependency injection: provider and module declarations.

  Models \<open>core/providers.py\<close>, \<open>core/modules.py\<close> and the value classes of \<open>core/compiler.py\<close>:
  tokens, scopes, the four provider declarations with their validating constructors, deferred
  modules, module specifications and the identities of modules and providers.

  A class, a factory function and a provided value are numbers; equal numbers are the same
  object. What the code reads from a class or function by reflection is the record \<open>reflection\<close>,
  and what the factory of a deferred module does is the datatype \<open>materialized\<close>; both are
  arguments of the definitions that use them. A \<open>BootstrapError\<close> is its diagnostic code with the
  part of its details that the properties speak about.
\<close>

type_synonym class_id = nat

datatype token = ClassToken class_id | NameToken string

datatype scope = SINGLETON | REQUEST | TRANSIENT

record module_id =
  mi_module :: class_id
  mi_key :: "string option"

record provider_ref =
  pr_module_id :: module_id
  pr_token :: token

datatype boot_error =
    ModuleInvalidDeclaration
  | ModuleInvalidConstructor
  | ModuleDuplicateMetadata
  | ModuleStaticDynamicConflict
  | ModuleDynamicConflict
  | ModuleMaterializationError
  | ModuleCycle "module_id list"
  | ModuleInvalidExport token
  | ControllerInvalidDeclaration
  | ProviderInvalidToken
  | ProviderInvalidScope
  | ProviderInvalidDeclaration
  | ProviderInvalidSignature
  | ProviderReservedToken
  | ProviderDuplicate token
  | ProviderAmbiguous token
  | ProviderUnresolved token
  | ProviderCycle "provider_ref list"
  | ProviderAliasCycle "provider_ref list"
  | ProviderScopeViolation "provider_ref list"
  | SettingsError
  | PyKeyError
  | Interrupted

section \<open>Loops that may raise\<close>

fun fold_err :: "('x \<Rightarrow> 's \<Rightarrow> 'e + 's) \<Rightarrow> 'x list \<Rightarrow> 's \<Rightarrow> 'e + 's" where
  "fold_err f [] s = Inr s"
| "fold_err f (x # xs) s = (case f x s of Inl e \<Rightarrow> Inl e | Inr s' \<Rightarrow> fold_err f xs s')"

fun all_ok :: "('e + 'a) list \<Rightarrow> 'e + 'a list" where
  "all_ok [] = Inr []"
| "all_ok (r # rs) = (case r of Inl e \<Rightarrow> Inl e | Inr x \<Rightarrow> (case all_ok rs of Inl e \<Rightarrow> Inl e | Inr xs \<Rightarrow> Inr (x # xs)))"

text \<open>\<open>dict.fromkeys\<close>: the distinct elements in the order of their first occurrence.\<close>

fun from_keys :: "'a list \<Rightarrow> 'a list" where
  "from_keys [] = []"
| "from_keys (x # xs) = x # filter (\<lambda>y. y \<noteq> x) (from_keys xs)"

lemma fold_err_inv:
  assumes "fold_err f xs s = Inr t" "P s" "\<forall>x s s'. x \<in> set xs \<longrightarrow> P s \<longrightarrow> f x s = Inr s' \<longrightarrow> P s'"
  shows "P t"
  using assms
proof (induction xs arbitrary: s)
  case (Cons x xs)
  obtain s' where s': "f x s = Inr s'" "fold_err f xs s' = Inr t" using Cons(2) by (auto split: sum.splits)
  have step: "P s2" if "y \<in> set (x # xs)" "P s1" "f y s1 = Inr s2" for y s1 s2
    using Cons(4) that by blast
  have "P s'" using step [OF _ Cons(3) s'(1)] by simp
  moreover have "\<forall>y s1 s2. y \<in> set xs \<longrightarrow> P s1 \<longrightarrow> f y s1 = Inr s2 \<longrightarrow> P s2"
    using step by (meson list.set_intros(2))
  ultimately show ?case using Cons(1) [OF s'(2)] by blast
qed simp

lemma all_ok_map [simp]: "all_ok (map Inr xs) = Inr xs"
  by (induction xs) auto

lemma all_ok_Inr: "all_ok rs = Inr xs \<Longrightarrow> rs = map Inr xs"
  by (induction rs arbitrary: xs) (auto split: sum.splits)

lemma set_from_keys [simp]: "set (from_keys xs) = set xs"
  by (induction xs) auto

lemma distinct_from_keys [simp]: "distinct (from_keys xs)"
  by (induction xs) auto

section \<open>Provider declarations\<close>

definition validate_token :: "token arg \<Rightarrow> boot_error + token" where
  [op_defs]: "validate_token t =
     (case t of
        Inst (NameToken s) \<Rightarrow> if s \<noteq> [] then Inr (NameToken s) else Inl ProviderInvalidToken
      | Inst (ClassToken c) \<Rightarrow> Inr (ClassToken c)
      | Foreign \<Rightarrow> Inl ProviderInvalidToken)"

definition normalize_scope :: "string arg \<Rightarrow> boot_error + scope" where
  [op_defs]: "normalize_scope s =
     (case s of
        Inst v \<Rightarrow> if v = ''singleton'' then Inr SINGLETON
                  else if v = ''request'' then Inr REQUEST
                  else if v = ''transient'' then Inr TRANSIENT
                  else Inl ProviderInvalidScope
      | Foreign \<Rightarrow> Inl ProviderInvalidScope)"

datatype provider_declaration =
    ValueProvider token nat bool
  | ClassProvider token class_id scope bool bool
  | FactoryProvider token nat scope bool
  | AliasProvider token token

fun provider_token :: "provider_declaration \<Rightarrow> token" where
  "provider_token (ValueProvider t v m) = t"
| "provider_token (ClassProvider t c s m p) = t"
| "provider_token (FactoryProvider t f s m) = t"
| "provider_token (AliasProvider t u) = t"

text \<open>The \<open>scope\<close> of a declaration, with the default that \<open>getattr\<close> supplies for an alias.\<close>

fun declared_scope :: "provider_declaration \<Rightarrow> scope" where
  "declared_scope (ValueProvider t v m) = SINGLETON"
| "declared_scope (ClassProvider t c s m p) = s"
| "declared_scope (FactoryProvider t f s m) = s"
| "declared_scope (AliasProvider t u) = SINGLETON"

fun is_alias :: "provider_declaration \<Rightarrow> bool" where
  "is_alias (AliasProvider t u) = True"
| "is_alias (ValueProvider t v m) = False"
| "is_alias (ClassProvider t c s m p) = False"
| "is_alias (FactoryProvider t f s m) = False"

definition mk_value_provider :: "token arg \<Rightarrow> nat \<Rightarrow> bool arg \<Rightarrow> string arg \<Rightarrow> boot_error + provider_declaration" where
  [op_defs]: "mk_value_provider t v m s =
     (case validate_token t of Inl e \<Rightarrow> Inl e | Inr tk \<Rightarrow>
      case normalize_scope s of Inl e \<Rightarrow> Inl e | Inr sc \<Rightarrow>
      if sc \<noteq> SINGLETON then Inl ProviderInvalidScope
      else (case m of Foreign \<Rightarrow> Inl ProviderInvalidDeclaration | Inst b \<Rightarrow> Inr (ValueProvider tk v b)))"

text \<open>\<open>use_class\<close> is \<open>None\<close>, a class or another object.\<close>

definition mk_class_provider ::
  "token arg \<Rightarrow> class_id arg option \<Rightarrow> string arg \<Rightarrow> bool arg \<Rightarrow> bool arg \<Rightarrow> boot_error + provider_declaration" where
  [op_defs]: "mk_class_provider t use s m p =
     (case validate_token t of Inl e \<Rightarrow> Inl e | Inr tk \<Rightarrow>
      let target = (case use of None \<Rightarrow> (case tk of ClassToken c \<Rightarrow> Inst c | NameToken n \<Rightarrow> Foreign) | Some u \<Rightarrow> u) in
      case target of Foreign \<Rightarrow> Inl ProviderInvalidDeclaration | Inst c \<Rightarrow>
      case normalize_scope s of Inl e \<Rightarrow> Inl e | Inr sc \<Rightarrow>
      case m of Foreign \<Rightarrow> Inl ProviderInvalidDeclaration | Inst b \<Rightarrow>
      case p of Foreign \<Rightarrow> Inl ProviderInvalidDeclaration | Inst q \<Rightarrow> Inr (ClassProvider tk c sc b q))"

definition injectable :: "string arg \<Rightarrow> bool arg \<Rightarrow> bool arg \<Rightarrow> class_id \<Rightarrow> boot_error + provider_declaration" where
  [op_defs]: "injectable s m p c =
     (case normalize_scope s of Inl e \<Rightarrow> Inl e | Inr sc \<Rightarrow>
      case m of Foreign \<Rightarrow> Inl ProviderInvalidDeclaration | Inst b \<Rightarrow>
      case p of Foreign \<Rightarrow> Inl ProviderInvalidDeclaration | Inst q \<Rightarrow>
      mk_class_provider (Inst (ClassToken c)) (Some (Inst c)) s m p)"

text \<open>A factory is \<open>Inst f\<close> when it is callable.\<close>

definition mk_factory_provider :: "token arg \<Rightarrow> nat arg \<Rightarrow> string arg \<Rightarrow> bool arg \<Rightarrow> boot_error + provider_declaration" where
  [op_defs]: "mk_factory_provider t f s m =
     (case validate_token t of Inl e \<Rightarrow> Inl e | Inr tk \<Rightarrow>
      case normalize_scope s of Inl e \<Rightarrow> Inl e | Inr sc \<Rightarrow>
      case f of Foreign \<Rightarrow> Inl ProviderInvalidDeclaration | Inst g \<Rightarrow>
      case m of Foreign \<Rightarrow> Inl ProviderInvalidDeclaration | Inst b \<Rightarrow> Inr (FactoryProvider tk g sc b))"

definition mk_alias_provider :: "token arg \<Rightarrow> token arg \<Rightarrow> boot_error + provider_declaration" where
  [op_defs]: "mk_alias_provider t u =
     (case validate_token t of Inl e \<Rightarrow> Inl e | Inr tk \<Rightarrow>
      case validate_token u of Inl e \<Rightarrow> Inl e | Inr tu \<Rightarrow> Inr (AliasProvider tk tu))"

section \<open>Modules\<close>

text \<open>A deferred module is compared by identity, \<open>dm_id\<close>.\<close>

record deferred_module =
  dm_id :: nat
  dm_module :: class_id
  dm_key :: string

definition mk_deferred_module :: "nat \<Rightarrow> class_id arg \<Rightarrow> string arg \<Rightarrow> bool \<Rightarrow> boot_error + deferred_module" where
  [op_defs]: "mk_deferred_module n m k callable =
     (case m of Foreign \<Rightarrow> Inl ModuleInvalidDeclaration | Inst c \<Rightarrow>
      case k of Foreign \<Rightarrow> Inl ModuleInvalidDeclaration | Inst s \<Rightarrow>
      if s = [] \<or> s = ''static'' then Inl ModuleInvalidDeclaration
      else if \<not> callable then Inl ModuleInvalidDeclaration
      else Inr \<lparr>dm_id = n, dm_module = c, dm_key = s\<rparr>)"

datatype module_import = StaticImport class_id | DeferredImport deferred_module

datatype module_provider = Declared provider_declaration | ProvidedClass class_id

record module_spec =
  sp_imports :: "module_import list"
  sp_providers :: "module_provider list"
  sp_controllers :: "class_id list"
  sp_exports :: "token list"
  sp_global :: bool

definition empty_spec :: module_spec where
  "empty_spec = \<lparr>sp_imports = [], sp_providers = [], sp_controllers = [], sp_exports = [], sp_global = False\<rparr>"

fun all_inst :: "boot_error \<Rightarrow> 'a arg list \<Rightarrow> boot_error + 'a list" where
  "all_inst e [] = Inr []"
| "all_inst e (Inst x # xs) = (case all_inst e xs of Inl f \<Rightarrow> Inl f | Inr ys \<Rightarrow> Inr (x # ys))"
| "all_inst e (Foreign # xs) = Inl e"

fun all_tokens :: "token arg list \<Rightarrow> boot_error + token list" where
  "all_tokens [] = Inr []"
| "all_tokens (t # ts) =
     (case validate_token t of Inl e \<Rightarrow> Inl e | Inr tk \<Rightarrow>
      case all_tokens ts of Inl e \<Rightarrow> Inl e | Inr tks \<Rightarrow> Inr (tk # tks))"

definition mk_module_spec ::
  "module_import arg list \<Rightarrow> module_provider arg list \<Rightarrow> class_id arg list \<Rightarrow> token arg list \<Rightarrow> bool arg
    \<Rightarrow> boot_error + module_spec" where
  [op_defs]: "mk_module_spec imps provs ctrls exps glob =
     (case all_inst ModuleInvalidDeclaration imps of Inl e \<Rightarrow> Inl e | Inr is \<Rightarrow>
      case all_inst ProviderInvalidDeclaration provs of Inl e \<Rightarrow> Inl e | Inr ps \<Rightarrow>
      case all_inst ControllerInvalidDeclaration ctrls of Inl e \<Rightarrow> Inl e | Inr cs \<Rightarrow>
      case all_tokens exps of Inl e \<Rightarrow> Inl e | Inr ts \<Rightarrow>
      case glob of Foreign \<Rightarrow> Inl ModuleInvalidDeclaration | Inst g \<Rightarrow>
      Inr \<lparr>sp_imports = is, sp_providers = ps, sp_controllers = cs, sp_exports = ts, sp_global = g\<rparr>)"

text \<open>The \<open>module\<close> decorator: metadata is attached to a class once.\<close>

definition declare_module ::
  "(class_id \<rightharpoonup> module_spec) \<Rightarrow> module_spec \<Rightarrow> class_id \<Rightarrow> boot_error + (class_id \<rightharpoonup> module_spec)" where
  [op_defs]: "declare_module md sp c =
     (if md c \<noteq> None then Inl ModuleDuplicateMetadata else Inr (md(c \<mapsto> sp)))"

section \<open>Reflection\<close>

datatype annotation = NoAnnotation | ClassAnnotation class_id | OtherAnnotation

text \<open>A parameter: its base annotation, the \<open>Inject\<close> markers of an \<open>Annotated\<close> type, if it has a default.\<close>

record parameter =
  pm_name :: string
  pm_variadic :: bool
  pm_annotation :: annotation
  pm_annotated :: bool
  pm_markers :: "token list"
  pm_has_default :: bool

datatype interceptor_binding = TokenBinding token | ObjectBinding nat

record member_method =
  mm_name :: string
  mm_interceptors :: "interceptor_binding list"
  mm_public :: bool
  mm_coroutine :: bool

datatype materialized = Materialized module_spec | FactoryReturnsOther | FactoryRaises | FactoryRaisesSettings | FactoryInterrupted

text \<open>
  \<open>rf_class_parameters\<close> and \<open>rf_factory_parameters\<close> are \<open>None\<close> when the signature or its type hints
  cannot be read; \<open>rf_mro\<close> lists the members of the classes of a method resolution order without
  \<open>object\<close>; \<open>rf_intrinsic\<close> says which tokens are the framework's own.
\<close>

record reflection =
  rf_class_parameters :: "class_id \<Rightarrow> parameter list option"
  rf_factory_parameters :: "nat \<Rightarrow> parameter list option"
  rf_factory_coroutine :: "nat \<Rightarrow> bool"
  rf_injectable :: "class_id \<Rightarrow> provider_declaration option"
  rf_gateway :: "class_id \<Rightarrow> bool"
  rf_module_parameters :: "class_id \<Rightarrow> parameter list option"
  rf_module_metadata :: "class_id \<Rightarrow> module_spec option"
  rf_mro :: "class_id \<Rightarrow> member_method list list"
  rf_intrinsic :: "token \<Rightarrow> bool"
  rf_materialize :: "deferred_module \<Rightarrow> materialized"

section \<open>Compiled values\<close>

record dependency_plan =
  dp_parameter_name :: string
  dp_token :: "token option"
  dp_has_default :: bool
  dp_provider_ref :: "provider_ref option"

datatype await_policy = AWAIT_NEVER | AWAIT_ALWAYS | AWAIT_IF_AWAITABLE

record dependency_source =
  ds_parameter_name :: string
  ds_provider_ref :: "provider_ref option"
  ds_intrinsic :: "token option"

datatype invoker = ReturnsValue nat | CallsClass class_id | CallsFactory nat | UncanonicalizedAlias

record construction_recipe =
  cr_invoker :: invoker
  cr_dependencies :: "dependency_source list"
  cr_await_policy :: await_policy
  cr_manage :: bool

datatype qualified_interceptor = InterceptorRef provider_ref | InterceptorObject nat

record provider_plan =
  pp_key :: provider_ref
  pp_declaration :: provider_declaration
  pp_dependencies :: "dependency_plan list"
  pp_scope :: scope
  pp_canonical :: provider_ref
  pp_recipe :: construction_recipe
  pp_proxy :: bool
  pp_method_interceptors :: "(string \<times> qualified_interceptor list) list"

record module_plan =
  ml_module_id :: module_id
  ml_spec :: module_spec
  ml_imports :: "module_id list"
  ml_providers :: "provider_plan list"

abbreviation ml_exports :: "module_plan \<Rightarrow> token list" where
  "ml_exports p \<equiv> sp_exports (ml_spec p)"

abbreviation ml_global :: "module_plan \<Rightarrow> bool" where
  "ml_global p \<equiv> sp_global (ml_spec p)"

record compiled_graph =
  cg_root :: module_id
  cg_modules :: "module_plan list"
  cg_providers :: "(provider_ref \<times> provider_plan) list"
  cg_visibility :: "((module_id \<times> token) \<times> provider_ref) list"
  cg_provider_order :: "provider_ref list"

end
