(* ===== verification/DI_Graph.thy ===== *)
theory DI_Graph
  imports DI_Model
begin

text \<open>
  Dependency injection: the three depth-first passes over the provider graph.

  \<open>_validate_provider_cycles\<close>, \<open>_validate_scope_paths\<close> and \<open>_provider_order\<close> of
  \<open>core/compiler.py\<close>. Each is a recursive \<open>visit\<close> with a loop over the dependencies, so each is a
  pair of mutually recursive functions with fuel for the depth of the recursion; running out of
  fuel is \<open>None\<close>. The locale \<open>dependency_graph\<close> collects what the passes rely on, a finite set of
  nodes closed under the edges, and carries the proofs that the fuel the passes are started with
  is enough and that they decide what they are meant to decide.
\<close>

type_synonym edges = "(provider_ref \<times> provider_ref list) list"
type_synonym provider_map = "(provider_ref \<times> provider_plan) list"

definition edges_of :: "edges \<Rightarrow> provider_ref \<Rightarrow> provider_ref list" where
  "edges_of es r = (case map_of es r of None \<Rightarrow> [] | Some ds \<Rightarrow> ds)"

definition graph_nodes :: "edges \<Rightarrow> provider_ref list" where
  "graph_nodes es = remdups (map fst es @ concat (map snd es))"

definition plan_of :: "provider_map \<Rightarrow> provider_ref \<Rightarrow> boot_error + provider_plan" where
  "plan_of pm r = (case map_of pm r of None \<Rightarrow> Inl PyKeyError | Some p \<Rightarrow> Inr p)"

section \<open>The passes\<close>

subsection \<open>Cycles\<close>

datatype visit_state = VISITING | DONE

record cycle_state =
  cy_states :: "provider_ref \<rightharpoonup> visit_state"
  cy_stack :: "provider_ref list"

fun cycle_visit :: "nat \<Rightarrow> (provider_ref \<Rightarrow> provider_ref list) \<Rightarrow> cycle_state \<Rightarrow> provider_ref \<Rightarrow> (provider_ref list + cycle_state) option"
and cycle_visits :: "nat \<Rightarrow> (provider_ref \<Rightarrow> provider_ref list) \<Rightarrow> cycle_state \<Rightarrow> provider_ref list \<Rightarrow> (provider_ref list + cycle_state) option"
where
  "cycle_visit 0 succ s r = None"
| "cycle_visit (Suc n) succ s r =
     (case cy_states s r of
        Some DONE \<Rightarrow> Some (Inr s)
      | Some VISITING \<Rightarrow> Some (Inl (dropWhile (\<lambda>x. x \<noteq> r) (cy_stack s) @ [r]))
      | None \<Rightarrow>
         (case cycle_visits n succ (s\<lparr>cy_states := (cy_states s)(r \<mapsto> VISITING), cy_stack := cy_stack s @ [r]\<rparr>) (succ r) of
            None \<Rightarrow> None
          | Some (Inl c) \<Rightarrow> Some (Inl c)
          | Some (Inr s') \<Rightarrow> Some (Inr (s'\<lparr>cy_states := (cy_states s')(r \<mapsto> DONE), cy_stack := butlast (cy_stack s')\<rparr>))))"
| "cycle_visits n succ s [] = Some (Inr s)"
| "cycle_visits n succ s (r # rs) =
     (case cycle_visit n succ s r of
        None \<Rightarrow> None
      | Some (Inl c) \<Rightarrow> Some (Inl c)
      | Some (Inr s') \<Rightarrow> cycle_visits n succ s' rs)"

fun any_alias :: "provider_map \<Rightarrow> provider_ref list \<Rightarrow> boot_error + bool" where
  "any_alias pm [] = Inr False"
| "any_alias pm (r # rs) =
     (case plan_of pm r of Inl e \<Rightarrow> Inl e | Inr p \<Rightarrow> if is_alias (pp_declaration p) then Inr True else any_alias pm rs)"

definition cycle_error :: "provider_map \<Rightarrow> provider_ref list \<Rightarrow> boot_error" where
  "cycle_error pm c =
     (case any_alias pm c of Inl e \<Rightarrow> e | Inr True \<Rightarrow> ProviderAliasCycle c | Inr False \<Rightarrow> ProviderCycle c)"

definition validate_provider_cycles :: "edges \<Rightarrow> provider_map \<Rightarrow> (boot_error + unit) option" where
  "validate_provider_cycles es pm =
     (case cycle_visits (Suc (length (graph_nodes es))) (edges_of es) \<lparr>cy_states = Map.empty, cy_stack = []\<rparr> (map fst es) of
        None \<Rightarrow> None
      | Some (Inl c) \<Rightarrow> Some (Inl (cycle_error pm c))
      | Some (Inr s) \<Rightarrow> Some (Inr ()))"

subsection \<open>Scopes\<close>

fun scope_visit :: "nat \<Rightarrow> (provider_ref \<Rightarrow> provider_ref list) \<Rightarrow> provider_map \<Rightarrow> provider_ref list \<Rightarrow> provider_ref \<Rightarrow> (boot_error + unit) option"
and scope_visits :: "nat \<Rightarrow> (provider_ref \<Rightarrow> provider_ref list) \<Rightarrow> provider_map \<Rightarrow> provider_ref list \<Rightarrow> provider_ref list \<Rightarrow> (boot_error + unit) option"
where
  "scope_visit 0 succ pm path r = None"
| "scope_visit (Suc n) succ pm path r = scope_visits n succ pm path (succ r)"
| "scope_visits n succ pm path [] = Some (Inr ())"
| "scope_visits n succ pm path (d # ds) =
     (case plan_of pm d of
        Inl e \<Rightarrow> Some (Inl e)
      | Inr p \<Rightarrow>
         if pp_scope p = REQUEST then Some (Inl (ProviderScopeViolation (path @ [d])))
         else (case scope_visit n succ pm (path @ [d]) d of
            None \<Rightarrow> None
          | Some (Inl e) \<Rightarrow> Some (Inl e)
          | Some (Inr u) \<Rightarrow> scope_visits n succ pm path ds))"

fun scope_roots :: "nat \<Rightarrow> (provider_ref \<Rightarrow> provider_ref list) \<Rightarrow> provider_map \<Rightarrow> provider_map \<Rightarrow> (boot_error + unit) option" where
  "scope_roots n succ pm [] = Some (Inr ())"
| "scope_roots n succ pm ((r, p) # ps) =
     (if pp_scope p \<noteq> SINGLETON then scope_roots n succ pm ps
      else (case scope_visit n succ pm [r] r of
         None \<Rightarrow> None
       | Some (Inl e) \<Rightarrow> Some (Inl e)
       | Some (Inr u) \<Rightarrow> scope_roots n succ pm ps))"

definition validate_scope_paths :: "edges \<Rightarrow> provider_map \<Rightarrow> (boot_error + unit) option" where
  "validate_scope_paths es pm = scope_roots (Suc (length (graph_nodes es))) (edges_of es) pm pm"

subsection \<open>Construction order\<close>

fun order_visit :: "nat \<Rightarrow> (provider_ref \<Rightarrow> provider_ref list) \<Rightarrow> provider_ref set \<times> provider_ref list \<Rightarrow> provider_ref \<Rightarrow> (provider_ref set \<times> provider_ref list) option"
and order_visits :: "nat \<Rightarrow> (provider_ref \<Rightarrow> provider_ref list) \<Rightarrow> provider_ref set \<times> provider_ref list \<Rightarrow> provider_ref list \<Rightarrow> (provider_ref set \<times> provider_ref list) option"
where
  "order_visit 0 succ s r = None"
| "order_visit (Suc n) succ s r =
     (if r \<in> fst s then Some s
      else (case order_visits n succ (insert r (fst s), snd s) (succ r) of
         None \<Rightarrow> None
       | Some s' \<Rightarrow> Some (fst s', snd s' @ [r])))"
| "order_visits n succ s [] = Some s"
| "order_visits n succ s (r # rs) =
     (case order_visit n succ s r of None \<Rightarrow> None | Some s' \<Rightarrow> order_visits n succ s' rs)"

text \<open>The keys are those of the modules in their order; \<open>modules\<close> lists them.\<close>

definition provider_order :: "edges \<Rightarrow> module_plan list \<Rightarrow> provider_ref list option" where
  "provider_order es modules =
     (let keys = concat (map (\<lambda>m. map pp_key (ml_providers m)) modules) in
      map_option snd (order_visits (Suc (length (graph_nodes es) + length keys)) (edges_of es) ({}, []) keys))"

section \<open>Paths, cycles and groundedness\<close>

definition edge :: "(provider_ref \<Rightarrow> provider_ref list) \<Rightarrow> provider_ref \<Rightarrow> provider_ref \<Rightarrow> bool" where
  "edge succ r d \<longleftrightarrow> d \<in> set (succ r)"

definition is_cycle :: "(provider_ref \<Rightarrow> provider_ref list) \<Rightarrow> provider_ref list \<Rightarrow> bool" where
  "is_cycle succ c \<longleftrightarrow> 2 \<le> length c \<and> hd c = last c \<and> successively (edge succ) c"

text \<open>A node is grounded when every chain of dependencies that starts at it ends.\<close>

inductive grounded :: "(provider_ref \<Rightarrow> provider_ref list) \<Rightarrow> provider_ref \<Rightarrow> bool" for succ where
  grounded: "(\<And>d. edge succ r d \<Longrightarrow> grounded succ d) \<Longrightarrow> grounded succ r"

definition deps_first :: "(provider_ref \<Rightarrow> provider_ref list) \<Rightarrow> provider_ref list \<Rightarrow> bool" where
  "deps_first succ rs \<longleftrightarrow> (\<forall>i<length rs. set (succ (rs ! i)) \<subseteq> set (take i rs))"

lemma deps_first_Nil [simp]: "deps_first succ []"
  by (simp add: deps_first_def)

lemma deps_first_snoc [simp]: "deps_first succ (rs @ [r]) \<longleftrightarrow> deps_first succ rs \<and> set (succ r) \<subseteq> set rs"
  by (auto simp: deps_first_def nth_append less_Suc_eq)

lemma cycle_rotate:
  assumes "is_cycle succ c"
  obtains d c' where "edge succ (hd c) d" "is_cycle succ c'" "hd c' = d"
proof -
  obtain a d xs where c: "c = a # d # xs" using assms by (cases c; cases "tl c") (auto simp: is_cycle_def)
  have last: "last (d # xs) = a" using assms by (simp add: c is_cycle_def)
  have path: "edge succ a d" "successively (edge succ) (d # xs)"
    using assms unfolding c is_cycle_def by (simp_all only: successively.simps)
  have "successively (edge succ) ((d # xs) @ [d])"
    unfolding successively_append_iff using path last by (simp del: last.simps)
  then have "is_cycle succ ((d # xs) @ [d])" by (simp add: is_cycle_def)
  moreover have "edge succ (hd c) d" using path by (simp add: c)
  ultimately show ?thesis using that by simp
qed

lemma grounded_no_cycle: "grounded succ r \<Longrightarrow> is_cycle succ c \<Longrightarrow> hd c \<noteq> r"
proof (induction arbitrary: c rule: grounded.induct)
  case (grounded r)
  obtain d c' where "edge succ (hd c) d" "is_cycle succ c'" "hd c' = d" using cycle_rotate [OF grounded(3)] .
  then show ?case using grounded(2) by blast
qed

lemma grounded_irrefl: "grounded succ r \<Longrightarrow> \<not> (edge succ)\<^sup>+\<^sup>+ r r"
proof (induction rule: grounded.induct)
  case (grounded r)
  show ?case
  proof
    assume "(edge succ)\<^sup>+\<^sup>+ r r"
    then obtain d where d: "edge succ r d" "(edge succ)\<^sup>*\<^sup>* d r" by (meson tranclpD)
    then have "(edge succ)\<^sup>+\<^sup>+ d d" by (meson rtranclp_into_tranclp1)
    then show False using grounded(2) d(1) by blast
  qed
qed

lemma path_reaches: "successively (edge succ) (r # xs) \<Longrightarrow> x \<in> set xs \<Longrightarrow> (edge succ)\<^sup>+\<^sup>+ r x"
proof (induction xs arbitrary: r)
  case (Cons y ys)
  then show ?case by (cases "x = y") (auto intro: tranclp_into_tranclp2)
qed simp

lemma cycle_of_reach:
  assumes "(edge succ)\<^sup>+\<^sup>+ r x"
  shows "\<exists>xs. successively (edge succ) (r # xs @ [x])"
  using assms
proof (induction rule: tranclp_induct)
  case (base y)
  then have "successively (edge succ) (r # [] @ [y])" by simp
  then show ?case by blast
next
  case (step y z)
  then obtain xs where "successively (edge succ) (r # xs @ [y])" by blast
  then have "successively (edge succ) (r # (xs @ [y]) @ [z])"
    using step(2) by (simp add: successively_append_iff flip: append_Cons)
  then show ?case by blast
qed

section \<open>What the passes compute\<close>

definition cycle_inv :: "(provider_ref \<Rightarrow> provider_ref list) \<Rightarrow> cycle_state \<Rightarrow> bool" where
  [inv_defs]: "cycle_inv succ s \<longleftrightarrow> distinct (cy_stack s) \<and> successively (edge succ) (cy_stack s) \<and>
     (\<forall>r. r \<in> set (cy_stack s) \<longleftrightarrow> cy_states s r = Some VISITING) \<and>
     (\<forall>r. cy_states s r = Some DONE \<longrightarrow> grounded succ r)"

definition entered_by :: "(provider_ref \<Rightarrow> provider_ref list) \<Rightarrow> cycle_state \<Rightarrow> provider_ref list \<Rightarrow> bool" where
  "entered_by succ s rs \<longleftrightarrow> cy_stack s \<noteq> [] \<longrightarrow> set rs \<subseteq> set (succ (last (cy_stack s)))"

definition cycle_kept :: "cycle_state \<Rightarrow> cycle_state \<Rightarrow> bool" where
  "cycle_kept s s' \<longleftrightarrow> cy_stack s' = cy_stack s \<and> (\<forall>x. cy_states s x = Some DONE \<longrightarrow> cy_states s' x = Some DONE)"

lemma cycle_found:
  assumes inv: "cycle_inv succ s" and ent: "entered_by succ s [r]" and r: "r \<in> set (cy_stack s)"
  shows "is_cycle succ (dropWhile (\<lambda>x. x \<noteq> r) (cy_stack s) @ [r])"
proof -
  let ?d = "dropWhile (\<lambda>x. x \<noteq> r) (cy_stack s)"
  have ne: "?d \<noteq> []" using r by (simp add: dropWhile_eq_Nil_conv)
  have hd: "hd ?d = r" using hd_dropWhile [OF ne] by simp
  have split: "cy_stack s = takeWhile (\<lambda>x. x \<noteq> r) (cy_stack s) @ ?d" by simp
  have path: "successively (edge succ) ?d"
    using inv by (subst (asm) cycle_inv_def) (metis split successively_append_iff)
  have last: "last ?d = last (cy_stack s)" by (metis split last_appendR ne)
  have "edge succ (last ?d) r" using ent ne last split by (auto simp: entered_by_def edge_def)
  then have "successively (edge succ) (?d @ [r])" using path by (simp add: successively_append_iff)
  then show ?thesis using ne hd by (cases ?d) (auto simp: is_cycle_def)
qed

lemma cycle_enter:
  assumes inv: "cycle_inv succ s" and ent: "entered_by succ s [r]" and new: "cy_states s r = None"
  shows "cycle_inv succ (s\<lparr>cy_states := (cy_states s)(r \<mapsto> VISITING), cy_stack := cy_stack s @ [r]\<rparr>)"
    and "entered_by succ (s\<lparr>cy_states := (cy_states s)(r \<mapsto> VISITING), cy_stack := cy_stack s @ [r]\<rparr>) (succ r)"
  using assms by (auto simp: cycle_inv_def entered_by_def successively_append_iff edge_def)

lemma cycle_leave:
  assumes inv: "cycle_inv succ s'" and st: "cy_stack s' = st @ [r]" and dn: "\<forall>d\<in>set (succ r). cy_states s' d = Some DONE"
  shows "cycle_inv succ (s'\<lparr>cy_states := (cy_states s')(r \<mapsto> DONE), cy_stack := butlast (cy_stack s')\<rparr>)"
proof -
  have "grounded succ r" using inv dn by (auto simp: cycle_inv_def edge_def intro: grounded.intros)
  then show ?thesis using inv st by (auto simp: cycle_inv_def successively_append_iff)
qed

lemma cycle_visit_sound:
  "cycle_inv succ s \<Longrightarrow> entered_by succ s [r] \<Longrightarrow> cycle_visit n succ s r = Some out \<Longrightarrow>
    (case out of Inl c \<Rightarrow> is_cycle succ c
     | Inr s' \<Rightarrow> cycle_inv succ s' \<and> cycle_kept s s' \<and> cy_states s' r = Some DONE)"
  "cycle_inv succ s \<Longrightarrow> entered_by succ s rs \<Longrightarrow> cycle_visits n succ s rs = Some out \<Longrightarrow>
    (case out of Inl c \<Rightarrow> is_cycle succ c
     | Inr s' \<Rightarrow> cycle_inv succ s' \<and> cycle_kept s s' \<and> (\<forall>r\<in>set rs. cy_states s' r = Some DONE))"
proof (induction n succ s r and n succ s rs arbitrary: out and out rule: cycle_visit_cycle_visits.induct)
  case (2 n succ s r)
  let ?s = "s\<lparr>cy_states := (cy_states s)(r \<mapsto> VISITING), cy_stack := cy_stack s @ [r]\<rparr>"
  show ?case
  proof (cases "cy_states s r")
    case None
    obtain out1 where o1: "cycle_visits n succ ?s (succ r) = Some out1"
      using 2(4) None by (auto split: option.splits)
    have ih: "case out1 of Inl c \<Rightarrow> is_cycle succ c
       | Inr s' \<Rightarrow> cycle_inv succ s' \<and> cycle_kept ?s s' \<and> (\<forall>r\<in>set (succ r). cy_states s' r = Some DONE)"
      using 2(1) [OF None] cycle_enter [OF 2(2,3) None] o1 by blast
    show ?thesis
    proof (cases out1)
      case (Inl c)
      then show ?thesis using 2(4) None o1 ih by auto
    next
      case (Inr s')
      then have k: "cycle_inv succ s'" "cycle_kept ?s s'" "\<forall>r\<in>set (succ r). cy_states s' r = Some DONE" using ih by auto
      have st: "cy_stack s' = cy_stack s @ [r]" using k(2) by (simp add: cycle_kept_def)
      have "out = Inr (s'\<lparr>cy_states := (cy_states s')(r \<mapsto> DONE), cy_stack := butlast (cy_stack s')\<rparr>)"
        using 2(4) None o1 Inr by simp
      then show ?thesis using cycle_leave [OF k(1) st k(3)] k(2) None by (auto simp: cycle_kept_def)
    qed
  next
    case (Some v)
    then show ?thesis
      using 2(2-4) cycle_found [OF 2(2,3)] by (cases v) (auto simp: cycle_kept_def cycle_inv_def)
  qed
next
  case (4 n succ s r rs)
  obtain out1 where o1: "cycle_visit n succ s r = Some out1" using 4(5) by (auto split: option.splits)
  have ent: "entered_by succ s [r]" using 4(4) by (auto simp: entered_by_def)
  note ih = 4(1) [OF 4(3) ent o1]
  show ?case
  proof (cases out1)
    case (Inl c)
    then show ?thesis using 4(5) o1 ih by auto
  next
    case (Inr s')
    then have k: "cycle_inv succ s'" "cycle_kept s s'" "cy_states s' r = Some DONE" using ih by auto
    have "entered_by succ s' rs" using 4(4) k(2) by (auto simp: entered_by_def cycle_kept_def)
    then have "case out of Inl c \<Rightarrow> is_cycle succ c
      | Inr s'' \<Rightarrow> cycle_inv succ s'' \<and> cycle_kept s' s'' \<and> (\<forall>r\<in>set rs. cy_states s'' r = Some DONE)"
      using 4(2) [OF o1 Inr k(1)] 4(5) o1 Inr by simp
    then show ?thesis using k by (auto simp: cycle_kept_def split: sum.splits)
  qed
qed (auto simp: cycle_kept_def)

section \<open>Finite graphs\<close>

locale dependency_graph =
  fixes succ :: "provider_ref \<Rightarrow> provider_ref list" and nodes :: "provider_ref set"
  assumes finite_nodes: "finite nodes"
    and closed: "r \<in> nodes \<Longrightarrow> set (succ r) \<subseteq> nodes"
    and only_nodes: "succ r \<noteq> [] \<Longrightarrow> r \<in> nodes"
begin

lemma card_enter: "r \<in> nodes \<Longrightarrow> r \<notin> A \<Longrightarrow> card (nodes - A) = Suc (card (nodes - insert r A))"
proof -
  assume "r \<in> nodes" "r \<notin> A"
  then have "nodes - A = insert r (nodes - insert r A)" by auto
  then show ?thesis using finite_nodes by (metis DiffD2 card_insert_disjoint finite_Diff insertI1)
qed

lemma cycle_visit_fuel:
  "f = succ \<Longrightarrow> cycle_inv f s \<Longrightarrow> entered_by f s [r] \<Longrightarrow> r \<in> nodes \<Longrightarrow> card (nodes - set (cy_stack s)) < n \<Longrightarrow> cycle_visit n f s r \<noteq> None"
  "f = succ \<Longrightarrow> cycle_inv f s \<Longrightarrow> entered_by f s rs \<Longrightarrow> set rs \<subseteq> nodes \<Longrightarrow> card (nodes - set (cy_stack s)) < n \<Longrightarrow> cycle_visits n f s rs \<noteq> None"
proof (induction n f s r and n f s rs rule: cycle_visit_cycle_visits.induct)
  case (2 n f s r)
  let ?s = "s\<lparr>cy_states := (cy_states s)(r \<mapsto> VISITING), cy_stack := cy_stack s @ [r]\<rparr>"
  show ?case
  proof (cases "cy_states s r")
    case None
    have "r \<notin> set (cy_stack s)" using 2(3) None by (auto simp: cycle_inv_def)
    then have fuel: "card (nodes - set (cy_stack ?s)) < n" using card_enter [OF 2(5)] 2(6) by simp
    have "set (f r) \<subseteq> nodes" using closed [OF 2(5)] 2(2) by simp
    then have "cycle_visits n f ?s (f r) \<noteq> None"
      by (intro 2(1) [OF None] 2(2) cycle_enter [OF 2(3,4) None] fuel)
    then show ?thesis using None by (auto split: sum.split)
  next
    case (Some v)
    then show ?thesis by (cases v) auto
  qed
next
  case (4 n f s r rs)
  have ent: "entered_by f s [r]" using 4(5) by (auto simp: entered_by_def)
  obtain out where o1: "cycle_visit n f s r = Some out" using 4(1) [OF 4(3,4) ent] 4(6,7) by auto
  show ?case
  proof (cases out)
    case (Inr s')
    then have k: "cycle_inv f s'" "cycle_kept s s'" using cycle_visit_sound(1) [OF 4(4) ent o1] by auto
    then have "entered_by f s' rs" "cy_stack s' = cy_stack s" using 4(5) by (auto simp: entered_by_def cycle_kept_def)
    then show ?thesis using 4(2) [OF o1 Inr 4(3) k(1)] 4(6,7) o1 Inr by auto
  qed (use o1 in auto)
qed auto

text \<open>From an empty stack the pass returns, with a cycle or with every visited node grounded.\<close>

lemma cycle_pass:
  assumes "set rs \<subseteq> nodes" "card nodes < n"
  obtains c where "cycle_visits n succ \<lparr>cy_states = Map.empty, cy_stack = []\<rparr> rs = Some (Inl c)" "is_cycle succ c"
  | s where "cycle_visits n succ \<lparr>cy_states = Map.empty, cy_stack = []\<rparr> rs = Some (Inr s)" "\<forall>r\<in>set rs. grounded succ r"
proof -
  let ?s = "\<lparr>cy_states = Map.empty, cy_stack = []\<rparr> :: cycle_state"
  have inv: "cycle_inv succ ?s" and ent: "entered_by succ ?s rs" by (simp_all add: cycle_inv_def entered_by_def)
  obtain out where o: "cycle_visits n succ ?s rs = Some out" using cycle_visit_fuel(2) [OF refl inv ent] assms by auto
  have snd: "case out of Inl c \<Rightarrow> is_cycle succ c
     | Inr s' \<Rightarrow> cycle_inv succ s' \<and> cycle_kept ?s s' \<and> (\<forall>r\<in>set rs. cy_states s' r = Some DONE)"
    using cycle_visit_sound(2) [OF inv ent o] .
  show ?thesis
  proof (cases out)
    case (Inl c)
    then show ?thesis using that(1) o snd by auto
  next
    case (Inr s)
    then show ?thesis using that(2) o snd by (auto simp: cycle_inv_def)
  qed
qed

lemma grounded_outside: "r \<notin> nodes \<Longrightarrow> grounded succ r"
  by (rule grounded.intros) (use only_nodes in \<open>force simp: edge_def\<close>)

lemma order_visit_fuel:
  "f = succ \<Longrightarrow> r \<in> nodes \<Longrightarrow> card (nodes - fst s) < n \<Longrightarrow> \<exists>s'. order_visit n f s r = Some s' \<and> fst s \<subseteq> fst s'"
  "f = succ \<Longrightarrow> set rs \<subseteq> nodes \<Longrightarrow> card (nodes - fst s) < n \<Longrightarrow> \<exists>s'. order_visits n f s rs = Some s' \<and> fst s \<subseteq> fst s'"
proof (induction n f s r and n f s rs rule: order_visit_order_visits.induct)
  case (2 n f s r)
  show ?case
  proof (cases "r \<in> fst s")
    case False
    have fuel: "card (nodes - fst (insert r (fst s), snd s)) < n" using card_enter [OF 2(3) False] 2(4) by simp
    have "set (f r) \<subseteq> nodes" using closed [OF 2(3)] 2(2) by simp
    then obtain s' where "order_visits n f (insert r (fst s), snd s) (f r) = Some s'" "insert r (fst s) \<subseteq> fst s'"
      using 2(1) [OF False 2(2) _ fuel] by fastforce
    then have "order_visit (Suc n) f s r = Some (fst s', snd s' @ [r]) \<and> fst s \<subseteq> fst (fst s', snd s' @ [r])"
      using False by auto
    then show ?thesis by blast
  qed simp
next
  case (4 n f s r rs)
  have r: "r \<in> nodes" and rs: "set rs \<subseteq> nodes" using 4(4) by auto
  obtain s' where s': "order_visit n f s r = Some s'" "fst s \<subseteq> fst s'" using 4(1) [OF 4(3) r 4(5)] by blast
  have "card (nodes - fst s') \<le> card (nodes - fst s)" using s'(2) finite_nodes by (intro card_mono) auto
  then have "card (nodes - fst s') < n" using 4(5) by simp
  then obtain s'' where "order_visits n f s' rs = Some s''" "fst s' \<subseteq> fst s''" using 4(2) [OF s'(1) 4(3) rs] by blast
  then have "order_visits n f s (r # rs) = Some s'' \<and> fst s \<subseteq> fst s''" using s' by auto
  then show ?case by blast
qed simp_all

text \<open>What a visit of the ordering pass adds, when no dependency chain is endless.\<close>

definition order_ext :: "provider_ref set \<times> provider_ref list \<Rightarrow> provider_ref list \<Rightarrow> provider_ref set \<times> provider_ref list \<Rightarrow> bool" where
  "order_ext s rs s' \<longleftrightarrow> distinct (snd s') \<and> set (snd s') \<subseteq> fst s' \<and> deps_first succ (snd s') \<and>
     fst s' - set (snd s') = fst s - set (snd s) \<and> set (snd s) \<union> set rs \<subseteq> set (snd s')"

definition order_pre :: "provider_ref set \<times> provider_ref list \<Rightarrow> provider_ref list \<Rightarrow> bool" where
  "order_pre s rs \<longleftrightarrow> distinct (snd s) \<and> set (snd s) \<subseteq> fst s \<and> deps_first succ (snd s) \<and>
     (\<forall>r\<in>set rs. \<forall>x\<in>fst s - set (snd s). \<not> (edge succ)\<^sup>*\<^sup>* r x)"

lemma order_pre_enter:
  assumes "grounded succ r" "order_pre s [r]" "r \<notin> fst s"
  shows "order_pre (insert r (fst s), snd s) (succ r)"
proof -
  have "\<not> (edge succ)\<^sup>*\<^sup>* d x" if d: "d \<in> set (succ r)" and x: "x \<in> insert r (fst s) - set (snd s)" for d x
  proof (cases "x = r")
    case True
    then show ?thesis using grounded_irrefl [OF assms(1)] d by (metis edge_def rtranclp_into_tranclp2)
  next
    case False
    then have "\<not> (edge succ)\<^sup>*\<^sup>* r x" using assms(2) x by (auto simp: order_pre_def)
    then show ?thesis using d by (metis edge_def converse_rtranclp_into_rtranclp)
  qed
  then show ?thesis using assms(2) by (auto simp: order_pre_def)
qed

lemma order_ext_leave:
  assumes "order_ext (insert r (fst s), snd s) (succ r) s'" "r \<notin> fst s" "set (snd s) \<subseteq> fst s"
  shows "order_ext s [r] (fst s', snd s' @ [r])"
proof -
  have "r \<notin> set (snd s)" using assms(2,3) by auto
  then have "r \<in> fst s' - set (snd s')" using assms(1) by (auto simp: order_ext_def)
  then show ?thesis using assms by (auto simp: order_ext_def)
qed

lemma order_visit_sound:
  "f = succ \<Longrightarrow> (\<And>x. grounded f x) \<Longrightarrow> order_pre s [r] \<Longrightarrow> order_visit n f s r = Some s' \<Longrightarrow> order_ext s [r] s'"
  "f = succ \<Longrightarrow> (\<And>x. grounded f x) \<Longrightarrow> order_pre s rs \<Longrightarrow> order_visits n f s rs = Some s' \<Longrightarrow> order_ext s rs s'"
proof (induction n f s r and n f s rs arbitrary: s' and s' rule: order_visit_order_visits.induct)
  case (2 n f s r)
  show ?case
  proof (cases "r \<in> fst s")
    case True
    then have "r \<in> set (snd s)" using 2(4) by (auto simp: order_pre_def)
    then show ?thesis using True 2(4,5) by (auto simp: order_ext_def order_pre_def)
  next
    case False
    then obtain s1 where s1: "order_visits n f (insert r (fst s), snd s) (f r) = Some s1" "s' = (fst s1, snd s1 @ [r])"
      using 2(5) by (auto split: option.splits)
    have "order_pre (insert r (fst s), snd s) (f r)" using order_pre_enter [OF _ 2(4) False] 2(2,3) by auto
    then have "order_ext (insert r (fst s), snd s) (f r) s1" using 2(1) [OF False 2(2,3) _ s1(1)] by blast
    then show ?thesis using order_ext_leave [of r s s1] False 2(2,4) s1(2) by (auto simp: order_pre_def)
  qed
next
  case (4 n f s r rs)
  obtain s1 where s1: "order_visit n f s r = Some s1" "order_visits n f s1 rs = Some s'"
    using 4(6) by (auto split: option.splits)
  have "order_pre s [r]" using 4(5) by (auto simp: order_pre_def)
  then have e1: "order_ext s [r] s1" using 4(1) [OF 4(3,4) _ s1(1)] by blast
  then have "order_pre s1 rs" using 4(5) by (auto simp: order_ext_def order_pre_def)
  then have e2: "order_ext s1 rs s'" using 4(2) [OF s1(1) 4(3,4) _ s1(2)] by blast
  show ?case using e1 e2 by (auto simp: order_ext_def)
qed (auto simp: order_ext_def order_pre_def)

lemma order_pass:
  assumes "set rs \<subseteq> nodes" "card nodes < n" "\<And>x. grounded succ x"
  obtains V ord where "order_visits n succ ({}, []) rs = Some (V, ord)" "distinct ord" "deps_first succ ord" "set rs \<subseteq> set ord"
proof -
  obtain V ord where o: "order_visits n succ ({}, []) rs = Some (V, ord)"
    using order_visit_fuel(2) [OF refl assms(1), of "({}, [])" n] assms(2) by auto
  have "order_pre ({}, []) rs" by (simp add: order_pre_def)
  then have "order_ext ({}, []) rs (V, ord)" using order_visit_sound(2) [OF refl assms(3) _ o] by blast
  then show ?thesis using that o by (auto simp: order_ext_def)
qed

lemma order_visit_within:
  "f = succ \<Longrightarrow> r \<in> nodes \<Longrightarrow> order_visit n f s r = Some s' \<Longrightarrow> set (snd s') \<subseteq> set (snd s) \<union> nodes"
  "f = succ \<Longrightarrow> set rs \<subseteq> nodes \<Longrightarrow> order_visits n f s rs = Some s' \<Longrightarrow> set (snd s') \<subseteq> set (snd s) \<union> nodes"
proof (induction n f s r and n f s rs arbitrary: s' and s' rule: order_visit_order_visits.induct)
  case (2 n f s r)
  show ?case
  proof (cases "r \<in> fst s")
    case False
    then obtain s1 where s1: "order_visits n f (insert r (fst s), snd s) (f r) = Some s1" "s' = (fst s1, snd s1 @ [r])"
      using 2(4) by (auto split: option.splits)
    have "set (f r) \<subseteq> nodes" using closed [OF 2(3)] 2(2) by simp
    then have "set (snd s1) \<subseteq> set (snd s) \<union> nodes" using 2(1) [OF False 2(2) _ s1(1)] by simp
    then show ?thesis using s1(2) 2(3) by auto
  qed (use 2 in auto)
next
  case (4 n f s r rs)
  obtain s1 where s1: "order_visit n f s r = Some s1" "order_visits n f s1 rs = Some s'"
    using 4(5) by (auto split: option.splits)
  have "set (snd s1) \<subseteq> set (snd s) \<union> nodes" using 4(1) [OF 4(3) _ s1(1)] 4(4) by auto
  moreover have "set (snd s') \<subseteq> set (snd s1) \<union> nodes" using 4(2) [OF s1(1) 4(3) _ s1(2)] 4(4) by auto
  ultimately show ?case by auto
qed auto

end

section \<open>Positions in a construction order\<close>

definition position :: "provider_ref list \<Rightarrow> provider_ref \<Rightarrow> nat" where
  "position rs r = length (takeWhile (\<lambda>x. x \<noteq> r) rs)"

lemma position_nth: "distinct rs \<Longrightarrow> i < length rs \<Longrightarrow> position rs (rs ! i) = i"
proof (induction rs arbitrary: i)
  case (Cons x xs)
  then show ?case by (cases i) (auto simp: position_def)
qed simp

lemma position_less: "r \<in> set rs \<Longrightarrow> position rs r < length rs"
  by (induction rs) (auto simp: position_def)

lemma position_edge:
  assumes "distinct rs" "deps_first succ rs" "r \<in> set rs" "edge succ r d"
  shows "d \<in> set rs" "position rs d < position rs r"
proof -
  obtain i where i: "i < length rs" "r = rs ! i" using assms(3) by (auto simp: in_set_conv_nth)
  then have "d \<in> set (take i rs)" using assms(2,4) by (auto simp: deps_first_def edge_def)
  then obtain j where j: "j < i" "d = rs ! j" using i(1) by (auto simp: in_set_conv_nth)
  then show "d \<in> set rs" using i(1) by auto
  show "position rs d < position rs r" using position_nth [OF assms(1)] i j by simp
qed

section \<open>Scopes\<close>

definition plain :: "provider_map \<Rightarrow> provider_ref \<Rightarrow> bool" where
  "plain pm r \<longleftrightarrow> (\<exists>p. plan_of pm r = Inr p \<and> pp_scope p \<noteq> REQUEST)"

lemma scope_visit_accepts:
  "scope_visit n succ pm path r = Some (Inr u) \<Longrightarrow> (edge succ)\<^sup>+\<^sup>+ r x \<Longrightarrow> plain pm x"
  "scope_visits n succ pm path ds = Some (Inr u) \<Longrightarrow> \<exists>d\<in>set ds. (edge succ)\<^sup>*\<^sup>* d x \<Longrightarrow> plain pm x"
proof (induction n succ pm path r and n succ pm path ds rule: scope_visit_scope_visits.induct)
  case (2 n succ pm path r)
  then show ?case by (metis edge_def scope_visit.simps(2) tranclpD)
next
  case (4 n succ pm path d ds)
  obtain p where p: "plan_of pm d = Inr p" "pp_scope p \<noteq> REQUEST" using 4(3) by (auto split: sum.splits if_splits)
  have v: "scope_visit n succ pm (path @ [d]) d = Some (Inr u)" and rest: "scope_visits n succ pm path ds = Some (Inr u)"
    using 4(3) p by (auto split: option.splits sum.splits)
  show ?case
  proof (cases "(edge succ)\<^sup>*\<^sup>* d x")
    case True
    then show ?thesis using 4(1) [OF p v] p by (metis plain_def rtranclpD)
  next
    case False
    then show ?thesis using 4(2) [OF p v _ rest] 4(4) by auto
  qed
qed auto

lemma scope_visit_rejects:
  "scope_visit n succ pm path r = Some (Inl e) \<Longrightarrow> (\<forall>a b. edge succ a b \<longrightarrow> (\<exists>p. plan_of pm b = Inr p)) \<Longrightarrow>
     \<exists>q p. e = ProviderScopeViolation (path @ q) \<and> q \<noteq> [] \<and> successively (edge succ) (r # q) \<and> plan_of pm (last q) = Inr p \<and> pp_scope p = REQUEST"
  "scope_visits n succ pm path ds = Some (Inl e) \<Longrightarrow> (\<forall>a b. edge succ a b \<longrightarrow> (\<exists>p. plan_of pm b = Inr p)) \<Longrightarrow> (\<forall>d\<in>set ds. \<exists>p. plan_of pm d = Inr p) \<Longrightarrow>
     \<exists>q p. e = ProviderScopeViolation (path @ q) \<and> q \<noteq> [] \<and> hd q \<in> set ds \<and> successively (edge succ) q \<and> plan_of pm (last q) = Inr p \<and> pp_scope p = REQUEST"
proof (induction n succ pm path r and n succ pm path ds rule: scope_visit_scope_visits.induct)
  case (2 n succ pm path r)
  have "\<forall>d\<in>set (succ r). \<exists>p. plan_of pm d = Inr p" using 2(3) by (auto simp: edge_def)
  then obtain q p where q: "e = ProviderScopeViolation (path @ q)" "q \<noteq> []" "hd q \<in> set (succ r)" "successively (edge succ) q"
    "plan_of pm (last q) = Inr p" "pp_scope p = REQUEST" using 2(1) [OF _ 2(3)] 2(2) unfolding scope_visit.simps by blast
  then have "successively (edge succ) (r # q)" by (cases q) (auto simp: edge_def)
  then show ?case using q by blast
next
  case (4 n succ pm path d ds)
  obtain p where p: "plan_of pm d = Inr p" using 4(5) by auto
  show ?case
  proof (cases "pp_scope p = REQUEST")
    case True
    then have "e = ProviderScopeViolation (path @ [d])" using 4(3) p by simp
    then show ?thesis using p True by (intro exI [of _ "[d]"] exI [of _ p]) simp
  next
    case False
    then consider "scope_visit n succ pm (path @ [d]) d = Some (Inl e)"
      | u where "scope_visit n succ pm (path @ [d]) d = Some (Inr u)" "scope_visits n succ pm path ds = Some (Inl e)"
      using 4(3) p by (auto split: option.splits sum.splits)
    then show ?thesis
    proof cases
      case 1
      then obtain q p' where q: "e = ProviderScopeViolation ((path @ [d]) @ q)" "q \<noteq> []" "successively (edge succ) (d # q)"
        "plan_of pm (last q) = Inr p'" "pp_scope p' = REQUEST" using 4(1) [OF p False 1 4(4)] by blast
      then show ?thesis by (intro exI [of _ "d # q"] exI [of _ p']) simp
    next
      case 2
      then obtain q p' where "e = ProviderScopeViolation (path @ q)" "q \<noteq> []" "hd q \<in> set ds" "successively (edge succ) q"
        "plan_of pm (last q) = Inr p'" "pp_scope p' = REQUEST"
        using 4(2) [OF p False 2(1) _ 2(2) 4(4)] 4(5) by auto
      then show ?thesis by (intro exI [of _ q] exI [of _ p']) simp
    qed
  qed
qed auto

lemma scope_visit_fuel:
  "(\<And>a b. edge succ a b \<Longrightarrow> rank b < (rank a :: nat)) \<Longrightarrow> rank r < n \<Longrightarrow> scope_visit n succ pm path r \<noteq> None"
  "(\<And>a b. edge succ a b \<Longrightarrow> rank b < rank a) \<Longrightarrow> \<forall>d\<in>set ds. rank d < n \<Longrightarrow> scope_visits n succ pm path ds \<noteq> None"
proof (induction n succ pm path r and n succ pm path ds rule: scope_visit_scope_visits.induct)
  case (2 n succ pm path r)
  have "\<forall>d\<in>set (succ r). rank d < n" using 2(2) [unfolded edge_def] 2(3) by fastforce
  then show ?case using 2(1) [OF 2(2)] by simp
next
  case (4 n succ pm path d ds)
  then show ?case by (auto split: sum.split option.split)
qed auto

section \<open>The passes over compiled edges\<close>

lemma edges_of_in: "d \<in> set (edges_of es r) \<Longrightarrow> \<exists>ds. (r, ds) \<in> set es \<and> d \<in> set ds"
  by (cases "map_of es r") (auto simp: edges_of_def dest: map_of_SomeD)

lemma edges_nodes:
  assumes "d \<in> set (edges_of es r)"
  shows "d \<in> set (graph_nodes es)" "r \<in> set (map fst es)" "r \<in> set (graph_nodes es)"
proof -
  obtain ds where "(r, ds) \<in> set es" "d \<in> set ds" using edges_of_in [OF assms] by blast
  then show "d \<in> set (graph_nodes es)" "r \<in> set (map fst es)" "r \<in> set (graph_nodes es)"
    by (force simp: graph_nodes_def)+
qed

interpretation eg: dependency_graph "edges_of es" "set (graph_nodes es) \<union> set keys" for es keys
proof
  show "set (edges_of es r) \<subseteq> set (graph_nodes es) \<union> set keys" for r
    using edges_nodes(1) by blast
  show "r \<in> set (graph_nodes es) \<union> set keys" if "edges_of es r \<noteq> []" for r
    using edges_nodes(3) [of "hd (edges_of es r)"] that by simp
qed simp

lemma card_graph_nodes: "card (set (graph_nodes es)) = length (graph_nodes es)"
  by (rule distinct_card) (simp add: graph_nodes_def)

lemma edges_keys: "edge (edges_of es) r d \<Longrightarrow> r \<in> set (map fst es)"
  unfolding edge_def by (rule edges_nodes(2))

lemma cycles_decided:
  "(validate_provider_cycles es pm = Some (Inr ()) \<and> (\<forall>r. grounded (edges_of es) r)) \<or>
   (\<exists>c. is_cycle (edges_of es) c \<and> validate_provider_cycles es pm = Some (Inl (cycle_error pm c)))"
proof -
  have sub: "set (map fst es) \<subseteq> set (graph_nodes es) \<union> set []" by (auto simp: graph_nodes_def)
  have fuel: "card (set (graph_nodes es) \<union> set []) < Suc (length (graph_nodes es))" by (simp add: card_graph_nodes)
  show ?thesis
    using sub fuel
  proof (cases rule: eg.cycle_pass)
    case (1 c)
    then show ?thesis by (auto simp: validate_provider_cycles_def)
  next
    case (2 s)
    have "grounded (edges_of es) r" for r
    proof (cases "r \<in> set (map fst es)")
      case False
      then show ?thesis by (intro grounded.intros [of "edges_of es" r]) (auto dest: edges_keys)
    qed (use 2 in blast)
    then show ?thesis using 2 by (auto simp: validate_provider_cycles_def)
  qed
qed

lemma accepted_grounded:
  assumes "validate_provider_cycles es pm = Some (Inr ())"
  shows "grounded (edges_of es) r"
  using cycles_decided [of es pm] assms by auto

lemma ordered:
  assumes "validate_provider_cycles es pm = Some (Inr ())" and "set keys \<subseteq> K"
  obtains V ord where
    "order_visits (Suc (length (graph_nodes es) + length keys)) (edges_of es) ({}, []) keys = Some (V, ord)"
    "distinct ord" "deps_first (edges_of es) ord" "set keys \<subseteq> set ord" "set ord \<subseteq> set (graph_nodes es) \<union> set keys"
proof -
  let ?n = "Suc (length (graph_nodes es) + length keys)"
  have "card (set (graph_nodes es) \<union> set keys) \<le> card (set (graph_nodes es)) + card (set keys)" by (rule card_Un_le)
  also have "\<dots> < ?n" using card_length [of keys] by (simp add: card_graph_nodes)
  finally have fuel: "card (set (graph_nodes es) \<union> set keys) < ?n" .
  obtain V ord where o: "order_visits ?n (edges_of es) ({}, []) keys = Some (V, ord)" "distinct ord"
    "deps_first (edges_of es) ord" "set keys \<subseteq> set ord"
    using eg.order_pass [of keys es keys ?n] fuel accepted_grounded [OF assms(1)] by blast
  have "set ord \<subseteq> set (graph_nodes es) \<union> set keys"
    using eg.order_visit_within(2) [OF refl _ o(1), of keys] by auto
  then show ?thesis using that o by blast
qed

lemma accepted_order:
  assumes "validate_provider_cycles es pm = Some (Inr ())"
  shows "\<exists>ord. provider_order es modules = Some ord \<and> distinct ord \<and> deps_first (edges_of es) ord \<and>
    (let keys = concat (map (\<lambda>m. map pp_key (ml_providers m)) modules) in
       set keys \<subseteq> set ord \<and> set ord \<subseteq> set (graph_nodes es) \<union> set keys)"
proof -
  let ?keys = "concat (map (\<lambda>m. map pp_key (ml_providers m)) modules)"
  obtain V ord where "order_visits (Suc (length (graph_nodes es) + length ?keys)) (edges_of es) ({}, []) ?keys = Some (V, ord)"
    "distinct ord" "deps_first (edges_of es) ord" "set ?keys \<subseteq> set ord" "set ord \<subseteq> set (graph_nodes es) \<union> set ?keys"
    using ordered [OF assms, of ?keys UNIV] by blast
  then show ?thesis by (auto simp: provider_order_def Let_def)
qed

text \<open>Dependency chains of an accepted graph are no longer than its number of nodes.\<close>

lemma accepted_rank:
  assumes "validate_provider_cycles es pm = Some (Inr ())"
  obtains rank :: "provider_ref \<Rightarrow> nat" where "\<forall>a b. edge (edges_of es) a b \<longrightarrow> rank b < rank a" "\<forall>r. rank r \<le> length (graph_nodes es)"
proof -
  obtain V ord where o: "distinct ord" "deps_first (edges_of es) ord" "set (graph_nodes es) \<subseteq> set ord"
    "set ord \<subseteq> set (graph_nodes es) \<union> set (graph_nodes es)"
    using ordered [OF assms, of "graph_nodes es" UNIV] by blast
  have "length ord = length (graph_nodes es)"
    using o by (metis Un_absorb card_graph_nodes distinct_card subset_antisym)
  moreover have "position ord r \<le> length ord" for r by (simp add: position_def length_takeWhile_le)
  moreover have "position ord b < position ord a" if "edge (edges_of es) a b" for a b
  proof -
    have "a \<in> set ord" using edges_keys [OF that] o(3) by (auto simp: graph_nodes_def)
    then show ?thesis using position_edge(2) [OF o(1,2) _ that] by blast
  qed
  ultimately show ?thesis using that [of "position ord"] by auto
qed

lemma scope_roots_accepts:
  "scope_roots n succ pm ps = Some (Inr u) \<Longrightarrow> (r, p) \<in> set ps \<Longrightarrow> pp_scope p = SINGLETON \<Longrightarrow> (edge succ)\<^sup>+\<^sup>+ r x \<Longrightarrow> plain pm x"
proof (induction n succ pm ps rule: scope_roots.induct)
  case (2 n succ pm r' p' ps)
  show ?case
  proof (cases "pp_scope p' = SINGLETON")
    case True
    then have "scope_visit n succ pm [r'] r' = Some (Inr u)" "scope_roots n succ pm ps = Some (Inr u)"
      using 2(3) by (auto split: option.splits sum.splits)
    then show ?thesis using scope_visit_accepts(1) 2(2) True 2(4-6) by auto
  next
    case False
    then show ?thesis using 2(1,3-6) by auto
  qed
qed simp

lemma scope_roots_rejects:
  "scope_roots n succ pm ps = Some (Inl e) \<Longrightarrow> \<forall>a b. edge succ a b \<longrightarrow> (\<exists>p. plan_of pm b = Inr p) \<Longrightarrow>
   \<exists>r p q p'. (r, p) \<in> set ps \<and> pp_scope p = SINGLETON \<and> e = ProviderScopeViolation (r # q) \<and> q \<noteq> [] \<and>
     successively (edge succ) (r # q) \<and> plan_of pm (last q) = Inr p' \<and> pp_scope p' = REQUEST"
proof (induction n succ pm ps rule: scope_roots.induct)
  case (2 n succ pm r p ps)
  show ?case
  proof (cases "pp_scope p = SINGLETON \<and> scope_visit n succ pm [r] r = Some (Inl e)")
    case True
    then obtain q p' where "e = ProviderScopeViolation ([r] @ q)" "q \<noteq> []" "successively (edge succ) (r # q)"
      "plan_of pm (last q) = Inr p'" "pp_scope p' = REQUEST"
      using scope_visit_rejects(1) [OF _ 2(4)] by blast
    then show ?thesis using True by (metis append_Cons append_Nil list.set_intros(1))
  next
    case False
    then have "\<exists>r p q p'. (r, p) \<in> set ps \<and> pp_scope p = SINGLETON \<and> e = ProviderScopeViolation (r # q) \<and> q \<noteq> [] \<and>
      successively (edge succ) (r # q) \<and> plan_of pm (last q) = Inr p' \<and> pp_scope p' = REQUEST"
    proof (cases "pp_scope p = SINGLETON")
      case True
      then have "\<exists>u. scope_visit n succ pm [r] r = Some (Inr u)" "scope_roots n succ pm ps = Some (Inl e)"
        using 2(3) False by (auto split: option.splits sum.splits)
      then show ?thesis using 2(2) True 2(4) by blast
    next
      case sc: False
      then have "scope_roots n succ pm ps = Some (Inl e)" using 2(3) by simp
      then show ?thesis using 2(1) sc 2(4) by blast
    qed
    then show ?thesis by (metis list.set_intros(2))
  qed
qed simp

lemma scope_roots_fuel:
  assumes "\<forall>a b. edge succ a b \<longrightarrow> rank b < (rank a :: nat)" "\<forall>r. rank r < n"
  shows "scope_roots n succ pm ps \<noteq> None"
proof (induction ps)
  case (Cons rp ps)
  obtain r p where rp: "rp = (r, p)" by (cases rp)
  have "scope_visit n succ pm [r] r \<noteq> None" using assms scope_visit_fuel(1) [of succ rank r n pm "[r]"] by blast
  then show ?case using Cons by (auto simp: rp split: sum.split)
qed simp

lemma scopes_decided:
  assumes ok: "validate_provider_cycles es pm = Some (Inr ())"
    and plans: "\<forall>a b. edge (edges_of es) a b \<longrightarrow> (\<exists>p. plan_of pm b = Inr p)"
  shows "(validate_scope_paths es pm = Some (Inr ()) \<and>
       (\<forall>r p x. (r, p) \<in> set pm \<longrightarrow> pp_scope p = SINGLETON \<longrightarrow> (edge (edges_of es))\<^sup>+\<^sup>+ r x \<longrightarrow> plain pm x)) \<or>
     (\<exists>r p q p'. (r, p) \<in> set pm \<and> pp_scope p = SINGLETON \<and> q \<noteq> [] \<and> successively (edge (edges_of es)) (r # q) \<and>
       plan_of pm (last q) = Inr p' \<and> pp_scope p' = REQUEST \<and> validate_scope_paths es pm = Some (Inl (ProviderScopeViolation (r # q))))"
proof -
  obtain rank where rank: "\<forall>a b. edge (edges_of es) a b \<longrightarrow> rank b < rank a" "\<forall>r. rank r \<le> length (graph_nodes es)"
    using accepted_rank [OF ok] .
  obtain out where out: "validate_scope_paths es pm = Some out"
    using scope_roots_fuel [OF rank(1)] rank(2) unfolding validate_scope_paths_def by (metis le_imp_less_Suc not_None_eq)
  show ?thesis
  proof (cases out)
    case (Inl e)
    then show ?thesis using scope_roots_rejects [OF _ plans] out unfolding validate_scope_paths_def by blast
  next
    case (Inr u)
    then show ?thesis using scope_roots_accepts out unfolding validate_scope_paths_def by auto
  qed
qed

end
