(* ===== verification/DI_Compiler.thy ===== *)
theory DI_Compiler
  imports DI_Graph "HOL-Library.AList"
begin

text \<open>
  Dependency injection: the module compiler of \<open>core/compiler.py\<close>.

  The state of \<open>_Compiler\<close> is the record \<open>compiler\<close>. A raise ends the compilation and the compiler
  object is dropped, so an operation returns the error or the new state. \<open>_visit\<close> materializes
  deferred modules as it goes and may import without end, so it has fuel; every other recursion is
  total. The module plans are kept as a list in the order of the modules, the provider map and the
  visibility as lists of pairs in the order of insertion. \<open>local_refs\<close> always holds the tokens of
  a module's plans, and is read from them.
\<close>

record module_node =
  mn_spec :: module_spec
  mn_imports :: "module_id list"

record compiler =
  co_nodes :: "module_id \<rightharpoonup> module_node"
  co_states :: "module_id \<rightharpoonup> visit_state"
  co_order :: "module_id list"
  co_static_ids :: "class_id \<rightharpoonup> module_id"
  co_dynamic_ids :: "((class_id \<times> string) \<times> deferred_module) list"
  co_descriptor_ids :: "nat \<rightharpoonup> module_id"

record compiler_options =
  op_import_resolver :: "(module_import arg \<Rightarrow> boot_error + module_import arg) option"
  op_spec_transformer :: "(module_id \<Rightarrow> module_spec \<Rightarrow> boot_error + module_spec) option"
  op_fallback_collector :: "(module_id \<Rightarrow> module_spec \<Rightarrow> bool \<Rightarrow> provider_declaration list) option"

definition new_compiler :: compiler where
  "new_compiler = \<lparr>co_nodes = Map.empty, co_states = Map.empty, co_order = [], co_static_ids = Map.empty,
     co_dynamic_ids = [], co_descriptor_ids = Map.empty\<rparr>"

section \<open>Modules\<close>

text \<open>A required parameter of the module's constructor is refused; variadic ones are skipped.\<close>

definition validate_module_constructor :: "reflection \<Rightarrow> class_id \<Rightarrow> boot_error + unit" where
  "validate_module_constructor rf c =
     (case rf_module_parameters rf c of
        None \<Rightarrow> Inl ModuleInvalidConstructor
      | Some ps \<Rightarrow> if list_all (\<lambda>p. pm_variadic p \<or> pm_has_default p) ps then Inr () else Inl ModuleInvalidConstructor)"

definition normalize_provider :: "reflection \<Rightarrow> module_provider \<Rightarrow> boot_error + module_provider" where
  "normalize_provider rf p =
     (case p of
        Declared d \<Rightarrow> Inr (Declared d)
      | ProvidedClass c \<Rightarrow>
         (case rf_injectable rf c of
            Some d \<Rightarrow> Inr (Declared d)
          | None \<Rightarrow> if rf_gateway rf c then Inr (Declared (ClassProvider (ClassToken c) c SINGLETON True False))
                    else Inl ProviderInvalidDeclaration))"

definition normalize_module_providers :: "reflection \<Rightarrow> module_spec \<Rightarrow> boot_error + module_spec" where
  "normalize_module_providers rf sp =
     (case all_ok (map (normalize_provider rf) (sp_providers sp)) of
        Inl e \<Rightarrow> Inl e
      | Inr ds \<Rightarrow> Inr (sp\<lparr>sp_providers := ds\<rparr>))"

definition transformed_spec :: "reflection \<Rightarrow> compiler_options \<Rightarrow> module_id \<Rightarrow> module_spec \<Rightarrow> boot_error + module_spec" where
  "transformed_spec rf opt mid sp =
     (case normalize_module_providers rf sp of Inl e \<Rightarrow> Inl e | Inr sp1 \<Rightarrow>
      case op_spec_transformer opt of
        None \<Rightarrow> Inr sp1
      | Some f \<Rightarrow> (case f mid sp1 of Inl e \<Rightarrow> Inl e | Inr sp2 \<Rightarrow> normalize_module_providers rf sp2))"

definition ensure_static :: "reflection \<Rightarrow> compiler_options \<Rightarrow> class_id \<Rightarrow> compiler \<Rightarrow> boot_error + module_id \<times> compiler" where
  "ensure_static rf opt m co =
     (case co_static_ids co m of
        Some mid \<Rightarrow> Inr (mid, co)
      | None \<Rightarrow>
         if list_ex (\<lambda>((c, k), d). c = m) (co_dynamic_ids co) then Inl ModuleStaticDynamicConflict
         else (case validate_module_constructor rf m of Inl e \<Rightarrow> Inl e | Inr u \<Rightarrow>
           let mid = \<lparr>mi_module = m, mi_key = None\<rparr>;
               spec = (case rf_module_metadata rf m of None \<Rightarrow> empty_spec | Some sp \<Rightarrow> sp) in
           case transformed_spec rf opt mid spec of Inl e \<Rightarrow> Inl e | Inr sp \<Rightarrow>
           Inr (mid, co\<lparr>co_static_ids := (co_static_ids co)(m \<mapsto> mid),
                        co_nodes := (co_nodes co)(mid \<mapsto> \<lparr>mn_spec = sp, mn_imports = []\<rparr>)\<rparr>)))"

definition materialize :: "reflection \<Rightarrow> deferred_module \<Rightarrow> boot_error + module_spec" where
  "materialize rf d =
     (case rf_materialize rf d of
        Materialized sp \<Rightarrow> Inr sp
      | FactoryReturnsOther \<Rightarrow> Inl ModuleMaterializationError
      | FactoryRaises \<Rightarrow> Inl ModuleMaterializationError
      | FactoryRaisesSettings \<Rightarrow> Inl SettingsError
      | FactoryInterrupted \<Rightarrow> Inl Interrupted)"

definition ensure_dynamic :: "reflection \<Rightarrow> compiler_options \<Rightarrow> deferred_module \<Rightarrow> compiler \<Rightarrow> boot_error + module_id \<times> compiler" where
  "ensure_dynamic rf opt d co =
     (let identity = (dm_module d, dm_key d) in
      if (case map_of (co_dynamic_ids co) identity of None \<Rightarrow> False | Some d' \<Rightarrow> dm_id d' \<noteq> dm_id d) then Inl ModuleDynamicConflict
      else (case co_descriptor_ids co (dm_id d) of
        Some mid \<Rightarrow> Inr (mid, co)
      | None \<Rightarrow>
         if co_static_ids co (dm_module d) \<noteq> None then Inl ModuleStaticDynamicConflict
         else
           let mid = \<lparr>mi_module = dm_module d, mi_key = Some (dm_key d)\<rparr> in
           (case validate_module_constructor rf (dm_module d) of Inl e \<Rightarrow> Inl e | Inr u \<Rightarrow>
            case materialize rf d of Inl e \<Rightarrow> Inl e | Inr sp0 \<Rightarrow>
            case transformed_spec rf opt mid sp0 of Inl e \<Rightarrow> Inl e | Inr sp \<Rightarrow>
            Inr (mid, co\<lparr>co_dynamic_ids := AList.update identity d (co_dynamic_ids co),
                         co_descriptor_ids := (co_descriptor_ids co)(dm_id d \<mapsto> mid),
                         co_nodes := (co_nodes co)(mid \<mapsto> \<lparr>mn_spec = sp, mn_imports = []\<rparr>)\<rparr>))))"

definition ensure_import :: "reflection \<Rightarrow> compiler_options \<Rightarrow> module_import arg \<Rightarrow> compiler \<Rightarrow> boot_error + module_id \<times> compiler" where
  "ensure_import rf opt imported co =
     (case (case op_import_resolver opt of None \<Rightarrow> Inr imported | Some f \<Rightarrow> f imported) of
        Inl e \<Rightarrow> Inl e
      | Inr (Inst (DeferredImport d)) \<Rightarrow> ensure_dynamic rf opt d co
      | Inr (Inst (StaticImport m)) \<Rightarrow> ensure_static rf opt m co
      | Inr Foreign \<Rightarrow> Inl ModuleInvalidDeclaration)"

text \<open>\<open>node.imports.append(child_id)\<close>.\<close>

definition add_import :: "module_id \<Rightarrow> module_id \<Rightarrow> compiler \<Rightarrow> compiler" where
  "add_import mid child co =
     co\<lparr>co_nodes := (case co_nodes co mid of None \<Rightarrow> co_nodes co
        | Some nd \<Rightarrow> (co_nodes co)(mid \<mapsto> nd\<lparr>mn_imports := mn_imports nd @ [child]\<rparr>))\<rparr>"

fun module_visit :: "nat \<Rightarrow> reflection \<Rightarrow> compiler_options \<Rightarrow> module_id list \<Rightarrow> module_id \<Rightarrow> compiler \<Rightarrow> (boot_error + compiler) option"
and module_imports :: "nat \<Rightarrow> reflection \<Rightarrow> compiler_options \<Rightarrow> module_id list \<Rightarrow> module_id \<Rightarrow> module_import list \<Rightarrow> compiler \<Rightarrow> (boot_error + compiler) option"
where
  "module_visit 0 rf opt stack mid co = None"
| "module_visit (Suc n) rf opt stack mid co =
     (case co_states co mid of
        Some DONE \<Rightarrow> Some (Inr co)
      | Some VISITING \<Rightarrow> Some (Inl (ModuleCycle (stack @ [mid])))
      | None \<Rightarrow>
         (case co_nodes co mid of
            None \<Rightarrow> Some (Inl PyKeyError)
          | Some nd \<Rightarrow>
             (case module_imports n rf opt (stack @ [mid]) mid (sp_imports (mn_spec nd))
                     (co\<lparr>co_states := (co_states co)(mid \<mapsto> VISITING)\<rparr>) of
                None \<Rightarrow> None
              | Some (Inl e) \<Rightarrow> Some (Inl e)
              | Some (Inr co') \<Rightarrow> Some (Inr (co'\<lparr>co_states := (co_states co')(mid \<mapsto> DONE), co_order := co_order co' @ [mid]\<rparr>)))))"
| "module_imports n rf opt stack mid [] co = Some (Inr co)"
| "module_imports n rf opt stack mid (i # is) co =
     (case ensure_import rf opt (Inst i) co of
        Inl e \<Rightarrow> Some (Inl e)
      | Inr (child, co1) \<Rightarrow>
         (case module_visit n rf opt stack child (add_import mid child co1) of
            None \<Rightarrow> None
          | Some (Inl e) \<Rightarrow> Some (Inl e)
          | Some (Inr co2) \<Rightarrow> module_imports n rf opt stack mid is co2))"

section \<open>Provider plans\<close>

definition annotation_token :: "parameter \<Rightarrow> boot_error + token option \<times> bool" where
  "annotation_token p =
     (if pm_annotation p = NoAnnotation then Inr (None, False)
      else if pm_annotated p \<and> 1 < length (pm_markers p) then Inl ProviderInvalidSignature
      else if pm_annotated p \<and> pm_markers p \<noteq> [] then Inr (Some (hd (pm_markers p)), True)
      else Inr (case pm_annotation p of ClassAnnotation c \<Rightarrow> Some (ClassToken c) | _ \<Rightarrow> None, False))"

definition compile_parameter :: "parameter \<Rightarrow> boot_error + dependency_plan" where
  "compile_parameter p =
     (if pm_variadic p then Inl ProviderInvalidSignature
      else (case annotation_token p of
        Inl e \<Rightarrow> Inl e
      | Inr (tok, explicit) \<Rightarrow>
         if tok = None \<and> \<not> pm_has_default p then Inl ProviderInvalidSignature
         else Inr \<lparr>dp_parameter_name = pm_name p,
                   dp_token = (if pm_has_default p \<and> \<not> explicit then None else tok),
                   dp_has_default = pm_has_default p, dp_provider_ref = None\<rparr>))"

definition declaration_parameters :: "reflection \<Rightarrow> provider_declaration \<Rightarrow> parameter list option" where
  "declaration_parameters rf d =
     (case d of
        ValueProvider t v m \<Rightarrow> Some []
      | AliasProvider t u \<Rightarrow> Some []
      | ClassProvider t c s m p \<Rightarrow> rf_class_parameters rf c
      | FactoryProvider t f s m \<Rightarrow> rf_factory_parameters rf f)"

definition compile_dependencies :: "reflection \<Rightarrow> provider_declaration \<Rightarrow> boot_error + dependency_plan list" where
  "compile_dependencies rf d =
     (case declaration_parameters rf d of
        None \<Rightarrow> Inl ProviderInvalidSignature
      | Some ps \<Rightarrow> all_ok (map compile_parameter ps))"

definition dependency_source_of :: "reflection \<Rightarrow> dependency_plan \<Rightarrow> dependency_source" where
  "dependency_source_of rf d =
     \<lparr>ds_parameter_name = dp_parameter_name d, ds_provider_ref = dp_provider_ref d,
      ds_intrinsic = (case dp_token d of None \<Rightarrow> None | Some t \<Rightarrow> if rf_intrinsic rf t then Some t else None)\<rparr>"

definition compile_recipe :: "reflection \<Rightarrow> provider_declaration \<Rightarrow> dependency_plan list \<Rightarrow> construction_recipe" where
  "compile_recipe rf d deps =
     (let sources = map (dependency_source_of rf) deps in
      case d of
        ValueProvider t v m \<Rightarrow> \<lparr>cr_invoker = ReturnsValue v, cr_dependencies = sources, cr_await_policy = AWAIT_NEVER, cr_manage = m\<rparr>
      | ClassProvider t c s m p \<Rightarrow> \<lparr>cr_invoker = CallsClass c, cr_dependencies = sources, cr_await_policy = AWAIT_NEVER, cr_manage = m\<rparr>
      | FactoryProvider t f s m \<Rightarrow>
          \<lparr>cr_invoker = CallsFactory f, cr_dependencies = sources,
           cr_await_policy = (if rf_factory_coroutine rf f then AWAIT_ALWAYS else AWAIT_IF_AWAITABLE), cr_manage = m\<rparr>
      | AliasProvider t u \<Rightarrow> \<lparr>cr_invoker = UncanonicalizedAlias, cr_dependencies = [], cr_await_policy = AWAIT_NEVER, cr_manage = False\<rparr>)"

definition validate_provider_token :: "reflection \<Rightarrow> token \<Rightarrow> boot_error + unit" where
  "validate_provider_token rf t = (if rf_intrinsic rf t then Inl ProviderReservedToken else Inr ())"

fun declared_proxy :: "provider_declaration \<Rightarrow> bool" where
  "declared_proxy (ClassProvider t c s m p) = p"
| "declared_proxy (ValueProvider t v m) = False"
| "declared_proxy (FactoryProvider t f s m) = False"
| "declared_proxy (AliasProvider t u) = False"

definition new_plan :: "reflection \<Rightarrow> module_id \<Rightarrow> provider_declaration \<Rightarrow> boot_error + provider_plan" where
  "new_plan rf mid d =
     (case compile_dependencies rf d of Inl e \<Rightarrow> Inl e | Inr deps \<Rightarrow>
      let ref = \<lparr>pr_module_id = mid, pr_token = provider_token d\<rparr> in
      Inr \<lparr>pp_key = ref, pp_declaration = d, pp_dependencies = deps, pp_scope = declared_scope d, pp_canonical = ref,
           pp_recipe = compile_recipe rf d deps, pp_proxy = declared_proxy d, pp_method_interceptors = []\<rparr>)"

definition add_controller :: "class_id \<Rightarrow> provider_declaration list \<Rightarrow> boot_error + provider_declaration list" where
  "add_controller c ds =
     (case find (\<lambda>d. provider_token d = ClassToken c) ds of
        Some d \<Rightarrow> if declared_scope d \<noteq> SINGLETON then Inl ControllerInvalidDeclaration else Inl (ProviderDuplicate (ClassToken c))
      | None \<Rightarrow> Inr (ds @ [ClassProvider (ClassToken c) c SINGLETON True False]))"

definition add_plan :: "reflection \<Rightarrow> module_id \<Rightarrow> provider_declaration \<Rightarrow> provider_plan list \<Rightarrow> boot_error + provider_plan list" where
  "add_plan rf mid d plans =
     (case validate_provider_token rf (provider_token d) of Inl e \<Rightarrow> Inl e | Inr u \<Rightarrow>
      if list_ex (\<lambda>p. pr_token (pp_key p) = provider_token d) plans then Inl (ProviderDuplicate (provider_token d))
      else (case new_plan rf mid d of Inl e \<Rightarrow> Inl e | Inr p \<Rightarrow> Inr (plans @ [p])))"

definition declarations_of :: "module_spec \<Rightarrow> provider_declaration list" where
  "declarations_of sp = concat (map (\<lambda>p. case p of Declared d \<Rightarrow> [d] | ProvidedClass c \<Rightarrow> []) (sp_providers sp))"

definition plan_module :: "reflection \<Rightarrow> compiler \<Rightarrow> module_id \<Rightarrow> boot_error + module_plan" where
  "plan_module rf co mid =
     (case co_nodes co mid of None \<Rightarrow> Inl PyKeyError | Some nd \<Rightarrow>
      case fold_err add_controller (sp_controllers (mn_spec nd)) (declarations_of (mn_spec nd)) of Inl e \<Rightarrow> Inl e | Inr ds \<Rightarrow>
      case fold_err (add_plan rf mid) ds [] of Inl e \<Rightarrow> Inl e | Inr plans \<Rightarrow>
      Inr \<lparr>ml_module_id = mid, ml_spec = mn_spec nd, ml_imports = mn_imports nd, ml_providers = plans\<rparr>)"

section \<open>Visibility\<close>

definition module_plan_of :: "module_plan list \<Rightarrow> module_id \<Rightarrow> boot_error + module_plan" where
  "module_plan_of mods mid = (case find (\<lambda>m. ml_module_id m = mid) mods of None \<Rightarrow> Inl PyKeyError | Some m \<Rightarrow> Inr m)"

definition local_ref :: "module_plan \<Rightarrow> token \<Rightarrow> provider_ref option" where
  "local_ref m t = map_option pp_key (find (\<lambda>p. pr_token (pp_key p) = t) (ml_providers m))"

definition local_keys :: "module_plan \<Rightarrow> token \<Rightarrow> provider_ref list" where
  "local_keys m t = filter (\<lambda>k. pr_token k = t) (map pp_key (ml_providers m))"

lemma module_plan_of_Inr: "module_plan_of mods mid = Inr m \<Longrightarrow> m \<in> set mods \<and> ml_module_id m = mid"
  by (auto simp: module_plan_of_def find_Some_iff split: option.splits)

text \<open>The recursion stops at a module that is on the path already.\<close>

function module_export_candidates :: "module_plan list \<Rightarrow> token \<Rightarrow> module_id list \<Rightarrow> module_id \<Rightarrow> boot_error + provider_ref list" where
  "module_export_candidates mods t path mid =
     (if mid \<in> set path then Inr []
      else case module_plan_of mods mid of
        Inl e \<Rightarrow> Inl e
      | Inr m \<Rightarrow>
         if t \<notin> set (ml_exports m) then Inr []
         else if local_keys m t \<noteq> [] then Inr (local_keys m t)
         else (case all_ok (map (module_export_candidates mods t (path @ [mid])) (ml_imports m)) of
            Inl e \<Rightarrow> Inl e
          | Inr css \<Rightarrow> Inr (from_keys (concat css))))"
  by pat_completeness auto
termination
proof (relation "measure (\<lambda>(mods, t, path, mid). card (set (map ml_module_id mods) - set path))", goal_cases)
  case (2 mods t path mid m i)
  have "mid \<in> set (map ml_module_id mods)" using module_plan_of_Inr [OF 2(2)] by force
  then have "set (map ml_module_id mods) - set (path @ [mid]) \<subset> set (map ml_module_id mods) - set path" using 2(1) by auto
  then show ?case by (simp add: psubset_card_mono)
qed simp

definition direct_export_candidates :: "module_plan list \<Rightarrow> token \<Rightarrow> module_id \<Rightarrow> boot_error + provider_ref list" where
  "direct_export_candidates mods t mid =
     (case module_plan_of mods mid of Inl e \<Rightarrow> Inl e | Inr m \<Rightarrow>
      case all_ok (map (module_export_candidates mods t [mid]) (from_keys (ml_imports m))) of
        Inl e \<Rightarrow> Inl e
      | Inr css \<Rightarrow> Inr (from_keys (concat css)))"

definition global_candidates :: "module_plan list \<Rightarrow> token \<Rightarrow> boot_error + provider_ref list" where
  "global_candidates mods t =
     (case all_ok (map (\<lambda>g. module_export_candidates mods t [] (ml_module_id g)) (filter ml_global mods)) of
        Inl e \<Rightarrow> Inl e
      | Inr css \<Rightarrow> Inr (concat css))"

definition visible_tokens :: "module_plan list \<Rightarrow> module_id \<Rightarrow> boot_error + token list" where
  "visible_tokens mods mid =
     (case module_plan_of mods mid of Inl e \<Rightarrow> Inl e | Inr m \<Rightarrow>
      case all_ok (map (module_plan_of mods) (ml_imports m)) of
        Inl e \<Rightarrow> Inl e
      | Inr is \<Rightarrow> Inr (from_keys (map (\<lambda>p. pr_token (pp_key p)) (ml_providers m) @ concat (map ml_exports is) @
                   concat (map ml_exports (filter ml_global mods)))))"

definition resolve_visible :: "module_plan list \<Rightarrow> module_id \<Rightarrow> token \<Rightarrow> boot_error + provider_ref" where
  "resolve_visible mods mid t =
     (case module_plan_of mods mid of Inl e \<Rightarrow> Inl e | Inr m \<Rightarrow>
      case local_ref m t of
        Some r \<Rightarrow> Inr r
      | None \<Rightarrow>
         (case direct_export_candidates mods t mid of
            Inl e \<Rightarrow> Inl e
          | Inr direct \<Rightarrow>
             if 1 < length direct then Inl (ProviderAmbiguous t)
             else if direct \<noteq> [] then Inr (hd direct)
             else (case global_candidates mods t of
                Inl e \<Rightarrow> Inl e
              | Inr gs \<Rightarrow>
                 if 1 < length gs then Inl (ProviderAmbiguous t)
                 else if gs \<noteq> [] then Inr (hd gs)
                 else Inl (ProviderUnresolved t))))"

definition has_visible_provider :: "module_plan list \<Rightarrow> module_id \<Rightarrow> token \<Rightarrow> boot_error + bool" where
  "has_visible_provider mods mid t =
     (case resolve_visible mods mid t of
        Inr r \<Rightarrow> Inr True
      | Inl (ProviderUnresolved u) \<Rightarrow> Inr False
      | Inl e \<Rightarrow> Inl e)"

definition validate_export :: "module_plan list \<Rightarrow> module_id \<Rightarrow> token \<Rightarrow> boot_error + unit" where
  "validate_export mods mid t =
     (case module_plan_of mods mid of Inl e \<Rightarrow> Inl e | Inr m \<Rightarrow>
      if local_ref m t \<noteq> None then Inr ()
      else (case direct_export_candidates mods t mid of
         Inl e \<Rightarrow> Inl e
       | Inr cs \<Rightarrow>
          if cs = [] then Inl (ModuleInvalidExport t)
          else if 1 < length cs then Inl (ProviderAmbiguous t)
          else Inr ()))"

definition validate_exports :: "module_plan list \<Rightarrow> module_id \<Rightarrow> boot_error + unit" where
  "validate_exports mods mid =
     (case module_plan_of mods mid of Inl e \<Rightarrow> Inl e | Inr m \<Rightarrow>
      fold_err (\<lambda>t u. validate_export mods mid t) (ml_exports m) ())"

type_synonym visibility = "((module_id \<times> token) \<times> provider_ref) list"

definition module_visibility :: "module_plan list \<Rightarrow> module_id \<Rightarrow> visibility \<Rightarrow> boot_error + visibility" where
  "module_visibility mods mid vis =
     (case validate_exports mods mid of Inl e \<Rightarrow> Inl e | Inr u \<Rightarrow>
      case visible_tokens mods mid of Inl e \<Rightarrow> Inl e | Inr ts \<Rightarrow>
      fold_err (\<lambda>t v. case resolve_visible mods mid t of Inl e \<Rightarrow> Inl e | Inr r \<Rightarrow> Inr (AList.update (mid, t) r v)) ts vis)"

definition compile_visibility :: "module_plan list \<Rightarrow> boot_error + visibility" where
  "compile_visibility mods = fold_err (module_visibility mods) (map ml_module_id mods) []"

definition visible_ref :: "module_plan list \<Rightarrow> visibility \<Rightarrow> module_id \<Rightarrow> token \<Rightarrow> boot_error + provider_ref" where
  "visible_ref mods vis mid t =
     (case map_of vis (mid, t) of Some r \<Rightarrow> Inr r | None \<Rightarrow> resolve_visible mods mid t)"

section \<open>Aliases\<close>

text \<open>\<open>cache\<close> is the dictionary that the calls share; a call returns its new contents.\<close>

function canonical_provider ::
  "provider_map \<Rightarrow> visibility \<Rightarrow> provider_ref list \<Rightarrow> provider_ref \<Rightarrow> (provider_ref \<rightharpoonup> provider_ref)
    \<Rightarrow> boot_error + provider_ref \<times> (provider_ref \<rightharpoonup> provider_ref)" where
  "canonical_provider pm vis stack r cache =
     (case cache r of
        Some c \<Rightarrow> Inr (c, cache)
      | None \<Rightarrow>
         (case map_of pm r of
            None \<Rightarrow> Inl PyKeyError
          | Some p \<Rightarrow>
             (case pp_declaration p of
                AliasProvider t u \<Rightarrow>
                 (case map_of vis (pr_module_id r, u) of
                    None \<Rightarrow> Inl (ProviderUnresolved u)
                  | Some target \<Rightarrow>
                     if r \<in> set stack \<or> target \<in> set stack then Inl (ProviderAliasCycle (stack @ [r, target]))
                     else (case canonical_provider pm vis (stack @ [r]) target cache of
                        Inl e \<Rightarrow> Inl e
                      | Inr (c, cache') \<Rightarrow> Inr (c, cache'(r \<mapsto> c))))
              | _ \<Rightarrow> Inr (r, cache(r \<mapsto> r)))))"
  by pat_completeness auto
termination
proof (relation "measure (\<lambda>(pm, vis, stack, r, cache). card (set (map fst pm) - set stack))", goal_cases)
  case (2 pm vis stack r cache p t u target)
  have "r \<in> set (map fst pm)" using map_of_SomeD [OF 2(2)] by force
  then have "set (map fst pm) - set (stack @ [r]) \<subset> set (map fst pm) - set stack" using 2(5) by auto
  then show ?case by (simp add: psubset_card_mono)
qed simp

definition canonical_cache :: "provider_map \<Rightarrow> visibility \<Rightarrow> boot_error + (provider_ref \<rightharpoonup> provider_ref)" where
  "canonical_cache pm vis =
     fold_err (\<lambda>r cache. case canonical_provider pm vis [] r cache of Inl e \<Rightarrow> Inl e | Inr (c, cache') \<Rightarrow> Inr (cache'(r \<mapsto> c)))
       (map fst pm) Map.empty"

section \<open>Fallback providers\<close>

definition add_fallback :: "reflection \<Rightarrow> module_id \<Rightarrow> provider_declaration \<Rightarrow> module_plan list \<Rightarrow> boot_error + module_plan list" where
  "add_fallback rf mid d mods =
     (case validate_provider_token rf (provider_token d) of Inl e \<Rightarrow> Inl e | Inr u \<Rightarrow>
      case has_visible_provider mods mid (provider_token d) of Inl e \<Rightarrow> Inl e | Inr True \<Rightarrow> Inr mods | Inr False \<Rightarrow>
      case new_plan rf mid d of Inl e \<Rightarrow> Inl e | Inr p \<Rightarrow>
      Inr (map (\<lambda>m. if ml_module_id m = mid then m\<lparr>ml_providers := ml_providers m @ [p]\<rparr> else m) mods))"

definition add_fallbacks :: "reflection \<Rightarrow> compiler_options \<Rightarrow> module_id \<Rightarrow> module_plan list \<Rightarrow> boot_error + module_plan list" where
  "add_fallbacks rf opt root mods =
     (case op_fallback_collector opt of
        None \<Rightarrow> Inr mods
      | Some f \<Rightarrow>
         fold_err (\<lambda>(mid, sp). fold_err (add_fallback rf mid) (f mid sp (mid = root)))
           (map (\<lambda>m. (ml_module_id m, ml_spec m)) mods) mods)"

section \<open>Linking\<close>

definition provider_entries :: "module_plan list \<Rightarrow> provider_map" where
  "provider_entries mods = fold (\<lambda>p. AList.update (pp_key p) p) (concat (map ml_providers mods)) []"

definition link_dependency ::
  "reflection \<Rightarrow> module_plan list \<Rightarrow> visibility \<Rightarrow> (provider_ref \<rightharpoonup> provider_ref) \<Rightarrow> module_id \<Rightarrow> dependency_plan
    \<Rightarrow> boot_error + dependency_plan" where
  "link_dependency rf mods vis cache mid d =
     (case dp_token d of
        None \<Rightarrow> Inr (d\<lparr>dp_provider_ref := None\<rparr>)
      | Some t \<Rightarrow>
         if rf_intrinsic rf t then Inr (d\<lparr>dp_provider_ref := None\<rparr>)
         else (case visible_ref mods vis mid t of Inl e \<Rightarrow> Inl e | Inr r \<Rightarrow>
               case cache r of None \<Rightarrow> Inl PyKeyError | Some c \<Rightarrow> Inr (d\<lparr>dp_provider_ref := Some c\<rparr>)))"

definition link_plan ::
  "reflection \<Rightarrow> module_plan list \<Rightarrow> visibility \<Rightarrow> (provider_ref \<rightharpoonup> provider_ref) \<Rightarrow> provider_ref \<times> provider_plan
    \<Rightarrow> provider_map \<Rightarrow> boot_error + provider_map" where
  "link_plan rf mods vis cache rp pm =
     (case rp of (r, p) \<Rightarrow>
      case all_ok (map (link_dependency rf mods vis cache (pr_module_id r)) (pp_dependencies p)) of Inl e \<Rightarrow> Inl e | Inr deps \<Rightarrow>
      case cache r of None \<Rightarrow> Inl PyKeyError | Some c \<Rightarrow>
      case plan_of pm c of Inl e \<Rightarrow> Inl e | Inr cp \<Rightarrow>
      Inr (AList.update r (p\<lparr>pp_dependencies := deps, pp_scope := pp_scope cp, pp_canonical := c,
             pp_recipe := compile_recipe rf (pp_declaration p) deps\<rparr>) pm))"

text \<open>The members of a class by name, those of a subclass replacing those of its bases.\<close>

definition class_methods :: "reflection \<Rightarrow> class_id \<Rightarrow> (string \<times> member_method) list" where
  "class_methods rf c = fold (\<lambda>m. AList.update (mm_name m) m) (concat (rev (rf_mro rf c))) []"

definition qualify_binding ::
  "visibility \<Rightarrow> (provider_ref \<rightharpoonup> provider_ref) \<Rightarrow> module_id \<Rightarrow> interceptor_binding \<Rightarrow> boot_error + qualified_interceptor" where
  "qualify_binding vis cache mid b =
     (case b of
        ObjectBinding i \<Rightarrow> Inr (InterceptorObject i)
      | TokenBinding t \<Rightarrow>
         (case map_of vis (mid, t) of
            None \<Rightarrow> Inl (ProviderUnresolved t)
          | Some r \<Rightarrow> (case cache r of None \<Rightarrow> Inl PyKeyError | Some c \<Rightarrow> Inr (InterceptorRef c))))"

definition compile_method ::
  "visibility \<Rightarrow> (provider_ref \<rightharpoonup> provider_ref) \<Rightarrow> module_id \<Rightarrow> bool \<Rightarrow> member_method
    \<Rightarrow> boot_error + (string \<times> qualified_interceptor list) list" where
  "compile_method vis cache mid proxy m =
     (if mm_interceptors m = [] then Inr []
      else if \<not> proxy then Inl ProviderInvalidDeclaration
      else if \<not> mm_public m \<or> \<not> mm_coroutine m then Inl ProviderInvalidDeclaration
      else (case all_ok (map (qualify_binding vis cache mid) (mm_interceptors m)) of
         Inl e \<Rightarrow> Inl e
       | Inr qs \<Rightarrow> Inr [(mm_name m, qs)]))"

definition compile_method_interceptors ::
  "reflection \<Rightarrow> visibility \<Rightarrow> (provider_ref \<rightharpoonup> provider_ref) \<Rightarrow> provider_ref \<Rightarrow> provider_declaration
    \<Rightarrow> boot_error + (string \<times> qualified_interceptor list) list" where
  "compile_method_interceptors rf vis cache r d =
     (case d of
        ClassProvider t c s m proxy \<Rightarrow>
         (case all_ok (map (compile_method vis cache (pr_module_id r) proxy) (map snd (class_methods rf c))) of
            Inl e \<Rightarrow> Inl e
          | Inr xss \<Rightarrow> Inr (concat xss))
      | _ \<Rightarrow> Inr [])"

definition link_interceptors ::
  "reflection \<Rightarrow> visibility \<Rightarrow> (provider_ref \<rightharpoonup> provider_ref) \<Rightarrow> provider_ref \<times> provider_plan \<Rightarrow> provider_map \<Rightarrow> boot_error + provider_map" where
  "link_interceptors rf vis cache rp pm =
     (case rp of (r, p) \<Rightarrow>
      if pp_canonical p \<noteq> r then Inr pm
      else (case compile_method_interceptors rf vis cache r (pp_declaration p) of
         Inl e \<Rightarrow> Inl e
       | Inr is \<Rightarrow> Inr (AList.update r (p\<lparr>pp_method_interceptors := is\<rparr>) pm)))"

definition link_alias :: "provider_ref \<times> provider_plan \<Rightarrow> provider_map \<Rightarrow> boot_error + provider_map" where
  "link_alias rp pm =
     (case rp of (r, p) \<Rightarrow>
      if pp_canonical p = r then Inr pm
      else (case plan_of pm (pp_canonical p) of
         Inl e \<Rightarrow> Inl e
       | Inr cp \<Rightarrow> Inr (AList.update r (p\<lparr>pp_recipe := pp_recipe cp, pp_proxy := pp_proxy cp,
                           pp_method_interceptors := pp_method_interceptors cp\<rparr>) pm)))"

definition provider_edge :: "visibility \<Rightarrow> provider_map \<Rightarrow> provider_ref \<times> provider_plan \<Rightarrow> boot_error + provider_ref \<times> provider_ref list" where
  "provider_edge vis pm rp =
     (case rp of (r, p) \<Rightarrow>
      case pp_declaration p of
        AliasProvider t u \<Rightarrow>
         (case map_of vis (pr_module_id r, u) of None \<Rightarrow> Inl PyKeyError | Some target \<Rightarrow>
          case plan_of pm target of Inl e \<Rightarrow> Inl e | Inr tp \<Rightarrow> Inr (r, [pp_canonical tp]))
      | _ \<Rightarrow> Inr (r, List.map_filter dp_provider_ref (pp_dependencies p)))"

definition provider_edges :: "visibility \<Rightarrow> provider_map \<Rightarrow> boot_error + edges" where
  "provider_edges vis pm = all_ok (map (provider_edge vis pm) pm)"

definition link_providers :: "reflection \<Rightarrow> module_plan list \<Rightarrow> visibility \<Rightarrow> boot_error + provider_map" where
  "link_providers rf mods vis =
     (let pm0 = provider_entries mods in
      case canonical_cache pm0 vis of Inl e \<Rightarrow> Inl e | Inr cache \<Rightarrow>
      case fold_err (link_plan rf mods vis cache) pm0 pm0 of Inl e \<Rightarrow> Inl e | Inr pm1 \<Rightarrow>
      case fold_err (link_interceptors rf vis cache) pm1 pm1 of Inl e \<Rightarrow> Inl e | Inr pm2 \<Rightarrow>
      fold_err link_alias pm2 pm2)"

text \<open>\<open>None\<close> is a graph pass that ran out of fuel, which the lemmas exclude.\<close>

definition check_graph :: "edges \<Rightarrow> provider_map \<Rightarrow> module_plan list \<Rightarrow> (boot_error + provider_ref list) option" where
  "check_graph es pm mods =
     (case validate_provider_cycles es pm of None \<Rightarrow> None | Some (Inl e) \<Rightarrow> Some (Inl e) | Some (Inr u) \<Rightarrow>
      case validate_scope_paths es pm of None \<Rightarrow> None | Some (Inl e) \<Rightarrow> Some (Inl e) | Some (Inr u') \<Rightarrow>
      map_option Inr (provider_order es mods))"

definition final_module :: "provider_map \<Rightarrow> module_plan \<Rightarrow> boot_error + module_plan" where
  "final_module pm m =
     (case all_ok (map (\<lambda>p. plan_of pm (pp_key p)) (ml_providers m)) of Inl e \<Rightarrow> Inl e | Inr ps \<Rightarrow> Inr (m\<lparr>ml_providers := ps\<rparr>))"

definition link_graph :: "reflection \<Rightarrow> module_id \<Rightarrow> module_plan list \<Rightarrow> (boot_error + compiled_graph) option" where
  "link_graph rf root mods =
     (case compile_visibility mods of Inl e \<Rightarrow> Some (Inl e) | Inr vis \<Rightarrow>
      case link_providers rf mods vis of Inl e \<Rightarrow> Some (Inl e) | Inr pm \<Rightarrow>
      case provider_edges vis pm of Inl e \<Rightarrow> Some (Inl e) | Inr es \<Rightarrow>
      case check_graph es pm mods of None \<Rightarrow> None | Some (Inl e) \<Rightarrow> Some (Inl e) | Some (Inr ord) \<Rightarrow>
      case all_ok (map (final_module pm) mods) of Inl e \<Rightarrow> Some (Inl e) | Inr ms \<Rightarrow>
      Some (Inr \<lparr>cg_root = root, cg_modules = ms, cg_providers = pm, cg_visibility = vis, cg_provider_order = ord\<rparr>))"

definition finish_graph :: "reflection \<Rightarrow> compiler_options \<Rightarrow> module_id \<Rightarrow> compiler \<Rightarrow> (boot_error + compiled_graph) option" where
  "finish_graph rf opt root co =
     (case all_ok (map (plan_module rf co) (co_order co)) of Inl e \<Rightarrow> Some (Inl e) | Inr mods0 \<Rightarrow>
      case add_fallbacks rf opt root mods0 of Inl e \<Rightarrow> Some (Inl e) | Inr mods \<Rightarrow>
      link_graph rf root mods)"

definition compile_graph :: "nat \<Rightarrow> reflection \<Rightarrow> compiler_options \<Rightarrow> module_import arg \<Rightarrow> (boot_error + compiled_graph) option" where
  "compile_graph n rf opt root =
     (case ensure_import rf opt root new_compiler of Inl e \<Rightarrow> Some (Inl e) | Inr (mid, co) \<Rightarrow>
      case module_visit n rf opt [] mid co of None \<Rightarrow> None | Some (Inl e) \<Rightarrow> Some (Inl e) | Some (Inr co') \<Rightarrow>
      finish_graph rf opt mid co')"

end
