(* ===== verification/DI_Linking.thy ===== *)
theory DI_Linking
  imports DI_Compiler
begin

text \<open>
  Dependency injection: what the compiled graph guarantees.

  The lemmas follow \<open>_finish\<close>: every reference that visibility resolves to is the key of a plan and
  has the token that was asked for, the canonical cache maps every key to a plan that is no alias,
  and each of the three linking loops keeps the keys and sets the fields it is meant to set. They
  are put together in \<open>link_graph_wf\<close>: the graph a successful compilation returns is well formed.
\<close>

section \<open>Keys\<close>

definition module_keys :: "module_plan list \<Rightarrow> provider_ref set" where
  "module_keys mods = pp_key ` set (concat (map ml_providers mods))"

lemma local_keys_in: "m \<in> set mods \<Longrightarrow> r \<in> set (local_keys m t) \<Longrightarrow> r \<in> module_keys mods \<and> pr_token r = t"
  by (auto simp: local_keys_def module_keys_def)

lemma local_ref_in: "m \<in> set mods \<Longrightarrow> local_ref m t = Some r \<Longrightarrow> r \<in> module_keys mods \<and> pr_token r = t"
  by (force simp: local_ref_def module_keys_def dest!: find_SomeD)

lemma all_ok_concat:
  assumes "all_ok (map f xs) = Inr css" "\<forall>x\<in>set xs. \<forall>cs. f x = Inr cs \<longrightarrow> (\<forall>r\<in>set cs. P r)"
  shows "\<forall>r\<in>set (concat css). P r"
proof -
  have "map f xs = map Inr css" using all_ok_Inr [OF assms(1)] .
  then have "\<forall>cs\<in>set css. \<exists>x\<in>set xs. f x = Inr cs" by (metis imageE image_eqI list.set_map)
  then show ?thesis using assms(2) by auto
qed

lemma module_export_candidates_in:
  "module_export_candidates mods t path mid = Inr cs \<Longrightarrow> \<forall>r\<in>set cs. r \<in> module_keys mods \<and> pr_token r = t"
proof (induction mods t path mid arbitrary: cs rule: module_export_candidates.induct)
  case (1 mods t path mid)
  show ?case
  proof (cases "mid \<in> set path")
    case True
    then show ?thesis using 1(2) by (simp add: module_export_candidates.simps)
  next
    case False
    then obtain m where m: "module_plan_of mods mid = Inr m"
      using 1(2) by (subst (asm) module_export_candidates.simps) (auto split: sum.splits)
    consider "t \<notin> set (ml_exports m)" | "t \<in> set (ml_exports m)" "local_keys m t \<noteq> []" | "t \<in> set (ml_exports m)" "local_keys m t = []"
      by blast
    then show ?thesis
    proof cases
      case 1
      then show ?thesis using 1 \<open>module_export_candidates mods t path mid = Inr cs\<close> False m
        by (subst (asm) module_export_candidates.simps) simp
    next
      case 2
      then have "cs = local_keys m t" using 1(2) False m by (subst (asm) module_export_candidates.simps) simp
      then show ?thesis using local_keys_in [of m mods] module_plan_of_Inr [OF m] by blast
    next
      case 3
      then obtain css where css: "all_ok (map (module_export_candidates mods t (path @ [mid])) (ml_imports m)) = Inr css" "cs = from_keys (concat css)"
        using 1(2) False m by (subst (asm) module_export_candidates.simps) (auto split: sum.splits)
      have "\<forall>i\<in>set (ml_imports m). \<forall>cs. module_export_candidates mods t (path @ [mid]) i = Inr cs \<longrightarrow> (\<forall>r\<in>set cs. r \<in> module_keys mods \<and> pr_token r = t)"
        using 1(1) [OF False m] 3 by blast
      then show ?thesis using all_ok_concat [OF css(1)] css(2) by simp
    qed
  qed
qed

lemma direct_export_candidates_in:
  "direct_export_candidates mods t mid = Inr cs \<Longrightarrow> \<forall>r\<in>set cs. r \<in> module_keys mods \<and> pr_token r = t"
proof -
  assume a: "direct_export_candidates mods t mid = Inr cs"
  then obtain m where m: "module_plan_of mods mid = Inr m" by (auto simp: direct_export_candidates_def split: sum.splits)
  then obtain css where css: "all_ok (map (module_export_candidates mods t [mid]) (from_keys (ml_imports m))) = Inr css" "cs = from_keys (concat css)"
    using a by (auto simp: direct_export_candidates_def split: sum.splits)
  have "\<forall>r\<in>set (concat css). r \<in> module_keys mods \<and> pr_token r = t"
    by (rule all_ok_concat [OF css(1)]) (use module_export_candidates_in in blast)
  then show ?thesis using css(2) by simp
qed

lemma global_candidates_in:
  "global_candidates mods t = Inr cs \<Longrightarrow> \<forall>r\<in>set cs. r \<in> module_keys mods \<and> pr_token r = t"
proof -
  assume a: "global_candidates mods t = Inr cs"
  then obtain css where css: "all_ok (map (\<lambda>g. module_export_candidates mods t [] (ml_module_id g)) (filter ml_global mods)) = Inr css" "cs = concat css"
    by (auto simp: global_candidates_def split: sum.splits)
  have "\<forall>r\<in>set (concat css). r \<in> module_keys mods \<and> pr_token r = t"
    by (rule all_ok_concat [OF css(1)]) (use module_export_candidates_in in blast)
  then show ?thesis using css(2) by simp
qed

lemma resolve_visible_in:
  assumes "resolve_visible mods mid t = Inr r"
  shows "r \<in> module_keys mods \<and> pr_token r = t"
proof -
  obtain m where m: "module_plan_of mods mid = Inr m" using assms by (auto simp: resolve_visible_def split: sum.splits)
  show ?thesis
  proof (cases "local_ref m t")
    case (Some r')
    then show ?thesis using assms m local_ref_in [of m mods t r'] module_plan_of_Inr [OF m] by (simp add: resolve_visible_def)
  next
    case None
    then obtain direct where d: "direct_export_candidates mods t mid = Inr direct"
      using assms m by (auto simp: resolve_visible_def split: sum.splits)
    show ?thesis
    proof (cases "direct = []")
      case True
      then obtain gs where g: "global_candidates mods t = Inr gs" "gs \<noteq> []" "r = hd gs"
        using assms m None d by (auto simp: resolve_visible_def split: sum.splits if_splits)
      then show ?thesis using global_candidates_in [OF g(1)] by simp
    next
      case False
      then have "r = hd direct" using assms m None d by (auto simp: resolve_visible_def split: if_splits)
      then show ?thesis using direct_export_candidates_in [OF d] False by simp
    qed
  qed
qed

definition visibility_ok :: "provider_ref set \<Rightarrow> visibility \<Rightarrow> bool" where
  [inv_defs]: "visibility_ok K vis \<longleftrightarrow> (\<forall>mid t r. map_of vis (mid, t) = Some r \<longrightarrow> r \<in> K \<and> pr_token r = t)"

lemma visibility_ok_update: "visibility_ok K vis \<Longrightarrow> r \<in> K \<Longrightarrow> pr_token r = t \<Longrightarrow> visibility_ok K (AList.update (mid, t) r vis)"
  by (auto simp: visibility_ok_def update_conv')

lemma module_visibility_ok:
  assumes "module_visibility mods mid vis = Inr vis'" "visibility_ok (module_keys mods) vis"
  shows "visibility_ok (module_keys mods) vis'"
proof -
  obtain ts where f: "fold_err (\<lambda>t v. case resolve_visible mods mid t of Inl e \<Rightarrow> Inl e | Inr r \<Rightarrow> Inr (AList.update (mid, t) r v)) ts vis = Inr vis'"
    using assms(1) by (auto simp: module_visibility_def split: sum.splits)
  show ?thesis
    by (rule fold_err_inv [where P = "visibility_ok (module_keys mods)", OF f assms(2)])
      (auto split: sum.splits intro!: visibility_ok_update dest: resolve_visible_in)
qed

lemma compile_visibility_ok:
  assumes "compile_visibility mods = Inr vis"
  shows "visibility_ok (module_keys mods) vis"
proof (rule fold_err_inv [where P = "visibility_ok (module_keys mods)", OF assms [unfolded compile_visibility_def]])
  show "visibility_ok (module_keys mods) []" by (simp add: visibility_ok_def)
  show "\<forall>mid vis vis'. mid \<in> set (map ml_module_id mods) \<longrightarrow> visibility_ok (module_keys mods) vis \<longrightarrow>
      module_visibility mods mid vis = Inr vis' \<longrightarrow> visibility_ok (module_keys mods) vis'"
    using module_visibility_ok by blast
qed

lemma visible_ref_in:
  "visible_ref mods vis mid t = Inr r \<Longrightarrow> visibility_ok (module_keys mods) vis \<Longrightarrow> r \<in> module_keys mods \<and> pr_token r = t"
  by (auto simp: visible_ref_def visibility_ok_def split: option.splits dest: resolve_visible_in)

text \<open>The compiled visibility is what \<open>_resolve_visible\<close> answers, for every module and token it has an answer for.\<close>

definition visibility_exact :: "module_plan list \<Rightarrow> visibility \<Rightarrow> bool" where
  "visibility_exact mods vis \<longleftrightarrow> (\<forall>mid t r. map_of vis (mid, t) = Some r \<longrightarrow> resolve_visible mods mid t = Inr r)"

lemma visibility_fold:
  assumes "fold_err (\<lambda>t v. case resolve_visible mods mid t of Inl e \<Rightarrow> Inl e | Inr r \<Rightarrow> Inr (AList.update (mid, t) r v)) ts vis = Inr vis'"
    and "visibility_exact mods vis"
  shows "visibility_exact mods vis' \<and> fst ` set vis \<union> Pair mid ` set ts \<subseteq> fst ` set vis'"
  using assms
proof (induction ts arbitrary: vis)
  case (Cons t ts)
  obtain r where r: "resolve_visible mods mid t = Inr r"
    and rest: "fold_err (\<lambda>t v. case resolve_visible mods mid t of Inl e \<Rightarrow> Inl e | Inr r \<Rightarrow> Inr (AList.update (mid, t) r v)) ts
      (AList.update (mid, t) r vis) = Inr vis'"
    using Cons(2) by (auto split: sum.splits)
  have "visibility_exact mods (AList.update (mid, t) r vis)"
    using Cons(3) r by (auto simp: visibility_exact_def update_conv')
  then have "visibility_exact mods vis' \<and> fst ` set (AList.update (mid, t) r vis) \<union> Pair mid ` set ts \<subseteq> fst ` set vis'"
    by (rule Cons(1) [OF rest])
  then show ?case by (auto simp: dom_update)
qed simp

lemma module_visibility_exact:
  assumes "module_visibility mods mid vis = Inr vis'" "visibility_exact mods vis"
  shows "visibility_exact mods vis' \<and> fst ` set vis \<subseteq> fst ` set vis' \<and>
    (\<exists>ts. visible_tokens mods mid = Inr ts \<and> Pair mid ` set ts \<subseteq> fst ` set vis')"
  using assms visibility_fold [OF _ assms(2)] by (auto simp: module_visibility_def split: sum.splits)

lemma visibility_modules:
  assumes "fold_err (module_visibility mods) mids vis = Inr vis'" "visibility_exact mods vis"
  shows "visibility_exact mods vis' \<and> fst ` set vis \<subseteq> fst ` set vis' \<and>
    (\<forall>mid\<in>set mids. \<exists>ts. visible_tokens mods mid = Inr ts \<and> Pair mid ` set ts \<subseteq> fst ` set vis')"
  using assms
proof (induction mids arbitrary: vis)
  case (Cons mid mids)
  obtain vis1 where v: "module_visibility mods mid vis = Inr vis1" "fold_err (module_visibility mods) mids vis1 = Inr vis'"
    using Cons(2) by (auto split: sum.splits)
  obtain ts where m: "visibility_exact mods vis1" "fst ` set vis \<subseteq> fst ` set vis1" "visible_tokens mods mid = Inr ts" "Pair mid ` set ts \<subseteq> fst ` set vis1"
    using module_visibility_exact [OF v(1) Cons(3)] by blast
  have k: "visibility_exact mods vis'" "fst ` set vis1 \<subseteq> fst ` set vis'"
    "\<forall>mid\<in>set mids. \<exists>ts. visible_tokens mods mid = Inr ts \<and> Pair mid ` set ts \<subseteq> fst ` set vis'"
    using Cons(1) [OF v(2) m(1)] by simp_all
  have "Pair mid ` set ts \<subseteq> fst ` set vis'" "fst ` set vis \<subseteq> fst ` set vis'" using m(2,4) k(2) by simp_all
  then show ?case using k(1,3) m(3) by simp
qed simp

lemma candidates_exported:
  assumes "module_export_candidates mods t path mid = Inr cs" "cs \<noteq> []"
  shows "\<exists>m. module_plan_of mods mid = Inr m \<and> t \<in> set (ml_exports m)"
  using assms by (subst (asm) module_export_candidates.simps) (auto split: if_splits sum.splits)

lemma all_ok_nonempty:
  assumes "all_ok (map f xs) = Inr css" "concat css \<noteq> []"
  shows "\<exists>x\<in>set xs. \<exists>cs. f x = Inr cs \<and> cs \<noteq> []"
proof -
  have eq: "map f xs = map Inr css" using all_ok_Inr [OF assms(1)] .
  obtain cs where cs: "cs \<in> set css" "cs \<noteq> []" using assms(2) by auto
  then have "Inr cs \<in> set (map f xs)" unfolding eq by simp
  then obtain x where "x \<in> set xs" "f x = Inr cs" by (auto simp: eq_commute)
  then show ?thesis using cs(2) by blast
qed

lemma all_ok_image:
  assumes "all_ok (map f xs) = Inr ys" "x \<in> set xs" "f x = Inr y"
  shows "y \<in> set ys"
proof -
  have "Inr y \<in> set (map f xs)" using assms(2,3) by force
  then show ?thesis unfolding all_ok_Inr [OF assms(1)] by auto
qed

text \<open>A token that resolves is local, exported by an import, or exported by a global module.\<close>

lemma resolved_token_listed:
  assumes d: "distinct (map ml_module_id mods)" and r: "resolve_visible mods mid t = Inr r" and ts: "visible_tokens mods mid = Inr ts"
  shows "t \<in> set ts"
proof -
  obtain m where m: "module_plan_of mods mid = Inr m" using r by (auto simp: resolve_visible_def split: sum.splits)
  obtain ims where ims: "all_ok (map (module_plan_of mods) (ml_imports m)) = Inr ims"
    using ts m by (auto simp: visible_tokens_def split: sum.splits)
  then have ts': "set ts = (\<lambda>p. pr_token (pp_key p)) ` set (ml_providers m) \<union> (\<Union>i\<in>set ims. set (ml_exports i)) \<union>
      (\<Union>g\<in>set (filter ml_global mods). set (ml_exports g))"
    using ts m by (auto simp: visible_tokens_def)
  show ?thesis
  proof (cases "local_ref m t")
    case (Some x)
    then obtain p where "p \<in> set (ml_providers m)" "pr_token (pp_key p) = t" by (auto simp: local_ref_def dest!: find_SomeD)
    then show ?thesis unfolding ts' by blast
  next
    case None
    then obtain direct where di: "direct_export_candidates mods t mid = Inr direct"
      using r m by (auto simp: resolve_visible_def split: sum.splits)
    show ?thesis
    proof (cases "direct = []")
      case False
      obtain css where css: "all_ok (map (module_export_candidates mods t [mid]) (from_keys (ml_imports m))) = Inr css" "direct = from_keys (concat css)"
        using di m by (auto simp: direct_export_candidates_def split: sum.splits)
      have "set (concat css) \<noteq> {}" using False css(2) set_from_keys [of "concat css"] by (metis set_empty)
      then have "concat css \<noteq> []" by auto
      then obtain i cs where i: "i \<in> set (ml_imports m)" "module_export_candidates mods t [mid] i = Inr cs" "cs \<noteq> []"
        using all_ok_nonempty [OF css(1)] by auto
      obtain im where im: "module_plan_of mods i = Inr im" "t \<in> set (ml_exports im)" using candidates_exported [OF i(2,3)] by blast
      have "im \<in> set ims" by (rule all_ok_image [OF ims i(1) im(1)])
      then show ?thesis using im(2) unfolding ts' by blast
    next
      case True
      then obtain gs where gs: "global_candidates mods t = Inr gs" "gs \<noteq> []"
        using r m None di by (auto simp: resolve_visible_def split: sum.splits if_splits)
      then obtain css where css: "all_ok (map (\<lambda>g. module_export_candidates mods t [] (ml_module_id g)) (filter ml_global mods)) = Inr css"
        "concat css \<noteq> []" by (auto simp: global_candidates_def split: sum.splits)
      obtain g cs where g: "g \<in> set (filter ml_global mods)" "module_export_candidates mods t [] (ml_module_id g) = Inr cs" "cs \<noteq> []"
        using all_ok_nonempty [OF css] by auto
      obtain g' where g': "module_plan_of mods (ml_module_id g) = Inr g'" "t \<in> set (ml_exports g')" using candidates_exported [OF g(2,3)] by blast
      have "g' = g" using module_plan_of_Inr [OF g'(1)] g(1) d by (auto simp: distinct_map inj_on_def)
      then show ?thesis using g(1) g'(2) unfolding ts' by blast
    qed
  qed
qed

lemma visibility_complete:
  assumes "compile_visibility mods = Inr vis" "distinct (map ml_module_id mods)" "resolve_visible mods mid t = Inr r"
  shows "map_of vis (mid, t) = Some r"
proof -
  have e: "visibility_exact mods vis" "\<forall>mid\<in>set (map ml_module_id mods). \<exists>ts. visible_tokens mods mid = Inr ts \<and> Pair mid ` set ts \<subseteq> fst ` set vis"
    using visibility_modules [OF assms(1) [unfolded compile_visibility_def]] by (simp_all add: visibility_exact_def)
  obtain m where "module_plan_of mods mid = Inr m" using assms(3) by (auto simp: resolve_visible_def split: sum.splits)
  then have "mid \<in> set (map ml_module_id mods)" using module_plan_of_Inr by fastforce
  then obtain ts where ts: "visible_tokens mods mid = Inr ts" "Pair mid ` set ts \<subseteq> fst ` set vis" using e(2) by blast
  then have "(mid, t) \<in> fst ` set vis" using resolved_token_listed [OF assms(2,3)] by blast
  then obtain r' where r': "map_of vis (mid, t) = Some r'" using map_of_eq_None_iff [of vis "(mid, t)"] by auto
  then show ?thesis using e(1) assms(3) by (auto simp: visibility_exact_def)
qed

lemma visible_ref_compiled:
  assumes "compile_visibility mods = Inr vis" "distinct (map ml_module_id mods)" "visible_ref mods vis mid t = Inr r"
  shows "map_of vis (mid, t) = Some r"
  using assms(3) visibility_complete [OF assms(1,2)] by (auto simp: visible_ref_def split: option.splits)

section \<open>The provider map\<close>

lemma update_keys_same: "k \<in> set (map fst al) \<Longrightarrow> map fst (AList.update k v al) = map fst al"
  by (simp add: update_keys)

definition put_plan :: "provider_plan \<Rightarrow> provider_map \<Rightarrow> provider_map" where
  "put_plan p = AList.update (pp_key p) p"

lemma put_plan:
  "distinct (map fst al) \<Longrightarrow> distinct (map fst (put_plan p al))"
  "set (map fst (put_plan p al)) = insert (pp_key p) (set (map fst al))"
  "map_of (put_plan p al) = (map_of al)(pp_key p \<mapsto> p)"
  unfolding put_plan_def by (rule distinct_update, assumption) (auto simp: update_keys update_conv')

lemma put_plans_keys: "set (map fst (fold put_plan ps al)) = set (map fst al) \<union> pp_key ` set ps"
proof (induction ps arbitrary: al)
  case (Cons p ps)
  show ?case unfolding fold_Cons comp_def Cons put_plan(2) by auto
qed simp

lemma put_plans_distinct: "distinct (map fst al) \<Longrightarrow> distinct (map fst (fold put_plan ps al))"
  by (induction ps arbitrary: al) (simp_all add: put_plan(1) del: distinct_map)

lemma put_plans_key:
  "map_of (fold put_plan ps al) r = Some p \<Longrightarrow> map_of al r = Some p \<or> (pp_key p = r \<and> p \<in> set ps)"
proof (induction ps arbitrary: al)
  case (Cons q ps)
  then have "map_of (put_plan q al) r = Some p \<or> (pp_key p = r \<and> p \<in> set ps)" by simp
  then show ?case by (auto simp: put_plan(3) split: if_splits)
qed simp

lemma provider_entries_put: "provider_entries mods = fold put_plan (concat (map ml_providers mods)) []"
  by (simp add: provider_entries_def put_plan_def [abs_def])

lemma provider_entries_distinct: "distinct (map fst (provider_entries mods))"
  unfolding provider_entries_put by (rule put_plans_distinct) simp

lemma provider_entries_keys: "set (map fst (provider_entries mods)) = module_keys mods"
  unfolding provider_entries_put module_keys_def put_plans_keys by simp

lemma provider_entries_plan:
  "map_of (provider_entries mods) r = Some p \<Longrightarrow> pp_key p = r \<and> p \<in> set (concat (map ml_providers mods))"
  unfolding provider_entries_put by (drule put_plans_key) simp

section \<open>Canonical providers\<close>

text \<open>
  A cached reference stands for a plan that is no alias; one that is no alias stands for itself,
  and an alias for what its target stands for.
\<close>

definition entry_ok :: "provider_map \<Rightarrow> visibility \<Rightarrow> (provider_ref \<rightharpoonup> provider_ref) \<Rightarrow> provider_ref \<Rightarrow> provider_ref \<Rightarrow> bool" where
  "entry_ok pm vis cache r c \<longleftrightarrow>
     (\<exists>p. map_of pm c = Some p \<and> \<not> is_alias (pp_declaration p)) \<and>
     (\<forall>p. map_of pm r = Some p \<longrightarrow> \<not> is_alias (pp_declaration p) \<longrightarrow> c = r) \<and>
     (\<forall>p t u. map_of pm r = Some p \<longrightarrow> pp_declaration p = AliasProvider t u \<longrightarrow>
        (\<exists>target. map_of vis (pr_module_id r, u) = Some target \<and> cache target = Some c))"

definition cache_ok :: "provider_map \<Rightarrow> visibility \<Rightarrow> (provider_ref \<rightharpoonup> provider_ref) \<Rightarrow> bool" where
  [inv_defs]: "cache_ok pm vis cache \<longleftrightarrow> (\<forall>r c. cache r = Some c \<longrightarrow> entry_ok pm vis cache r c)"

lemma cache_ok_entry: "cache_ok pm vis cache \<Longrightarrow> cache r = Some c \<Longrightarrow> entry_ok pm vis cache r c"
  by (simp add: cache_ok_def)

lemma entry_okD:
  assumes "entry_ok pm vis cache r c"
  shows "\<exists>p. map_of pm c = Some p \<and> \<not> is_alias (pp_declaration p)"
    and "map_of pm r = Some p \<Longrightarrow> \<not> is_alias (pp_declaration p) \<Longrightarrow> c = r"
    and "map_of pm r = Some p \<Longrightarrow> pp_declaration p = AliasProvider t u \<Longrightarrow>
      \<exists>target. map_of vis (pr_module_id r, u) = Some target \<and> cache target = Some c"
  using assms by (simp_all add: entry_ok_def)

lemmas cache_okD = entry_okD [OF cache_ok_entry]

lemma entry_ok_grow:
  assumes "entry_ok pm vis cache r c" and grow: "\<And>y. cache y = Some c \<Longrightarrow> cache' y = Some c"
  shows "entry_ok pm vis cache' r c"
proof -
  have "\<exists>target. map_of vis (pr_module_id r, u) = Some target \<and> cache' target = Some c"
    if p: "map_of pm r = Some p" and d: "pp_declaration p = AliasProvider t u" for p t u
  proof -
    obtain target where "map_of vis (pr_module_id r, u) = Some target" "cache target = Some c"
      using entry_okD(3) [OF assms(1) p d] by blast
    then show ?thesis using grow [of target] by simp
  qed
  then show ?thesis using assms(1) unfolding entry_ok_def by simp
qed

lemma cache_ok_put:
  assumes ok: "cache_ok pm vis cache" and new: "cache r = None" and ent: "entry_ok pm vis cache r c"
  shows "cache_ok pm vis (cache(r \<mapsto> c))"
  unfolding cache_ok_def
proof (intro allI impI)
  fix x y assume a: "(cache(r \<mapsto> c)) x = Some y"
  have grow: "(cache(r \<mapsto> c)) z = Some y" if "cache z = Some y" for z using that new by auto
  have "entry_ok pm vis cache x y"
  proof (cases "x = r")
    case True
    then show ?thesis using a ent by simp
  next
    case False
    then show ?thesis using a cache_ok_entry [OF ok] by simp
  qed
  then show "entry_ok pm vis (cache(r \<mapsto> c)) x y" by (rule entry_ok_grow) (rule grow)
qed

text \<open>The references on the stack are aliases, and a call adds none of them to the cache.\<close>

definition stack_ok :: "provider_map \<Rightarrow> provider_ref list \<Rightarrow> bool" where
  "stack_ok pm stack \<longleftrightarrow> (\<forall>x\<in>set stack. \<exists>p. map_of pm x = Some p \<and> is_alias (pp_declaration p))"

lemma canonical_provider_ok:
  "canonical_provider pm vis stack r cache = Inr (c, cache') \<Longrightarrow> cache_ok pm vis cache \<Longrightarrow> stack_ok pm stack \<Longrightarrow>
   cache_ok pm vis cache' \<and> cache' r = Some c \<and> dom cache \<subseteq> dom cache' \<and> (\<forall>x\<in>set stack. cache x = None \<longrightarrow> cache' x = None)"
proof (induction pm vis stack r cache arbitrary: c cache' rule: canonical_provider.induct)
  case (1 pm vis stack r cache)
  show ?case
  proof (cases "cache r")
    case (Some c0)
    then show ?thesis using 1(2,3) by (simp add: canonical_provider.simps)
  next
    case None
    then obtain p where p: "map_of pm r = Some p"
      using 1(2) by (subst (asm) canonical_provider.simps) (auto split: option.splits)
    show ?thesis
    proof (cases "is_alias (pp_declaration p)")
      case False
      then have c: "c = r" "cache' = cache(r \<mapsto> r)"
        using 1(2) None p by (subst (asm) canonical_provider.simps, auto split: provider_declaration.splits)+
      have "r \<notin> set stack" using 1(4) p False by (auto simp: stack_ok_def)
      moreover have "entry_ok pm vis cache r r" using p False by (auto simp: entry_ok_def)
      then have "cache_ok pm vis (cache(r \<mapsto> r))" by (rule cache_ok_put [OF 1(3) None])
      ultimately show ?thesis unfolding c by (intro conjI) (assumption, auto)
    next
      case True
      then obtain t u where d: "pp_declaration p = AliasProvider t u" by (cases "pp_declaration p") auto
      obtain target where tg: "map_of vis (pr_module_id r, u) = Some target" "\<not> (r \<in> set stack \<or> target \<in> set stack)"
        using 1(2) None p d by (subst (asm) canonical_provider.simps) (auto split: option.splits if_splits)
      obtain cache1 where c1: "canonical_provider pm vis (stack @ [r]) target cache = Inr (c, cache1)" "cache' = cache1(r \<mapsto> c)"
        using 1(2) None p d tg by (subst (asm) canonical_provider.simps) (auto split: sum.splits)
      have st: "stack_ok pm (stack @ [r])" using 1(4) p True by (simp add: stack_ok_def)
      have ih: "cache_ok pm vis cache1" "cache1 target = Some c" "dom cache \<subseteq> dom cache1" "\<forall>x\<in>set (stack @ [r]). cache x = None \<longrightarrow> cache1 x = None"
        using 1(1) [OF None p d tg c1(1) 1(3) st] by auto
      have new: "cache1 r = None" using ih(4) None by simp
      have "entry_ok pm vis cache1 r c"
        using p d tg(1) ih(2) cache_okD(1) [OF ih(1,2)] by (simp add: entry_ok_def)
      then have "cache_ok pm vis (cache1(r \<mapsto> c))" by (rule cache_ok_put [OF ih(1) new])
      then show ?thesis unfolding c1(2) using ih(3,4) tg(2) by (intro conjI) (assumption, auto)
    qed
  qed
qed

lemma fold_canonical:
  assumes "fold_err (\<lambda>r cache. case canonical_provider pm vis [] r cache of Inl e \<Rightarrow> Inl e | Inr (c, cache') \<Rightarrow> Inr (cache'(r \<mapsto> c))) rs cache0 = Inr cache"
    and "cache_ok pm vis cache0"
  shows "cache_ok pm vis cache \<and> set rs \<union> dom cache0 \<subseteq> dom cache"
  using assms
proof (induction rs arbitrary: cache0)
  case (Cons r rs)
  obtain c cache1 where c: "canonical_provider pm vis [] r cache0 = Inr (c, cache1)"
    and rest: "fold_err (\<lambda>r cache. case canonical_provider pm vis [] r cache of Inl e \<Rightarrow> Inl e | Inr (c, cache') \<Rightarrow> Inr (cache'(r \<mapsto> c))) rs (cache1(r \<mapsto> c)) = Inr cache"
    using Cons(2) by (auto split: sum.splits)
  have k: "cache_ok pm vis cache1" "cache1 r = Some c" "dom cache0 \<subseteq> dom cache1"
    using canonical_provider_ok [OF c Cons(3)] by (auto simp: stack_ok_def)
  then have same: "cache1(r \<mapsto> c) = cache1" by auto
  have all: "cache_ok pm vis cache \<and> set rs \<union> dom cache1 \<subseteq> dom cache" using Cons(1) [OF rest] k(1) unfolding same by blast
  moreover have "r \<in> dom cache1" using k(2) by blast
  ultimately have "set (r # rs) \<union> dom cache0 \<subseteq> dom cache" using k(3) by (simp only: list.set) blast
  then show ?case using all by blast
qed auto

lemma canonical_cache_ok:
  assumes "canonical_cache pm vis = Inr cache"
  shows "cache_ok pm vis cache" "set (map fst pm) \<subseteq> dom cache"
  using fold_canonical [OF assms [unfolded canonical_cache_def]] by (auto simp: cache_ok_def)

section \<open>The linking loops\<close>

text \<open>
  Each loop walks over a copy of the items of the map and may replace the plan at the key it is
  at. \<open>I\<close> is what the loop keeps, \<open>Q\<close> what it establishes at a key.
\<close>

lemma linking_loop:
  assumes "fold_err f items pm = Inr pm'" "distinct (map fst items)" "\<forall>(r, p)\<in>set items. map_of pm r = Some p" "I pm"
    and step: "\<forall>r p s s'. (r, p) \<in> set items \<longrightarrow> map_of s r = Some p \<longrightarrow> I s \<longrightarrow> f (r, p) s = Inr s' \<longrightarrow>
      (\<exists>q. map_of s' = (map_of s)(r \<mapsto> q) \<and> map fst s' = map fst s \<and> Q r p q \<and> I s')"
  shows "map fst pm' = map fst pm \<and> I pm' \<and> (\<forall>(r, p)\<in>set items. \<exists>q. map_of pm' r = Some q \<and> Q r p q) \<and>
    (\<forall>r. r \<notin> fst ` set items \<longrightarrow> map_of pm' r = map_of pm r)"
  using assms
proof (induction items arbitrary: pm)
  case (Cons rp items)
  obtain r p where rp: "rp = (r, p)" by (cases rp)
  obtain s' where s': "f (r, p) pm = Inr s'" "fold_err f items s' = Inr pm'" using Cons(2) by (auto simp: rp split: sum.splits)
  have pr: "map_of pm r = Some p" using Cons(4) by (simp add: rp)
  obtain q where q: "map_of s' = (map_of pm)(r \<mapsto> q)" "map fst s' = map fst pm" "Q r p q" "I s'"
    using Cons(6) [rule_format, OF _ pr Cons(5) s'(1)] by (auto simp: rp)
  have notin: "r \<notin> fst ` set items" using Cons(3) by (simp add: rp)
  have dist: "distinct (map fst items)" using Cons(3) by simp
  have items: "\<forall>(r', p')\<in>set items. map_of s' r' = Some p'"
  proof (intro ballI, clarify)
    fix r' p' assume "(r', p') \<in> set items"
    moreover from this have "r' \<noteq> r" using notin by force
    ultimately show "map_of s' r' = Some p'" using Cons(4) q(1) by auto
  qed
  have step': "\<forall>r p s s'. (r, p) \<in> set items \<longrightarrow> map_of s r = Some p \<longrightarrow> I s \<longrightarrow> f (r, p) s = Inr s' \<longrightarrow>
      (\<exists>q. map_of s' = (map_of s)(r \<mapsto> q) \<and> map fst s' = map fst s \<and> Q r p q \<and> I s')"
    using Cons(6) by (meson list.set_intros(2))
  note ih = Cons(1) [OF s'(2) dist items q(4) step']
  have "map_of pm' r = Some q" using ih notin q(1) by auto
  then show ?case using ih q by (auto simp: rp)
qed simp

lemma distinct_items: "distinct (map fst pm) \<Longrightarrow> \<forall>(r, p)\<in>set pm. map_of pm r = Some p"
  by auto

lemma map_update:
  assumes "map_of s r = Some p"
  shows "map_of (AList.update r q s) = (map_of s)(r \<mapsto> q)" "map fst (AList.update r q s) = map fst s"
proof -
  have "r \<in> set (map fst s)" using map_of_SomeD [OF assms] by force
  then show "map_of (AList.update r q s) = (map_of s)(r \<mapsto> q)" "map fst (AList.update r q s) = map fst s"
    by (simp_all add: update_conv' update_keys)
qed

lemma map_same: "map_of s r = Some p \<Longrightarrow> map_of s = (map_of s)(r \<mapsto> p)"
  by auto

text \<open>What the first loop establishes: dependencies and the canonical plan.\<close>

definition linked ::
  "reflection \<Rightarrow> module_plan list \<Rightarrow> visibility \<Rightarrow> provider_map \<Rightarrow> (provider_ref \<rightharpoonup> provider_ref) \<Rightarrow> provider_ref \<Rightarrow> provider_plan
    \<Rightarrow> provider_plan \<Rightarrow> bool" where
  "linked rf mods vis pm cache r p q \<longleftrightarrow>
     (\<exists>c cp deps. cache r = Some c \<and> map_of pm c = Some cp \<and>
       q = p\<lparr>pp_dependencies := deps, pp_scope := pp_scope cp, pp_canonical := c, pp_recipe := compile_recipe rf (pp_declaration p) deps\<rparr> \<and>
       list_all2 (\<lambda>d d'. link_dependency rf mods vis cache (pr_module_id r) d = Inr d') (pp_dependencies p) deps)"

text \<open>Scopes and declarations are those of the unlinked map throughout the loop.\<close>

definition scopes_of :: "provider_map \<Rightarrow> provider_map \<Rightarrow> bool" where
  "scopes_of pm0 s \<longleftrightarrow> (\<forall>r p. map_of s r = Some p \<longrightarrow>
     (\<exists>p0. map_of pm0 r = Some p0 \<and> pp_declaration p = pp_declaration p0 \<and>
       (\<not> is_alias (pp_declaration p0) \<longrightarrow> pp_scope p = pp_scope p0)))"

lemma link_dependency_in:
  assumes "link_dependency rf mods vis cache mid d = Inr d'" "dp_provider_ref d' = Some r"
  shows "r \<in> ran cache"
  using assms by (auto simp: link_dependency_def ran_def split: option.splits if_splits sum.splits)

lemma all_ok_list: "map f xs = map Inr ys \<Longrightarrow> list_all2 (\<lambda>x y. f x = Inr y) xs ys"
  by (simp add: list_all2_conv_all_nth list_eq_iff_nth_eq)

lemma link_plan_step:
  assumes cache: "cache_ok pm0 vis cache" and s: "map_of s r = Some p" "scopes_of pm0 s" and p0: "map_of pm0 r = Some p"
    and f: "link_plan rf mods vis cache (r, p) s = Inr s'"
  shows "\<exists>q. map_of s' = (map_of s)(r \<mapsto> q) \<and> map fst s' = map fst s \<and> linked rf mods vis pm0 cache r p q \<and> scopes_of pm0 s'"
proof -
  obtain deps c cp where o: "all_ok (map (link_dependency rf mods vis cache (pr_module_id r)) (pp_dependencies p)) = Inr deps"
    "cache r = Some c" "map_of s c = Some cp"
    and s': "s' = AList.update r (p\<lparr>pp_dependencies := deps, pp_scope := pp_scope cp, pp_canonical := c,
             pp_recipe := compile_recipe rf (pp_declaration p) deps\<rparr>) s"
    using f by (auto simp: link_plan_def plan_of_def split: sum.splits option.splits)
  obtain c0 where c0: "map_of pm0 c = Some c0" "\<not> is_alias (pp_declaration c0)" using cache_okD(1) [OF cache o(2)] by blast
  have sc: "pp_scope cp = pp_scope c0" using s(2) [unfolded scopes_of_def, rule_format, OF o(3)] c0 by auto
  have self: "\<not> is_alias (pp_declaration p) \<Longrightarrow> c = r" by (rule cache_okD(2) [OF cache o(2) p0])
  have "map (link_dependency rf mods vis cache (pr_module_id r)) (pp_dependencies p) = map Inr deps" using all_ok_Inr [OF o(1)] .
  then have dep: "list_all2 (\<lambda>d d'. link_dependency rf mods vis cache (pr_module_id r) d = Inr d') (pp_dependencies p) deps"
    by (rule all_ok_list)
  let ?q = "p\<lparr>pp_dependencies := deps, pp_scope := pp_scope cp, pp_canonical := c, pp_recipe := compile_recipe rf (pp_declaration p) deps\<rparr>"
  have "linked rf mods vis pm0 cache r p ?q"
    unfolding linked_def by (intro exI [of _ c] exI [of _ c0] exI [of _ deps]) (simp add: o(2) c0(1) sc dep)
  moreover have "scopes_of pm0 s'"
    using s p0 self sc c0 by (auto simp: scopes_of_def s' update_conv')
  ultimately show ?thesis using map_update [OF s(1), of ?q] s' by blast
qed

lemma link_plans:
  assumes "cache_ok pm0 vis cache" "distinct (map fst pm0)" "fold_err (link_plan rf mods vis cache) pm0 pm0 = Inr pm1"
  shows "map fst pm1 = map fst pm0 \<and> (\<forall>(r, p)\<in>set pm0. \<exists>q. map_of pm1 r = Some q \<and> linked rf mods vis pm0 cache r p q)"
proof -
  have "scopes_of pm0 pm0" by (auto simp: scopes_of_def)
  then show ?thesis
    using linking_loop [OF assms(3,2) distinct_items [OF assms(2)], of "scopes_of pm0" "linked rf mods vis pm0 cache"]
      link_plan_step [OF assms(1)] assms(2) by auto
qed

definition same_links :: "provider_plan \<Rightarrow> provider_plan \<Rightarrow> bool" where
  "same_links p q \<longleftrightarrow> pp_key q = pp_key p \<and> pp_declaration q = pp_declaration p \<and> pp_dependencies q = pp_dependencies p \<and>
     pp_scope q = pp_scope p \<and> pp_canonical q = pp_canonical p"

lemma link_interceptors_all:
  assumes "distinct (map fst pm1)" "fold_err (link_interceptors rf vis cache) pm1 pm1 = Inr pm2"
  shows "map fst pm2 = map fst pm1 \<and> (\<forall>(r, p)\<in>set pm1. \<exists>q. map_of pm2 r = Some q \<and> same_links p q \<and> pp_recipe q = pp_recipe p)"
proof -
  let ?Q = "\<lambda>r p q. same_links p q \<and> pp_recipe q = pp_recipe p"
  have "\<exists>q. map_of s' = (map_of s)(r \<mapsto> q) \<and> map fst s' = map fst s \<and> ?Q r p q \<and> True"
    if s: "map_of s r = Some p" and f: "link_interceptors rf vis cache (r, p) s = Inr s'" for r p s s'
  proof (cases "pp_canonical p = r")
    case True
    then obtain ic where "s' = AList.update r (p\<lparr>pp_method_interceptors := ic\<rparr>) s"
      using f by (auto simp: link_interceptors_def split: sum.splits)
    then show ?thesis using map_update [OF s, of "p\<lparr>pp_method_interceptors := ic\<rparr>"] by (auto simp: same_links_def)
  next
    case False
    then have "s' = s" using f by (simp add: link_interceptors_def)
    then show ?thesis using map_same [OF s] by (auto simp: same_links_def)
  qed
  then show ?thesis
    using linking_loop [OF assms(2,1) distinct_items [OF assms(1)], of "\<lambda>s. True" ?Q] by blast
qed

text \<open>The last loop copies from canonical plans, which it does not change.\<close>

definition canonical_same :: "provider_map \<Rightarrow> provider_map \<Rightarrow> bool" where
  "canonical_same pm2 s \<longleftrightarrow> (\<forall>c cp. map_of pm2 c = Some cp \<longrightarrow> pp_canonical cp = c \<longrightarrow> map_of s c = Some cp)"

lemma link_aliases:
  assumes "distinct (map fst pm2)" "fold_err link_alias pm2 pm2 = Inr pm3"
    and canon: "\<forall>(r, p)\<in>set pm2. \<exists>cp. map_of pm2 (pp_canonical p) = Some cp \<and> pp_canonical cp = pp_canonical p"
  shows "map fst pm3 = map fst pm2 \<and> (\<forall>(r, p)\<in>set pm2. \<exists>q. map_of pm3 r = Some q \<and> same_links p q \<and>
    (\<exists>cp. map_of pm2 (pp_canonical p) = Some cp \<and> pp_recipe q = pp_recipe cp))"
proof -
  let ?Q = "\<lambda>r p q. same_links p q \<and> (\<exists>cp. map_of pm2 (pp_canonical p) = Some cp \<and> pp_recipe q = pp_recipe cp)"
  have "\<exists>q. map_of s' = (map_of s)(r \<mapsto> q) \<and> map fst s' = map fst s \<and> ?Q r p q \<and> canonical_same pm2 s'"
    if rp: "(r, p) \<in> set pm2" and s: "map_of s r = Some p" "canonical_same pm2 s" and f: "link_alias (r, p) s = Inr s'" for r p s s'
  proof (cases "pp_canonical p = r")
    case True
    then have "s' = s" using f by (simp add: link_alias_def)
    moreover have "map_of pm2 r = Some p" using rp assms(1) by auto
    ultimately show ?thesis using map_same [OF s(1)] s(2) True by (auto simp: same_links_def)
  next
    case False
    obtain cp where cp: "map_of pm2 (pp_canonical p) = Some cp" "pp_canonical cp = pp_canonical p" using canon rp by auto
    then have "map_of s (pp_canonical p) = Some cp" using s(2) unfolding canonical_same_def by blast
    then have s': "s' = AList.update r (p\<lparr>pp_recipe := pp_recipe cp, pp_proxy := pp_proxy cp, pp_method_interceptors := pp_method_interceptors cp\<rparr>) s"
      (is "s' = AList.update r ?q s") using f False by (simp add: link_alias_def plan_of_def)
    have "map_of pm2 r = Some p" using rp assms(1) by auto
    then have "canonical_same pm2 s'" using s(2) False by (auto simp: canonical_same_def s' update_conv')
    then show ?thesis using map_update [OF s(1), of ?q] s' cp by (auto simp: same_links_def)
  qed
  moreover have "canonical_same pm2 pm2" by (simp add: canonical_same_def)
  ultimately show ?thesis
    using linking_loop [OF assms(2,1) distinct_items [OF assms(1)], of "canonical_same pm2" ?Q] by blast
qed

end
