(* ===== verification/DI_Wellformed.thy ===== *)
theory DI_Wellformed
  imports DI_Linking
begin

text \<open>
  Dependency injection: a successful compilation returns a well-formed graph.

  \<open>plan_ok\<close> is what the runtime relies on for one provider, \<open>graph_ok\<close> what it relies on for the
  graph: the order lists every provider once and after everything it is built from, every
  dependency is a plan that is no alias, and no singleton depends on a request-scoped provider.
  \<open>links_ok\<close> says which plan that is: the one the visibility table gives the module for the token,
  for every parameter of the declaration that names a token the runtime does not supply itself.
\<close>

section \<open>The linked provider map\<close>

definition plan_ok :: "reflection \<Rightarrow> visibility \<Rightarrow> provider_map \<Rightarrow> provider_ref \<Rightarrow> provider_plan \<Rightarrow> bool" where
  "plan_ok rf vis pm r q \<longleftrightarrow>
     pp_key q = r \<and>
     (\<exists>cp. map_of pm (pp_canonical q) = Some cp \<and> \<not> is_alias (pp_declaration cp) \<and> pp_canonical cp = pp_canonical q \<and>
        pp_scope q = pp_scope cp \<and> pp_recipe q = pp_recipe cp \<and>
        pp_recipe cp = compile_recipe rf (pp_declaration cp) (pp_dependencies cp)) \<and>
     (\<not> is_alias (pp_declaration q) \<longrightarrow> pp_canonical q = r) \<and>
     (\<forall>t u. pp_declaration q = AliasProvider t u \<longrightarrow>
        (\<exists>target tq. map_of vis (pr_module_id r, u) = Some target \<and> map_of pm target = Some tq \<and> pp_canonical tq = pp_canonical q)) \<and>
     (\<forall>d\<in>set (pp_dependencies q). \<forall>r'. dp_provider_ref d = Some r' \<longrightarrow>
        (\<exists>p. map_of pm r' = Some p \<and> \<not> is_alias (pp_declaration p)))"

definition linked_from ::
  "reflection \<Rightarrow> module_plan list \<Rightarrow> visibility \<Rightarrow> provider_map \<Rightarrow> (provider_ref \<rightharpoonup> provider_ref) \<Rightarrow> provider_ref \<Rightarrow> provider_plan \<Rightarrow> provider_plan \<Rightarrow> bool" where
  "linked_from rf mods vis pm0 cache r p q \<longleftrightarrow>
     pp_key q = pp_key p \<and> pp_declaration q = pp_declaration p \<and> cache r = Some (pp_canonical q) \<and>
     (\<exists>cp. map_of pm0 (pp_canonical q) = Some cp \<and> pp_scope q = pp_scope cp) \<and>
     list_all2 (\<lambda>d d'. link_dependency rf mods vis cache (pr_module_id r) d = Inr d') (pp_dependencies p) (pp_dependencies q)"

lemma linked_from_ran:
  assumes "linked_from rf mods vis pm0 cache r p q" "d \<in> set (pp_dependencies q)" "dp_provider_ref d = Some r'"
  shows "r' \<in> ran cache"
proof -
  have "list_all2 (\<lambda>d d'. link_dependency rf mods vis cache (pr_module_id r) d = Inr d') (pp_dependencies p) (pp_dependencies q)"
    using assms(1) by (simp add: linked_from_def)
  then obtain d0 where "link_dependency rf mods vis cache (pr_module_id r) d0 = Inr d"
    using assms(2) by (auto simp: list_all2_conv_all_nth in_set_conv_nth)
  then show ?thesis using link_dependency_in assms(3) by blast
qed

lemma linked_linked_from: "linked rf mods vis pm0 cache r p q \<Longrightarrow> linked_from rf mods vis pm0 cache r p q \<and> pp_recipe q = compile_recipe rf (pp_declaration q) (pp_dependencies q)"
  by (auto simp: linked_def linked_from_def)

lemma linked_from_same: "linked_from rf mods vis pm0 cache r p q \<Longrightarrow> same_links q q' \<Longrightarrow> linked_from rf mods vis pm0 cache r p q'"
  by (simp add: linked_from_def same_links_def)

lemma items_ball: "distinct (map fst pm) \<Longrightarrow> (\<forall>(r, p)\<in>set pm. P r p) \<longleftrightarrow> (\<forall>r p. map_of pm r = Some p \<longrightarrow> P r p)"
  using map_of_is_SomeI [of pm] map_of_SomeD [of pm] by fast

lemma all_linked:
  assumes d: "distinct (map fst pm0)" and cache: "cache_ok pm0 vis cache" "set (map fst pm0) \<subseteq> dom cache"
    and l1: "fold_err (link_plan rf mods vis cache) pm0 pm0 = Inr pm1"
    and l2: "fold_err (link_interceptors rf vis cache) pm1 pm1 = Inr pm2"
    and l3: "fold_err link_alias pm2 pm2 = Inr pm3"
  shows "map fst pm3 = map fst pm0"
    and "map_of pm0 r = Some p \<Longrightarrow> \<exists>q cp. map_of pm3 r = Some q \<and> linked_from rf mods vis pm0 cache r p q \<and>
      map_of pm3 (pp_canonical q) = Some cp \<and> pp_recipe q = pp_recipe cp \<and>
      pp_recipe cp = compile_recipe rf (pp_declaration cp) (pp_dependencies cp)"
proof -
  have k1: "map fst pm1 = map fst pm0" and q1: "\<And>r p. map_of pm0 r = Some p \<Longrightarrow> \<exists>q. map_of pm1 r = Some q \<and> linked rf mods vis pm0 cache r p q"
    using link_plans [OF cache(1) d l1] unfolding items_ball [OF d] by simp_all
  have d1: "distinct (map fst pm1)" using d k1 by simp
  have k2: "map fst pm2 = map fst pm1" and q2: "\<And>r p. map_of pm1 r = Some p \<Longrightarrow> \<exists>q. map_of pm2 r = Some q \<and> same_links p q \<and> pp_recipe q = pp_recipe p"
    using link_interceptors_all [OF d1 l2] unfolding items_ball [OF d1] by simp_all
  have d2: "distinct (map fst pm2)" using d1 k2 by simp
  have q12: "\<exists>q. map_of pm2 r = Some q \<and> linked_from rf mods vis pm0 cache r p q \<and> pp_recipe q = compile_recipe rf (pp_declaration q) (pp_dependencies q)"
    if p: "map_of pm0 r = Some p" for r p
  proof -
    obtain q where q: "map_of pm1 r = Some q" "linked rf mods vis pm0 cache r p q" using q1 [OF p] by blast
    obtain q' where q': "map_of pm2 r = Some q'" "same_links q q'" "pp_recipe q' = pp_recipe q" using q2 [OF q(1)] by blast
    have "linked_from rf mods vis pm0 cache r p q'" using linked_linked_from [OF q(2)] linked_from_same q'(2) by blast
    moreover have "pp_recipe q' = compile_recipe rf (pp_declaration q') (pp_dependencies q')"
      using linked_linked_from [OF q(2)] q'(2,3) by (simp add: same_links_def)
    ultimately show ?thesis using q'(1) by blast
  qed
  have canon: "\<exists>cp. map_of pm2 c = Some cp \<and> pp_canonical cp = c" if c: "cache r = Some c" for r c
  proof -
    obtain c0 where c0: "map_of pm0 c = Some c0" "\<not> is_alias (pp_declaration c0)" using cache_okD(1) [OF cache(1) c] by blast
    obtain cp where cp: "map_of pm2 c = Some cp" "linked_from rf mods vis pm0 cache c c0 cp" using q12 [OF c0(1)] by blast
    have "cache c = Some (pp_canonical cp)" using cp(2) by (simp add: linked_from_def)
    then have "pp_canonical cp = c" using cache_okD(2) [OF cache(1) _ c0] by blast
    then show ?thesis using cp(1) by blast
  qed
  have orig: "\<exists>p. map_of pm0 r = Some p" if "map_of pm2 r = Some q" for r q
  proof -
    have "r \<in> set (map fst pm2)" using map_of_SomeD [OF that] by force
    then have "r \<in> set (map fst pm0)" unfolding k2 k1 .
    then show ?thesis using map_of_eq_None_iff [of pm0 r] by auto
  qed
  have in2: "cache r = Some (pp_canonical q)" if q: "map_of pm2 r = Some q" for r q
  proof -
    obtain p where "map_of pm0 r = Some p" using orig [OF q] by blast
    then obtain q' where "map_of pm2 r = Some q'" "linked_from rf mods vis pm0 cache r p q'" using q12 by blast
    then show ?thesis using q by (simp add: linked_from_def)
  qed
  have "\<forall>(r, p)\<in>set pm2. \<exists>cp. map_of pm2 (pp_canonical p) = Some cp \<and> pp_canonical cp = pp_canonical p"
    unfolding items_ball [OF d2] using canon [OF in2] by blast
  note k = link_aliases [OF d2 l3 this]
  show "map fst pm3 = map fst pm0" using k k1 k2 by simp
  have q3: "\<exists>q'. map_of pm3 r = Some q' \<and> same_links q q' \<and> (\<exists>cp. map_of pm2 (pp_canonical q) = Some cp \<and> pp_recipe q' = pp_recipe cp)"
    if "map_of pm2 r = Some q" for r q
    using k that unfolding items_ball [OF d2] by blast
  assume p: "map_of pm0 r = Some p"
  obtain q where q: "map_of pm2 r = Some q" "linked_from rf mods vis pm0 cache r p q" using q12 [OF p] by blast
  obtain q' cp where q': "map_of pm3 r = Some q'" "same_links q q'" "map_of pm2 (pp_canonical q) = Some cp" "pp_recipe q' = pp_recipe cp"
    using q3 [OF q(1)] by blast
  have cc: "pp_canonical cp = pp_canonical q" using canon [OF in2 [OF q(1)]] q'(3) by auto
  obtain cp' cp2 where cp': "map_of pm3 (pp_canonical q) = Some cp'" "same_links cp cp'" "map_of pm2 (pp_canonical cp) = Some cp2" "pp_recipe cp' = pp_recipe cp2"
    using q3 [OF q'(3)] by blast
  have "cp2 = cp" using cp'(3) cc q'(3) by simp
  moreover obtain c0 where "map_of pm0 (pp_canonical q) = Some c0" using orig [OF q'(3)] by blast
  then have "pp_recipe cp = compile_recipe rf (pp_declaration cp) (pp_dependencies cp)" using q12 [of "pp_canonical q" c0] q'(3) by auto
  ultimately have "pp_recipe q' = pp_recipe cp' \<and> pp_recipe cp' = compile_recipe rf (pp_declaration cp') (pp_dependencies cp')"
    using q'(4) cp'(2,4) by (simp add: same_links_def)
  moreover have "pp_canonical q' = pp_canonical q" using q'(2) by (simp add: same_links_def)
  ultimately show "\<exists>q cp. map_of pm3 r = Some q \<and> linked_from rf mods vis pm0 cache r p q \<and>
      map_of pm3 (pp_canonical q) = Some cp \<and> pp_recipe q = pp_recipe cp \<and>
      pp_recipe cp = compile_recipe rf (pp_declaration cp) (pp_dependencies cp)"
    using q'(1) linked_from_same [OF q(2) q'(2)] cp'(1) by (intro exI [of _ q'] exI [of _ cp']) simp
qed

lemma linked_from_plan:
  assumes keys: "map fst pm = map fst pm0" and d: "distinct (map fst pm0)" and cache: "cache_ok pm0 vis cache" "set (map fst pm0) \<subseteq> dom cache"
    and vis: "visibility_ok (set (map fst pm0)) vis"
    and all: "\<And>r p. map_of pm0 r = Some p \<Longrightarrow> \<exists>q cp. map_of pm r = Some q \<and> linked_from rf mods vis pm0 cache r p q \<and>
      map_of pm (pp_canonical q) = Some cp \<and> pp_recipe q = pp_recipe cp \<and>
      pp_recipe cp = compile_recipe rf (pp_declaration cp) (pp_dependencies cp)"
    and p: "map_of pm0 r = Some p" "pp_key p = r" and q: "map_of pm r = Some q"
  shows "plan_ok rf vis pm r q \<and> pp_declaration q = pp_declaration p \<and> linked_from rf mods vis pm0 cache r p q"
proof -
  obtain cp where l: "linked_from rf mods vis pm0 cache r p q" and cp: "map_of pm (pp_canonical q) = Some cp" "pp_recipe q = pp_recipe cp"
    "pp_recipe cp = compile_recipe rf (pp_declaration cp) (pp_dependencies cp)" using all [OF p(1)] q by auto
  have c: "cache r = Some (pp_canonical q)" and decl: "pp_declaration q = pp_declaration p" "pp_key q = r"
    using l p(2) by (simp_all add: linked_from_def)
  have ran: "\<exists>p. map_of pm c = Some p \<and> \<not> is_alias (pp_declaration p)" if x: "cache x = Some c" for x c
  proof -
    obtain c0 where c0: "map_of pm0 c = Some c0" "\<not> is_alias (pp_declaration c0)" using cache_okD(1) [OF cache(1) x] by blast
    then obtain qc where "map_of pm c = Some qc" "linked_from rf mods vis pm0 cache c c0 qc" using all by blast
    then show ?thesis using c0(2) by (auto simp: linked_from_def)
  qed
  obtain c0 where c0: "map_of pm0 (pp_canonical q) = Some c0" "\<not> is_alias (pp_declaration c0)" using cache_okD(1) [OF cache(1) c] by blast
  then have lc: "linked_from rf mods vis pm0 cache (pp_canonical q) c0 cp" using all [OF c0(1)] cp(1) by auto
  then have "cache (pp_canonical q) = Some (pp_canonical cp)" by (simp add: linked_from_def)
  then have cc: "pp_canonical cp = pp_canonical q" using cache_okD(2) [OF cache(1) _ c0] by blast
  have scope: "pp_scope q = pp_scope cp" using l lc c0(1) cc by (auto simp: linked_from_def)
  have self: "pp_canonical q = r" if "\<not> is_alias (pp_declaration q)" using cache_okD(2) [OF cache(1) c p(1)] that decl by simp
  have target: "\<exists>target tq. map_of vis (pr_module_id r, u) = Some target \<and> map_of pm target = Some tq \<and> pp_canonical tq = pp_canonical q"
    if al: "pp_declaration q = AliasProvider t u" for t u
  proof -
    obtain target where t: "map_of vis (pr_module_id r, u) = Some target" "cache target = Some (pp_canonical q)"
      using cache_okD(3) [OF cache(1) c p(1)] al decl by auto
    have "target \<in> set (map fst pm0)" using vis t(1) by (auto simp: visibility_ok_def)
    then obtain tp where "map_of pm0 target = Some tp" using map_of_eq_None_iff [of pm0 target] by auto
    then obtain tq where "map_of pm target = Some tq" "linked_from rf mods vis pm0 cache target tp tq" using all by blast
    then show ?thesis using t by (auto simp: linked_from_def)
  qed
  have deps: "\<forall>d\<in>set (pp_dependencies q). \<forall>r'. dp_provider_ref d = Some r' \<longrightarrow> (\<exists>p. map_of pm r' = Some p \<and> \<not> is_alias (pp_declaration p))"
  proof (intro ballI allI impI)
    fix d r' assume "d \<in> set (pp_dependencies q)" "dp_provider_ref d = Some r'"
    then have "r' \<in> Map.ran cache" using linked_from_ran [OF l] by blast
    then obtain x where "cache x = Some r'" by (auto simp: Map.ran_def)
    then show "\<exists>p. map_of pm r' = Some p \<and> \<not> is_alias (pp_declaration p)" by (rule ran)
  qed
  have "\<not> is_alias (pp_declaration cp)" using lc c0(2) by (simp add: linked_from_def)
  then show ?thesis using cp cc scope self target deps decl l unfolding plan_ok_def by blast
qed

text \<open>A plan of the map stands for a declaration of a module, with the scope of its canonical declaration.\<close>

definition declared_plans :: "reflection \<Rightarrow> module_plan list \<Rightarrow> bool" where
  [inv_defs]: "declared_plans rf mods \<longleftrightarrow> (\<forall>m\<in>set mods. \<forall>p\<in>set (ml_providers m).
     compile_dependencies rf (pp_declaration p) = Inr (pp_dependencies p) \<and>
     pp_scope p = declared_scope (pp_declaration p) \<and> pp_key p = \<lparr>pr_module_id = ml_module_id m, pr_token = provider_token (pp_declaration p)\<rparr>)"

text \<open>
  A dependency keeps its parameter and gets the canonical provider that is visible to the module
  under its token. Only a parameter without a token and one the runtime supplies stay without.
\<close>

definition dependency_linked :: "reflection \<Rightarrow> visibility \<Rightarrow> provider_map \<Rightarrow> module_id \<Rightarrow> dependency_plan \<Rightarrow> dependency_plan \<Rightarrow> bool" where
  "dependency_linked rf vis pm mid d d' \<longleftrightarrow>
     dp_parameter_name d' = dp_parameter_name d \<and> dp_token d' = dp_token d \<and> dp_has_default d' = dp_has_default d \<and>
     (case dp_token d of
        None \<Rightarrow> dp_provider_ref d' = None
      | Some t \<Rightarrow>
         if rf_intrinsic rf t then dp_provider_ref d' = None
         else \<exists>r q. map_of vis (mid, t) = Some r \<and> map_of pm r = Some q \<and> dp_provider_ref d' = Some (pp_canonical q))"

definition dependencies_ok :: "reflection \<Rightarrow> visibility \<Rightarrow> provider_map \<Rightarrow> provider_ref \<Rightarrow> provider_plan \<Rightarrow> bool" where
  "dependencies_ok rf vis pm r q \<longleftrightarrow>
     (\<exists>ds. compile_dependencies rf (pp_declaration q) = Inr ds \<and>
        list_all2 (dependency_linked rf vis pm (pr_module_id r)) ds (pp_dependencies q))"

lemma link_dependency_linked:
  assumes "link_dependency rf mods vis cache mid d = Inr d'"
    and "\<And>t r. visible_ref mods vis mid t = Inr r \<Longrightarrow> map_of vis (mid, t) = Some r"
    and "\<And>t r c. map_of vis (mid, t) = Some r \<Longrightarrow> cache r = Some c \<Longrightarrow> \<exists>q. map_of pm r = Some q \<and> pp_canonical q = c"
  shows "dependency_linked rf vis pm mid d d'"
proof (cases "dp_token d")
  case None
  then show ?thesis using assms(1) by (auto simp: link_dependency_def dependency_linked_def)
next
  case (Some t)
  show ?thesis
  proof (cases "rf_intrinsic rf t")
    case True
    then show ?thesis using assms(1) Some by (auto simp: link_dependency_def dependency_linked_def)
  next
    case False
    then obtain r c where r: "visible_ref mods vis mid t = Inr r" "cache r = Some c" "d' = d\<lparr>dp_provider_ref := Some c\<rparr>"
      using assms(1) Some by (auto simp: link_dependency_def split: sum.splits option.splits)
    obtain q where "map_of pm r = Some q" "pp_canonical q = c" using assms(3) [OF assms(2) [OF r(1)] r(2)] by blast
    then show ?thesis using Some False r(3) assms(2) [OF r(1)] by (simp add: dependency_linked_def)
  qed
qed

lemma link_providers_ok:
  assumes link: "link_providers rf mods vis = Inr pm" and vis: "visibility_ok (module_keys mods) vis" and decl: "declared_plans rf mods"
  shows "distinct (map fst pm)" "set (map fst pm) = module_keys mods"
    and "map_of pm r = Some q \<Longrightarrow> plan_ok rf vis pm r q"
    and "map_of pm r = Some q \<Longrightarrow> \<not> is_alias (pp_declaration q) \<Longrightarrow> pp_scope q = declared_scope (pp_declaration q)"
    and "compile_visibility mods = Inr vis \<Longrightarrow> distinct (map ml_module_id mods) \<Longrightarrow> map_of pm r = Some q \<Longrightarrow> dependencies_ok rf vis pm r q"
proof -
  let ?pm0 = "provider_entries mods"
  obtain cache pm1 pm2 where l: "canonical_cache ?pm0 vis = Inr cache" "fold_err (link_plan rf mods vis cache) ?pm0 ?pm0 = Inr pm1"
    "fold_err (link_interceptors rf vis cache) pm1 pm1 = Inr pm2" "fold_err link_alias pm2 pm2 = Inr pm"
    using link by (auto simp: link_providers_def Let_def split: sum.splits)
  note cache = canonical_cache_ok [OF l(1)]
  note all = all_linked [OF provider_entries_distinct cache l(2-4)]
  show "distinct (map fst pm)" "set (map fst pm) = module_keys mods"
    unfolding all(1) by (rule provider_entries_distinct, rule provider_entries_keys)
  have vis': "visibility_ok (set (map fst ?pm0)) vis" using vis unfolding provider_entries_keys .
  have orig: "\<exists>p. map_of ?pm0 r = Some p \<and> pp_key p = r \<and> p \<in> set (concat (map ml_providers mods))" if "map_of pm r = Some q" for r q
  proof -
    have "r \<in> set (map fst pm)" using map_of_SomeD [OF that] by force
    then have "r \<in> set (map fst ?pm0)" unfolding all(1) .
    then obtain p where "map_of ?pm0 r = Some p" using map_of_eq_None_iff [of ?pm0 r] by auto
    then show ?thesis using provider_entries_plan by blast
  qed
  assume q: "map_of pm r = Some q"
  obtain p where p: "map_of ?pm0 r = Some p" "pp_key p = r" "p \<in> set (concat (map ml_providers mods))" using orig [OF q] by blast
  have ok: "plan_ok rf vis pm r q" "pp_declaration q = pp_declaration p" "linked_from rf mods vis ?pm0 cache r p q"
    using linked_from_plan [OF all(1) provider_entries_distinct cache vis' all(2) p(1,2) q] by auto
  then show "plan_ok rf vis pm r q" by blast
  show "dependencies_ok rf vis pm r q" if v: "compile_visibility mods = Inr vis" "distinct (map ml_module_id mods)"
  proof -
    have canon: "\<exists>q. map_of pm x = Some q \<and> pp_canonical q = c" if x: "map_of vis (mid, t) = Some x" "cache x = Some c" for mid t x c
    proof -
      have "x \<in> set (map fst ?pm0)" using vis' x(1) by (auto simp: visibility_ok_def)
      then obtain p where "map_of ?pm0 x = Some p" using map_of_eq_None_iff [of ?pm0 x] by auto
      then obtain qx where "map_of pm x = Some qx" "linked_from rf mods vis ?pm0 cache x p qx" using all(2) by blast
      then show ?thesis using x(2) by (simp add: linked_from_def)
    qed
    have "list_all2 (\<lambda>d d'. link_dependency rf mods vis cache (pr_module_id r) d = Inr d') (pp_dependencies p) (pp_dependencies q)"
      using ok(3) by (simp add: linked_from_def)
    then have "list_all2 (dependency_linked rf vis pm (pr_module_id r)) (pp_dependencies p) (pp_dependencies q)"
      by (rule list_all2_mono) (rule link_dependency_linked, assumption, rule visible_ref_compiled [OF v], assumption, rule canon)
    moreover have "compile_dependencies rf (pp_declaration p) = Inr (pp_dependencies p)" using decl p(3) by (auto simp: declared_plans_def)
    ultimately show ?thesis using ok(2) by (simp add: dependencies_ok_def)
  qed
  assume na: "\<not> is_alias (pp_declaration q)"
  then have "pp_canonical q = r" using ok(1) by (simp add: plan_ok_def)
  then have "pp_scope q = pp_scope p" using ok(3) p(1) by (auto simp: linked_from_def)
  then show "pp_scope q = declared_scope (pp_declaration q)" using decl p(3) ok(2) by (auto simp: declared_plans_def)
qed

section \<open>The edges\<close>

definition recipe_refs :: "provider_plan \<Rightarrow> provider_ref list" where
  "recipe_refs q = List.map_filter ds_provider_ref (cr_dependencies (pp_recipe q))"

definition refs_of :: "provider_map \<Rightarrow> provider_ref \<Rightarrow> provider_ref list" where
  "refs_of pm r = (case map_of pm r of None \<Rightarrow> [] | Some q \<Rightarrow> recipe_refs q)"

lemma map_filter_in: "x \<in> set (List.map_filter f xs) \<longleftrightarrow> (\<exists>y\<in>set xs. f y = Some x)"
  by (force simp: List.map_filter_def)

lemma compiled_refs:
  "\<not> is_alias d \<Longrightarrow> List.map_filter ds_provider_ref (cr_dependencies (compile_recipe rf d deps)) = List.map_filter dp_provider_ref deps"
  by (cases d) (simp_all add: compile_recipe_def Let_def dependency_source_of_def List.map_filter_def filter_map comp_def)

lemma provider_edges_keys: "provider_edges vis pm = Inr es \<Longrightarrow> map fst es = map fst pm"
proof -
  assume "provider_edges vis pm = Inr es"
  then have "map (provider_edge vis pm) pm = map Inr es" unfolding provider_edges_def by (rule all_ok_Inr)
  then have "list_all2 (\<lambda>x y. provider_edge vis pm x = Inr y) pm es" by (simp add: list_all2_conv_all_nth list_eq_iff_nth_eq)
  then have "list_all2 (\<lambda>x y. fst y = fst x) pm es"
    by (rule list_all2_mono) (auto simp: provider_edge_def split: provider_declaration.splits option.splits sum.splits)
  then show ?thesis by (simp add: list_all2_conv_all_nth list_eq_iff_nth_eq)
qed

lemma provider_edges_of:
  assumes es: "provider_edges vis pm = Inr es" and d: "distinct (map fst pm)" and q: "map_of pm r = Some q"
  shows "provider_edge vis pm (r, q) = Inr (r, edges_of es r)"
proof -
  have eq: "map (provider_edge vis pm) pm = map Inr es" using es unfolding provider_edges_def by (rule all_ok_Inr)
  have "(r, q) \<in> set pm" using map_of_SomeD [OF q] .
  then have "provider_edge vis pm (r, q) \<in> set (map Inr es)" unfolding eq [symmetric] by simp
  then obtain x ds where x: "provider_edge vis pm (r, q) = Inr (x, ds)" "(x, ds) \<in> set es" by auto
  have "x = r" using x(1) by (auto simp: provider_edge_def split: provider_declaration.splits option.splits sum.splits)
  moreover have "map_of es x = Some ds" using x(2) d provider_edges_keys [OF es] by (simp add: map_of_is_SomeI)
  ultimately show ?thesis using x(1) by (simp add: edges_of_def)
qed

lemma alias_edge:
  assumes es: "provider_edges vis pm = Inr es" and d: "distinct (map fst pm)" and q: "map_of pm r = Some q" "plan_ok rf vis pm r q"
    and al: "is_alias (pp_declaration q)"
  shows "edges_of es r = [pp_canonical q]"
proof -
  obtain t u where tu: "pp_declaration q = AliasProvider t u" using al by (cases "pp_declaration q") auto
  obtain target tq where "map_of vis (pr_module_id r, u) = Some target" "map_of pm target = Some tq" "pp_canonical tq = pp_canonical q"
    using q(2) tu unfolding plan_ok_def by blast
  then show ?thesis using provider_edges_of [OF es d q(1)] tu by (simp add: provider_edge_def plan_of_def)
qed

lemma plain_edge:
  assumes es: "provider_edges vis pm = Inr es" and d: "distinct (map fst pm)" and q: "map_of pm r = Some q"
    and na: "\<not> is_alias (pp_declaration q)"
  shows "edges_of es r = List.map_filter dp_provider_ref (pp_dependencies q)"
  using provider_edges_of [OF es d q] na by (cases "pp_declaration q") (simp_all add: provider_edge_def)

text \<open>What a plan is built from are the edges of its canonical plan.\<close>

lemma plan_refs:
  assumes es: "provider_edges vis pm = Inr es" and d: "distinct (map fst pm)" and q: "map_of pm r = Some q" "plan_ok rf vis pm r q"
  shows "refs_of pm r = edges_of es (pp_canonical q)"
proof -
  obtain cp where cp: "map_of pm (pp_canonical q) = Some cp" "\<not> is_alias (pp_declaration cp)"
    "pp_recipe q = pp_recipe cp" "pp_recipe cp = compile_recipe rf (pp_declaration cp) (pp_dependencies cp)"
    using q(2) by (auto simp: plan_ok_def)
  then have "recipe_refs q = List.map_filter dp_provider_ref (pp_dependencies cp)" by (simp add: recipe_refs_def compiled_refs)
  then show ?thesis using plain_edge [OF es d cp(1,2)] q(1) by (simp add: refs_of_def)
qed

lemma edge_targets:
  assumes es: "provider_edges vis pm = Inr es" and d: "distinct (map fst pm)" and ok: "\<forall>r q. map_of pm r = Some q \<longrightarrow> plan_ok rf vis pm r q"
    and e: "edge (edges_of es) r x"
  shows "\<exists>q. map_of pm r = Some q" "\<exists>p. map_of pm x = Some p"
proof -
  have "r \<in> set (map fst pm)" using edges_keys [OF e] provider_edges_keys [OF es] by simp
  then obtain q where q: "map_of pm r = Some q" using map_of_eq_None_iff [of pm r] by auto
  then have pk: "plan_ok rf vis pm r q" using ok by blast
  show "\<exists>q. map_of pm r = Some q" using q by blast
  show "\<exists>p. map_of pm x = Some p"
  proof (cases "is_alias (pp_declaration q)")
    case True
    then have "x = pp_canonical q" using alias_edge [OF es d q pk] e by (simp add: edge_def)
    then show ?thesis using pk by (auto simp: plan_ok_def)
  next
    case False
    then obtain dep where "dep \<in> set (pp_dependencies q)" "dp_provider_ref dep = Some x"
      using plain_edge [OF es d q] e by (auto simp: edge_def map_filter_in)
    then show ?thesis using pk unfolding plan_ok_def by blast
  qed
qed

lemma refs_edges:
  assumes es: "provider_edges vis pm = Inr es" and d: "distinct (map fst pm)" and ok: "\<forall>r q. map_of pm r = Some q \<longrightarrow> plan_ok rf vis pm r q"
    and e: "edge (refs_of pm) r x"
  shows "(edge (edges_of es))\<^sup>+\<^sup>+ r x"
proof -
  obtain q where q: "map_of pm r = Some q" using e by (cases "map_of pm r") (auto simp: edge_def refs_of_def)
  then have pk: "plan_ok rf vis pm r q" using ok by blast
  have cx: "edge (edges_of es) (pp_canonical q) x" using e plan_refs [OF es d q pk] by (simp add: edge_def)
  show ?thesis
  proof (cases "is_alias (pp_declaration q)")
    case True
    then have "edge (edges_of es) r (pp_canonical q)" using alias_edge [OF es d q pk] by (simp add: edge_def)
    then show ?thesis using cx by (meson tranclp.intros)
  next
    case False
    then show ?thesis using pk cx by (auto simp: plan_ok_def)
  qed
qed

section \<open>The graph\<close>

definition graph_ok :: "reflection \<Rightarrow> compiled_graph \<Rightarrow> bool" where
  [inv_defs]: "graph_ok rf g \<longleftrightarrow>
     distinct (map fst (cg_providers g)) \<and>
     (\<forall>r q. map_of (cg_providers g) r = Some q \<longrightarrow> plan_ok rf (cg_visibility g) (cg_providers g) r q \<and>
        (\<not> is_alias (pp_declaration q) \<longrightarrow> pp_scope q = declared_scope (pp_declaration q))) \<and>
     distinct (cg_provider_order g) \<and> set (cg_provider_order g) = set (map fst (cg_providers g)) \<and>
     deps_first (refs_of (cg_providers g)) (cg_provider_order g) \<and>
     (\<forall>r q. map_of (cg_providers g) r = Some q \<longrightarrow> pp_canonical q \<noteq> r \<longrightarrow>
        position (cg_provider_order g) (pp_canonical q) < position (cg_provider_order g) r) \<and>
     visibility_ok (set (map fst (cg_providers g))) (cg_visibility g)"

text \<open>Every dependency of every plan is linked to what its module sees.\<close>

definition links_ok :: "reflection \<Rightarrow> compiled_graph \<Rightarrow> bool" where
  [inv_defs]: "links_ok rf g \<longleftrightarrow>
     (\<forall>r q. map_of (cg_providers g) r = Some q \<longrightarrow> dependencies_ok rf (cg_visibility g) (cg_providers g) r q)"

text \<open>A singleton is built from nothing that lives in a request.\<close>

definition scopes_ok :: "compiled_graph \<Rightarrow> bool" where
  [inv_defs]: "scopes_ok g \<longleftrightarrow> (\<forall>r q x p. map_of (cg_providers g) r = Some q \<longrightarrow> pp_scope q = SINGLETON \<longrightarrow>
     (edge (refs_of (cg_providers g)))\<^sup>+\<^sup>+ r x \<longrightarrow> map_of (cg_providers g) x = Some p \<longrightarrow> pp_scope p \<noteq> REQUEST)"

lemma refs_order:
  assumes es: "provider_edges vis pm = Inr es" and d: "distinct (map fst pm)" and ok: "\<forall>r q. map_of pm r = Some q \<longrightarrow> plan_ok rf vis pm r q"
    and o: "distinct ord" "deps_first (edges_of es) ord"
  shows "deps_first (refs_of pm) ord"
proof -
  have lt: "x \<in> set ord \<and> position ord x < position ord r" if "(edge (edges_of es))\<^sup>+\<^sup>+ r x" "r \<in> set ord" for r x
    using that
  proof (induction rule: tranclp_induct)
    case (base y)
    then show ?case using position_edge [OF o] by blast
  next
    case (step y z)
    then show ?case using position_edge [OF o, of y z] by auto
  qed
  have "set (refs_of pm (ord ! i)) \<subseteq> set (take i ord)" if i: "i < length ord" for i
  proof
    fix x assume "x \<in> set (refs_of pm (ord ! i))"
    then have "(edge (edges_of es))\<^sup>+\<^sup>+ (ord ! i) x" using refs_edges [OF es d ok] by (simp add: edge_def)
    then have x: "x \<in> set ord" "position ord x < i" using lt [of "ord ! i" x] i position_nth [OF o(1) i] by auto
    obtain j where j: "j < length ord" "x = ord ! j" using x(1) by (auto simp: in_set_conv_nth)
    then have "j < i" using x(2) position_nth [OF o(1) j(1)] by simp
    then show "x \<in> set (take i ord)" using j i by (auto simp: in_set_conv_nth intro!: exI [of _ j])
  qed
  then show ?thesis by (simp add: deps_first_def)
qed

lemma edge_nodes_keys:
  assumes es: "provider_edges vis pm = Inr es" and d: "distinct (map fst pm)" and ok: "\<forall>r q. map_of pm r = Some q \<longrightarrow> plan_ok rf vis pm r q"
  shows "set (graph_nodes es) \<subseteq> set (map fst pm)"
proof
  fix x assume "x \<in> set (graph_nodes es)"
  then consider "x \<in> set (map fst es)" | r ds where "(r, ds) \<in> set es" "x \<in> set ds" by (auto simp: graph_nodes_def)
  then show "x \<in> set (map fst pm)"
  proof cases
    case 1
    then show ?thesis using provider_edges_keys [OF es] by simp
  next
    case (2 r ds)
    have "map_of es r = Some ds" using 2(1) d provider_edges_keys [OF es] by (simp add: map_of_is_SomeI)
    then have "edge (edges_of es) r x" using 2(2) by (simp add: edge_def edges_of_def)
    then obtain p where "map_of pm x = Some p" using edge_targets(2) [OF es d ok] by blast
    then show ?thesis using map_of_SomeD by force
  qed
qed

lemma check_graph_ok:
  assumes es: "provider_edges vis pm = Inr es" and d: "distinct (map fst pm)" and ok: "\<forall>r q. map_of pm r = Some q \<longrightarrow> plan_ok rf vis pm r q"
    and keys: "set (map fst pm) = module_keys mods"
  shows "check_graph es pm mods \<noteq> None"
    and "check_graph es pm mods = Some (Inr ord) \<Longrightarrow> distinct ord \<and> set ord = set (map fst pm) \<and> deps_first (refs_of pm) ord \<and>
      (\<forall>r q. map_of pm r = Some q \<longrightarrow> pp_canonical q \<noteq> r \<longrightarrow> position ord (pp_canonical q) < position ord r) \<and>
      (\<forall>r q x p. map_of pm r = Some q \<longrightarrow> pp_scope q = SINGLETON \<longrightarrow> (edge (refs_of pm))\<^sup>+\<^sup>+ r x \<longrightarrow> map_of pm x = Some p \<longrightarrow> pp_scope p \<noteq> REQUEST)"
proof -
  have plans: "\<forall>a b. edge (edges_of es) a b \<longrightarrow> (\<exists>p. plan_of pm b = Inr p)"
    using edge_targets(2) [OF es d ok] by (fastforce simp: plan_of_def)
  have mk: "set (concat (map (\<lambda>m. map pp_key (ml_providers m)) mods)) = module_keys mods" by (auto simp: module_keys_def)
  show "check_graph es pm mods \<noteq> None"
  proof (cases "validate_provider_cycles es pm = Some (Inr ())")
    case True
    then obtain ord where "provider_order es mods = Some ord" using accepted_order [OF True, of mods] by blast
    then show ?thesis using True scopes_decided [OF True plans] by (auto simp: check_graph_def)
  next
    case False
    then show ?thesis using cycles_decided [of es pm] by (auto simp: check_graph_def)
  qed
  assume chk: "check_graph es pm mods = Some (Inr ord)"
  have cyc: "validate_provider_cycles es pm = Some (Inr ())"
    using chk cycles_decided [of es pm] by (auto simp: check_graph_def)
  have sco: "validate_scope_paths es pm = Some (Inr ())" and po: "provider_order es mods = Some ord"
    using chk cyc by (auto simp: check_graph_def split: option.splits sum.splits)
  have o: "distinct ord" "deps_first (edges_of es) ord" "module_keys mods \<subseteq> set ord" "set ord \<subseteq> set (graph_nodes es) \<union> module_keys mods"
    using accepted_order [OF cyc, of mods] po unfolding Let_def mk by auto
  have ord: "set ord = set (map fst pm)" using o(3,4) edge_nodes_keys [OF es d ok] unfolding keys by blast
  have "position ord (pp_canonical q) < position ord r" if q: "map_of pm r = Some q" and c: "pp_canonical q \<noteq> r" for r q
  proof -
    have pk: "plan_ok rf vis pm r q" using ok q by blast
    then have "is_alias (pp_declaration q)" using c by (auto simp: plan_ok_def)
    then have "edge (edges_of es) r (pp_canonical q)" using alias_edge [OF es d q pk] by (simp add: edge_def)
    moreover have "r \<in> set ord" using map_of_SomeD [OF q] unfolding ord by force
    ultimately show ?thesis using position_edge(2) [OF o(1,2)] by blast
  qed
  moreover have "pp_scope p \<noteq> REQUEST"
    if q: "map_of pm r = Some q" "pp_scope q = SINGLETON" and r: "(edge (refs_of pm))\<^sup>+\<^sup>+ r x" and p: "map_of pm x = Some p" for r q x p
  proof -
    have "(edge (edges_of es))\<^sup>+\<^sup>+ r x" using r
      by (induction rule: tranclp_induct) (use refs_edges [OF es d ok] in \<open>blast intro: tranclp_trans\<close>)+
    then have "plain pm x" using scopes_decided [OF cyc plans] sco map_of_SomeD [OF q(1)] q(2) by auto
    then show ?thesis using p by (simp add: plain_def plan_of_def)
  qed
  ultimately show "distinct ord \<and> set ord = set (map fst pm) \<and> deps_first (refs_of pm) ord \<and>
      (\<forall>r q. map_of pm r = Some q \<longrightarrow> pp_canonical q \<noteq> r \<longrightarrow> position ord (pp_canonical q) < position ord r) \<and>
      (\<forall>r q x p. map_of pm r = Some q \<longrightarrow> pp_scope q = SINGLETON \<longrightarrow> (edge (refs_of pm))\<^sup>+\<^sup>+ r x \<longrightarrow> map_of pm x = Some p \<longrightarrow> pp_scope p \<noteq> REQUEST)"
    using refs_order [OF es d ok o(1,2)] o(1) ord by blast
qed

lemma link_graph_ok:
  assumes decl: "declared_plans rf mods"
  shows "link_graph rf root mods \<noteq> None"
    and "link_graph rf root mods = Some (Inr g) \<Longrightarrow> graph_ok rf g \<and> scopes_ok g \<and> cg_root g = root"
    and "link_graph rf root mods = Some (Inr g) \<Longrightarrow> distinct (map ml_module_id mods) \<Longrightarrow> links_ok rf g"
proof -
  have ok: "distinct (map fst pm)" "set (map fst pm) = module_keys mods" "\<forall>r q. map_of pm r = Some q \<longrightarrow> plan_ok rf vis pm r q"
    "\<forall>r q. map_of pm r = Some q \<longrightarrow> \<not> is_alias (pp_declaration q) \<longrightarrow> pp_scope q = declared_scope (pp_declaration q)"
    if v: "compile_visibility mods = Inr vis" and l: "link_providers rf mods vis = Inr pm" for vis pm
    using link_providers_ok [OF l compile_visibility_ok [OF v] decl] by blast+
  have chk: "check_graph es pm mods \<noteq> None"
    if v: "compile_visibility mods = Inr vis" and l: "link_providers rf mods vis = Inr pm" and e: "provider_edges vis pm = Inr es" for vis pm es
    by (rule check_graph_ok(1) [OF e ok(1,3,2) [OF v l]])
  show "link_graph rf root mods \<noteq> None"
    unfolding link_graph_def by (auto split: sum.splits option.splits dest: chk)
  assume "link_graph rf root mods = Some (Inr g)"
  then obtain vis pm es ord ms where s: "compile_visibility mods = Inr vis" "link_providers rf mods vis = Inr pm" "provider_edges vis pm = Inr es"
    "check_graph es pm mods = Some (Inr ord)"
    "g = \<lparr>cg_root = root, cg_modules = ms, cg_providers = pm, cg_visibility = vis, cg_provider_order = ord\<rparr>"
    unfolding link_graph_def by (auto split: sum.splits option.splits)
  note k = ok [OF s(1,2)]
  note c = check_graph_ok(2) [OF s(3) k(1,3,2) s(4)]
  have "visibility_ok (set (map fst pm)) vis" using compile_visibility_ok [OF s(1)] unfolding k(2) .
  then show "graph_ok rf g \<and> scopes_ok g \<and> cg_root g = root"
    using k c unfolding graph_ok_def scopes_ok_def s(5) by simp
  assume ids: "distinct (map ml_module_id mods)"
  have "\<forall>r q. map_of pm r = Some q \<longrightarrow> dependencies_ok rf vis pm r q"
    using link_providers_ok(5) [OF s(2) compile_visibility_ok [OF s(1)] decl s(1) ids] by blast
  then show "links_ok rf g" unfolding links_ok_def s(5) by simp
qed

section \<open>Module plans\<close>

lemma new_plan_declared:
  "new_plan rf mid d = Inr p \<Longrightarrow> compile_dependencies rf (pp_declaration p) = Inr (pp_dependencies p) \<and> pp_scope p = declared_scope (pp_declaration p) \<and> pp_key p = \<lparr>pr_module_id = mid, pr_token = provider_token (pp_declaration p)\<rparr>"
  by (auto simp: new_plan_def Let_def split: sum.splits)

lemma plan_module_declared: "plan_module rf co mid = Inr m \<Longrightarrow> declared_plans rf [m]"
proof -
  assume "plan_module rf co mid = Inr m"
  then obtain ds where f: "fold_err (add_plan rf mid) ds [] = Inr (ml_providers m)" and mid: "ml_module_id m = mid"
    by (auto simp: plan_module_def split: option.splits sum.splits)
  let ?P = "\<lambda>ps. \<forall>p\<in>set ps. compile_dependencies rf (pp_declaration p) = Inr (pp_dependencies p) \<and> pp_scope p = declared_scope (pp_declaration p) \<and> pp_key p = \<lparr>pr_module_id = mid, pr_token = provider_token (pp_declaration p)\<rparr>"
  have "?P (ml_providers m)"
    by (rule fold_err_inv [where P = ?P, OF f])
      (auto simp: add_plan_def split: sum.splits if_splits dest!: new_plan_declared)
  then show ?thesis using mid by (simp add: declared_plans_def)
qed

lemma add_fallback_declared:
  assumes "declared_plans rf mods" "add_fallback rf mid d mods = Inr mods'"
  shows "declared_plans rf mods'"
proof (cases "mods' = mods")
  case False
  then obtain p where p: "new_plan rf mid d = Inr p"
    "mods' = map (\<lambda>m. if ml_module_id m = mid then m\<lparr>ml_providers := ml_providers m @ [p]\<rparr> else m) mods"
    using assms(2) by (auto simp: add_fallback_def split: sum.splits bool.splits)
  then show ?thesis using assms(1) new_plan_declared [OF p(1)] by (auto simp: declared_plans_def)
qed (use assms in simp)

lemma add_fallbacks_declared:
  assumes "declared_plans rf mods" "add_fallbacks rf opt root mods = Inr mods'"
  shows "declared_plans rf mods'"
proof (cases "op_fallback_collector opt")
  case None
  then show ?thesis using assms by (simp add: add_fallbacks_def)
next
  case (Some f)
  have inner: "declared_plans rf s'" if "declared_plans rf s" "fold_err (add_fallback rf mid) ds s = Inr s'" for mid ds s s'
    by (rule fold_err_inv [where P = "declared_plans rf", OF that(2,1)]) (use add_fallback_declared in blast)
  have f: "fold_err (\<lambda>(mid, sp). fold_err (add_fallback rf mid) (f mid sp (mid = root))) (map (\<lambda>m. (ml_module_id m, ml_spec m)) mods) mods = Inr mods'"
    using assms(2) Some by (simp add: add_fallbacks_def)
  show ?thesis
    by (rule fold_err_inv [where P = "declared_plans rf", OF f assms(1)]) (use inner in auto)
qed

lemma declared_plans_all:
  assumes "all_ok (map (plan_module rf co) mids) = Inr mods"
  shows "declared_plans rf mods"
proof -
  have eq: "map (plan_module rf co) mids = map Inr mods" using all_ok_Inr [OF assms] .
  have "declared_plans rf [m]" if "m \<in> set mods" for m
  proof -
    have "Inr m \<in> set (map (plan_module rf co) mids)" using that unfolding eq by simp
    then show ?thesis using plan_module_declared by force
  qed
  then show ?thesis by (auto simp: declared_plans_def)
qed

text \<open>The traversal of the imports lists every module once, so that a module id stands for one plan.\<close>

definition visit_ok :: "compiler \<Rightarrow> bool" where
  [inv_defs]: "visit_ok co \<longleftrightarrow> distinct (co_order co) \<and> (\<forall>m\<in>set (co_order co). co_states co m = Some DONE)"

definition visiting_kept :: "compiler \<Rightarrow> compiler \<Rightarrow> bool" where
  [inv_defs]: "visiting_kept co co' \<longleftrightarrow> (\<forall>m. co_states co m = Some VISITING \<longrightarrow> co_states co' m = Some VISITING)"

lemma ensure_import_order:
  "ensure_import rf opt i co = Inr (mid, co') \<Longrightarrow> co_order co' = co_order co \<and> co_states co' = co_states co"
  by (auto simp: ensure_import_def ensure_static_def ensure_dynamic_def Let_def split: option.splits arg.splits sum.splits module_import.splits if_splits)

lemma add_import_order: "co_order (add_import mid child co) = co_order co" "co_states (add_import mid child co) = co_states co"
  by (simp_all add: add_import_def)

lemma module_visit_ok:
  "module_visit n rf opt stack mid co = Some (Inr co') \<Longrightarrow> visit_ok co \<Longrightarrow> visit_ok co' \<and> visiting_kept co co'"
  "module_imports n rf opt stack mid is co = Some (Inr co') \<Longrightarrow> visit_ok co \<Longrightarrow> visit_ok co' \<and> visiting_kept co co'"
proof (induction n rf opt stack mid co and n rf opt stack mid "is" co arbitrary: co' and co' rule: module_visit_module_imports.induct)
  case (2 n rf opt stack mid co)
  show ?case
  proof (cases "co_states co mid")
    case (Some s)
    then show ?thesis using 2(2,3) by (cases s) (auto simp: visiting_kept_def)
  next
    case None
    let ?co = "co\<lparr>co_states := (co_states co)(mid \<mapsto> VISITING)\<rparr>"
    obtain nd co1 where nd: "co_nodes co mid = Some nd"
      and co1: "module_imports n rf opt (stack @ [mid]) mid (sp_imports (mn_spec nd)) ?co = Some (Inr co1)"
      and co': "co' = co1\<lparr>co_states := (co_states co1)(mid \<mapsto> DONE), co_order := co_order co1 @ [mid]\<rparr>"
      using 2(2) None by (auto split: option.splits sum.splits)
    have "visit_ok ?co" using 2(3) None by (auto simp: visit_ok_def)
    then have k: "visit_ok co1" "visiting_kept ?co co1" using 2(1) [OF None nd co1] by auto
    then have "co_states co1 mid = Some VISITING" by (simp add: visiting_kept_def)
    then show ?thesis using k None unfolding co' by (auto simp: visit_ok_def visiting_kept_def)
  qed
next
  case (4 n rf opt stack mid i "is" co)
  obtain child co1 co2 where c: "ensure_import rf opt (Inst i) co = Inr (child, co1)"
    "module_visit n rf opt stack child (add_import mid child co1) = Some (Inr co2)" "module_imports n rf opt stack mid is co2 = Some (Inr co')"
    using 4(3) by (auto split: option.splits sum.splits)
  have same: "visit_ok (add_import mid child co1)" "visiting_kept co (add_import mid child co1)"
    using 4(4) ensure_import_order [OF c(1)] by (simp_all add: visit_ok_def visiting_kept_def add_import_order)
  have v: "visit_ok co2 \<and> visiting_kept (add_import mid child co1) co2" using 4(1) [OF c(1) refl c(2) same(1)] by simp
  have "visit_ok co' \<and> visiting_kept co2 co'" using 4(2) [OF c(1) refl c(2) refl c(3)] v by simp
  then show ?case using v same(2) by (simp add: visiting_kept_def)
qed (simp_all add: visiting_kept_def)

lemma plans_ids: "all_ok (map (plan_module rf co) mids) = Inr mods \<Longrightarrow> map ml_module_id mods = mids"
proof -
  assume "all_ok (map (plan_module rf co) mids) = Inr mods"
  then have "list_all2 (\<lambda>mid m. plan_module rf co mid = Inr m) mids mods" by (rule all_ok_list [OF all_ok_Inr])
  then have "list_all2 (\<lambda>mid m. ml_module_id m = mid) mids mods"
    by (rule list_all2_mono) (auto simp: plan_module_def split: option.splits sum.splits)
  then show ?thesis by (simp add: list_all2_conv_all_nth list_eq_iff_nth_eq)
qed

lemma add_fallback_ids: "add_fallback rf mid d mods = Inr mods' \<Longrightarrow> map ml_module_id mods' = map ml_module_id mods"
  by (auto simp: add_fallback_def comp_def split: sum.splits bool.splits)

lemma add_fallbacks_ids:
  assumes "add_fallbacks rf opt root mods = Inr mods'"
  shows "map ml_module_id mods' = map ml_module_id mods"
proof (cases "op_fallback_collector opt")
  case (Some f)
  let ?P = "\<lambda>ms. map ml_module_id ms = map ml_module_id mods"
  have inner: "?P s'" if "?P s" "fold_err (add_fallback rf mid) ds s = Inr s'" for mid ds s s'
    by (rule fold_err_inv [where P = ?P, OF that(2,1)]) (metis add_fallback_ids)
  have f: "fold_err (\<lambda>(mid, sp). fold_err (add_fallback rf mid) (f mid sp (mid = root))) (map (\<lambda>m. (ml_module_id m, ml_spec m)) mods) mods = Inr mods'"
    using assms Some by (simp add: add_fallbacks_def)
  show ?thesis by (rule fold_err_inv [where P = ?P, OF f refl]) (clarsimp simp only: split_paired_all prod.case, rule inner)
qed (use assms in \<open>simp add: add_fallbacks_def\<close>)

lemma finish_graph_ok:
  "finish_graph rf opt root co \<noteq> None"
  "finish_graph rf opt root co = Some (Inr g) \<Longrightarrow> graph_ok rf g \<and> scopes_ok g \<and> cg_root g = root"
  "finish_graph rf opt root co = Some (Inr g) \<Longrightarrow> visit_ok co \<Longrightarrow> links_ok rf g"
proof -
  have d: "declared_plans rf mods" if "all_ok (map (plan_module rf co) (co_order co)) = Inr mods0" "add_fallbacks rf opt root mods0 = Inr mods" for mods0 mods
    using add_fallbacks_declared [OF declared_plans_all [OF that(1)] that(2)] .
  show "finish_graph rf opt root co \<noteq> None"
  proof -
    have "link_graph rf root mods \<noteq> None"
      if "all_ok (map (plan_module rf co) (co_order co)) = Inr mods0" "add_fallbacks rf opt root mods0 = Inr mods" for mods0 mods
      using link_graph_ok(1) [OF d [OF that]] .
    then show ?thesis by (simp add: finish_graph_def split: sum.split)
  qed
  assume "finish_graph rf opt root co = Some (Inr g)"
  then obtain mods0 mods where s: "all_ok (map (plan_module rf co) (co_order co)) = Inr mods0" "add_fallbacks rf opt root mods0 = Inr mods"
    "link_graph rf root mods = Some (Inr g)"
    unfolding finish_graph_def by (auto split: sum.splits)
  show "graph_ok rf g \<and> scopes_ok g \<and> cg_root g = root" using link_graph_ok(2) [OF d [OF s(1,2)] s(3)] .
  assume "visit_ok co"
  then have "distinct (map ml_module_id mods)"
    using plans_ids [OF s(1)] add_fallbacks_ids [OF s(2)] by (simp add: visit_ok_def del: distinct_map)
  then show "links_ok rf g" by (rule link_graph_ok(3) [OF d [OF s(1,2)] s(3)])
qed

end
