(* ===== verification/DI_Container.thy ===== *)
theory DI_Container
  imports DI_Wellformed
begin

text \<open>
  Dependency injection: the container of \<open>core/runtime.py\<close>.

  Models \<open>ScopeLease\<close>, \<open>_ResourceStack\<close>, \<open>_ScopeState\<close>, \<open>_Resolver\<close>, \<open>Container\<close> and
  \<open>RequestScope\<close>. Scopes are numbered; scope 0 is the application scope. What application code does
  when it is called is the record \<open>world\<close>: the outcome of the constructor call, the entry or the exit
  that happens at a given tick. The trace of a container lists the calls in their order.

  One resolution is one step: a request scope refuses every task but its owner, and the application
  scope is filled before requests are admitted. A resource whose entry is cancelled counts as not
  entered. Logging is left out.
\<close>

section \<open>Values and errors\<close>

datatype pvalue =
    Obj nat
  | ProxyOf pvalue provider_ref
  | WorkScopesOf module_id
  | IntrinsicOf token

datatype rt_error =
    ScopeError
  | ScopeClosedError
  | ApplicationStateError
  | ResourceAcquireError
  | InvalidExitResult provider_ref
  | CleanupTimeout
  | UncanonicalizedAliasError
  | RtKeyError
  | NotAwaitableError
  | UserError nat
  | CancelledError
  | ControlExit nat
  | ScopeFinalizationError "rt_error option" "rt_error list"
  | ScopeCancellationError rt_error "rt_error list"

text \<open>\<open>ScopeCancellationError\<close> inherits from \<open>asyncio.CancelledError\<close>; \<open>ControlExit\<close> is \<open>KeyboardInterrupt\<close> or \<open>SystemExit\<close>.\<close>

fun is_cancelled :: "rt_error \<Rightarrow> bool" where
  "is_cancelled CancelledError = True"
| "is_cancelled (ScopeCancellationError e es) = True"
| "is_cancelled e = False"

fun is_control :: "rt_error \<Rightarrow> bool" where
  "is_control (ControlExit n) = True"
| "is_control e = False"

definition scope_cleanup_error :: "rt_error option \<Rightarrow> rt_error list \<Rightarrow> rt_error" where
  "scope_cleanup_error body errors =
     (let secondary = (\<lambda>e. (case body of None \<Rightarrow> [] | Some b \<Rightarrow> [b]) @ remove1 e errors) in
      case body of
        Some b \<Rightarrow>
          if is_cancelled b then ScopeCancellationError b errors
          else if is_control b then b
          else (case find is_control errors of
             Some c \<Rightarrow> c
           | None \<Rightarrow> (case find is_cancelled errors of
                Some c \<Rightarrow> ScopeCancellationError c (secondary c)
              | None \<Rightarrow> ScopeFinalizationError body errors))
      | None \<Rightarrow>
          (case find is_control errors of
             Some c \<Rightarrow> c
           | None \<Rightarrow> (case find is_cancelled errors of
                Some c \<Rightarrow> ScopeCancellationError c (secondary c)
              | None \<Rightarrow> ScopeFinalizationError body errors)))"

section \<open>Application code\<close>

text \<open>\<open>CallAwaitable v out\<close>: the call returned the awaitable \<open>v\<close>, and awaiting it gives \<open>out\<close>.\<close>

datatype call_outcome = CallRaises rt_error | CallReturns pvalue | CallAwaitable pvalue "rt_error + pvalue"

datatype exit_outcome = ExitReturns bool | ExitRaises rt_error

text \<open>
  \<open>w_managed\<close> says which values have the methods of a context manager, \<open>w_late\<close> which exits are not
  over at the deadline of a shutdown; \<open>w_work_scope\<close> recognises the token \<open>WorkScopeFactory\<close>.
\<close>

record world =
  w_call :: "nat \<Rightarrow> invoker \<Rightarrow> call_outcome"
  w_managed :: "pvalue \<Rightarrow> bool"
  w_enter :: "nat \<Rightarrow> pvalue \<Rightarrow> rt_error + pvalue"
  w_exit :: "nat \<Rightarrow> pvalue \<Rightarrow> exit_outcome"
  w_late :: "nat \<Rightarrow> bool"
  w_work_scope :: "token \<Rightarrow> bool"

datatype event = Called provider_ref "(string \<times> pvalue) list" | Entered pvalue | Exiting pvalue

section \<open>Scopes\<close>

datatype lease_state = LEASE_OPEN | LEASE_CLOSING | LEASE_CLOSED

definition lease_check :: "lease_state \<Rightarrow> bool \<Rightarrow> rt_error + unit" where
  [op_defs]: "lease_check l allow_closing =
     (if l = LEASE_OPEN \<or> (allow_closing \<and> l = LEASE_CLOSING) then Inr () else Inl ScopeClosedError)"

definition lease_begin_close :: "lease_state \<Rightarrow> lease_state" where
  [op_defs]: "lease_begin_close l = (if l = LEASE_OPEN then LEASE_CLOSING else l)"

definition lease_close :: "lease_state \<Rightarrow> lease_state" where
  [op_defs]: "lease_close l = LEASE_CLOSED"

datatype scope_kind = APPLICATION_SCOPE | REQUEST_SCOPE | WORK_SCOPE

record resource_stack =
  rs_records :: "(pvalue \<times> provider_ref) list"
  rs_closed :: bool

record scope_state =
  sc_kind :: scope_kind
  sc_lease :: "lease_state option"
  sc_cache :: "(provider_ref \<times> pvalue) list"
  sc_resources :: "resource_stack option"
  sc_owner :: "nat option"

record container =
  ct_closed :: bool
  ct_scopes :: "nat \<Rightarrow> scope_state"
  ct_work_scopes :: bool
  ct_intrinsics :: "(token \<Rightarrow> rt_error + pvalue) option"
  ct_tick :: nat
  ct_trace :: "(nat \<times> event) list"

definition empty_stack :: resource_stack where
  "empty_stack = \<lparr>rs_records = [], rs_closed = False\<rparr>"

definition new_request_scope :: "scope_kind \<Rightarrow> scope_state" where
  "new_request_scope kind = \<lparr>sc_kind = kind, sc_lease = Some LEASE_OPEN, sc_cache = [], sc_resources = None, sc_owner = None\<rparr>"

definition application_scope :: scope_state where
  "application_scope = \<lparr>sc_kind = APPLICATION_SCOPE, sc_lease = None, sc_cache = [], sc_resources = Some empty_stack, sc_owner = None\<rparr>"

definition new_container :: "bool \<Rightarrow> (token \<Rightarrow> rt_error + pvalue) option \<Rightarrow> container" where
  "new_container work intrinsics = \<lparr>ct_closed = False, ct_scopes = (\<lambda>_. new_request_scope REQUEST_SCOPE)(0 := application_scope),
     ct_work_scopes = work, ct_intrinsics = intrinsics, ct_tick = 0, ct_trace = []\<rparr>"

definition bind_owner :: "nat option \<Rightarrow> scope_state \<Rightarrow> rt_error + scope_state" where
  [op_defs]: "bind_owner task sc = (case task of None \<Rightarrow> Inl ScopeError | Some t \<Rightarrow> Inr (sc\<lparr>sc_owner := Some t\<rparr>))"

definition check_access :: "nat option \<Rightarrow> scope_state \<Rightarrow> rt_error + unit" where
  [op_defs]: "check_access task sc =
     (case sc_lease sc of
        None \<Rightarrow> Inr ()
      | Some l \<Rightarrow>
         (case lease_check l False of
            Inl e \<Rightarrow> Inl e
          | Inr u \<Rightarrow> if task \<noteq> sc_owner sc then Inl ScopeError else Inr ()))"

definition put_scope :: "nat \<Rightarrow> scope_state \<Rightarrow> container \<Rightarrow> container" where
  "put_scope sid sc ct = ct\<lparr>ct_scopes := (ct_scopes ct)(sid := sc)\<rparr>"

definition tick :: "nat \<Rightarrow> event \<Rightarrow> container \<Rightarrow> container" where
  "tick sid e ct = ct\<lparr>ct_tick := Suc (ct_tick ct), ct_trace := ct_trace ct @ [(sid, e)]\<rparr>"

definition records_of :: "scope_state \<Rightarrow> (pvalue \<times> provider_ref) list" where
  "records_of sc = (case sc_resources sc of None \<Rightarrow> [] | Some rs \<Rightarrow> rs_records rs)"

definition set_records :: "(pvalue \<times> provider_ref) list \<Rightarrow> scope_state \<Rightarrow> scope_state" where
  "set_records recs sc = sc\<lparr>sc_resources := map_option (\<lambda>rs. rs\<lparr>rs_records := recs\<rparr>) (sc_resources sc)\<rparr>"

section \<open>Resource stacks\<close>

text \<open>A value that is no context manager is returned as it is. The record is added once the entry is over.\<close>

definition resource_enter :: "world \<Rightarrow> nat \<Rightarrow> pvalue \<Rightarrow> provider_ref \<Rightarrow> container \<Rightarrow> (rt_error + pvalue) \<times> container" where
  [op_defs]: "resource_enter w sid v label ct =
     (let sc = ct_scopes ct sid in
      if (case sc_resources sc of None \<Rightarrow> False | Some rs \<Rightarrow> rs_closed rs) then (Inl ResourceAcquireError, ct)
      else if \<not> w_managed w v then (Inr v, ct)
      else (case w_enter w (ct_tick ct) v of
         Inl e \<Rightarrow> (Inl e, ct\<lparr>ct_tick := Suc (ct_tick ct)\<rparr>)
       | Inr entered \<Rightarrow> (Inr entered, put_scope sid (set_records (records_of sc @ [(v, label)]) sc) (tick sid (Entered v) ct))))"

definition exit_error :: "world \<Rightarrow> bool \<Rightarrow> nat \<Rightarrow> pvalue \<Rightarrow> provider_ref \<Rightarrow> rt_error option" where
  "exit_error w deadline k v label =
     (if deadline \<and> w_late w k then Some CleanupTimeout
      else (case w_exit w k v of
         ExitReturns truthy \<Rightarrow> if truthy then Some (InvalidExitResult label) else None
       | ExitRaises e \<Rightarrow> Some e))"

fun exit_records :: "world \<Rightarrow> bool \<Rightarrow> nat \<Rightarrow> (pvalue \<times> provider_ref) list \<Rightarrow> container \<Rightarrow> rt_error list \<times> container" where
  "exit_records w deadline sid [] ct = ([], ct)"
| "exit_records w deadline sid ((v, label) # recs) ct =
     (case exit_records w deadline sid recs (tick sid (Exiting v) ct) of
        (errors, ct') \<Rightarrow> (case exit_error w deadline (ct_tick ct) v label of None \<Rightarrow> (errors, ct') | Some e \<Rightarrow> (e # errors, ct')))"

text \<open>\<open>_close_records\<close>: the records above the mark are popped from the top and exited one by one.\<close>

definition close_records :: "world \<Rightarrow> bool \<Rightarrow> nat \<Rightarrow> nat \<Rightarrow> container \<Rightarrow> rt_error list \<times> container" where
  [op_defs]: "close_records w deadline sid mark ct =
     (let recs = records_of (ct_scopes ct sid) in
      case exit_records w deadline sid (rev (drop mark recs)) ct of
        (errors, ct') \<Rightarrow> (errors, put_scope sid (set_records (take mark recs) (ct_scopes ct' sid)) ct'))"

definition stack_close :: "world \<Rightarrow> bool \<Rightarrow> nat \<Rightarrow> container \<Rightarrow> rt_error list \<times> container" where
  [op_defs]: "stack_close w deadline sid ct =
     (let sc = ct_scopes ct sid in
      close_records w deadline sid 0 (put_scope sid (sc\<lparr>sc_resources := map_option (\<lambda>rs. rs\<lparr>rs_closed := True\<rparr>) (sc_resources sc)\<rparr>) ct))"

section \<open>Construction\<close>

definition call_value :: "await_policy \<Rightarrow> call_outcome \<Rightarrow> rt_error + pvalue" where
  "call_value policy out =
     (case out of
        CallRaises e \<Rightarrow> Inl e
      | CallReturns v \<Rightarrow> if policy = AWAIT_ALWAYS then Inl NotAwaitableError else Inr v
      | CallAwaitable v awaited \<Rightarrow> if policy = AWAIT_NEVER then Inr v else awaited)"

definition call_outcome_of :: "world \<Rightarrow> nat \<Rightarrow> invoker \<Rightarrow> call_outcome" where
  "call_outcome_of w k i =
     (case i of
        ReturnsValue v \<Rightarrow> CallReturns (Obj v)
      | UncanonicalizedAlias \<Rightarrow> CallRaises UncanonicalizedAliasError
      | _ \<Rightarrow> w_call w k i)"

text \<open>The body of the \<open>try\<close> after the dependencies: call, await, enter, wrap.\<close>

definition construct_value ::
  "world \<Rightarrow> nat \<Rightarrow> provider_ref \<Rightarrow> provider_plan \<Rightarrow> construction_recipe \<Rightarrow> (string \<times> pvalue) list \<Rightarrow> container
    \<Rightarrow> (rt_error + pvalue) \<times> container" where
  "construct_value w owner r plan recipe arguments ct =
     (let ct1 = tick owner (Called r arguments) ct in
      case call_value (cr_await_policy recipe) (call_outcome_of w (ct_tick ct) (cr_invoker recipe)) of
        Inl e \<Rightarrow> (Inl e, ct1)
      | Inr v \<Rightarrow>
         (case (if cr_manage recipe then resource_enter w owner v r ct1 else (Inr v, ct1)) of
            (Inl e, ct2) \<Rightarrow> (Inl e, ct2)
          | (Inr v', ct2) \<Rightarrow> (Inr (if pp_proxy plan then ProxyOf v' r else v'), ct2)))"

text \<open>The \<open>except\<close> clause: undo what this construction entered and cached in the owner.\<close>

definition rollback :: "world \<Rightarrow> nat \<Rightarrow> nat \<Rightarrow> provider_ref list \<Rightarrow> rt_error \<Rightarrow> container \<Rightarrow> rt_error \<times> container" where
  "rollback w owner mark initial e ct =
     (case close_records w False owner mark ct of
        (errors, ct') \<Rightarrow>
          let sc = ct_scopes ct' owner;
              ct'' = put_scope owner (sc\<lparr>sc_cache := filter (\<lambda>(k, v). k \<in> set initial) (sc_cache sc)\<rparr>) ct' in
          (if errors = [] then e else scope_cleanup_error (Some e) errors, ct''))"

definition ensure_resources :: "nat \<Rightarrow> container \<Rightarrow> container" where
  "ensure_resources owner ct =
     (let sc = ct_scopes ct owner in
      case sc_resources sc of None \<Rightarrow> put_scope owner (sc\<lparr>sc_resources := Some empty_stack\<rparr>) ct | Some rs \<Rightarrow> ct)"

definition intrinsic_value :: "world \<Rightarrow> module_id \<Rightarrow> token \<Rightarrow> container \<Rightarrow> rt_error + pvalue" where
  "intrinsic_value w mid t ct =
     (if w_work_scope w t then (if ct_work_scopes ct then Inr (WorkScopesOf mid) else Inl ScopeError)
      else (case ct_intrinsics ct of None \<Rightarrow> Inl ScopeError | Some f \<Rightarrow> f t))"

text \<open>The scope that owns what a resolution builds.\<close>

definition owner_of :: "scope \<Rightarrow> nat \<Rightarrow> container \<Rightarrow> rt_error + nat" where
  "owner_of s sid ct =
     (case s of
        SINGLETON \<Rightarrow> Inr 0
      | REQUEST \<Rightarrow> if sc_kind (ct_scopes ct sid) = APPLICATION_SCOPE \<or> sc_lease (ct_scopes ct sid) = None then Inl ScopeError else Inr sid
      | TRANSIENT \<Rightarrow> Inr sid)"

fun resolve :: "nat \<Rightarrow> compiled_graph \<Rightarrow> world \<Rightarrow> nat \<Rightarrow> provider_ref \<Rightarrow> container \<Rightarrow> ((rt_error + pvalue) \<times> container) option"
and construct :: "nat \<Rightarrow> compiled_graph \<Rightarrow> world \<Rightarrow> nat \<Rightarrow> nat \<Rightarrow> provider_ref \<Rightarrow> construction_recipe \<Rightarrow> container \<Rightarrow> ((rt_error + pvalue) \<times> container) option"
and arguments :: "nat \<Rightarrow> compiled_graph \<Rightarrow> world \<Rightarrow> nat \<Rightarrow> module_id \<Rightarrow> dependency_source list \<Rightarrow> container \<Rightarrow> ((rt_error + (string \<times> pvalue) list) \<times> container) option"
where
  "resolve 0 g w sid r ct = None"
| "resolve (Suc n) g w sid r ct =
     (if ct_closed ct then Some (Inl ScopeClosedError, ct)
      else (case map_of (cg_providers g) r of
         None \<Rightarrow> Some (Inl RtKeyError, ct)
       | Some plan \<Rightarrow>
          (case owner_of (pp_scope plan) sid ct of
             Inl e \<Rightarrow> Some (Inl e, ct)
           | Inr owner \<Rightarrow>
              if pp_scope plan = TRANSIENT then construct n g w sid owner (pp_canonical plan) (pp_recipe plan) ct
              else (case map_of (sc_cache (ct_scopes ct owner)) (pp_canonical plan) of
                 Some v \<Rightarrow> Some (Inr v, ct)
               | None \<Rightarrow>
                  (case construct n g w owner owner (pp_canonical plan) (pp_recipe plan) ct of
                     None \<Rightarrow> None
                   | Some (Inl e, ct') \<Rightarrow> Some (Inl e, ct')
                   | Some (Inr v, ct') \<Rightarrow>
                      let sc = ct_scopes ct' owner in
                      Some (Inr v, put_scope owner (sc\<lparr>sc_cache := AList.update (pp_canonical plan) v (sc_cache sc)\<rparr>) ct'))))))"
| "construct n g w sid owner r recipe ct =
     (case map_of (cg_providers g) r of
        None \<Rightarrow> Some (Inl RtKeyError, ct)
      | Some plan \<Rightarrow>
         let ct0 = ensure_resources owner ct;
             mark = length (records_of (ct_scopes ct0 owner));
             initial = map fst (sc_cache (ct_scopes ct0 owner)) in
         (case arguments n g w sid (pr_module_id r) (cr_dependencies recipe) ct0 of
            None \<Rightarrow> None
          | Some (Inl e, ct1) \<Rightarrow> Some (case rollback w owner mark initial e ct1 of (e', ct2) \<Rightarrow> (Inl e', ct2))
          | Some (Inr args, ct1) \<Rightarrow>
             (case construct_value w owner r plan recipe args ct1 of
                (Inl e, ct2) \<Rightarrow> Some (case rollback w owner mark initial e ct2 of (e', ct3) \<Rightarrow> (Inl e', ct3))
              | (Inr v, ct2) \<Rightarrow> Some (Inr v, ct2))))"
| "arguments n g w sid mid [] ct = Some (Inr [], ct)"
| "arguments n g w sid mid (d # ds) ct =
     (case (case ds_intrinsic d of
              Some t \<Rightarrow> Some (map_sum id Some (intrinsic_value w mid t ct), ct)
            | None \<Rightarrow>
               (case ds_provider_ref d of
                  None \<Rightarrow> Some (Inr None, ct)
                | Some r \<Rightarrow> map_option (\<lambda>(out, ct'). (map_sum id Some out, ct')) (resolve n g w sid r ct))) of
        None \<Rightarrow> None
      | Some (Inl e, ct') \<Rightarrow> Some (Inl e, ct')
      | Some (Inr a, ct') \<Rightarrow>
         (case arguments n g w sid mid ds ct' of
            None \<Rightarrow> None
          | Some (Inl e, ct'') \<Rightarrow> Some (Inl e, ct'')
          | Some (Inr args, ct'') \<Rightarrow>
             Some (Inr ((case a of None \<Rightarrow> [] | Some v \<Rightarrow> [(ds_parameter_name d, v)]) @ args), ct'')))"

section \<open>Resolvers\<close>

definition container_resolve_ref ::
  "nat \<Rightarrow> compiled_graph \<Rightarrow> world \<Rightarrow> nat option \<Rightarrow> nat \<Rightarrow> provider_ref \<Rightarrow> container \<Rightarrow> ((rt_error + pvalue) \<times> container) option" where
  "container_resolve_ref n g w task sid r ct =
     (case check_access task (ct_scopes ct sid) of Inl e \<Rightarrow> Some (Inl e, ct) | Inr u \<Rightarrow> resolve n g w sid r ct)"

definition resolve_token ::
  "nat \<Rightarrow> compiled_graph \<Rightarrow> world \<Rightarrow> nat option \<Rightarrow> nat \<Rightarrow> module_id \<Rightarrow> token \<Rightarrow> container \<Rightarrow> ((rt_error + pvalue) \<times> container) option" where
  "resolve_token n g w task sid mid t ct =
     (case map_of (cg_visibility g) (mid, t) of
        None \<Rightarrow> Some (Inl ScopeError, ct)
      | Some r \<Rightarrow> container_resolve_ref n g w task sid r ct)"

definition resolver_resolve ::
  "nat \<Rightarrow> compiled_graph \<Rightarrow> world \<Rightarrow> nat option \<Rightarrow> nat \<Rightarrow> module_id \<Rightarrow> token arg \<Rightarrow> container \<Rightarrow> ((rt_error + pvalue) \<times> container) option" where
  "resolver_resolve n g w task sid mid t ct =
     (case t of Foreign \<Rightarrow> Some (Inl ScopeError, ct) | Inst tk \<Rightarrow> resolve_token n g w task sid mid tk ct)"

definition resolver_resolve_ref ::
  "nat \<Rightarrow> compiled_graph \<Rightarrow> world \<Rightarrow> nat option \<Rightarrow> nat \<Rightarrow> module_id \<Rightarrow> provider_ref \<Rightarrow> container \<Rightarrow> ((rt_error + pvalue) \<times> container) option" where
  "resolver_resolve_ref n g w task sid mid r ct =
     (if map_of (cg_visibility g) (mid, pr_token r) \<noteq> Some r then Some (Inl ScopeError, ct)
      else container_resolve_ref n g w task sid r ct)"

section \<open>Request scopes\<close>

record request_scope =
  rq_scope :: nat
  rq_module :: module_id
  rq_entered :: bool
  rq_closed :: bool

text \<open>\<open>admitted\<close> is what \<open>on_open\<close> does: it returns or raises.\<close>

definition scope_enter :: "nat option \<Rightarrow> rt_error + unit \<Rightarrow> request_scope \<Rightarrow> container \<Rightarrow> (rt_error + unit) \<times> request_scope \<times> container" where
  [op_defs]: "scope_enter task admitted rq ct =
     (if rq_entered rq then (Inl ScopeError, rq, ct)
      else
        let rq' = rq\<lparr>rq_entered := True\<rparr> in
        (case bind_owner task (ct_scopes ct (rq_scope rq)) of
           Inl e \<Rightarrow> (Inl e, rq', ct)
         | Inr sc \<Rightarrow> (admitted, rq', put_scope (rq_scope rq) sc ct)))"

definition scope_resolver_for :: "nat option \<Rightarrow> request_scope \<Rightarrow> container \<Rightarrow> rt_error + unit" where
  [op_defs]: "scope_resolver_for task rq ct =
     (if \<not> rq_entered rq \<or> rq_closed rq then Inl ScopeError else check_access task (ct_scopes ct (rq_scope rq)))"

definition scope_resolve_ref ::
  "nat \<Rightarrow> compiled_graph \<Rightarrow> world \<Rightarrow> nat option \<Rightarrow> request_scope \<Rightarrow> provider_ref \<Rightarrow> container \<Rightarrow> ((rt_error + pvalue) \<times> container) option" where
  [op_defs]: "scope_resolve_ref n g w task rq r ct =
     (if \<not> rq_entered rq \<or> rq_closed rq then Some (Inl ScopeError, ct)
      else container_resolve_ref n g w task (rq_scope rq) r ct)"

definition finish_close :: "request_scope \<Rightarrow> container \<Rightarrow> request_scope \<times> container" where
  [op_defs]: "finish_close rq ct =
     (let sc = ct_scopes ct (rq_scope rq) in
      (rq\<lparr>rq_closed := True\<rparr>, put_scope (rq_scope rq) (sc\<lparr>sc_lease := map_option lease_close (sc_lease sc)\<rparr>) ct))"

text \<open>The error that the cleanup of a scope raises, given the error that left its body.\<close>

definition cleanup_outcome :: "rt_error option \<Rightarrow> rt_error list \<Rightarrow> rt_error option" where
  "cleanup_outcome body errors =
     (if errors = [] then None
      else if (case body of Some b \<Rightarrow> is_control b | None \<Rightarrow> False) then None
      else Some (scope_cleanup_error body errors))"

definition scope_finalize :: "world \<Rightarrow> rt_error option \<Rightarrow> request_scope \<Rightarrow> container \<Rightarrow> rt_error option \<times> request_scope \<times> container" where
  [op_defs]: "scope_finalize w body rq ct =
     (if rq_closed rq then (None, rq, ct)
      else
        let sid = rq_scope rq;
            sc = ct_scopes ct sid;
            ct1 = put_scope sid (sc\<lparr>sc_lease := map_option lease_begin_close (sc_lease sc)\<rparr>) ct in
        if records_of sc = [] then (case finish_close rq ct1 of (rq', ct2) \<Rightarrow> (None, rq', ct2))
        else (case stack_close w False sid ct1 of
          (errors, ct2) \<Rightarrow> (case finish_close rq ct2 of (rq', ct3) \<Rightarrow> (cleanup_outcome body errors, rq', ct3))))"

section \<open>Closing the container\<close>

definition container_close :: "world \<Rightarrow> bool \<Rightarrow> container \<Rightarrow> rt_error option \<times> container" where
  [op_defs]: "container_close w deadline ct =
     (if ct_closed ct then (None, ct)
      else
        let ct1 = ct\<lparr>ct_closed := True\<rparr> in
        (case sc_resources (ct_scopes ct1 0) of
           None \<Rightarrow> (None, ct1)
         | Some rs \<Rightarrow> (case stack_close w deadline 0 ct1 of (errors, ct2) \<Rightarrow> (case errors of [] \<Rightarrow> None | e # es \<Rightarrow> Some e, ct2))))"

text \<open>The part of \<open>ApplicationKernel.start\<close> that builds the singletons, in the provider order.\<close>

fun resolve_singletons :: "nat \<Rightarrow> compiled_graph \<Rightarrow> world \<Rightarrow> provider_ref list \<Rightarrow> container \<Rightarrow> ((rt_error + unit) \<times> container) option" where
  "resolve_singletons n g w [] ct = Some (Inr (), ct)"
| "resolve_singletons n g w (r # rs) ct =
     (case map_of (cg_providers g) r of
        None \<Rightarrow> Some (Inl RtKeyError, ct)
      | Some plan \<Rightarrow>
         if pp_scope plan \<noteq> SINGLETON then resolve_singletons n g w rs ct
         else (case container_resolve_ref n g w None 0 r ct of
            None \<Rightarrow> None
          | Some (Inl e, ct') \<Rightarrow> Some (Inl e, ct')
          | Some (Inr v, ct') \<Rightarrow> resolve_singletons n g w rs ct'))"

definition start_singletons :: "compiled_graph \<Rightarrow> world \<Rightarrow> container \<Rightarrow> ((rt_error + unit) \<times> container) option" where
  "start_singletons g w ct = resolve_singletons (Suc (length (cg_provider_order g))) g w (cg_provider_order g) ct"

end
