(* ===== verification/DI_Container_Runs.thy ===== *)
theory DI_Container_Runs
  imports DI_Container
begin

text \<open>
  Dependency injection: what resolution and closing do to scopes and resources.

  \<open>open_resources\<close> reads the trace of a scope as a bracket sequence: an entry opens, an exit closes the
  one opened last. The invariant \<open>resources_ok\<close> says that the trace of every scope is well bracketed and
  that what is open is what the resource stack holds. \<open>resolve_frame\<close> says what a resolution leaves
  untouched, and that a failed one gives back the scope as it was.
\<close>

section \<open>Brackets\<close>

fun bracket :: "nat \<Rightarrow> pvalue list option \<Rightarrow> nat \<times> event \<Rightarrow> pvalue list option" where
  "bracket sid None x = None"
| "bracket sid (Some vs) (s, e) =
     (if s \<noteq> sid then Some vs
      else (case e of
         Called r args \<Rightarrow> Some vs
       | Entered v \<Rightarrow> Some (vs @ [v])
       | Exiting v \<Rightarrow> if vs \<noteq> [] \<and> last vs = v then Some (butlast vs) else None))"

definition open_resources :: "nat \<Rightarrow> (nat \<times> event) list \<Rightarrow> pvalue list option" where
  "open_resources sid tr = foldl (bracket sid) (Some []) tr"

definition resources_ok :: "container \<Rightarrow> bool" where
  [inv_defs]: "resources_ok ct \<longleftrightarrow> (\<forall>sid. open_resources sid (ct_trace ct) = Some (map fst (records_of (ct_scopes ct sid))))"

lemma open_resources_snoc: "open_resources sid (tr @ [x]) = bracket sid (open_resources sid tr) x"
  by (simp add: open_resources_def)

lemma resources_okD: "resources_ok ct \<Longrightarrow> open_resources sid (ct_trace ct) = Some (map fst (records_of (ct_scopes ct sid)))"
  by (simp add: resources_ok_def)

lemma resources_ok_same:
  "resources_ok ct \<Longrightarrow> ct_trace ct' = ct_trace ct \<Longrightarrow> \<forall>s. records_of (ct_scopes ct' s) = records_of (ct_scopes ct s) \<Longrightarrow> resources_ok ct'"
  by (simp add: resources_ok_def)

lemma put_scope_simps [simp]:
  "ct_scopes (put_scope sid sc ct) s = (if s = sid then sc else ct_scopes ct s)"
  "ct_trace (put_scope sid sc ct) = ct_trace ct" "ct_tick (put_scope sid sc ct) = ct_tick ct"
  "ct_closed (put_scope sid sc ct) = ct_closed ct" "ct_intrinsics (put_scope sid sc ct) = ct_intrinsics ct"
  "ct_work_scopes (put_scope sid sc ct) = ct_work_scopes ct"
  by (simp_all add: put_scope_def)

lemma tick_simps [simp]:
  "ct_scopes (tick sid e ct) = ct_scopes ct" "ct_trace (tick sid e ct) = ct_trace ct @ [(sid, e)]"
  "ct_tick (tick sid e ct) = Suc (ct_tick ct)" "ct_closed (tick sid e ct) = ct_closed ct"
  "ct_intrinsics (tick sid e ct) = ct_intrinsics ct" "ct_work_scopes (tick sid e ct) = ct_work_scopes ct"
  by (simp_all add: tick_def)

lemma set_records_simps [simp]:
  "sc_cache (set_records recs sc) = sc_cache sc" "sc_kind (set_records recs sc) = sc_kind sc"
  "sc_lease (set_records recs sc) = sc_lease sc" "sc_owner (set_records recs sc) = sc_owner sc"
  "sc_resources sc \<noteq> None \<Longrightarrow> records_of (set_records recs sc) = recs"
  "sc_resources (set_records recs sc) = None \<longleftrightarrow> sc_resources sc = None"
  by (auto simp: set_records_def records_of_def)

lemma records_of_updates [simp]:
  "records_of (sc\<lparr>sc_cache := c\<rparr>) = records_of sc" "records_of (sc\<lparr>sc_lease := l\<rparr>) = records_of sc"
  "records_of (sc\<lparr>sc_owner := t\<rparr>) = records_of sc"
  "records_of (sc\<lparr>sc_resources := map_option (\<lambda>rs. rs\<lparr>rs_closed := b\<rparr>) (sc_resources sc)\<rparr>) = records_of sc"
  by (simp_all add: records_of_def option.case_eq_if map_option_case)

lemma records_None: "sc_resources sc = None \<Longrightarrow> records_of sc = []"
  by (simp add: records_of_def)

lemma set_records_same: "records_of (set_records (take n (records_of sc)) sc) = take n (records_of sc)"
  by (cases "sc_resources sc") (simp_all add: records_None set_records_def records_of_def)

section \<open>Exits\<close>

lemma exit_records_frame:
  "exit_records w dl sid recs ct = (errors, ct') \<Longrightarrow> ct_scopes ct' = ct_scopes ct \<and> ct_closed ct' = ct_closed ct \<and>
     ct_intrinsics ct' = ct_intrinsics ct \<and> ct_work_scopes ct' = ct_work_scopes ct \<and>
     ct_trace ct' = ct_trace ct @ map (\<lambda>(v, l). (sid, Exiting v)) recs"
  by (induction recs arbitrary: ct errors ct') (auto split: prod.splits option.splits)

lemma open_exits:
  "open_resources sid tr = Some (vs @ us) \<Longrightarrow>
   open_resources s (tr @ map (\<lambda>v. (sid, Exiting v)) (rev us)) = (if s = sid then Some vs else open_resources s tr)"
proof (induction us arbitrary: tr rule: rev_induct)
  case (snoc u us)
  have "open_resources sid (tr @ [(sid, Exiting u)]) = Some (vs @ us)"
    using snoc(2) by (simp add: open_resources_snoc butlast_append)
  moreover have "open_resources s (tr @ [(sid, Exiting u)]) = open_resources s tr" if "s \<noteq> sid"
    using that by (cases "open_resources s tr") (simp_all add: open_resources_snoc)
  ultimately show ?case using snoc(1) [of "tr @ [(sid, Exiting u)]"] by simp
qed simp

lemma close_records_ok:
  assumes "close_records w dl sid mark ct = (errors, ct')"
  shows "resources_ok ct \<Longrightarrow> resources_ok ct'"
    and "ct_scopes ct' s = (if s = sid then set_records (take mark (records_of (ct_scopes ct sid))) (ct_scopes ct sid) else ct_scopes ct s)"
    and "ct_closed ct' = ct_closed ct" "ct_intrinsics ct' = ct_intrinsics ct" "ct_work_scopes ct' = ct_work_scopes ct"
proof -
  let ?recs = "records_of (ct_scopes ct sid)"
  obtain ct1 where e: "exit_records w dl sid (rev (drop mark ?recs)) ct = (errors, ct1)"
    and ct': "ct' = put_scope sid (set_records (take mark ?recs) (ct_scopes ct1 sid)) ct1"
    using assms by (auto simp: close_records_def Let_def split: prod.splits)
  note f = exit_records_frame [OF e]
  show sc: "ct_scopes ct' s = (if s = sid then set_records (take mark ?recs) (ct_scopes ct sid) else ct_scopes ct s)" for s
    using f by (simp add: ct')
  show "ct_closed ct' = ct_closed ct" "ct_intrinsics ct' = ct_intrinsics ct" "ct_work_scopes ct' = ct_work_scopes ct"
    using f by (simp_all add: ct')
  assume ok: "resources_ok ct"
  have tr: "ct_trace ct' = ct_trace ct @ map (\<lambda>v. (sid, Exiting v)) (rev (map fst (drop mark ?recs)))"
    using f by (simp add: ct' rev_map comp_def split_def)
  have "open_resources sid (ct_trace ct) = Some (map fst (take mark ?recs) @ map fst (drop mark ?recs))"
    using resources_okD [OF ok, of sid] by (simp flip: map_append)
  note o = open_exits [OF this]
  show "resources_ok ct'"
    unfolding resources_ok_def
  proof
    fix s
    show "open_resources s (ct_trace ct') = Some (map fst (records_of (ct_scopes ct' s)))"
      unfolding tr o sc using resources_okD [OF ok, of s] by (simp add: set_records_same)
  qed
qed

section \<open>What a resolution changes\<close>

definition scope_ext :: "scope_state \<Rightarrow> scope_state \<Rightarrow> bool" where
  "scope_ext sc sc' \<longleftrightarrow> sc_kind sc' = sc_kind sc \<and> sc_lease sc' = sc_lease sc \<and> sc_owner sc' = sc_owner sc \<and>
     (\<exists>ys. records_of sc' = records_of sc @ ys) \<and>
     (\<exists>zs. sc_cache sc' = sc_cache sc @ zs \<and> fst ` set zs \<inter> fst ` set (sc_cache sc) = {}) \<and>
     (sc_resources sc \<noteq> None \<longrightarrow> sc_resources sc' \<noteq> None)"

definition scope_same :: "scope_state \<Rightarrow> scope_state \<Rightarrow> bool" where
  "scope_same sc sc' \<longleftrightarrow> sc_kind sc' = sc_kind sc \<and> sc_lease sc' = sc_lease sc \<and> sc_owner sc' = sc_owner sc \<and>
     records_of sc' = records_of sc \<and> sc_cache sc' = sc_cache sc \<and> (sc_resources sc \<noteq> None \<longrightarrow> sc_resources sc' \<noteq> None)"

text \<open>A step taken in scope \<open>sid\<close> changes that scope and the application scope only.\<close>

definition step_frame :: "nat \<Rightarrow> container \<Rightarrow> container \<Rightarrow> bool" where
  "step_frame sid ct ct' \<longleftrightarrow> (\<forall>s. scope_ext (ct_scopes ct s) (ct_scopes ct' s)) \<and>
     (\<forall>s. s \<noteq> 0 \<longrightarrow> s \<noteq> sid \<longrightarrow> ct_scopes ct' s = ct_scopes ct s) \<and>
     ct_closed ct' = ct_closed ct \<and> ct_intrinsics ct' = ct_intrinsics ct \<and> ct_work_scopes ct' = ct_work_scopes ct \<and>
     (resources_ok ct \<longrightarrow> resources_ok ct')"

lemma scope_same_ext: "scope_same sc sc' \<Longrightarrow> scope_ext sc sc'"
  by (auto simp: scope_same_def scope_ext_def)

lemma scope_same_refl [simp]: "scope_same sc sc"
  by (simp add: scope_same_def)

lemma scope_ext_refl [simp]: "scope_ext sc sc"
  by (simp add: scope_same_ext)

lemma scope_ext_trans: "scope_ext a b \<Longrightarrow> scope_ext b c \<Longrightarrow> scope_ext a c"
proof -
  assume a: "scope_ext a b" and b: "scope_ext b c"
  obtain zs where zs: "sc_cache b = sc_cache a @ zs" "fst ` set zs \<inter> fst ` set (sc_cache a) = {}" using a by (auto simp: scope_ext_def)
  obtain us where us: "sc_cache c = sc_cache b @ us" "fst ` set us \<inter> fst ` set (sc_cache b) = {}" using b by (auto simp: scope_ext_def)
  have "sc_cache c = sc_cache a @ (zs @ us) \<and> fst ` set (zs @ us) \<inter> fst ` set (sc_cache a) = {}" using zs us by auto
  then show ?thesis using a b unfolding scope_ext_def by (metis append_assoc)
qed

lemma step_frame_refl [simp]: "step_frame sid ct ct"
  by (simp add: step_frame_def)

lemma step_frame_trans: "step_frame sid a b \<Longrightarrow> step_frame sid b c \<Longrightarrow> step_frame sid a c"
  unfolding step_frame_def using scope_ext_trans by (metis (no_types, lifting))

lemma step_frame_scope0: "step_frame 0 ct ct' \<Longrightarrow> step_frame sid ct ct'"
  by (simp add: step_frame_def)

lemma ensure_resources_frame:
  "step_frame owner ct (ensure_resources owner ct)" "scope_same (ct_scopes ct s) (ct_scopes (ensure_resources owner ct) s)"
  "sc_resources (ct_scopes (ensure_resources owner ct) owner) \<noteq> None"
proof -
  have s: "scope_same (ct_scopes ct s) (ct_scopes (ensure_resources owner ct) s)" for s
    by (auto simp: ensure_resources_def Let_def scope_same_def records_of_def empty_stack_def split: option.split)
  then show "scope_same (ct_scopes ct s) (ct_scopes (ensure_resources owner ct) s)" .
  show "sc_resources (ct_scopes (ensure_resources owner ct) owner) \<noteq> None"
    by (auto simp: ensure_resources_def Let_def split: option.split)
  have rest: "ct_trace (ensure_resources owner ct) = ct_trace ct" "ct_closed (ensure_resources owner ct) = ct_closed ct"
    "ct_intrinsics (ensure_resources owner ct) = ct_intrinsics ct" "ct_work_scopes (ensure_resources owner ct) = ct_work_scopes ct"
    "\<forall>s. s \<noteq> owner \<longrightarrow> ct_scopes (ensure_resources owner ct) s = ct_scopes ct s"
    by (auto simp: ensure_resources_def Let_def split: option.split)
  have "resources_ok ct \<longrightarrow> resources_ok (ensure_resources owner ct)"
    using resources_ok_same rest(1) s by (metis scope_same_def)
  then show "step_frame owner ct (ensure_resources owner ct)"
    using s rest scope_same_ext by (simp add: step_frame_def)
qed

lemma tick_frame:
  assumes "\<forall>v. e \<noteq> Entered v \<and> e \<noteq> Exiting v"
  shows "step_frame owner ct (tick owner e ct)"
proof -
  have "open_resources s (ct_trace ct @ [(owner, e)]) = open_resources s (ct_trace ct)" for s
    using assms by (cases "open_resources s (ct_trace ct)"; cases e) (auto simp: open_resources_snoc)
  then show ?thesis by (simp add: step_frame_def resources_ok_def)
qed

lemma resource_enter_frame:
  assumes e: "resource_enter w owner v label ct = (out, ct')" and res: "sc_resources (ct_scopes ct owner) \<noteq> None"
  shows "step_frame owner ct ct'"
proof -
  let ?sc = "ct_scopes ct owner"
  consider "ct' = ct" | "ct' = ct\<lparr>ct_tick := Suc (ct_tick ct)\<rparr>"
    | "ct' = put_scope owner (set_records (records_of ?sc @ [(v, label)]) ?sc) (tick owner (Entered v) ct)"
    using e by (auto simp: resource_enter_def Let_def split: if_splits sum.splits)
  then show ?thesis
  proof cases
    case 3
    have "scope_ext (ct_scopes ct s) (ct_scopes ct' s)" for s
    proof -
      obtain rs where "sc_resources ?sc = Some rs" using res by blast
      then show ?thesis by (simp add: 3 scope_ext_def set_records_def records_of_def)
    qed
    moreover have "resources_ok ct'" if "resources_ok ct"
    proof -
      have "open_resources s (ct_trace ct') = Some (map fst (records_of (ct_scopes ct' s)))" for s
        using resources_okD [OF that, of s] set_records_simps(5) [OF res, of "records_of ?sc @ [(v, label)]"]
        by (cases "s = owner") (simp_all add: 3 open_resources_snoc)
      then show ?thesis by (simp add: resources_ok_def)
    qed
    ultimately show ?thesis by (simp add: step_frame_def 3)
  qed (auto simp: step_frame_def resources_ok_def)
qed

lemma construct_value_frame:
  assumes c: "construct_value w owner r plan recipe args ct = (out, ct')" and res: "sc_resources (ct_scopes ct owner) \<noteq> None"
  shows "step_frame owner ct ct'"
proof -
  let ?ct1 = "tick owner (Called r args) ct"
  have t: "step_frame owner ct ?ct1" by (rule tick_frame) simp
  have "ct' = ?ct1 \<or> (\<exists>v out. resource_enter w owner v r ?ct1 = (out, ct'))"
    using c by (auto simp: construct_value_def Let_def split: sum.splits prod.splits if_splits)
  then show ?thesis
  proof
    assume "\<exists>v out. resource_enter w owner v r ?ct1 = (out, ct')"
    then have "step_frame owner ?ct1 ct'" using resource_enter_frame res by fastforce
    then show ?thesis using t step_frame_trans by blast
  qed (use t in simp)
qed

lemma rollback_restores:
  assumes r: "rollback w owner mark initial e ct1 = (e', ct2)" and f: "step_frame owner ct0 ct1"
    and mark: "mark = length (records_of (ct_scopes ct0 owner))" and init: "initial = map fst (sc_cache (ct_scopes ct0 owner))"
    and res: "sc_resources (ct_scopes ct0 owner) \<noteq> None"
  shows "step_frame owner ct0 ct2 \<and> scope_same (ct_scopes ct0 owner) (ct_scopes ct2 owner)"
proof -
  obtain errors ct' where c: "close_records w False owner mark ct1 = (errors, ct')"
    and ct2: "ct2 = put_scope owner ((ct_scopes ct' owner)\<lparr>sc_cache := filter (\<lambda>(k, v). k \<in> set initial) (sc_cache (ct_scopes ct' owner))\<rparr>) ct'"
    using r by (auto simp: rollback_def Let_def split: prod.splits)
  note k = close_records_ok [OF c]
  have ext: "scope_ext (ct_scopes ct0 owner) (ct_scopes ct1 owner)" using f by (simp add: step_frame_def)
  obtain ys where ys: "records_of (ct_scopes ct1 owner) = records_of (ct_scopes ct0 owner) @ ys" using ext by (auto simp: scope_ext_def)
  obtain zs where zs: "sc_cache (ct_scopes ct1 owner) = sc_cache (ct_scopes ct0 owner) @ zs"
    "fst ` set zs \<inter> fst ` set (sc_cache (ct_scopes ct0 owner)) = {}" using ext by (auto simp: scope_ext_def)
  have res1: "sc_resources (ct_scopes ct1 owner) \<noteq> None" using ext res by (simp add: scope_ext_def)
  have recs: "records_of (ct_scopes ct2 owner) = records_of (ct_scopes ct0 owner)"
    using res1 by (simp add: ct2 k(2) ys mark)
  have none: "filter (\<lambda>(k, v). k \<in> set initial) zs = []" using zs(2) by (force simp: init filter_empty_conv)
  have all: "filter (\<lambda>(k, v). k \<in> set initial) (sc_cache (ct_scopes ct0 owner)) = sc_cache (ct_scopes ct0 owner)"
    by (rule filter_True) (force simp: init)
  have cache: "sc_cache (ct_scopes ct2 owner) = sc_cache (ct_scopes ct0 owner)"
    by (simp add: ct2 k(2) zs(1) none all)
  have same: "scope_same (ct_scopes ct0 owner) (ct_scopes ct2 owner)"
    using ext recs cache res1 by (simp add: scope_same_def scope_ext_def ct2 k(2))
  have ok: "resources_ok ct2" if "resources_ok ct0"
  proof (rule resources_ok_same)
    show "resources_ok ct'" using k(1) f that by (simp add: step_frame_def)
  qed (simp_all add: ct2)
  have other: "ct_scopes ct2 s = ct_scopes ct1 s" if "s \<noteq> owner" for s using that by (simp add: ct2 k(2))
  have "scope_ext (ct_scopes ct0 s) (ct_scopes ct2 s)" for s
    using scope_same_ext [OF same] other [of s] f by (cases "s = owner") (simp_all add: step_frame_def)
  then have "step_frame owner ct0 ct2" using ok other f by (simp add: step_frame_def ct2 k(3-5))
  then show ?thesis using same by blast
qed

text \<open>A failed construction or resolution gives back the scope it ran in.\<close>

definition undone :: "nat \<Rightarrow> container \<Rightarrow> (rt_error + 'a) \<times> container \<Rightarrow> bool" where
  "undone sid ct res \<longleftrightarrow> step_frame sid ct (snd res) \<and> (\<forall>e. fst res = Inl e \<longrightarrow> scope_same (ct_scopes ct sid) (ct_scopes (snd res) sid))"

lemma scope_same_trans: "scope_same a b \<Longrightarrow> scope_same b c \<Longrightarrow> scope_same a c"
  by (simp add: scope_same_def)

lemma construct_undone:
  assumes args: "\<forall>ct0 res. arguments n g w sid (pr_module_id r) (cr_dependencies recipe) ct0 = Some res \<longrightarrow> step_frame sid ct0 (snd res)"
    and c: "construct n g w sid sid r recipe ct = Some res"
  shows "undone sid ct res"
proof (cases "map_of (cg_providers g) r")
  case None
  then show ?thesis using c by (auto simp: undone_def)
next
  case (Some plan)
  let ?ct0 = "ensure_resources sid ct"
  note e = ensure_resources_frame(1) [of sid ct] ensure_resources_frame(2) [of ct sid sid] ensure_resources_frame(3) [of sid ct]
  obtain a ct1 where a: "arguments n g w sid (pr_module_id r) (cr_dependencies recipe) ?ct0 = Some (a, ct1)"
    using c Some by (auto simp: Let_def split: option.splits)
  have f1: "step_frame sid ?ct0 ct1" using args a by force
  have undo: "undone sid ct (Inl e', ct2)"
    if "rollback w sid (length (records_of (ct_scopes ?ct0 sid))) (map fst (sc_cache (ct_scopes ?ct0 sid))) er ctx = (e', ct2)"
      and fx: "step_frame sid ?ct0 ctx" for er ctx e' ct2
    using rollback_restores [OF that refl refl e(3)] step_frame_trans [OF e(1)] scope_same_trans [OF e(2)] by (auto simp: undone_def)
  show ?thesis
  proof (cases a)
    case (Inl er)
    then show ?thesis using c Some a undo [OF _ f1] by (auto simp: Let_def split: prod.splits)
  next
    case (Inr xs)
    obtain o2 ct2 where v: "construct_value w sid r plan recipe xs ct1 = (o2, ct2)" by (cases "construct_value w sid r plan recipe xs ct1")
    have "sc_resources (ct_scopes ct1 sid) \<noteq> None" using f1 e(3) by (simp add: step_frame_def scope_ext_def)
    then have f2: "step_frame sid ?ct0 ct2" using construct_value_frame [OF v] f1 step_frame_trans by blast
    show ?thesis
    proof (cases o2)
      case (Inl er)
      then show ?thesis using c Some a \<open>a = Inr xs\<close> v undo [OF _ f2] by (auto simp: Let_def split: prod.splits)
    next
      case (Inr x)
      then have "res = (Inr x, ct2)" using c Some a \<open>a = Inr xs\<close> v by (simp add: Let_def)
      then show ?thesis using f2 step_frame_trans [OF e(1)] by (simp add: undone_def)
    qed
  qed
qed

lemma cache_put_frame:
  assumes "map_of (sc_cache (ct_scopes ct owner)) k = None" and f: "step_frame owner ct ct'"
  shows "step_frame owner ct (put_scope owner ((ct_scopes ct' owner)\<lparr>sc_cache := AList.update k v (sc_cache (ct_scopes ct' owner))\<rparr>) ct')"
proof -
  have ext: "scope_ext (ct_scopes ct owner) (ct_scopes ct' owner)" using f by (simp add: step_frame_def)
  obtain zs where zs: "sc_cache (ct_scopes ct' owner) = sc_cache (ct_scopes ct owner) @ zs"
    "fst ` set zs \<inter> fst ` set (sc_cache (ct_scopes ct owner)) = {}" using ext by (auto simp: scope_ext_def)
  have k: "k \<notin> fst ` set (sc_cache (ct_scopes ct owner))" using assms(1) by (simp add: map_of_eq_None_iff)
  have upd: "AList.update k v (al @ zs) = al @ AList.update k v zs" if "k \<notin> fst ` set al" for al :: "(provider_ref \<times> pvalue) list"
    using that by (induction al) auto
  have keys: "fst ` set (AList.update k v zs) = insert k (fst ` set zs)" by (induction zs) auto
  have dis: "fst ` set (AList.update k v zs) \<inter> fst ` set (sc_cache (ct_scopes ct owner)) = {}" unfolding keys using zs(2) k by simp
  let ?sc = "(ct_scopes ct' owner)\<lparr>sc_cache := AList.update k v (sc_cache (ct_scopes ct' owner))\<rparr>"
  have "sc_cache ?sc = sc_cache (ct_scopes ct owner) @ AList.update k v zs" using upd [OF k] by (simp add: zs(1))
  then have "\<exists>zs. sc_cache ?sc = sc_cache (ct_scopes ct owner) @ zs \<and> fst ` set zs \<inter> fst ` set (sc_cache (ct_scopes ct owner)) = {}"
    using dis by blast
  then have sc: "scope_ext (ct_scopes ct owner) ?sc" using ext unfolding scope_ext_def by simp
  have ok: "resources_ok (put_scope owner ?sc ct')" if "resources_ok ct"
    by (rule resources_ok_same [of ct']) (use f that in \<open>simp_all add: step_frame_def\<close>)
  have "scope_ext (ct_scopes ct s) (ct_scopes (put_scope owner ?sc ct') s)" for s
    using sc f by (cases "s = owner") (simp_all add: step_frame_def)
  then show ?thesis using f ok unfolding step_frame_def by simp
qed

lemma resolve_undone:
  assumes cons: "\<forall>s r recipe ct res. construct n g w s s r recipe ct = Some res \<longrightarrow> undone s ct res"
    and r: "resolve (Suc n) g w sid r ct = Some res"
  shows "undone sid ct res"
proof (cases "ct_closed ct \<or> map_of (cg_providers g) r = None")
  case True
  then have "snd res = ct" using r by (cases "ct_closed ct") auto
  then show ?thesis by (simp add: undone_def)
next
  case False
  then obtain plan where p: "map_of (cg_providers g) r = Some plan" by blast
  show ?thesis
  proof (cases "owner_of (pp_scope plan) sid ct")
    case (Inl e)
    then show ?thesis using r False p by (auto simp: undone_def)
  next
    case (Inr owner)
    have owner: "owner = sid \<or> owner = 0" "pp_scope plan = TRANSIENT \<longrightarrow> owner = sid"
      using Inr by (auto simp: owner_of_def split: scope.splits if_splits)
    have lift: "undone sid ct res'" if u: "undone owner ct res'" for res' :: "(rt_error + pvalue) \<times> container"
    proof (cases "owner = sid")
      case False
      then have "owner = 0" "sid \<noteq> 0" using owner(1) by auto
      then show ?thesis using u step_frame_scope0 by (auto simp: undone_def step_frame_def)
    qed (use u in simp)
    show ?thesis
    proof (cases "pp_scope plan = TRANSIENT")
      case True
      then have "construct n g w sid sid (pp_canonical plan) (pp_recipe plan) ct = Some res"
        using r False p Inr owner(2) by (simp del: construct.simps)
      then show ?thesis using cons by blast
    next
      case nt: False
      show ?thesis
      proof (cases "map_of (sc_cache (ct_scopes ct owner)) (pp_canonical plan)")
        case (Some v)
        then show ?thesis using r False p Inr nt by (auto simp: undone_def)
      next
        case None
        obtain out ct' where c: "construct n g w owner owner (pp_canonical plan) (pp_recipe plan) ct = Some (out, ct')"
          using r False p Inr nt None by (auto split: option.splits simp del: construct.simps)
        have u: "undone owner ct (out, ct')" using cons c by blast
        show ?thesis
        proof (cases out)
          case (Inl e)
          then show ?thesis using r False p Inr nt None c u lift by (auto simp del: construct.simps)
        next
          case out: (Inr v)
          then have "step_frame owner ct ct'" using u by (simp add: undone_def)
          then have "undone owner ct (Inr v, put_scope owner ((ct_scopes ct' owner)\<lparr>sc_cache := AList.update (pp_canonical plan) v (sc_cache (ct_scopes ct' owner))\<rparr>) ct')"
            using cache_put_frame [OF None] by (simp add: undone_def)
          then show ?thesis using r False p Inr nt None c out lift by (auto simp: Let_def simp del: construct.simps)
        qed
      qed
    qed
  qed
qed

lemma arguments_frame:
  assumes res: "\<forall>r ct res. resolve n g w sid r ct = Some res \<longrightarrow> undone sid ct res"
  shows "arguments n g w sid mid ds ct = Some res \<Longrightarrow> step_frame sid ct (snd res)"
proof (induction ds arbitrary: ct res)
  case (Cons d ds)
  let ?first = "case ds_intrinsic d of
      Some t \<Rightarrow> Some (map_sum id Some (intrinsic_value w mid t ct), ct)
    | None \<Rightarrow> (case ds_provider_ref d of
          None \<Rightarrow> Some (Inr None, ct)
        | Some r \<Rightarrow> map_option (\<lambda>(out, ct'). (map_sum id Some out, ct')) (resolve n g w sid r ct))"
  obtain a ct1 where a: "?first = Some (a, ct1)" using Cons(2) by (auto split: option.splits)
  have f1: "step_frame sid ct ct1"
    using a res by (auto split: option.splits simp: undone_def)
  show ?case
  proof (cases a)
    case (Inl e)
    then have "res = (Inl e, ct1)" using Cons(2) a by (simp only: arguments.simps) simp
    then show ?thesis using f1 by simp
  next
    case (Inr x)
    obtain b ct2 where b: "arguments n g w sid mid ds ct1 = Some (b, ct2)"
      using Cons(2) a Inr by (simp only: arguments.simps) (auto split: option.splits)
    have "snd res = ct2" using Cons(2) a Inr b by (simp only: arguments.simps) (auto split: sum.splits)
    then show ?thesis using Cons(1) [OF b] f1 step_frame_trans by auto
  qed
qed simp

lemma construct_all:
  assumes "\<forall>sid r ct res. resolve n g w sid r ct = Some res \<longrightarrow> undone sid ct res"
  shows "\<forall>s r recipe ct res. construct n g w s s r recipe ct = Some res \<longrightarrow> undone s ct res"
proof (intro allI impI)
  fix s r recipe ct res assume c: "construct n g w s s r recipe ct = Some res"
  have "\<forall>ct0 res. arguments n g w s (pr_module_id r) (cr_dependencies recipe) ct0 = Some res \<longrightarrow> step_frame s ct0 (snd res)"
    using arguments_frame [of n g w s] assms by simp
  then show "undone s ct res" using c by (rule construct_undone)
qed

lemma resolve_all: "\<forall>sid r ct res. resolve n g w sid r ct = Some res \<longrightarrow> undone sid ct res"
proof (induction n)
  case (Suc n)
  show ?case using resolve_undone [OF construct_all [OF Suc]] by blast
qed simp

lemma resolve_frame: "resolve n g w sid r ct = Some (out, ct') \<Longrightarrow> step_frame sid ct ct'"
  using resolve_all [of n g w] by (fastforce simp: undone_def)

lemma resolve_failed:
  "resolve n g w sid r ct = Some (Inl e, ct') \<Longrightarrow> scope_same (ct_scopes ct sid) (ct_scopes ct' sid)"
  using resolve_all [of n g w] by (fastforce simp: undone_def)

end
