(* ===== verification/DI_Startup.thy ===== *)
theory DI_Startup
  imports DI_Container_Runs
begin

text \<open>
  Dependency injection: building the singletons of a compiled graph.

  Over a well-formed graph, and when application code does not fail, the start of an application
  calls the constructor of every singleton exactly once and in the provider order. The proof goes
  along the order: at position \<open>i\<close> the singletons before it are cached, so that building the provider
  at \<open>i\<close> builds no other singleton.
\<close>

definition plan_scope :: "compiled_graph \<Rightarrow> provider_ref \<Rightarrow> scope option" where
  "plan_scope g r = map_option pp_scope (map_of (cg_providers g) r)"

text \<open>The singletons whose constructors were called, in the order of the calls.\<close>

definition singleton_calls :: "compiled_graph \<Rightarrow> (nat \<times> event) list \<Rightarrow> provider_ref list" where
  "singleton_calls g tr = List.map_filter (\<lambda>(s, e). case e of Called r args \<Rightarrow> if plan_scope g r = Some SINGLETON then Some r else None | _ \<Rightarrow> None) tr"

definition own_singleton :: "compiled_graph \<Rightarrow> provider_ref \<Rightarrow> bool" where
  "own_singleton g r \<longleftrightarrow> (\<exists>q. map_of (cg_providers g) r = Some q \<and> pp_scope q = SINGLETON \<and> pp_canonical q = r)"

text \<open>Application code that does not fail.\<close>

definition cooperative :: "compiled_graph \<Rightarrow> world \<Rightarrow> bool" where
  "cooperative g w \<longleftrightarrow>
     (\<forall>(r, q)\<in>set (cg_providers g). \<forall>k. \<exists>v. call_value (cr_await_policy (pp_recipe q)) (call_outcome_of w k (cr_invoker (pp_recipe q))) = Inr v) \<and>
     (\<forall>k v. \<exists>u. w_enter w k v = Inr u)"

definition ready :: "container \<Rightarrow> bool" where
  "ready ct \<longleftrightarrow> \<not> ct_closed ct \<and> ct_work_scopes ct \<and> (\<exists>f. ct_intrinsics ct = Some f \<and> (\<forall>t. \<exists>v. f t = Inr v)) \<and>
     (\<exists>rs. sc_resources (ct_scopes ct 0) = Some rs \<and> \<not> rs_closed rs)"

definition no_request :: "compiled_graph \<Rightarrow> provider_ref \<Rightarrow> bool" where
  "no_request g r \<longleftrightarrow> (\<forall>x. (edge (refs_of (cg_providers g)))\<^sup>*\<^sup>* r x \<longrightarrow> plan_scope g x \<noteq> Some REQUEST)"

lemma singleton_calls_simps [simp]:
  "singleton_calls g [] = []" "singleton_calls g (xs @ ys) = singleton_calls g xs @ singleton_calls g ys"
  "singleton_calls g [(s, Entered v)] = []" "singleton_calls g [(s, Exiting v)] = []"
  "singleton_calls g [(s, Called r args)] = (if plan_scope g r = Some SINGLETON then [r] else [])"
  by (simp_all add: singleton_calls_def List.map_filter_def)

lemma ensure_ready: "ready ct \<Longrightarrow> ensure_resources 0 ct = ct"
  by (auto simp: ready_def ensure_resources_def Let_def)

lemma intrinsic_ready: "ready ct \<Longrightarrow> \<exists>v. intrinsic_value w mid t ct = Inr v"
  by (auto simp: ready_def intrinsic_value_def)

text \<open>A step in the application scope that calls exactly the singletons \<open>cs\<close> and caches nothing itself.\<close>

definition builds :: "compiled_graph \<Rightarrow> provider_ref list \<Rightarrow> container \<Rightarrow> container \<Rightarrow> bool" where
  "builds g cs ct ct' \<longleftrightarrow> ready ct' \<and> sc_cache (ct_scopes ct' 0) = sc_cache (ct_scopes ct 0) \<and>
     singleton_calls g (ct_trace ct') = singleton_calls g (ct_trace ct) @ cs"

lemma builds_refl: "ready ct \<Longrightarrow> builds g [] ct ct"
  by (simp add: builds_def)

lemma builds_trans: "builds g cs ct ct1 \<Longrightarrow> builds g ds ct1 ct2 \<Longrightarrow> builds g (cs @ ds) ct ct2"
  by (simp add: builds_def)

lemma enter_ok:
  assumes "ready ct" "cooperative g w"
  shows "\<exists>u ct'. resource_enter w 0 v r ct = (Inr u, ct') \<and> builds g [] ct ct'"
proof (cases "w_managed w v")
  case True
  obtain u where u: "w_enter w (ct_tick ct) v = Inr u" using assms(2) unfolding cooperative_def by blast
  obtain rs where rs: "sc_resources (ct_scopes ct 0) = Some rs" "\<not> rs_closed rs" using assms(1) by (auto simp: ready_def)
  let ?ct' = "put_scope 0 (set_records (records_of (ct_scopes ct 0) @ [(v, r)]) (ct_scopes ct 0)) (tick 0 (Entered v) ct)"
  have "resource_enter w 0 v r ct = (Inr u, ?ct')" using True u rs by (simp add: resource_enter_def Let_def)
  moreover have "builds g [] ct ?ct'" using assms(1) rs by (auto simp: builds_def ready_def set_records_def)
  ultimately show ?thesis by blast
next
  case False
  obtain rs where rs: "sc_resources (ct_scopes ct 0) = Some rs" "\<not> rs_closed rs" using assms(1) by (auto simp: ready_def)
  then have "resource_enter w 0 v r ct = (Inr v, ct)" using False by (simp add: resource_enter_def Let_def)
  then show ?thesis using builds_refl [OF assms(1)] by blast
qed

lemma construct_value_ok:
  assumes "ready ct" "cooperative g w" and q: "map_of (cg_providers g) x = Some q"
  shows "\<exists>v ct'. construct_value w 0 r plan (pp_recipe q) args ct = (Inr v, ct') \<and>
    builds g (if plan_scope g r = Some SINGLETON then [r] else []) ct ct'"
proof -
  let ?ct1 = "tick 0 (Called r args) ct"
  let ?cs = "if plan_scope g r = Some SINGLETON then [r] else []"
  have b1: "builds g ?cs ct ?ct1" using assms(1) by (auto simp: builds_def ready_def)
  then have r1: "ready ?ct1" by (simp add: builds_def)
  obtain v where v: "call_value (cr_await_policy (pp_recipe q)) (call_outcome_of w (ct_tick ct) (cr_invoker (pp_recipe q))) = Inr v"
    using assms(2) map_of_SomeD [OF q] unfolding cooperative_def by fast
  show ?thesis
  proof (cases "cr_manage (pp_recipe q)")
    case True
    obtain u ct' where e: "resource_enter w 0 v r ?ct1 = (Inr u, ct')" "builds g [] ?ct1 ct'" using enter_ok [OF r1 assms(2)] by blast
    then have "construct_value w 0 r plan (pp_recipe q) args ct = (Inr (if pp_proxy plan then ProxyOf u r else u), ct')"
      using True v by (simp add: construct_value_def Let_def)
    then show ?thesis using builds_trans [OF b1 e(2)] by simp
  next
    case False
    then have "construct_value w 0 r plan (pp_recipe q) args ct = (Inr (if pp_proxy plan then ProxyOf v r else v), ?ct1)"
      using v by (simp add: construct_value_def Let_def)
    then show ?thesis using b1 by blast
  qed
qed

lemma arguments_ok:
  assumes res: "\<And>d ct. ready ct \<Longrightarrow> sc_cache (ct_scopes ct 0) = cache \<Longrightarrow> Some d \<in> ds_provider_ref ` set ds \<Longrightarrow>
      \<exists>v ct'. resolve n g w 0 d ct = Some (Inr v, ct') \<and> builds g [] ct ct'"
  shows "ready ct \<Longrightarrow> sc_cache (ct_scopes ct 0) = cache \<Longrightarrow> \<exists>args ct'. arguments n g w 0 mid ds ct = Some (Inr args, ct') \<and> builds g [] ct ct'"
  using res
proof (induction ds arbitrary: ct)
  case Nil
  then show ?case using builds_refl by auto
next
  case (Cons d ds)
  let ?first = "case ds_intrinsic d of
      Some t \<Rightarrow> Some (map_sum id Some (intrinsic_value w mid t ct), ct)
    | None \<Rightarrow> (case ds_provider_ref d of
          None \<Rightarrow> Some (Inr None, ct)
        | Some r \<Rightarrow> map_option (\<lambda>(out, ct'). (map_sum id Some out, ct')) (resolve n g w 0 r ct))"
  have "\<exists>a ct1. ?first = Some (Inr a, ct1) \<and> builds g [] ct ct1"
  proof (cases "ds_intrinsic d")
    case (Some t)
    then show ?thesis using intrinsic_ready [OF Cons(2), of w mid t] builds_refl [OF Cons(2)] by auto
  next
    case None
    show ?thesis
    proof (cases "ds_provider_ref d")
      case (Some r)
      have "Some r \<in> ds_provider_ref ` set (d # ds)" using Some by simp
      then obtain v ct1 where "resolve n g w 0 r ct = Some (Inr v, ct1)" "builds g [] ct ct1" using Cons(4) [OF Cons(2,3)] by blast
      then show ?thesis using None Some by simp
    qed (use None builds_refl [OF Cons(2)] in simp)
  qed
  then obtain a ct1 where a: "?first = Some (Inr a, ct1)" "builds g [] ct ct1" by blast
  have r1: "ready ct1" "sc_cache (ct_scopes ct1 0) = cache" using a(2) Cons(3) by (simp_all add: builds_def)
  have "\<exists>args ct'. arguments n g w 0 mid ds ct1 = Some (Inr args, ct') \<and> builds g [] ct1 ct'"
    by (rule Cons(1) [OF r1]) (use Cons(4) in auto)
  then obtain args ct2 where b: "arguments n g w 0 mid ds ct1 = Some (Inr args, ct2)" "builds g [] ct1 ct2" by blast
  have "arguments n g w 0 mid (d # ds) ct = Some (Inr ((case a of None \<Rightarrow> [] | Some v \<Rightarrow> [(ds_parameter_name d, v)]) @ args), ct2)"
    using a(1) b(1) by (simp only: arguments.simps) simp
  moreover have "builds g [] ct ct2" using builds_trans [OF a(2) b(2)] by simp
  ultimately show ?case by blast
qed

text \<open>Constructing a plan whose dependencies are already there.\<close>

lemma construct_ok:
  assumes ready: "ready ct" and coop: "cooperative g w" and q: "map_of (cg_providers g) r = Some q"
    and c: "map_of (cg_providers g) (pp_canonical q) = Some cp"
    and res: "\<And>d ct'. ready ct' \<Longrightarrow> sc_cache (ct_scopes ct' 0) = sc_cache (ct_scopes ct 0) \<Longrightarrow> d \<in> set (recipe_refs q) \<Longrightarrow>
      \<exists>v ct''. resolve n g w 0 d ct' = Some (Inr v, ct'') \<and> builds g [] ct' ct''"
  shows "\<exists>v ct'. construct n g w 0 0 (pp_canonical q) (pp_recipe q) ct = Some (Inr v, ct') \<and>
    builds g (if plan_scope g (pp_canonical q) = Some SINGLETON then [pp_canonical q] else []) ct ct'"
proof -
  have refs: "d \<in> set (recipe_refs q)" if "Some d \<in> ds_provider_ref ` set (cr_dependencies (pp_recipe q))" for d
    using that by (force simp: recipe_refs_def map_filter_in)
  have "\<exists>args ct1. arguments n g w 0 (pr_module_id (pp_canonical q)) (cr_dependencies (pp_recipe q)) ct = Some (Inr args, ct1) \<and> builds g [] ct ct1"
    by (rule arguments_ok [where cache = "sc_cache (ct_scopes ct 0)"]) (use res refs ready in auto)
  then obtain args ct1 where a: "arguments n g w 0 (pr_module_id (pp_canonical q)) (cr_dependencies (pp_recipe q)) ct = Some (Inr args, ct1)"
    "builds g [] ct ct1" by blast
  have "ready ct1" using a(2) by (simp add: builds_def)
  then obtain v ct2 where v: "construct_value w 0 (pp_canonical q) cp (pp_recipe q) args ct1 = (Inr v, ct2)"
    "builds g (if plan_scope g (pp_canonical q) = Some SINGLETON then [pp_canonical q] else []) ct1 ct2"
    using construct_value_ok [OF _ coop q] by blast
  have "construct n g w 0 0 (pp_canonical q) (pp_recipe q) ct = Some (Inr v, ct2)"
    using c a(1) v(1) by (simp add: ensure_ready [OF ready] Let_def)
  then show ?thesis using builds_trans [OF a(2) v(2)] by auto
qed

section \<open>Along the provider order\<close>

definition built :: "compiled_graph \<Rightarrow> nat \<Rightarrow> container \<Rightarrow> bool" where
  "built g i ct \<longleftrightarrow> (\<forall>r q. map_of (cg_providers g) r = Some q \<longrightarrow> pp_scope q = SINGLETON \<longrightarrow> position (cg_provider_order g) r < i \<longrightarrow>
     map_of (sc_cache (ct_scopes ct 0)) (pp_canonical q) \<noteq> None)"

lemma built_same: "built g i ct \<Longrightarrow> sc_cache (ct_scopes ct' 0) = sc_cache (ct_scopes ct 0) \<Longrightarrow> built g i ct'"
  by (simp add: built_def)

lemma graph_canonical_position:
  assumes "graph_ok rf g" "map_of (cg_providers g) r = Some q" "pp_canonical q \<noteq> r"
  shows "position (cg_provider_order g) (pp_canonical q) < position (cg_provider_order g) r"
proof -
  have "\<forall>r q. map_of (cg_providers g) r = Some q \<longrightarrow> pp_canonical q \<noteq> r \<longrightarrow>
      position (cg_provider_order g) (pp_canonical q) < position (cg_provider_order g) r"
    using assms(1) unfolding graph_ok_def by (elim conjE)
  then show ?thesis using assms(2,3) by simp
qed

lemma graph_order: "graph_ok rf g \<Longrightarrow> distinct (cg_provider_order g)"
  "graph_ok rf g \<Longrightarrow> set (cg_provider_order g) = set (map fst (cg_providers g))"
  by (simp_all only: graph_ok_def)

lemma graph_order_member:
  assumes "graph_ok rf g" "map_of (cg_providers g) r = Some q"
  shows "r \<in> set (cg_provider_order g)"
  using graph_order(2) [OF assms(1)] map_of_SomeD [OF assms(2)] by force

lemma graph_refs:
  assumes ok: "graph_ok rf g" and q: "map_of (cg_providers g) r = Some q" and d: "d \<in> set (recipe_refs q)"
  shows "\<exists>p. map_of (cg_providers g) d = Some p" "position (cg_provider_order g) d < position (cg_provider_order g) r"
    "edge (refs_of (cg_providers g)) r d"
proof -
  show e: "edge (refs_of (cg_providers g)) r d" using q d by (simp add: edge_def refs_of_def)
  have r: "r \<in> set (cg_provider_order g)" by (rule graph_order_member [OF ok q])
  have o: "distinct (cg_provider_order g)" "deps_first (refs_of (cg_providers g)) (cg_provider_order g)" using ok by (simp_all add: graph_ok_def)
  show "position (cg_provider_order g) d < position (cg_provider_order g) r" using position_edge(2) [OF o r e] .
  have "d \<in> set (map fst (cg_providers g))" using position_edge(1) [OF o r e] ok by (simp add: graph_ok_def)
  then show "\<exists>p. map_of (cg_providers g) d = Some p" using map_of_eq_None_iff [of "cg_providers g" d] by auto
qed

lemma graph_canonical:
  assumes ok: "graph_ok rf g" and q: "map_of (cg_providers g) r = Some q"
  shows "\<exists>cp. map_of (cg_providers g) (pp_canonical q) = Some cp \<and> pp_scope cp = pp_scope q \<and> pp_canonical cp = pp_canonical q"
  using ok q unfolding graph_ok_def plan_ok_def by metis

lemma no_request_step: "no_request g r \<Longrightarrow> edge (refs_of (cg_providers g)) r d \<Longrightarrow> no_request g d"
  unfolding no_request_def by (meson converse_rtranclp_into_rtranclp)

lemma resolve_built:
  assumes ok: "graph_ok rf g" and coop: "cooperative g w"
  shows "ready ct \<Longrightarrow> built g i ct \<Longrightarrow> map_of (cg_providers g) r = Some q \<Longrightarrow> no_request g r \<Longrightarrow>
    position (cg_provider_order g) r < i \<Longrightarrow> position (cg_provider_order g) r < n \<Longrightarrow>
    \<exists>v ct'. resolve n g w 0 r ct = Some (Inr v, ct') \<and> builds g [] ct ct'"
proof (induction n arbitrary: r q ct)
  case (Suc n)
  have closed: "\<not> ct_closed ct" using Suc(2) by (simp add: ready_def)
  show ?case
  proof (cases "pp_scope q")
    case SINGLETON
    then obtain v where "map_of (sc_cache (ct_scopes ct 0)) (pp_canonical q) = Some v" using Suc(3,4,6) by (auto simp: built_def)
    then have "resolve (Suc n) g w 0 r ct = Some (Inr v, ct)" using closed Suc(4) SINGLETON by (simp add: owner_of_def)
    then show ?thesis using builds_refl [OF Suc(2)] by blast
  next
    case REQUEST
    then show ?thesis using Suc(4,5) by (auto simp: no_request_def plan_scope_def)
  next
    case TRANSIENT
    obtain cp where cp: "map_of (cg_providers g) (pp_canonical q) = Some cp" "pp_scope cp = TRANSIENT" using graph_canonical [OF ok Suc(4)] TRANSIENT by auto
    have "\<exists>v ct'. construct n g w 0 0 (pp_canonical q) (pp_recipe q) ct = Some (Inr v, ct') \<and>
      builds g (if plan_scope g (pp_canonical q) = Some SINGLETON then [pp_canonical q] else []) ct ct'"
    proof (rule construct_ok [OF Suc(2) coop Suc(4) cp(1)])
      fix d ct1 assume a: "ready ct1" "sc_cache (ct_scopes ct1 0) = sc_cache (ct_scopes ct 0)" "d \<in> set (recipe_refs q)"
      note g = graph_refs [OF ok Suc(4) a(3)]
      obtain p where p: "map_of (cg_providers g) d = Some p" using g(1) by blast
      have lt: "position (cg_provider_order g) d < i" "position (cg_provider_order g) d < n" using g(2) Suc(6,7) by simp_all
      show "\<exists>v ct''. resolve n g w 0 d ct1 = Some (Inr v, ct'') \<and> builds g [] ct1 ct''"
        by (rule Suc(1) [OF a(1) built_same [OF Suc(3) a(2)] p no_request_step [OF Suc(5) g(3)] lt])
    qed
    then obtain v ct' where "construct n g w 0 0 (pp_canonical q) (pp_recipe q) ct = Some (Inr v, ct')" "builds g [] ct ct'"
      using cp by (auto simp: plan_scope_def)
    moreover have "resolve (Suc n) g w 0 r ct = construct n g w 0 0 (pp_canonical q) (pp_recipe q) ct"
      using closed Suc(4) TRANSIENT by (simp add: owner_of_def del: construct.simps)
    ultimately show ?thesis by auto
  qed
qed simp

lemma singleton_no_request:
  assumes "scopes_ok g" "map_of (cg_providers g) r = Some q" "pp_scope q = SINGLETON"
  shows "no_request g r"
  unfolding no_request_def
proof (intro allI impI)
  fix x assume "(edge (refs_of (cg_providers g)))\<^sup>*\<^sup>* r x"
  then consider "x = r" | "(edge (refs_of (cg_providers g)))\<^sup>+\<^sup>+ r x" by (metis rtranclpD)
  then show "plan_scope g x \<noteq> Some REQUEST"
  proof cases
    case 2
    then show ?thesis using assms unfolding scopes_ok_def plan_scope_def by (cases "map_of (cg_providers g) x") auto
  qed (use assms in \<open>simp add: plan_scope_def\<close>)
qed

text \<open>The step of the loop at a singleton.\<close>

lemma resolve_singleton:
  assumes ok: "graph_ok rf g" "scopes_ok g" and coop: "cooperative g w" and ready: "ready ct"
    and q: "map_of (cg_providers g) r = Some q" "pp_scope q = SINGLETON" and i: "position (cg_provider_order g) r = i" and b: "built g i ct"
    and n: "i < n" and keys: "fst ` set (sc_cache (ct_scopes ct 0)) = {x \<in> set (cg_provider_order g). own_singleton g x \<and> position (cg_provider_order g) x < i}"
  shows "\<exists>v ct'. resolve n g w 0 r ct = Some (Inr v, ct') \<and> ready ct' \<and>
    fst ` set (sc_cache (ct_scopes ct' 0)) = fst ` set (sc_cache (ct_scopes ct 0)) \<union> (if own_singleton g r then {r} else {}) \<and>
    singleton_calls g (ct_trace ct') = singleton_calls g (ct_trace ct) @ (if own_singleton g r then [r] else [])"
proof -
  obtain m where m: "n = Suc m" using n by (cases n) auto
  have closed: "\<not> ct_closed ct" using ready by (simp add: ready_def)
  obtain cp where cp: "map_of (cg_providers g) (pp_canonical q) = Some cp" "pp_scope cp = SINGLETON" "pp_canonical cp = pp_canonical q"
    using graph_canonical [OF ok(1) q(1)] q(2) by auto
  show ?thesis
  proof (cases "pp_canonical q = r")
    case False
    then have own: "\<not> own_singleton g r" using q by (auto simp: own_singleton_def)
    have "position (cg_provider_order g) (pp_canonical q) < i" using graph_canonical_position [OF ok(1) q(1) False] i by simp
    then obtain v where "map_of (sc_cache (ct_scopes ct 0)) (pp_canonical q) = Some v"
      using b cp unfolding built_def by fastforce
    then have "resolve n g w 0 r ct = Some (Inr v, ct)" using closed q m by (simp add: owner_of_def)
    then show ?thesis using ready own by auto
  next
    case True
    then have own: "own_singleton g r" using q by (auto simp: own_singleton_def)
    have none: "map_of (sc_cache (ct_scopes ct 0)) r = None" using keys i by (simp add: map_of_eq_None_iff)
    have "\<exists>v ct'. construct m g w 0 0 (pp_canonical q) (pp_recipe q) ct = Some (Inr v, ct') \<and>
      builds g (if plan_scope g (pp_canonical q) = Some SINGLETON then [pp_canonical q] else []) ct ct'"
    proof (rule construct_ok [OF ready coop q(1) cp(1)])
      fix d ct1 assume a: "ready ct1" "sc_cache (ct_scopes ct1 0) = sc_cache (ct_scopes ct 0)" "d \<in> set (recipe_refs q)"
      note g = graph_refs [OF ok(1) q(1) a(3)]
      obtain p where p: "map_of (cg_providers g) d = Some p" using g(1) by blast
      have lt: "position (cg_provider_order g) d < i" "position (cg_provider_order g) d < m" using g(2) i n m by simp_all
      show "\<exists>v ct''. resolve m g w 0 d ct1 = Some (Inr v, ct'') \<and> builds g [] ct1 ct''"
        by (rule resolve_built [OF ok(1) coop a(1) built_same [OF b a(2)] p no_request_step [OF singleton_no_request [OF ok(2) q] g(3)] lt])
    qed
    then obtain v ct' where c: "construct m g w 0 0 r (pp_recipe q) ct = Some (Inr v, ct')" "builds g [r] ct ct'"
      using q True by (auto simp: plan_scope_def)
    let ?ct2 = "put_scope 0 ((ct_scopes ct' 0)\<lparr>sc_cache := AList.update r v (sc_cache (ct_scopes ct' 0))\<rparr>) ct'"
    have "resolve n g w 0 r ct = Some (Inr v, ?ct2)"
      using closed q True none c(1) m by (simp add: owner_of_def Let_def del: construct.simps)
    moreover have "ready ?ct2" using c(2) by (simp add: builds_def ready_def)
    moreover have "fst ` set (AList.update r v al) = insert r (fst ` set al)" for al by (induction al) auto
    ultimately show ?thesis using c(2) own by (intro exI [of _ v] exI [of _ ?ct2]) (simp add: builds_def)
  qed
qed

definition built_keys :: "compiled_graph \<Rightarrow> nat \<Rightarrow> provider_ref set" where
  "built_keys g i = {x \<in> set (cg_provider_order g). own_singleton g x \<and> position (cg_provider_order g) x < i}"

lemma built_from_keys:
  assumes ok: "graph_ok rf g" and keys: "fst ` set (sc_cache (ct_scopes ct 0)) = built_keys g i"
  shows "built g i ct"
  unfolding built_def
proof (intro allI impI)
  fix r q assume q: "map_of (cg_providers g) r = Some q" "pp_scope q = SINGLETON" "position (cg_provider_order g) r < i"
  obtain cp where cp: "map_of (cg_providers g) (pp_canonical q) = Some cp" "pp_scope cp = SINGLETON" "pp_canonical cp = pp_canonical q"
    using graph_canonical [OF ok q(1)] q(2) by auto
  have "position (cg_provider_order g) (pp_canonical q) < i"
    using graph_canonical_position [OF ok q(1)] q(3) by (cases "pp_canonical q = r") simp_all
  moreover have "pp_canonical q \<in> set (cg_provider_order g)" by (rule graph_order_member [OF ok cp(1)])
  moreover have "own_singleton g (pp_canonical q)" using cp by (auto simp: own_singleton_def)
  ultimately have "pp_canonical q \<in> fst ` set (sc_cache (ct_scopes ct 0))" using keys by (simp add: built_keys_def)
  then show "map_of (sc_cache (ct_scopes ct 0)) (pp_canonical q) \<noteq> None" by (simp add: map_of_eq_None_iff)
qed

lemma built_keys_Suc:
  assumes "distinct (cg_provider_order g)" "cg_provider_order g = bs @ r # rs"
  shows "position (cg_provider_order g) r = length bs"
    and "built_keys g (Suc (length bs)) = built_keys g (length bs) \<union> (if own_singleton g r then {r} else {})"
proof -
  let ?ord = "cg_provider_order g"
  have r: "?ord ! length bs = r" "length bs < length ?ord" using assms(2) by simp_all
  show p: "position ?ord r = length bs" using position_nth [OF assms(1) r(2)] r(1) by simp
  have uniq: "x = r" if x: "x \<in> set ?ord" and px: "position ?ord x = length bs" for x
  proof -
    obtain j where j: "j < length ?ord" "x = ?ord ! j" using x by (auto simp: in_set_conv_nth)
    then have "j = length bs" using position_nth [OF assms(1) j(1)] px by simp
    then show ?thesis using j r by simp
  qed
  have r': "r \<in> set ?ord" using assms(2) by simp
  show "built_keys g (Suc (length bs)) = built_keys g (length bs) \<union> (if own_singleton g r then {r} else {})"
  proof (intro set_eqI)
    fix x
    show "x \<in> built_keys g (Suc (length bs)) \<longleftrightarrow>
        x \<in> built_keys g (length bs) \<union> (if own_singleton g r then {r} else {})"
    proof (cases "x = r")
      case True
      then show ?thesis using p r' by (simp add: built_keys_def)
    next
      case False
      then have "x \<in> set ?ord \<Longrightarrow> position ?ord x \<noteq> length bs" using uniq [of x] by blast
      then have "x \<in> set ?ord \<and> position ?ord x < Suc (length bs) \<longleftrightarrow> x \<in> set ?ord \<and> position ?ord x < length bs"
        unfolding less_Suc_eq by argo
      then show ?thesis using False unfolding built_keys_def by simp argo
    qed
  qed
qed

lemma resolve_singletons_ok:
  assumes ok: "graph_ok rf g" "scopes_ok g" and coop: "cooperative g w" and n: "length (cg_provider_order g) < n"
  shows "cg_provider_order g = bs @ rs \<Longrightarrow> ready ct \<Longrightarrow> fst ` set (sc_cache (ct_scopes ct 0)) = built_keys g (length bs) \<Longrightarrow>
    sc_lease (ct_scopes ct 0) = None \<Longrightarrow>
    \<exists>ct'. resolve_singletons n g w rs ct = Some (Inr (), ct') \<and> ready ct' \<and>
      fst ` set (sc_cache (ct_scopes ct' 0)) = built_keys g (length (cg_provider_order g)) \<and>
      singleton_calls g (ct_trace ct') = singleton_calls g (ct_trace ct) @ filter (own_singleton g) rs"
proof (induction rs arbitrary: bs ct)
  case (Cons r rs)
  have d: "distinct (cg_provider_order g)" by (rule graph_order(1) [OF ok(1)])
  note k = built_keys_Suc [OF d Cons(2)]
  have "r \<in> set (map fst (cg_providers g))" using graph_order(2) [OF ok(1)] Cons(2) by (metis in_set_conv_decomp)
  then obtain q where q: "map_of (cg_providers g) r = Some q" using map_of_eq_None_iff [of "cg_providers g" r] by auto
  have ord: "cg_provider_order g = (bs @ [r]) @ rs" using Cons(2) by simp
  show ?case
  proof (cases "pp_scope q = SINGLETON")
    case False
    then have own: "\<not> own_singleton g r" using q by (auto simp: own_singleton_def)
    have keys: "fst ` set (sc_cache (ct_scopes ct 0)) = built_keys g (length (bs @ [r]))" using Cons(4) k(2) own by simp
    show ?thesis using Cons(1) [OF ord Cons(3) keys Cons(5)] False q own by simp
  next
    case True
    have b: "built g (length bs) ct" using built_from_keys [OF ok(1) Cons(4)] .
    have lt: "length bs < n" using n Cons(2) by simp
    obtain v ct1 where s: "resolve n g w 0 r ct = Some (Inr v, ct1)" "ready ct1"
      "fst ` set (sc_cache (ct_scopes ct1 0)) = fst ` set (sc_cache (ct_scopes ct 0)) \<union> (if own_singleton g r then {r} else {})"
      "singleton_calls g (ct_trace ct1) = singleton_calls g (ct_trace ct) @ (if own_singleton g r then [r] else [])"
      using resolve_singleton [OF ok coop Cons(3) q True k(1) b lt] Cons(4) unfolding built_keys_def by blast
    have keys: "fst ` set (sc_cache (ct_scopes ct1 0)) = built_keys g (length (bs @ [r]))" using s(3) Cons(4) k(2) by simp
    have lease: "sc_lease (ct_scopes ct1 0) = None" using resolve_frame [OF s(1)] Cons(5) by (simp add: step_frame_def scope_ext_def)
    obtain ct2 where "resolve_singletons n g w rs ct1 = Some (Inr (), ct2)" "ready ct2"
      "fst ` set (sc_cache (ct_scopes ct2 0)) = built_keys g (length (cg_provider_order g))"
      "singleton_calls g (ct_trace ct2) = singleton_calls g (ct_trace ct1) @ filter (own_singleton g) rs"
      using Cons(1) [OF ord s(2) keys lease] by blast
    moreover have "container_resolve_ref n g w None 0 r ct = Some (Inr v, ct1)"
      using Cons(5) s(1) by (simp add: container_resolve_ref_def check_access_def)
    ultimately show ?thesis using q True s(4) by auto
  qed
qed auto

lemma start_singletons_ok:
  assumes "graph_ok rf g" "scopes_ok g" "cooperative g w" "intrinsics = Some f" "\<forall>t. \<exists>v. f t = Inr v"
  shows "\<exists>ct. start_singletons g w (new_container True intrinsics) = Some (Inr (), ct) \<and>
    fst ` set (sc_cache (ct_scopes ct 0)) = {r. own_singleton g r} \<and>
    singleton_calls g (ct_trace ct) = filter (own_singleton g) (cg_provider_order g)"
proof -
  have r: "ready (new_container True intrinsics)" using assms(4,5) by (simp add: ready_def new_container_def application_scope_def empty_stack_def)
  have e: "sc_cache (ct_scopes (new_container True intrinsics) 0) = []" "sc_lease (ct_scopes (new_container True intrinsics) 0) = None"
    "ct_trace (new_container True intrinsics) = []" by (simp_all add: new_container_def application_scope_def)
  have k: "fst ` set (sc_cache (ct_scopes (new_container True intrinsics) 0)) = built_keys g (length ([] :: provider_ref list))"
    by (simp add: e built_keys_def)
  have all: "built_keys g (length (cg_provider_order g)) = {r. own_singleton g r}"
  proof -
    have "r \<in> set (cg_provider_order g)" if own: "own_singleton g r" for r
    proof -
      obtain q where "map_of (cg_providers g) r = Some q" using own by (auto simp: own_singleton_def)
      then have "r \<in> set (map fst (cg_providers g))" using map_of_SomeD by force
      then show ?thesis using assms(1) by (simp add: graph_ok_def)
    qed
    then show ?thesis using position_less unfolding built_keys_def by blast
  qed
  have "\<exists>ct'. resolve_singletons (Suc (length (cg_provider_order g))) g w (cg_provider_order g) (new_container True intrinsics) = Some (Inr (), ct') \<and> ready ct' \<and>
      fst ` set (sc_cache (ct_scopes ct' 0)) = built_keys g (length (cg_provider_order g)) \<and>
      singleton_calls g (ct_trace ct') = singleton_calls g (ct_trace (new_container True intrinsics)) @ filter (own_singleton g) (cg_provider_order g)"
    by (rule resolve_singletons_ok [OF assms(1-3) lessI append_Nil [symmetric] r k e(2)])
  then show ?thesis unfolding start_singletons_def all e(3) by auto
qed

section \<open>Runs of a container\<close>

inductive container_run :: "compiled_graph \<Rightarrow> world \<Rightarrow> container \<Rightarrow> bool" for g w where
  new: "container_run g w (new_container work intrinsics)"
| resolve: "container_run g w ct \<Longrightarrow> resolve n g w sid r ct = Some (out, ct') \<Longrightarrow> container_run g w ct'"
| enter: "container_run g w ct \<Longrightarrow> scope_enter task admitted rq ct = (out', rq', ct') \<Longrightarrow> container_run g w ct'"
| finalize: "container_run g w ct \<Longrightarrow> scope_finalize w body rq ct = (err, rq', ct') \<Longrightarrow> container_run g w ct'"
| close: "container_run g w ct \<Longrightarrow> container_close w deadline ct = (err, ct') \<Longrightarrow> container_run g w ct'"

lemma stack_close_ok:
  assumes "stack_close w dl sid ct = (errors, ct')"
  shows "resources_ok ct \<Longrightarrow> resources_ok ct'" "records_of (ct_scopes ct' sid) = []"
proof -
  let ?sc = "(ct_scopes ct sid)\<lparr>sc_resources := map_option (\<lambda>rs. rs\<lparr>rs_closed := True\<rparr>) (sc_resources (ct_scopes ct sid))\<rparr>"
  have c: "close_records w dl sid 0 (put_scope sid ?sc ct) = (errors, ct')" using assms by (simp add: stack_close_def Let_def)
  note k = close_records_ok [OF c]
  show "records_of (ct_scopes ct' sid) = []" unfolding k(2) using set_records_same [of 0 ?sc] by simp
  assume "resources_ok ct"
  then have "resources_ok (put_scope sid ?sc ct)" by (rule resources_ok_same) simp_all
  then show "resources_ok ct'" by (rule k(1))
qed

lemma finish_close_ok:
  assumes "finish_close rq ct = (rq', ct')"
  shows "resources_ok ct \<Longrightarrow> resources_ok ct'" "records_of (ct_scopes ct' s) = records_of (ct_scopes ct s)"
proof -
  show r: "records_of (ct_scopes ct' s) = records_of (ct_scopes ct s)" for s using assms by (auto simp: finish_close_def Let_def)
  assume "resources_ok ct"
  then show "resources_ok ct'" by (rule resources_ok_same) (use assms r in \<open>auto simp: finish_close_def Let_def\<close>)
qed

lemma scope_finalize_ok:
  assumes f: "scope_finalize w body rq ct = (err, rq', ct')" and ok: "resources_ok ct"
  shows "resources_ok ct' \<and> (\<not> rq_closed rq \<longrightarrow> records_of (ct_scopes ct' (rq_scope rq)) = [])"
proof (cases "rq_closed rq")
  case False
  let ?sid = "rq_scope rq"
  let ?ct1 = "put_scope ?sid ((ct_scopes ct ?sid)\<lparr>sc_lease := map_option lease_begin_close (sc_lease (ct_scopes ct ?sid))\<rparr>) ct"
  have ok1: "resources_ok ?ct1" using ok by (rule resources_ok_same) simp_all
  show ?thesis
  proof (cases "records_of (ct_scopes ct ?sid) = []")
    case True
    then have "\<exists>rq''. finish_close rq ?ct1 = (rq'', ct')" using f False by (auto simp: scope_finalize_def Let_def split: prod.splits)
    then obtain rq'' where c: "finish_close rq ?ct1 = (rq'', ct')" by blast
    show ?thesis using finish_close_ok(1) [OF c ok1] finish_close_ok(2) [OF c, of ?sid] True by simp
  next
    case ne: False
    obtain errors ct2 where s: "stack_close w False ?sid ?ct1 = (errors, ct2)" by (cases "stack_close w False ?sid ?ct1")
    then have "\<exists>rq''. finish_close rq ct2 = (rq'', ct')" using f False ne by (auto simp: scope_finalize_def Let_def split: prod.splits)
    then obtain rq'' where c: "finish_close rq ct2 = (rq'', ct')" by blast
    show ?thesis using finish_close_ok(1) [OF c] finish_close_ok(2) [OF c, of ?sid] stack_close_ok [OF s] ok1 by simp
  qed
qed (use f ok in \<open>simp add: scope_finalize_def\<close>)

lemma container_close_ok:
  assumes c: "container_close w dl ct = (err, ct')" and ok: "resources_ok ct"
  shows "resources_ok ct' \<and> (\<not> ct_closed ct \<longrightarrow> records_of (ct_scopes ct' 0) = [])"
proof (cases "ct_closed ct")
  case False
  let ?ct1 = "ct\<lparr>ct_closed := True\<rparr>"
  have ok1: "resources_ok ?ct1" using ok by (rule resources_ok_same) simp_all
  show ?thesis
  proof (cases "sc_resources (ct_scopes ct 0)")
    case None
    then show ?thesis using c False ok1 by (auto simp: container_close_def records_None)
  next
    case (Some rs)
    obtain errors ct2 where s: "stack_close w dl 0 ?ct1 = (errors, ct2)" by (cases "stack_close w dl 0 ?ct1")
    then have "ct' = ct2" using c False Some by (simp add: container_close_def)
    then show ?thesis using stack_close_ok [OF s] ok1 by simp
  qed
qed (use c ok in \<open>simp add: container_close_def\<close>)

lemma scope_enter_ok:
  assumes "scope_enter task admitted rq ct = (out, rq', ct')" "resources_ok ct"
  shows "resources_ok ct'"
  using assms(2)
  by (rule resources_ok_same)
    (use assms(1) in \<open>auto simp: scope_enter_def bind_owner_def Let_def split: if_splits option.splits sum.splits\<close>)

lemma container_run_ok: "container_run g w ct \<Longrightarrow> resources_ok ct"
proof (induction rule: container_run.induct)
  case (new work intrinsics)
  show ?case by (simp add: resources_ok_def open_resources_def new_container_def application_scope_def new_request_scope_def empty_stack_def records_of_def)
next
  case (resolve ct n sid r out ct')
  then show ?case using resolve_frame by (auto simp: step_frame_def)
qed (use scope_enter_ok scope_finalize_ok container_close_ok in blast)+

end
