(* ===== verification/DI_Properties.thy ===== *)
theory DI_Properties
  imports DI_Startup
begin

text \<open>
  Dependency injection: the properties of the module compiler and of the container, with concrete
  applications on which they are evaluated.
\<close>

section \<open>A small application\<close>

text \<open>
  Module 10 imports module 11. Module 11 provides and exports the managed singleton \<open>Db\<close> (class 1)
  with the alias \<open>db\<close>; module 10 provides the singleton \<open>Repo\<close> (class 2, which asks for \<open>db\<close>), the
  managed request provider \<open>Session\<close> (class 4) and the request provider \<open>Handler\<close> (class 3).
\<close>

definition plain_parameter :: "string \<Rightarrow> class_id \<Rightarrow> parameter" where
  "plain_parameter n c = \<lparr>pm_name = n, pm_variadic = False, pm_annotation = ClassAnnotation c, pm_annotated = False,
     pm_markers = [], pm_has_default = False\<rparr>"

definition named_parameter :: "string \<Rightarrow> string \<Rightarrow> parameter" where
  "named_parameter n s = \<lparr>pm_name = n, pm_variadic = False, pm_annotation = OtherAnnotation, pm_annotated = True,
     pm_markers = [NameToken s], pm_has_default = False\<rparr>"

definition class_provider :: "class_id \<Rightarrow> scope \<Rightarrow> bool \<Rightarrow> module_provider" where
  "class_provider c s m = Declared (ClassProvider (ClassToken c) c s m False)"

definition reflection_of :: "(class_id \<rightharpoonup> module_spec) \<Rightarrow> (class_id \<Rightarrow> parameter list) \<Rightarrow> reflection" where
  "reflection_of specs params = \<lparr>rf_class_parameters = (\<lambda>c. Some (params c)), rf_factory_parameters = (\<lambda>f. None),
     rf_factory_coroutine = (\<lambda>f. False), rf_injectable = (\<lambda>c. None), rf_gateway = (\<lambda>c. False),
     rf_module_parameters = (\<lambda>c. Some []), rf_module_metadata = specs, rf_mro = (\<lambda>c. []),
     rf_intrinsic = (\<lambda>t. False), rf_materialize = (\<lambda>d. FactoryRaises)\<rparr>"

definition demo_reflection :: reflection where
  "demo_reflection = reflection_of
     (map_of
       [(10, empty_spec\<lparr>sp_imports := [StaticImport 11],
               sp_providers := [class_provider 2 SINGLETON False, class_provider 3 REQUEST False, class_provider 4 REQUEST True]\<rparr>),
        (11, empty_spec\<lparr>sp_providers := [class_provider 1 SINGLETON True, Declared (AliasProvider (NameToken ''db'') (ClassToken 1))],
               sp_exports := [ClassToken 1, NameToken ''db'']\<rparr>)])
     (\<lambda>c. if c = 2 then [named_parameter ''database'' ''db'']
          else if c = 3 then [plain_parameter ''session'' 4, plain_parameter ''repo'' 2] else [])"

definition no_options :: compiler_options where
  "no_options = \<lparr>op_import_resolver = None, op_spec_transformer = None, op_fallback_collector = None\<rparr>"

definition empty_graph :: compiled_graph where
  "empty_graph = \<lparr>cg_root = \<lparr>mi_module = 0, mi_key = None\<rparr>, cg_modules = [], cg_providers = [], cg_visibility = [], cg_provider_order = []\<rparr>"

definition demo_graph :: compiled_graph where
  "demo_graph = (case compile_graph 5 demo_reflection no_options (Inst (StaticImport 10)) of Some (Inr g) \<Rightarrow> g | _ \<Rightarrow> empty_graph)"

definition demo_ref :: "class_id \<Rightarrow> token \<Rightarrow> provider_ref" where
  "demo_ref m t = \<lparr>pr_module_id = \<lparr>mi_module = m, mi_key = None\<rparr>, pr_token = t\<rparr>"

text \<open>Constructors return fresh objects; with \<open>failing\<close> the constructor of \<open>Repo\<close> raises.\<close>

definition demo_world :: "bool \<Rightarrow> world" where
  "demo_world failing = \<lparr>w_call = (\<lambda>k i. if failing \<and> i = CallsClass 2 then CallRaises (UserError 7) else CallReturns (Obj k)),
     w_managed = (\<lambda>v. True), w_enter = (\<lambda>k v. Inr v), w_exit = (\<lambda>k v. ExitReturns False), w_late = (\<lambda>k. False),
     w_work_scope = (\<lambda>t. False)\<rparr>"

definition demo_intrinsics :: "token \<Rightarrow> rt_error + pvalue" where
  "demo_intrinsics t = Inr (IntrinsicOf t)"

text \<open>
  Module 20 is global and provides and exports the token \<open>t\<close>; module 21 is global, imports 20 and
  exports \<open>t\<close> again; the root 23 imports 21 and 22, which declares nothing.
\<close>

definition shared_reflection :: reflection where
  "shared_reflection = reflection_of
     (map_of
       [(20, empty_spec\<lparr>sp_providers := [Declared (ValueProvider (NameToken ''t'') 5 False)], sp_exports := [NameToken ''t''], sp_global := True\<rparr>),
        (21, empty_spec\<lparr>sp_imports := [StaticImport 20], sp_exports := [NameToken ''t''], sp_global := True\<rparr>),
        (23, empty_spec\<lparr>sp_imports := [StaticImport 21, StaticImport 22]\<rparr>)])
     (\<lambda>c. [])"

definition shared_modules :: "module_plan list" where
  "shared_modules =
     (case ensure_import shared_reflection no_options (Inst (StaticImport 23)) new_compiler of Inl e \<Rightarrow> [] | Inr (mid, co) \<Rightarrow>
      case module_visit 5 shared_reflection no_options [] mid co of
        Some (Inr co') \<Rightarrow> (case all_ok (map (plan_module shared_reflection co') (co_order co')) of Inr mods \<Rightarrow> mods | Inl e \<Rightarrow> [])
      | _ \<Rightarrow> [])"

lemma demo_compiles:
  "compile_graph 5 demo_reflection no_options (Inst (StaticImport 10)) = Some (Inr demo_graph)"
proof -
  have "case compile_graph 5 demo_reflection no_options (Inst (StaticImport 10)) of Some (Inr g) \<Rightarrow> True | _ \<Rightarrow> False"
    by code_simp
  then show ?thesis by (auto simp: demo_graph_def split: option.splits sum.splits)
qed

lemma demo_order:
  "cg_provider_order demo_graph =
     [demo_ref 11 (ClassToken 1), demo_ref 11 (NameToken ''db''), demo_ref 10 (ClassToken 2), demo_ref 10 (ClassToken 4), demo_ref 10 (ClassToken 3)]"
  by code_simp

section \<open>The compiler\<close>

lemma compiled_ok:
  assumes "compile_graph n rf opt root = Some (Inr g)"
  shows "graph_ok rf g \<and> links_ok rf g \<and> scopes_ok g"
proof -
  obtain mid co co' where c: "ensure_import rf opt root new_compiler = Inr (mid, co)" "module_visit n rf opt [] mid co = Some (Inr co')"
    "finish_graph rf opt mid co' = Some (Inr g)"
    using assms by (auto simp: compile_graph_def split: sum.splits option.splits)
  have "visit_ok co" using ensure_import_order [OF c(1)] by (simp add: visit_ok_def new_compiler_def)
  then have "visit_ok co'" using module_visit_ok(1) [OF c(2)] by blast
  then show ?thesis using finish_graph_ok(2,3) [OF c(3)] by blast
qed

text \<open>C23: A graph that the compiler returns is well formed: provider keys are unique; every plan stands under its own key with the scope it was declared with; an alias stands for a provider that is no alias itself, with its scope and recipe; the dependencies of a plan are the parameters of its declaration, and each is linked to the canonical provider that is visible to the module under its token, unless it has no token or the runtime supplies it, when it is linked to nothing; the construction order lists every provider once and behind everything it is built from; visibility leads to providers of the graph only; and no singleton depends, directly or not, on a request provider. The link stage always ends.\<close>

theorem compiled_graph_wellformed:
  "finish_graph rf opt mid co \<noteq> None \<and>
   (compile_graph n rf opt root = Some (Inr g) \<longrightarrow> graph_ok rf g \<and> links_ok rf g \<and> scopes_ok g)"
  using finish_graph_ok(1) compiled_ok by blast

theorem compiled_graph_wellformed_witness:
  "compile_graph 5 demo_reflection no_options (Inst (StaticImport 10)) = Some (Inr demo_graph) \<and>
   graph_ok demo_reflection demo_graph \<and> links_ok demo_reflection demo_graph \<and> scopes_ok demo_graph \<and> length (cg_provider_order demo_graph) = 5"
  using compiled_graph_wellformed [of demo_reflection no_options "\<lparr>mi_module = 10, mi_key = None\<rparr>" new_compiler 5 "Inst (StaticImport 10)" demo_graph]
    demo_compiles demo_order by simp

text \<open>C27: The check for provider cycles always ends, accepts exactly the dependency graphs without a cycle and otherwise reports a cycle that is really there; for an accepted graph the construction order is computed, lists every provider of the modules, nothing twice, and every provider behind its dependencies.\<close>

theorem provider_cycles_decided:
  "validate_provider_cycles es pm \<noteq> None \<and>
   (validate_provider_cycles es pm = Some (Inr ()) \<longleftrightarrow> (\<nexists>c. is_cycle (edges_of es) c)) \<and>
   (\<forall>e. validate_provider_cycles es pm = Some (Inl e) \<longrightarrow> (\<exists>c. is_cycle (edges_of es) c \<and> e = cycle_error pm c)) \<and>
   ((\<nexists>c. is_cycle (edges_of es) c) \<longrightarrow>
     (\<exists>ord. provider_order es modules = Some ord \<and> distinct ord \<and> deps_first (edges_of es) ord \<and>
       (\<forall>m\<in>set modules. pp_key ` set (ml_providers m) \<subseteq> set ord)))"
proof (cases "validate_provider_cycles es pm = Some (Inr ())")
  case True
  have none: "\<nexists>c. is_cycle (edges_of es) c" using accepted_grounded [OF True] grounded_no_cycle by blast
  obtain ord where "provider_order es modules = Some ord" "distinct ord" "deps_first (edges_of es) ord"
    "set (concat (map (\<lambda>m. map pp_key (ml_providers m)) modules)) \<subseteq> set ord"
    using accepted_order [OF True, of modules] by (auto simp: Let_def)
  then show ?thesis using True none by auto
next
  case False
  then show ?thesis using cycles_decided [of es pm] by auto
qed

theorem provider_cycles_decided_witness:
  "(\<exists>ord. provider_order [(demo_ref 1 (ClassToken 1), [demo_ref 1 (ClassToken 2)]), (demo_ref 1 (ClassToken 2), [])] [] = Some ord) \<and>
   (\<exists>c. is_cycle (edges_of [(demo_ref 1 (ClassToken 1), [demo_ref 1 (ClassToken 1)])]) c)"
proof -
  let ?a = "demo_ref 1 (ClassToken 1)" and ?b = "demo_ref 1 (ClassToken 2)"
  have "validate_provider_cycles [(?a, [?b]), (?b, [])] [] = Some (Inr ())" by code_simp
  moreover have "validate_provider_cycles [(?a, [?a])] [] = Some (Inl PyKeyError)" by code_simp
  ultimately show ?thesis
    using provider_cycles_decided [of "[(?a, [?b]), (?b, [])]" "[]" "[]"] provider_cycles_decided [of "[(?a, [?a])]" "[]" "[]"] by auto
qed

section \<open>Global modules that export the same provider\<close>

lemma concat_two:
  assumes "css = map f xs" "x \<in> set xs" "y \<in> set xs" "x \<noteq> y" "f x \<noteq> []" "f y \<noteq> []"
  shows "1 < length (concat css)"
proof -
  obtain as bs where xs: "xs = as @ x # bs" using assms(2) by (meson split_list)
  then have "y \<in> set as \<union> set bs" using assms(3,4) by auto
  then have "length (concat (map f as)) + length (concat (map f bs)) \<noteq> 0" using assms(6) by auto
  then show ?thesis using assms(1,5) by (cases "f x") (auto simp: xs)
qed

text \<open>C38: A token that a module neither provides nor imports is reported as ambiguous as soon as two global modules export it, also when one of them only re-exports what the other one provides, so that a single provider matches.\<close>

theorem global_reexport_ambiguous:
  assumes "module_plan_of mods mid = Inr m" "local_ref m t = None" "direct_export_candidates mods t mid = Inr []"
    and "global_candidates mods t = Inr gs"
    and "g1 \<in> set mods" "ml_global g1" "g2 \<in> set mods" "ml_global g2" "g1 \<noteq> g2"
    and "module_export_candidates mods t [] (ml_module_id g1) = Inr [r]"
    and "module_export_candidates mods t [] (ml_module_id g2) = Inr [r]"
  shows "resolve_visible mods mid t = Inl (ProviderAmbiguous t)"
proof -
  let ?f = "\<lambda>g. module_export_candidates mods t [] (ml_module_id g)"
  obtain css where css: "all_ok (map ?f (filter ml_global mods)) = Inr css" "gs = concat css"
    using assms(4) by (auto simp: global_candidates_def split: sum.splits)
  have eq: "map ?f (filter ml_global mods) = map Inr css" using all_ok_Inr [OF css(1)] .
  have "css = map (projr \<circ> ?f) (filter ml_global mods)"
    unfolding map_map [symmetric] eq by (simp add: comp_def)
  then have "1 < length gs"
    unfolding css(2) by (rule concat_two [of _ _ _ g1 g2]) (use assms in simp_all)
  then show ?thesis using assms(1-4) by (simp add: resolve_visible_def)
qed

theorem global_reexport_ambiguous_witness:
  "resolve_visible shared_modules \<lparr>mi_module = 22, mi_key = None\<rparr> (NameToken ''t'') = Inl (ProviderAmbiguous (NameToken ''t'')) \<and>
   compile_graph 5 shared_reflection no_options (Inst (StaticImport 23)) = Some (Inl (ProviderAmbiguous (NameToken ''t''))) \<and>
   map fst (provider_entries shared_modules) = [demo_ref 20 (NameToken ''t'')]"
proof -
  let ?t = "NameToken ''t''" and ?r = "demo_ref 20 (NameToken ''t'')"
  let ?g1 = "shared_modules ! 0" and ?g2 = "shared_modules ! 1" and ?m = "shared_modules ! 2"
  have "module_plan_of shared_modules \<lparr>mi_module = 22, mi_key = None\<rparr> = Inr ?m" by code_simp
  moreover have "local_ref ?m ?t = None" by code_simp
  moreover have "direct_export_candidates shared_modules ?t \<lparr>mi_module = 22, mi_key = None\<rparr> = Inr []" by code_simp
  moreover have "global_candidates shared_modules ?t = Inr [?r, ?r]" by code_simp
  moreover have "length shared_modules = 4" by code_simp
  then have "?g1 \<in> set shared_modules" "?g2 \<in> set shared_modules" by simp_all
  moreover have "ml_global ?g1" "ml_global ?g2" by code_simp+
  moreover have "ml_module_id ?g1 \<noteq> ml_module_id ?g2" by code_simp
  then have "?g1 \<noteq> ?g2" by auto
  moreover have "module_export_candidates shared_modules ?t [] (ml_module_id ?g1) = Inr [?r]"
    "module_export_candidates shared_modules ?t [] (ml_module_id ?g2) = Inr [?r]" by code_simp+
  ultimately have "resolve_visible shared_modules \<lparr>mi_module = 22, mi_key = None\<rparr> ?t = Inl (ProviderAmbiguous ?t)"
    by (intro global_reexport_ambiguous [where m = ?m and gs = "[?r, ?r]" and ?g1.0 = ?g1 and ?g2.0 = ?g2 and r = ?r])
  moreover have "compile_graph 5 shared_reflection no_options (Inst (StaticImport 23)) = Some (Inl (ProviderAmbiguous ?t))" by code_simp
  moreover have "map fst (provider_entries shared_modules) = [?r]" by code_simp
  ultimately show ?thesis by simp
qed

section \<open>The container\<close>

text \<open>C24: For every graph that the compiler returns, and application code that does not fail, starting the application builds its singletons: every singleton that is no alias is cached, its constructor has been called exactly once, and the calls were made in the provider order.\<close>

theorem singletons_built_once:
  assumes "compile_graph n rf opt root = Some (Inr g)" "cooperative g w" "\<forall>t. \<exists>v. f t = Inr v"
  shows "\<exists>ct. start_singletons g w (new_container True (Some f)) = Some (Inr (), ct) \<and>
    fst ` set (sc_cache (ct_scopes ct 0)) = {r. own_singleton g r} \<and>
    singleton_calls g (ct_trace ct) = filter (own_singleton g) (cg_provider_order g)"
  using start_singletons_ok [OF _ _ assms(2) refl assms(3)] compiled_ok [OF assms(1)] by blast

lemma own_singleton_code [code]:
  "own_singleton g r = (case map_of (cg_providers g) r of None \<Rightarrow> False | Some q \<Rightarrow> pp_scope q = SINGLETON \<and> pp_canonical q = r)"
  by (auto simp: own_singleton_def split: option.split)

lemma demo_cooperative: "cooperative demo_graph (demo_world False)"
proof -
  have all: "\<forall>(r, q)\<in>set (cg_providers demo_graph). cr_await_policy (pp_recipe q) = AWAIT_NEVER \<and> cr_invoker (pp_recipe q) \<noteq> UncanonicalizedAlias"
    by code_simp
  show ?thesis
    unfolding cooperative_def
  proof (intro conjI ballI)
    fix rq assume "rq \<in> set (cg_providers demo_graph)"
    then obtain r q where "rq = (r, q)" "cr_await_policy (pp_recipe q) = AWAIT_NEVER" "cr_invoker (pp_recipe q) \<noteq> UncanonicalizedAlias"
      using all by (cases rq) auto
    then show "case rq of (r, q) \<Rightarrow> \<forall>k. \<exists>v. call_value (cr_await_policy (pp_recipe q)) (call_outcome_of (demo_world False) k (cr_invoker (pp_recipe q))) = Inr v"
      by (auto simp: call_value_def call_outcome_of_def demo_world_def split: invoker.split)
  qed (simp add: demo_world_def)
qed

theorem singletons_built_once_witness:
  "\<exists>ct. start_singletons demo_graph (demo_world False) (new_container True (Some demo_intrinsics)) = Some (Inr (), ct) \<and>
    singleton_calls demo_graph (ct_trace ct) = [demo_ref 11 (ClassToken 1), demo_ref 10 (ClassToken 2)]"
proof -
  have "filter (own_singleton demo_graph) (cg_provider_order demo_graph) = [demo_ref 11 (ClassToken 1), demo_ref 10 (ClassToken 2)]"
    by code_simp
  then show ?thesis using singletons_built_once [OF demo_compiles demo_cooperative, of demo_intrinsics] by (auto simp: demo_intrinsics_def)
qed

text \<open>C25: Resources are released in the reverse of the order they were entered in, each once. In every state a container can reach, the entries and exits of a scope are well bracketed and what is open is what its resource stack holds; after the finalization of a request scope, or the close of the container, every entry of the scope has been answered by its exit, whatever the exits return or raise.\<close>

theorem resources_released:
  assumes "container_run g w ct"
  shows "open_resources sid (ct_trace ct) = Some (map fst (records_of (ct_scopes ct sid))) \<and>
    (\<not> rq_closed rq \<longrightarrow> open_resources (rq_scope rq) (ct_trace (snd (snd (scope_finalize w body rq ct)))) = Some []) \<and>
    (\<not> ct_closed ct \<longrightarrow> open_resources 0 (ct_trace (snd (container_close w deadline ct))) = Some [])"
proof -
  note ok = container_run_ok [OF assms]
  have "open_resources (rq_scope rq) (ct_trace (snd (snd (scope_finalize w body rq ct)))) = Some []" if "\<not> rq_closed rq"
    using scope_finalize_ok [OF _ ok, of w body rq] that resources_okD by (metis list.simps(8) prod.collapse)
  moreover have "open_resources 0 (ct_trace (snd (container_close w deadline ct))) = Some []" if "\<not> ct_closed ct"
    using container_close_ok [OF _ ok, of w deadline] that resources_okD by (metis list.simps(8) prod.collapse)
  ultimately show ?thesis using resources_okD [OF ok] by simp
qed

definition demo_request_scope :: request_scope where
  "demo_request_scope = \<lparr>rq_scope = 1, rq_module = \<lparr>mi_module = 10, mi_key = None\<rparr>, rq_entered = True, rq_closed = False\<rparr>"

definition demo_resolved :: "bool \<Rightarrow> (rt_error + pvalue) \<times> container" where
  "demo_resolved failing =
     (case resolve 6 demo_graph (demo_world failing) 1 (demo_ref 10 (ClassToken 3)) (new_container True (Some demo_intrinsics)) of
        None \<Rightarrow> (Inl RtKeyError, new_container True None) | Some res \<Rightarrow> res)"

lemma demo_resolve:
  "resolve 6 demo_graph (demo_world failing) 1 (demo_ref 10 (ClassToken 3)) (new_container True (Some demo_intrinsics)) = Some (demo_resolved failing)"
proof -
  have "resolve 6 demo_graph (demo_world b) 1 (demo_ref 10 (ClassToken 3)) (new_container True (Some demo_intrinsics)) \<noteq> None" if "b = False" for b
    unfolding that by code_simp
  moreover have "resolve 6 demo_graph (demo_world b) 1 (demo_ref 10 (ClassToken 3)) (new_container True (Some demo_intrinsics)) \<noteq> None" if "b = True" for b
    unfolding that by code_simp
  ultimately show ?thesis by (cases failing) (auto simp: demo_resolved_def split: option.split)
qed

theorem resources_released_witness:
  "container_run demo_graph (demo_world False) (snd (demo_resolved False)) \<and>
   open_resources 1 (ct_trace (snd (demo_resolved False))) = Some [Obj 0] \<and>
   open_resources 1 (ct_trace (snd (snd (scope_finalize (demo_world False) None demo_request_scope (snd (demo_resolved False)))))) = Some [] \<and>
   open_resources 0 (ct_trace (snd (container_close (demo_world False) True (snd (demo_resolved False))))) = Some []"
proof -
  let ?ct = "snd (demo_resolved False)" and ?w = "demo_world False"
  have run: "container_run demo_graph ?w ?ct"
    using container_run.resolve [OF container_run.new, of 6 demo_graph ?w 1 "demo_ref 10 (ClassToken 3)" True "Some demo_intrinsics" "fst (demo_resolved False)" ?ct]
      demo_resolve [of False] by (simp del: resolve.simps)
  have "map fst (records_of (ct_scopes ?ct 1)) = [Obj 0]" "\<not> ct_closed ?ct" "\<not> rq_closed demo_request_scope" "rq_scope demo_request_scope = 1"
    by code_simp+
  then show ?thesis using run resources_released [OF run, of 1 demo_request_scope None True] by simp
qed

text \<open>C26: A resolution that fails leaves its scope as it was: the cache, the lease and the resources held are those before the call, everything entered on the way has been exited again; and no other request scope is touched.\<close>

theorem failed_resolution_undone:
  assumes "resolve n g w sid r ct = Some (Inl e, ct')"
  shows "sc_cache (ct_scopes ct' sid) = sc_cache (ct_scopes ct sid) \<and> sc_lease (ct_scopes ct' sid) = sc_lease (ct_scopes ct sid) \<and>
    records_of (ct_scopes ct' sid) = records_of (ct_scopes ct sid) \<and>
    (resources_ok ct \<longrightarrow> open_resources sid (ct_trace ct') = open_resources sid (ct_trace ct)) \<and>
    (\<forall>s. s \<noteq> 0 \<longrightarrow> s \<noteq> sid \<longrightarrow> ct_scopes ct' s = ct_scopes ct s)"
proof -
  have same: "scope_same (ct_scopes ct sid) (ct_scopes ct' sid)" by (rule resolve_failed [OF assms])
  have frame: "step_frame sid ct ct'" by (rule resolve_frame [OF assms])
  have "resources_ok ct \<Longrightarrow> resources_ok ct'" using frame by (simp add: step_frame_def)
  then show ?thesis using same frame by (auto simp: scope_same_def step_frame_def resources_okD)
qed

theorem failed_resolution_undone_witness:
  "fst (demo_resolved True) = Inl (UserError 7) \<and> (1, Entered (Obj 0)) \<in> set (ct_trace (snd (demo_resolved True))) \<and>
   sc_cache (ct_scopes (snd (demo_resolved True)) 1) = [] \<and> records_of (ct_scopes (snd (demo_resolved True)) 1) = []"
proof -
  have f: "fst (demo_resolved True) = Inl (UserError 7)" "(1, Entered (Obj 0)) \<in> set (ct_trace (snd (demo_resolved True)))" by code_simp+
  have r: "resolve 6 demo_graph (demo_world True) 1 (demo_ref 10 (ClassToken 3)) (new_container True (Some demo_intrinsics)) =
      Some (Inl (UserError 7), snd (demo_resolved True))"
    unfolding demo_resolve using f(1) by (metis prod.collapse)
  show ?thesis
    using failed_resolution_undone [OF r] f by (simp add: new_container_def new_request_scope_def records_of_def)
qed

end
