(* ===== verification/Spec2Isabelle.thy ===== *)
theory Spec2Isabelle
  imports ES_Repository Streams_Consumer_Properties CQRS_Properties DI_Properties
begin

text \<open>
  A verification library for tori-py, a Python framework of several packages under \<open>src/packages\<close>.
  It covers the four parts of the framework that have state and rules of their own; the adapters to
  web servers, brokers and databases around them are not modelled.

  \<^bold>\<open>The parts.\<close>

  \<^item> Dependency injection (\<open>tori-py/src/tori_py/core\<close>): modules and providers are declared
    (\<open>providers.py\<close>, \<open>modules.py\<close>), compiled into a graph (\<open>compiler.py\<close>) and constructed by a container
    with scopes and managed resources (\<open>runtime.py\<close>).
  \<^item> CQRS (\<open>tori-py-cqrs-core\<close>): handlers are registered (\<open>registrations.py\<close>, \<open>registry.py\<close>,
    \<open>builder.py\<close>); buses put messages in envelopes (\<open>buses.py\<close>, \<open>envelope.py\<close>) and hand them to a
    transport (\<open>inmemory.py\<close>) whose worker calls the dispatcher (\<open>dispatch.py\<close>).
  \<^item> Event sourcing (\<open>tori-py-cqrs-event-sourcing-core\<close>): aggregates raise events (\<open>aggregate.py\<close>), a
    unit of work stages them and a repository loads aggregates back (\<open>repository.py\<close>, \<open>outcomes.py\<close>),
    a codec turns events into stored bytes (\<open>codec.py\<close>), and a transactional store keeps them
    (\<open>store.py\<close>). The repository and the unit of work use the store through the locale
    \<open>event_store_transaction\<close>, which is interpreted on the in-memory store.
  \<^item> Persistent streams (\<open>tori-py-persistent-streams-core\<close>): a partitioned log with retention,
    publisher deduplication, leases and ownership transfer (\<open>inmemory.py\<close>), checkpoint stores
    (\<open>checkpoints.py\<close>), routing (\<open>routing.py\<close>) and a consumer loop (\<open>consumers.py\<close>). The loop uses a
    lease through the locale \<open>partition_lease\<close>, interpreted on the leases of the log; the external
    checkpoint store is the locale \<open>checkpoint_store\<close>, interpreted on the in-memory store.

  \<^bold>\<open>How code is modelled.\<close> An operation is one definition: it takes the state and returns the
  outcome, \<open>Inl\<close> for a raise and \<open>Inr\<close> for a result, together with the new state where it changes
  any. A class is a record, its fields prefixed; mutable objects that are shared are numbers into a
  heap. An argument that the code checks with \<open>isinstance\<close> has type \<open>'a arg\<close>: \<open>Inst x\<close>, or \<open>Foreign\<close>
  for any other object. Text is \<open>string\<close>. What an awaited call or a callable of the application does
  is an argument, so every answer is covered: results, exceptions, cancellation and, in the CQRS
  transport, the other kinds of \<open>BaseException\<close>, which end its worker. Code that may be
  suspended is cut at its waits, and the sections are the steps of an inductive relation; every
  interleaving of them is a run.

  \<^bold>\<open>Theories.\<close>

  \<^item> \<open>Tori_Prelude\<close>: dynamic arguments, instants, slices, contiguous numbering, the collections
    \<open>op_defs\<close>, \<open>inv_defs\<close> and \<open>py_defs\<close>.
  \<^item> \<open>ES_Events\<close>, \<open>ES_Codec\<close>, \<open>ES_Aggregate\<close>, \<open>ES_Store\<close>, \<open>ES_UnitOfWork\<close>, \<open>ES_Repository\<close>: one
    component each. \<open>ES_Store_Runs\<close> and \<open>ES_UnitOfWork_Runs\<close>: concurrent transactions and units of work.
  \<^item> \<open>Streams_Models\<close>, \<open>Streams_Routing\<close>, \<open>Streams_Checkpoints\<close>, \<open>Streams_Log\<close>, \<open>Streams_Leases\<close>,
    \<open>Streams_Consumer\<close>: the code. \<open>Streams_History\<close>: the abstract log and the refinement.
    \<open>Streams_Runs\<close>: concurrent calls. \<open>Streams_Ownership\<close>, \<open>Streams_Strategies\<close>, \<open>Streams_Transfers\<close>,
    \<open>Streams_Progress\<close>: invariants of the reachable states. \<open>Streams_Stores\<close>: the store contract.
    \<open>Streams_Scripts\<close>: executable runs for concrete examples. \<open>Streams_Properties\<close>,
    \<open>Streams_Lease_Properties\<close>, \<open>Streams_Consumer_Properties\<close>: the guarantees.
  \<^item> \<open>CQRS_Registry\<close>, \<open>CQRS_Dispatch\<close>, \<open>CQRS_Transport\<close>: the code. \<open>CQRS_Transport_Runs\<close>: concurrent
    calls and the worker. \<open>CQRS_Properties\<close>: the guarantees.
  \<^item> \<open>DI_Model\<close>: declarations and compiled values. \<open>DI_Compiler\<close>: \<open>_Compiler\<close> and the functions it
    uses. \<open>DI_Graph\<close>: the three passes over the provider graph, over the locale \<open>dependency_graph\<close>.
    \<open>DI_Linking\<close>, \<open>DI_Wellformed\<close>: what linking establishes. \<open>DI_Container\<close>: scopes, resource stacks,
    resolution. \<open>DI_Container_Runs\<close>, \<open>DI_Startup\<close>: frames, brackets and the start of an application.
    \<open>DI_Properties\<close>: the guarantees.

  \<^bold>\<open>What is shown.\<close>

  \<^item> Event sourcing: no lost updates and consistent numbering under any interleaving, atomic commits,
    repeatable reads and stable pages; every outcome of a unit of work and its effect on the aggregates,
    which are never left enlisted; loading ends and is the replay of the stream, through pages of any
    size; stored events decode to what was encoded.
  \<^item> Streams: the log refines an abstract history, publications are stored once, reads and timed starts
    are those of the history; one owner per partition and group, fencing of lost leases, one strategy
    per group, record by record progress of a group, transfers that wait for the delivery of the lease
    they were called against; the consumer loop processes exactly the undelivered records. Two runs
    are exhibited that break the specification of the package: overlapping deliveries, and more owners
    than the limit.
  \<^item> CQRS: the registry is exactly the specified one; a request yields the outcome of its own handler or
    the stop of the transport; everything accepted is settled when the transport has stopped, but for the
    request whose handler or error hook ended the worker with an exception that no branch of the worker
    catches, and a run that leaves a request open in this way is exhibited; items are taken in order, the
    queue never overflows.
  \<^item> Dependency injection: a compiled graph is well formed, every dependency is linked to the provider that is
    visible to its module under the token, the provider order puts dependencies first and
    no singleton reaches a request provider; cycles are decided and reported ones are real; at start each
    singleton is constructed exactly once and in order; resources are released in reverse order and a
    failed resolution is undone. One divergence from the documentation is exhibited: a provider that two
    global modules export is reported as ambiguous.

  \<^bold>\<open>Fuel and bounds.\<close> The graph passes of the compiler are started with more fuel than the graph has
  nodes, which \<open>cycles_decided\<close>, \<open>scopes_decided\<close> and \<open>accepted_order\<close> show to be enough. The search for
  exports and the canonicalization of aliases are total. \<open>module_visit\<close> has fuel because factories of
  deferred modules may import without end, in the code as well. \<open>resolve\<close> has fuel for the depth of nested
  resolutions; \<open>start_singletons_ok\<close> shows that one more than the number of providers is enough for the
  start. The paging loop of a load is a \<open>partial_function\<close>, and that it returns is one of the properties.
  The hash of the default router is computed by an implementation of SHA-256 in \<open>Streams_Routing\<close>.

  \<^bold>\<open>Not modelled.\<close> The application kernel apart from building the singletons (user hooks under asyncio
  timeouts), provider proxies, metadata and reflection (the compiler takes what they read as an
  argument), the life cycle of the bus group and the event bus; the http, asgi, starlette and websocket
  layers, settings, openapi, liveview, microservices, sqlalchemy and rabbitmq packages, whose behaviour
  is that of pydantic, web servers, templates, brokers and databases, none of which is part of the
  repository; the modules that bind the modelled cores into the container; examples, benchmarks and
  scripts. Within the modelled parts, log output, error messages, thread pools and wall-clock durations
  are left out: a timeout is an outcome that may happen at any wait. A resolution in the container is one
  step: the owner check keeps other tasks out of a request scope, and singletons are built before
  requests are admitted. Nothing in the code keeps two tasks from resolving transient providers of the
  application scope at the same time; how such resolutions interleave is not modelled, and the
  properties of the container speak of resolutions that follow one another.
\<close>

end
